(* ===== verification/Rust_Std.thy ===== *)
theory Rust_Std
  imports Main "HOL-Library.Word" "HOL-Library.Char_ord" "HOL-Library.List_Lexorder"
    "HOL-Library.Sublist"
begin

text \<open>
  The parts of the Rust language and of its standard library that the modelled crates use.

  \<^item> A \<open>String\<close>/\<open>&str\<close> is the list of its UTF-8 bytes, so \<open>len\<close> is
    \<open>length\<close>; \<open>chars\<close> groups the bytes into characters by their lead byte.
  \<^item> \<open>Result<A, E>\<close> is \<open>'e + 'a\<close> with \<open>Inl\<close> the error.
  \<^item> \<open>u64\<close>, \<open>u32\<close>, \<dots> are words; \<open>saturating_add\<close> and \<open>saturating_sub\<close> are written out.
  \<^item> A \<open>Path\<close> is the list of its components on Unix: \<open>Path\<close> equality,
    \<open>starts_with\<close>, \<open>parent\<close> and \<open>file_name\<close> are all defined over components.
  \<^item> A \<open>BTreeMap\<close> is an association list with strictly ascending keys.
\<close>

named_theorems rust_std \<open>definitions of the standard-library model\<close>

section \<open>Results\<close>

definition and_then :: "'e + 'a \<Rightarrow> ('a \<Rightarrow> 'e + 'b) \<Rightarrow> 'e + 'b" where
  "and_then r f = (case r of Inl e \<Rightarrow> Inl e | Inr x \<Rightarrow> f x)"

lemma and_then_simps [simp]:
  "and_then (Inl e) f = Inl e"
  "and_then (Inr x) f = f x"
  by (simp_all add: and_then_def)

lemma and_then_Inr_iff: "and_then r f = Inr y \<longleftrightarrow> (\<exists>x. r = Inr x \<and> f x = Inr y)"
  by (cases r) auto

definition map_err :: "('e \<Rightarrow> 'f) \<Rightarrow> 'e + 'a \<Rightarrow> 'f + 'a" where
  "map_err g r = (case r of Inl e \<Rightarrow> Inl (g e) | Inr x \<Rightarrow> Inr x)"

lemma map_err_simps [simp]:
  "map_err g (Inl e) = Inl (g e)"
  "map_err g (Inr x) = Inr x"
  by (simp_all add: map_err_def)

lemma map_err_Inr_iff [simp]: "map_err g r = Inr x \<longleftrightarrow> r = Inr x"
  by (cases r) auto

text \<open>\<open>iter().map(f).collect::<Result<Vec<_>, _>>()\<close>: the first error wins.\<close>

fun collect_results :: "('a \<Rightarrow> 'e + 'b) \<Rightarrow> 'a list \<Rightarrow> 'e + 'b list" where
  "collect_results f [] = Inr []"
| "collect_results f (x # xs) =
     (case f x of Inl e \<Rightarrow> Inl e
      | Inr y \<Rightarrow> (case collect_results f xs of Inl e \<Rightarrow> Inl e | Inr ys \<Rightarrow> Inr (y # ys)))"

lemma collect_results_Inr_iff:
  "collect_results f xs = Inr ys \<longleftrightarrow> list_all2 (\<lambda>x y. f x = Inr y) xs ys"
proof (induction xs arbitrary: ys)
  case Nil
  then show ?case by auto
next
  case (Cons x xs)
  show ?case
    by (cases ys) (auto simp: Cons.IH [symmetric] list_all2_Cons1 split: sum.splits)
qed

lemma collect_results_append:
  "collect_results f (xs @ ys) =
     (case collect_results f xs of Inl e \<Rightarrow> Inl e
      | Inr us \<Rightarrow> (case collect_results f ys of Inl e \<Rightarrow> Inl e | Inr vs \<Rightarrow> Inr (us @ vs)))"
  by (induction xs) (auto split: sum.splits)

section \<open>Machine integers\<close>

type_synonym u8 = "8 word"
type_synonym u16 = "16 word"
type_synonym u32 = "32 word"
type_synonym u64 = "64 word"

definition saturating_add :: "'a::len word \<Rightarrow> 'a word \<Rightarrow> 'a word" where
  "saturating_add a b = (if unat a + unat b < 2 ^ LENGTH('a) then a + b else - 1)"

definition saturating_sub :: "'a::len word \<Rightarrow> 'a word \<Rightarrow> 'a word" where
  "saturating_sub a b = (if a < b then 0 else a - b)"

lemma unat_saturating_add:
  "unat (saturating_add a b) = min (unat a + unat b) (2 ^ LENGTH('a) - 1)"
  for a b :: "'a::len word"
proof (cases "unat a + unat b < 2 ^ LENGTH('a)")
  case True
  then have "unat (a + b) = unat a + unat b"
    by (simp add: unat_word_ariths)
  with True show ?thesis by (simp add: saturating_add_def)
next
  case False
  then show ?thesis
    by (simp add: saturating_add_def unsigned_minus_1_eq_mask mask_eq_exp_minus_1)
qed

lemma saturating_add_ge: "x \<le> saturating_add x (y :: 'a::len word)"
proof -
  have "unat x < 2 ^ LENGTH('a)" by (rule unsigned_less)
  then show ?thesis unfolding word_le_nat_alt unat_saturating_add by linarith
qed

lemma unat_saturating_sub: "unat (saturating_sub a b) = unat a - unat b"
  for a b :: "'a::len word"
  by (simp add: saturating_sub_def unat_sub_if' word_less_nat_alt word_le_nat_alt)

text \<open>\<open>usize\<close> on a 64-bit target is a natural number up to \<open>usize_max\<close>; the operations that
  saturate or check say so.\<close>

definition usize_max :: nat where
  "usize_max = 2 ^ 64 - 1"

definition isize_max :: nat where
  "isize_max = 2 ^ 63 - 1"

definition sat_add :: "nat \<Rightarrow> nat \<Rightarrow> nat" where
  "sat_add a b = min (a + b) usize_max"

definition sat_mul :: "nat \<Rightarrow> nat \<Rightarrow> nat" where
  "sat_mul a b = min (a * b) usize_max"

definition checked_add :: "nat \<Rightarrow> nat \<Rightarrow> nat option" where
  "checked_add a b = (if a + b \<le> usize_max then Some (a + b) else None)"

definition checked_sub :: "nat \<Rightarrow> nat \<Rightarrow> nat option" where
  "checked_sub a b = (if b \<le> a then Some (a - b) else None)"

definition checked_mul :: "nat \<Rightarrow> nat \<Rightarrow> nat option" where
  "checked_mul a b = (if a * b \<le> usize_max then Some (a * b) else None)"

lemma isize_max_le: "isize_max \<le> usize_max"
  by (simp add: isize_max_def usize_max_def)

lemma sat_add_exact: "a + b \<le> usize_max \<Longrightarrow> sat_add a b = a + b"
  by (simp add: sat_add_def)

section \<open>Strings\<close>

text \<open>A byte is a \<open>char\<close>; its value is \<open>byte_of\<close>.\<close>

definition byte_of :: "char \<Rightarrow> nat" where
  "byte_of c = of_char c"

lemma byte_of_less [simp]: "byte_of c < 256"
  by (simp add: byte_of_def)

definition is_cont :: "char \<Rightarrow> bool" where
  "is_cont c \<longleftrightarrow> 128 \<le> byte_of c \<and> byte_of c < 192"

text \<open>Number of bytes of the character that starts with a lead byte.\<close>

definition char_len :: "char \<Rightarrow> nat" where
  "char_len c =
     (if byte_of c < 192 then 1 else if byte_of c < 224 then 2
      else if byte_of c < 240 then 3 else 4)"

lemma char_len_pos [simp]: "0 < char_len c"
  by (simp add: char_len_def)

fun chars :: "string \<Rightarrow> string list" where
  "chars [] = []"
| "chars (b # bs) =
     (b # take (char_len b - 1) bs) # chars (drop (char_len b - 1) bs)"

lemma concat_chars [simp]: "concat (chars s) = s"
  by (induction s rule: chars.induct) auto

lemma chars_eq_Nil_iff [simp]: "chars s = [] \<longleftrightarrow> s = []"
  by (cases s) auto

lemma chars_nonempty: "c \<in> set (chars s) \<Longrightarrow> c \<noteq> []"
  by (induction s rule: chars.induct) auto

text \<open>The Unicode well-formedness table for one character's bytes.\<close>

fun utf8_seq :: "string \<Rightarrow> bool" where
  "utf8_seq [a] \<longleftrightarrow> byte_of a < 128"
| "utf8_seq [a, b] \<longleftrightarrow> 194 \<le> byte_of a \<and> byte_of a < 224 \<and> is_cont b"
| "utf8_seq [a, b, c] \<longleftrightarrow>
     224 \<le> byte_of a \<and> byte_of a < 240 \<and> is_cont b \<and> is_cont c
     \<and> (byte_of a = 224 \<longrightarrow> 160 \<le> byte_of b) \<and> (byte_of a = 237 \<longrightarrow> byte_of b < 160)"
| "utf8_seq [a, b, c, d] \<longleftrightarrow>
     240 \<le> byte_of a \<and> byte_of a < 245 \<and> is_cont b \<and> is_cont c \<and> is_cont d
     \<and> (byte_of a = 240 \<longrightarrow> 144 \<le> byte_of b) \<and> (byte_of a = 244 \<longrightarrow> byte_of b < 144)"
| "utf8_seq _ \<longleftrightarrow> False"

text \<open>What every Rust \<open>str\<close> satisfies.\<close>

definition utf8_valid :: "string \<Rightarrow> bool" where
  "utf8_valid s \<longleftrightarrow> list_all utf8_seq (chars s)"

text \<open>\<open>str::is_char_boundary\<close>.\<close>

definition is_char_boundary :: "string \<Rightarrow> nat \<Rightarrow> bool" where
  "is_char_boundary s i \<longleftrightarrow>
     i = 0 \<or> i = length s \<or> (i < length s \<and> \<not> is_cont (s ! i))"

text \<open>\<open>while !s.is_char_boundary(end) { end -= 1; }\<close>\<close>

fun floor_boundary :: "string \<Rightarrow> nat \<Rightarrow> nat" where
  "floor_boundary s 0 = 0"
| "floor_boundary s (Suc e) =
     (if is_char_boundary s (Suc e) then Suc e else floor_boundary s e)"

lemma floor_boundary_le: "floor_boundary s e \<le> e"
  by (induction e) auto

lemma floor_boundary_is_boundary: "is_char_boundary s (floor_boundary s e)"
  by (induction e) (auto simp: is_char_boundary_def)

lemma floor_boundary_maximal:
  "floor_boundary s e < i \<Longrightarrow> i \<le> e \<Longrightarrow> \<not> is_char_boundary s i"
  by (induction e) (auto split: if_splits simp: le_Suc_eq)

lemma utf8_seq_shape:
  assumes "utf8_seq g"
  shows "g \<noteq> [] \<and> length g = char_len (hd g) \<and> list_all is_cont (tl g)"
  using assms by (cases g rule: utf8_seq.cases) (auto simp: char_len_def)

text \<open>A valid string cut at a character boundary is valid again.\<close>

lemma utf8_valid_take:
  assumes "utf8_valid s" and "is_char_boundary s i" and "i \<le> length s"
  shows "utf8_valid (take i s)"
  using assms
proof (induction s arbitrary: i rule: chars.induct)
  case 1
  then show ?case by simp
next
  case (2 b bs)
  let ?n = "char_len b" and ?g = "b # take (char_len b - 1) bs"
  let ?r = "drop (char_len b - 1) bs"
  from 2(2) have g: "utf8_seq ?g" and r: "utf8_valid ?r"
    by (simp_all add: utf8_valid_def)
  from utf8_seq_shape [OF g] have len: "length ?g = ?n" and cont: "list_all is_cont (tl ?g)"
    by auto
  show ?case
  proof (cases i)
    case 0
    then show ?thesis by (simp add: utf8_valid_def)
  next
    case (Suc j)
    show ?thesis
    proof (cases "j < ?n - 1")
      case True
      with len have j: "j < length (take (?n - 1) bs)" by (simp split: if_splits)
      with cont have "is_cont (take (?n - 1) bs ! j)" by (simp add: list_all_length)
      with True j have "is_cont ((b # bs) ! i)" and "i < length (b # bs)"
        by (auto simp: Suc)
      with 2(3) Suc show ?thesis by (simp add: is_char_boundary_def)
    next
      case False
      define k where "k = j - (?n - 1)"
      have i: "i = Suc (?n - 1 + k)" using False Suc by (simp add: k_def)
      have bs: "?n - 1 \<le> length bs" using len by (simp add: min_def split: if_splits)
      have "is_char_boundary ?r k"
        using 2(3) bs by (auto simp: is_char_boundary_def i nth_append)
      moreover have "k \<le> length ?r" using 2(4) bs by (simp add: i)
      ultimately have "utf8_valid (take k ?r)" using 2(1) r by blast
      then show ?thesis using g bs
        by (simp add: i utf8_valid_def take_add min_def split: if_splits)
    qed
  qed
qed

lemma chars_append:
  assumes "utf8_valid s"
  shows "chars (s @ t) = chars s @ chars t"
  using assms
proof (induction s rule: chars.induct)
  case (2 b bs)
  have g: "utf8_seq (b # take (char_len b - 1) bs)" and r: "utf8_valid (drop (char_len b - 1) bs)"
    using 2(2) by (simp_all add: utf8_valid_def)
  from utf8_seq_shape [OF g] have "char_len b - 1 \<le> length bs" by auto
  with 2(1) [OF r] show ?case by simp
qed simp

lemma utf8_valid_append: "utf8_valid s \<Longrightarrow> utf8_valid (s @ t) \<longleftrightarrow> utf8_valid t"
  by (simp add: utf8_valid_def chars_append)

text \<open>Every full truncation \<open>&s[..end]\<close> after the loop.\<close>

definition truncate_at_boundary :: "nat \<Rightarrow> string \<Rightarrow> string" where
  "truncate_at_boundary m s = take (floor_boundary s m) s"

lemma length_truncate_at_boundary: "length (truncate_at_boundary m s) \<le> m"
  using floor_boundary_le [of s m] by (simp add: truncate_at_boundary_def)

lemma utf8_valid_truncate:
  assumes "utf8_valid s" and "m \<le> length s"
  shows "utf8_valid (truncate_at_boundary m s)"
  using assms floor_boundary_le [of s m]
  by (auto simp: truncate_at_boundary_def intro: utf8_valid_take floor_boundary_is_boundary)


text \<open>The characters with the Unicode property White_Space, as their UTF-8 bytes.\<close>

definition whitespace_chars :: "nat list list" where
  "whitespace_chars =
     [[9], [10], [11], [12], [13], [32], [194, 133], [194, 160], [225, 154, 128],
      [226, 128, 128], [226, 128, 129], [226, 128, 130], [226, 128, 131], [226, 128, 132],
      [226, 128, 133], [226, 128, 134], [226, 128, 135], [226, 128, 136], [226, 128, 137],
      [226, 128, 138], [226, 128, 168], [226, 128, 169], [226, 128, 175], [226, 129, 159],
      [227, 128, 128]]"

definition is_whitespace :: "string \<Rightarrow> bool" where
  "is_whitespace c \<longleftrightarrow> map byte_of c \<in> set whitespace_chars"

text \<open>\<open>str::trim\<close>\<close>

definition trim_str :: "string \<Rightarrow> string" where
  "trim_str s =
     concat (rev (dropWhile is_whitespace (rev (dropWhile is_whitespace (chars s)))))"

text \<open>\<open>char::is_control\<close>: the general category Cc.\<close>

definition is_control :: "string \<Rightarrow> bool" where
  "is_control c \<longleftrightarrow>
     (case map byte_of c of [a] \<Rightarrow> a < 32 \<or> a = 127
      | [a, b] \<Rightarrow> a = 194 \<and> 128 \<le> b \<and> b < 160 | _ \<Rightarrow> False)"

definition is_ascii_digit :: "char \<Rightarrow> bool" where
  "is_ascii_digit c \<longleftrightarrow> 48 \<le> byte_of c \<and> byte_of c \<le> 57"

definition is_ascii_alphanumeric :: "char \<Rightarrow> bool" where
  "is_ascii_alphanumeric c \<longleftrightarrow>
     is_ascii_digit c \<or> 65 \<le> byte_of c \<and> byte_of c \<le> 90
     \<or> 97 \<le> byte_of c \<and> byte_of c \<le> 122"

text \<open>
  \<open>s.chars().all(p)\<close> for a predicate that only ASCII characters satisfy: a
  multi-byte character makes it false.
\<close>

definition chars_all_ascii :: "(char \<Rightarrow> bool) \<Rightarrow> string \<Rightarrow> bool" where
  "chars_all_ascii p s \<longleftrightarrow>
     list_all (\<lambda>c. case c of [b] \<Rightarrow> byte_of b < 128 \<and> p b | _ \<Rightarrow> False) (chars s)"

lemma chars_all_ascii_eq: "chars_all_ascii p s \<longleftrightarrow> list_all (\<lambda>b. byte_of b < 128 \<and> p b) s"
proof (induction s rule: chars.induct)
  case 1
  then show ?case by (simp add: chars_all_ascii_def)
next
  case (2 b bs)
  show ?case
  proof (cases "byte_of b < 128")
    case True
    then have "char_len b = 1" by (simp add: char_len_def)
    with 2 show ?thesis by (simp add: chars_all_ascii_def)
  next
    case False
    then show ?thesis by (auto simp: chars_all_ascii_def split: list.splits)
  qed
qed

lemma dropWhile_all: "list_all p xs \<Longrightarrow> dropWhile p xs = []"
  by (induction xs) auto

lemma concat_eq_Nil_chars: "(\<And>c. c \<in> set cs \<Longrightarrow> c \<noteq> []) \<Longrightarrow> concat cs = [] \<longleftrightarrow> cs = []"
  by (cases cs) auto

text \<open>\<open>s.trim().is_empty()\<close> holds exactly for strings of white space.\<close>

lemma trim_empty_iff: "trim_str s = [] \<longleftrightarrow> list_all is_whitespace (chars s)"
proof -
  let ?d = "dropWhile is_whitespace (chars s)"
  let ?e = "dropWhile is_whitespace (rev ?d)"
  have ne: "c \<noteq> []" if "c \<in> set (rev ?e)" for c
    using that by (auto dest!: set_dropWhileD dest: chars_nonempty)
  have "trim_str s = [] \<longleftrightarrow> ?e = []"
    using concat_eq_Nil_chars [of "rev ?e"] ne by (simp add: trim_str_def)
  also have "\<dots> \<longleftrightarrow> (\<forall>c\<in>set ?d. is_whitespace c)"
    by (simp add: dropWhile_eq_Nil_conv)
  also have "\<dots> \<longleftrightarrow> ?d = []"
    using hd_dropWhile [of is_whitespace "chars s"] by (metis hd_in_set list.set_intros(1) neq_Nil_conv dropWhile_eq_Nil_conv list.sel(1) set_dropWhileD empty_iff empty_set)
  finally show ?thesis by (simp add: dropWhile_eq_Nil_conv list_all_iff)
qed

text \<open>\<open>str::split_once\<close> at an ASCII character.\<close>

fun split_once :: "char \<Rightarrow> string \<Rightarrow> (string \<times> string) option" where
  "split_once c [] = None"
| "split_once c (b # bs) =
     (if b = c then Some ([], bs) else map_option (apfst ((#) b)) (split_once c bs))"

lemma split_once_Some_iff:
  "split_once c s = Some (a, b) \<longleftrightarrow> s = a @ c # b \<and> c \<notin> set a"
proof (induction s arbitrary: a)
  case Nil
  then show ?case by simp
next
  case (Cons x s)
  then show ?case by (cases a) auto
qed

lemma split_once_None_iff: "split_once c s = None \<longleftrightarrow> c \<notin> set s"
  by (induction s) auto

text \<open>Decimal and two-digit hexadecimal rendering (\<open>{}\<close> and \<open>{:02x}\<close>).\<close>

definition digit_char :: "nat \<Rightarrow> char" where
  "digit_char n = char_of (if n < 10 then 48 + n else 87 + n)"

fun dec :: "nat \<Rightarrow> string" where
  "dec n = (if n < 10 then [digit_char n] else dec (n div 10) @ [digit_char (n mod 10)])"

declare dec.simps [simp del]

text \<open>ASCII text is valid UTF-8, and so are decimal numbers.\<close>

lemma chars_ascii: "list_all (\<lambda>c. byte_of c < 128) s \<Longrightarrow> chars s = map (\<lambda>c. [c]) s"
proof (induction s)
  case Nil
  then show ?case by simp
next
  case (Cons c s)
  then have "char_len c = 1" by (simp add: char_len_def)
  with Cons show ?case by simp
qed

lemma utf8_valid_ascii: "list_all (\<lambda>c. byte_of c < 128) s \<Longrightarrow> utf8_valid s"
  by (simp add: utf8_valid_def chars_ascii list_all_iff)

lemma dec_ascii: "list_all (\<lambda>c. byte_of c < 128) (dec n)"
proof (induction n rule: dec.induct)
  case (1 n)
  have digit: "byte_of (digit_char d) < 128" if "d < 10" for d
    using that by (simp add: digit_char_def byte_of_def)
  show ?case
  proof (cases "n < 10")
    case True
    then show ?thesis using digit by (simp add: dec.simps [of n])
  next
    case False
    then show ?thesis using 1 digit by (simp add: dec.simps [of n])
  qed
qed

definition hex02 :: "u8 \<Rightarrow> string" where
  "hex02 b = [digit_char (unat b div 16), digit_char (unat b mod 16)]"

text \<open>
  The text of a \<open>format!\<close> call is kept as its pieces: literal text and plain
  \<open>Display\<close> arguments are \<open>Lit\<close>, a \<open>{:?}\<close> argument of string type is
  \<open>Dbg\<close> of that string (its escaped rendering is not expanded).
\<close>

datatype fmt_piece = Lit string | Dbg string

type_synonym message = "fmt_piece list"

text \<open>A \<open>serde_json::Value\<close>; a float is its IEEE-754 bit pattern.\<close>

datatype json =
    JNull | JBool bool | JInt "64 word" | JFloat u64 | JString string
  | JArray "json list" | JObject "(string \<times> json) list"

text \<open>\<open>str::contains\<close>, the text before the first occurrence of a separator
  (\<open>s.split(sep).next()\<close>), and \<open>to_ascii_lowercase\<close>, all on the bytes.\<close>

fun str_contains :: "string \<Rightarrow> string \<Rightarrow> bool" where
  "str_contains pat [] \<longleftrightarrow> pat = []"
| "str_contains pat (c # s) \<longleftrightarrow> prefix pat (c # s) \<or> str_contains pat s"

fun split_next :: "string \<Rightarrow> string \<Rightarrow> string" where
  "split_next sep [] = []"
| "split_next sep (c # s) = (if prefix sep (c # s) then [] else c # split_next sep s)"

definition to_ascii_lowercase :: "string \<Rightarrow> string" where
  "to_ascii_lowercase s =
     map (\<lambda>c. if 65 \<le> byte_of c \<and> byte_of c \<le> 90 then char_of (byte_of c + 32) else c) s"

lemma str_contains_iff: "str_contains pat s \<longleftrightarrow> sublist pat s"
  by (induction s) (auto simp: sublist_Cons_right)

lemma length_dec: "n < 10 ^ k \<Longrightarrow> 0 < k \<Longrightarrow> length (dec n) \<le> k"
proof (induction k arbitrary: n)
  case 0
  then show ?case by simp
next
  case (Suc k)
  show ?case
  proof (cases "n < 10")
    case True
    then show ?thesis by (simp add: dec.simps [of n])
  next
    case False
    then have "0 < k" using Suc.prems by (cases k) auto
    moreover have "n div 10 < 10 ^ k" using Suc.prems by (simp add: less_mult_imp_div_less)
    ultimately show ?thesis using Suc.IH [of "n div 10"] False by (simp add: dec.simps [of n])
  qed
qed

text \<open>\<open>str::lines\<close>: the text between line feeds, without a carriage return before the line feed;
  a last line needs no line feed.\<close>

definition strip_cr :: "string \<Rightarrow> string" where
  "strip_cr line = (if line \<noteq> [] \<and> last line = CHR 0x0D then butlast line else line)"

fun lines_from :: "string \<Rightarrow> string \<Rightarrow> string list" where
  "lines_from cur [] = (if cur = [] then [] else [cur])"
| "lines_from cur (c # s) =
     (if c = CHR 0x0A then strip_cr cur # lines_from [] s else lines_from (cur @ [c]) s)"

definition str_lines :: "string \<Rightarrow> string list" where
  "str_lines s = lines_from [] s"

lemma length_lines_from:
  "length (lines_from cur s) = count_list s (CHR 0x0A) +
     (if cur @ s \<noteq> [] \<and> last (cur @ s) \<noteq> CHR 0x0A then 1 else if s = [] \<and> cur \<noteq> [] then 1 else 0)"
  by (induction cur s rule: lines_from.induct) auto

lemma length_str_lines:
  "length (str_lines s) =
     count_list s (CHR 0x0A) + (if s \<noteq> [] \<and> last s \<noteq> CHR 0x0A then 1 else 0)"
  by (simp add: str_lines_def length_lines_from)

text \<open>A slice \<open>&s[a..b]\<close> panics off a character boundary.\<close>

definition str_slice :: "string \<Rightarrow> nat \<Rightarrow> nat \<Rightarrow> string option" where
  "str_slice s a b =
     (if a \<le> b \<and> b \<le> length s \<and> is_char_boundary s a \<and> is_char_boundary s b
      then Some (take (b - a) (drop a s)) else None)"

section \<open>Ordered maps\<close>

text \<open>\<open>BTreeMap<K, V>\<close> as its ascending key-value sequence.\<close>

type_synonym ('k, 'v) btree_map = "('k \<times> 'v) list"

definition bt_wf :: "('k::linorder, 'v) btree_map \<Rightarrow> bool" where
  "bt_wf m \<longleftrightarrow> sorted_wrt (<) (map fst m)"

fun bt_insert :: "'k::linorder \<Rightarrow> 'v \<Rightarrow> ('k, 'v) btree_map \<Rightarrow> ('k, 'v) btree_map" where
  "bt_insert k v [] = [(k, v)]"
| "bt_insert k v ((a, b) # m) =
     (if k < a then (k, v) # (a, b) # m
      else if k = a then (k, v) # m else (a, b) # bt_insert k v m)"

definition bt_get :: "('k, 'v) btree_map \<Rightarrow> 'k \<Rightarrow> 'v option" where
  "bt_get m k = map_of m k"

definition bt_keys :: "('k, 'v) btree_map \<Rightarrow> 'k list" where
  "bt_keys m = map fst m"

lemma bt_get_insert: "bt_get (bt_insert k v m) = (bt_get m)(k \<mapsto> v)"
  by (induction m) (auto simp: bt_get_def fun_eq_iff)

lemma set_keys_bt_insert: "set (map fst (bt_insert k v m)) = insert k (set (map fst m))"
  by (induction k v m rule: bt_insert.induct) (simp_all add: insert_commute)

lemma bt_wf_insert: "bt_wf m \<Longrightarrow> bt_wf (bt_insert k v m)"
proof (induction m)
  case Nil
  then show ?case by (simp add: bt_wf_def)
next
  case (Cons p m)
  obtain a b where p: "p = (a, b)" by (cases p)
  show ?case
  proof (cases "k < a \<or> k = a")
    case True
    with Cons.prems show ?thesis by (auto simp: p bt_wf_def dest: less_trans)
  next
    case False
    from Cons.prems have "bt_wf m" and above: "\<forall>x\<in>set (map fst m). a < x"
      by (simp_all add: p bt_wf_def)
    from Cons.IH [OF this(1)] False above set_keys_bt_insert [of k v m] show ?thesis
      by (auto simp: p bt_wf_def)
  qed
qed

lemma bt_wf_distinct: "bt_wf m \<Longrightarrow> distinct (map fst m)"
  by (simp add: bt_wf_def strict_sorted_iff)

lemma bt_get_Some_iff: "bt_wf m \<Longrightarrow> bt_get m k = Some v \<longleftrightarrow> (k, v) \<in> set m"
  by (simp add: bt_get_def bt_wf_distinct)

lemma bt_get_None_iff: "bt_get m k = None \<longleftrightarrow> k \<notin> set (map fst m)"
  by (simp add: bt_get_def map_of_eq_None_iff)

lemma set_bt_keys_insert [simp]: "set (bt_keys (bt_insert k v m)) = insert k (set (bt_keys m))"
  unfolding bt_keys_def by (rule set_keys_bt_insert)

lemma bt_get_None_keys: "bt_get m k = None \<longleftrightarrow> k \<notin> set (bt_keys m)"
  unfolding bt_keys_def by (rule bt_get_None_iff)

lemma bt_keys_Nil [simp]: "bt_keys [] = []"
  by (simp add: bt_keys_def)

section \<open>Sequences\<close>

text \<open>\<open>opt.into_iter().flatten()\<close> and \<open>unwrap_or_default()\<close> of a sequence.\<close>

definition option_list :: "'a list option \<Rightarrow> 'a list" where
  "option_list x = (case x of None \<Rightarrow> [] | Some l \<Rightarrow> l)"

lemma option_list_simps [simp]: "option_list None = []" "option_list (Some l) = l"
  by (simp_all add: option_list_def)

lemma in_set_option_list: "x \<in> set (option_list a) \<longleftrightarrow> (\<exists>l. a = Some l \<and> x \<in> set l)"
  by (cases a) auto

text \<open>\<open>iter().position(p)\<close> and \<open>Vec::remove(idx)\<close>\<close>

fun position :: "('a \<Rightarrow> bool) \<Rightarrow> 'a list \<Rightarrow> nat option" where
  "position p [] = None"
| "position p (x # xs) = (if p x then Some 0 else map_option Suc (position p xs))"

definition remove_at :: "nat \<Rightarrow> 'a list \<Rightarrow> 'a list" where
  "remove_at i xs = take i xs @ drop (Suc i) xs"

lemma position_Some_iff:
  "position p xs = Some i \<longleftrightarrow> i < length xs \<and> p (xs ! i) \<and> (\<forall>j<i. \<not> p (xs ! j))"
proof (induction xs arbitrary: i)
  case Nil
  then show ?case by simp
next
  case (Cons x xs)
  then show ?case by (cases i) (auto simp: less_Suc_eq_0_disj)
qed

lemma position_None_iff: "position p xs = None \<longleftrightarrow> (\<forall>x\<in>set xs. \<not> p x)"
  by (induction xs) auto

text \<open>\<open>if let Some(i) = v.iter().position(|y| y == x) { v.remove(i); }\<close>\<close>

lemma remove_at_position_eq_remove1:
  "(case position (\<lambda>y. y = x) xs of None \<Rightarrow> xs | Some i \<Rightarrow> remove_at i xs) = remove1 x xs"
  by (induction xs) (auto simp: remove_at_def split: option.splits)

end
