(* ===== verification/Flow_Selector.thy ===== *)
theory Flow_Selector
  imports Rust_Std
begin

text \<open>
  Flow selectors, \<open>crates/flow/src/selector.rs\<close>: the two source-qualified forms
  \<open>builtin:<slug>\<close> and \<open>workspace:<slug>\<close>, their textual form and its parser.
\<close>

section \<open>Model\<close>

datatype flow_selector_error =
    InvalidFormat string
  | UnknownSource string
  | InvalidSlug string

datatype flow_selector = Builtin string | Workspace string

datatype flow_source_kind = KindBuiltin | KindWorkspace

definition slug_char :: "char \<Rightarrow> bool" where
  "slug_char c \<longleftrightarrow> is_ascii_alphanumeric c \<or> c = CHR ''-'' \<or> c = CHR ''_''"

definition validate_slug :: "string \<Rightarrow> flow_selector_error + unit" where
  "validate_slug s =
     (if s = [] then Inl (InvalidSlug ''slug must not be empty'')
      else if length s > 128 then Inl (InvalidSlug ''slug exceeds 128 bytes'')
      else if \<not> chars_all_ascii slug_char s
        then Inl (InvalidSlug (''slug must contain only ASCII letters, digits, '-' or '_'' @ [CHR 0x27]))
      else Inr ())"

definition selector_builtin :: "string \<Rightarrow> flow_selector_error + flow_selector" where
  "selector_builtin s = and_then (validate_slug s) (\<lambda>_. Inr (Builtin s))"

definition selector_workspace :: "string \<Rightarrow> flow_selector_error + flow_selector" where
  "selector_workspace s = and_then (validate_slug s) (\<lambda>_. Inr (Workspace s))"

fun selector_slug :: "flow_selector \<Rightarrow> string" where
  "selector_slug (Builtin s) = s"
| "selector_slug (Workspace s) = s"

fun source_kind :: "flow_selector \<Rightarrow> flow_source_kind" where
  "source_kind (Builtin _) = KindBuiltin"
| "source_kind (Workspace _) = KindWorkspace"

fun source_kind_str :: "flow_source_kind \<Rightarrow> string" where
  "source_kind_str KindBuiltin = ''builtin''"
| "source_kind_str KindWorkspace = ''workspace''"

fun selector_to_string :: "flow_selector \<Rightarrow> string" where
  "selector_to_string (Builtin s) = ''builtin:'' @ s"
| "selector_to_string (Workspace s) = ''workspace:'' @ s"

definition selector_from_str :: "string \<Rightarrow> flow_selector_error + flow_selector" where
  "selector_from_str value =
     (case split_once (CHR '':'') value of
        None \<Rightarrow> Inl (InvalidFormat
          ''Flow selector must be source-qualified as builtin:<slug> or workspace:<slug>'')
      | Some (source, slug) \<Rightarrow>
          if CHR '':'' \<in> set slug
          then Inl (InvalidFormat ''Flow selector must contain exactly one ':' separator'')
          else if source = ''builtin'' then selector_builtin slug
          else if source = ''workspace'' then selector_workspace slug
          else Inl (UnknownSource source))"

section \<open>Correctness\<close>

lemma validate_slug_ok_iff:
  "validate_slug s = Inr u \<longleftrightarrow> s \<noteq> [] \<and> length s \<le> 128 \<and> list_all slug_char s"
proof -
  have "slug_char b \<Longrightarrow> byte_of b < 128" for b
    by (auto simp: slug_char_def is_ascii_alphanumeric_def is_ascii_digit_def byte_of_def)
  then have "chars_all_ascii slug_char s \<longleftrightarrow> list_all slug_char s"
    by (auto simp: chars_all_ascii_eq list_all_iff)
  then show ?thesis by (auto simp: validate_slug_def)
qed

lemma slug_char_not_colon: "list_all slug_char s \<Longrightarrow> CHR '':'' \<notin> set s"
  by (auto simp: list_all_iff slug_char_def is_ascii_alphanumeric_def is_ascii_digit_def
      byte_of_def)

text \<open>The selectors the two constructors can return.\<close>

definition selector_wf :: "flow_selector \<Rightarrow> bool" where
  "selector_wf sel \<longleftrightarrow> validate_slug (selector_slug sel) = Inr ()"

lemma selector_ctor_ok_iff:
  "selector_builtin s = Inr sel \<longleftrightarrow> sel = Builtin s \<and> selector_wf sel"
  "selector_workspace s = Inr sel \<longleftrightarrow> sel = Workspace s \<and> selector_wf sel"
  by (auto simp: selector_builtin_def selector_workspace_def selector_wf_def and_then_Inr_iff)

lemma split_once_prefix:
  "c \<notin> set a \<Longrightarrow> split_once c (a @ c # b) = Some (a, b)"
  by (simp add: split_once_Some_iff)

lemma selector_to_string_split:
  "split_once (CHR '':'') (selector_to_string sel)
     = Some (source_kind_str (source_kind sel), selector_slug sel)"
  by (cases sel) (simp_all add: split_once_Some_iff)

lemma selector_roundtrip:
  assumes "selector_wf sel"
  shows "selector_from_str (selector_to_string sel) = Inr sel"
proof -
  have "CHR '':'' \<notin> set (selector_slug sel)"
    using assms by (auto simp: selector_wf_def validate_slug_ok_iff dest: slug_char_not_colon)
  then show ?thesis
    using assms selector_to_string_split [of sel]
    by (cases sel) (simp_all add: selector_from_str_def selector_ctor_ok_iff del: selector_to_string.simps)
qed

lemma selector_parse_sound:
  assumes "selector_from_str v = Inr sel"
  shows "selector_to_string sel = v \<and> selector_wf sel"
  using assms
  by (auto simp: selector_from_str_def selector_ctor_ok_iff split_once_Some_iff
      split: option.splits prod.splits if_splits)

section \<open>Properties\<close>

text \<open>
  C21. Selectors print and parse back. Parsing a text succeeds with a selector exactly when the
  selector has a valid slug and the text is its printed form; so printing and parsing are
  inverse to each other on the accepted texts.
\<close>

theorem selector_parse_iff:
  "selector_from_str v = Inr sel \<longleftrightarrow> v = selector_to_string sel \<and> validate_slug (selector_slug sel) = Inr ()"
  using selector_parse_sound [of v sel] selector_roundtrip [of sel] by (auto simp: selector_wf_def)

end
