(* ===== verification/Flow_Definition.thy ===== *)
theory Flow_Definition
  imports Rust_Std
begin

text \<open>
  The Flow compiler, \<open>crates/flow/src/definition.rs\<close>: the source schema, the
  compiled definition, the identifier and text checks, the graph validation (forward
  reachability from the initial state and backward reachability from the terminal states)
  and \<open>compile_typed_source\<close>, which puts them together.

  The DCDL engine (crate \<open>decodal\<close>), the serde decoder generated for the source
  schema and SHA-256 are not part of the repository: they are arguments of
  \<open>compile_flow_source\<close> and \<open>content_digest\<close>.
\<close>

named_theorems flow_defs \<open>definitions of the Flow compiler\<close>

section \<open>Model\<close>

subsection \<open>Constants and data\<close>

definition FLOW_SCHEMA_VERSION :: u32 where "FLOW_SCHEMA_VERSION = 1"
definition CANCELLED_STATE_ID :: string where "CANCELLED_STATE_ID = ''$cancelled''"
definition CANCEL_TRANSITION_ID :: string where "CANCEL_TRANSITION_ID = ''$cancel''"
definition CANCEL_CONDITION :: string where
  "CANCEL_CONDITION = ''An exceptional condition makes it impossible to continue the current instructions and reach a normal terminal state with the available tools, scope, and session context.''"
definition MAX_SOURCE_BYTES :: nat where "MAX_SOURCE_BYTES = 256 * 1024"
definition MAX_STATES :: nat where "MAX_STATES = 128"
definition MAX_TRANSITIONS_PER_STATE :: nat where "MAX_TRANSITIONS_PER_STATE = 32"
definition MAX_TEXT_BYTES :: nat where "MAX_TEXT_BYTES = 32 * 1024"

type_synonym state_id = string
type_synonym transition_id = string

record compiled_transition =
  ct_id :: transition_id
  ct_target :: state_id
  ct_condition :: string
  ct_synthetic :: bool

record compiled_state =
  cs_id :: state_id
  cs_instructions :: string
  cs_terminal :: bool
  cs_transitions :: "compiled_transition list"

record compiled_flow =
  cf_schema_version :: u32
  cf_name :: string
  cf_initial :: state_id
  cf_states :: "(state_id, compiled_state) btree_map"
  cf_content_digest :: string

definition flow_state :: "compiled_flow \<Rightarrow> state_id \<Rightarrow> compiled_state option" where
  "flow_state d s = bt_get (cf_states d) s"

definition flow_outgoing :: "compiled_flow \<Rightarrow> state_id \<Rightarrow> compiled_transition list option" where
  "flow_outgoing d s = map_option cs_transitions (flow_state d s)"

record flow_diagnostic =
  d_code :: string
  d_path :: string
  d_message :: message

definition diag :: "string \<Rightarrow> string \<Rightarrow> message \<Rightarrow> flow_diagnostic" where
  "diag code path msg = \<lparr>d_code = code, d_path = path, d_message = msg\<rparr>"

record transition_source =
  ts_target :: string
  ts_condition :: string

record state_source =
  ss_instructions :: string
  ss_terminal :: bool
  ss_transitions :: "(string, transition_source) btree_map"

record flow_source =
  fs_schema_version :: u32
  fs_name :: string
  fs_initial :: string
  fs_states :: "(string, state_source) btree_map"

subsection \<open>Identifiers and texts\<close>

definition identifier_char :: "char \<Rightarrow> bool" where
  "identifier_char c \<longleftrightarrow> is_ascii_alphanumeric c \<or> c = CHR ''-'' \<or> c = CHR ''_''"

definition starts_with_dollar :: "string \<Rightarrow> bool" where
  "starts_with_dollar s \<longleftrightarrow> (case s of [] \<Rightarrow> False | c # _ \<Rightarrow> c = CHR ''$'')"

definition validate_identifier :: "string \<Rightarrow> string \<Rightarrow> string + unit" where
  "validate_identifier kind value =
     (if value = [] then Inl (kind @ '' identifier must not be empty'')
      else if length value > 128 then Inl (kind @ '' identifier exceeds 128 bytes'')
      else if starts_with_dollar value
        then Inl (kind @ '' identifier beginning with '$' is reserved'')
      else if \<not> chars_all_ascii identifier_char value
        then Inl (kind @ '' identifier must contain only ASCII letters, digits, '-' or '_''
                       @ [CHR 0x27])
      else Inr ())"

text \<open>
  \<open>StateId::new(v).unwrap_or_else(|m| { push(code, path, m); StateId(v) })\<close>: the
  identifier is \<open>v\<close> either way; this is the diagnostic it pushes.
\<close>

definition identifier_diag :: "string \<Rightarrow> string \<Rightarrow> string \<Rightarrow> string \<Rightarrow> flow_diagnostic list" where
  "identifier_diag kind value code path =
     (case validate_identifier kind value of
        Inl m \<Rightarrow> [diag code path [Lit m]] | Inr _ \<Rightarrow> [])"

definition validate_text :: "string \<Rightarrow> string \<Rightarrow> string \<Rightarrow> bool \<Rightarrow> flow_diagnostic list" where
  "validate_text field path value allow_empty =
     (if \<not> allow_empty \<and> trim_str value = []
      then [diag (field @ ''_empty'') path [Lit (field @ '' must not be empty'')]] else [])
     @ (if length value > MAX_TEXT_BYTES
        then [diag (field @ ''_too_large'') path
                [Lit (field @ '' exceeds '' @ dec MAX_TEXT_BYTES @ '' bytes'')]] else [])"

subsection \<open>Graph validation\<close>

definition authored_targets :: "compiled_state \<Rightarrow> state_id list" where
  "authored_targets st = map ct_target (filter (\<lambda>t. \<not> ct_synthetic t) (cs_transitions st))"

text \<open>The first loop: breadth-first from the initial state, marking on removal.\<close>

function reach_loop ::
  "(state_id, compiled_state) btree_map \<Rightarrow> state_id list \<Rightarrow> state_id set \<Rightarrow> state_id set" where
  "reach_loop states [] reachable = reachable"
| "reach_loop states (current # pending) reachable =
     (if current \<in> reachable then reach_loop states pending reachable
      else reach_loop states
             (pending @ option_list (map_option authored_targets (bt_get states current)))
             (insert current reachable))"
  by pat_completeness auto

lemma card_diff_insert_le: "finite K \<Longrightarrow> card (K - insert x S) \<le> card (K - S)"
  by (intro card_mono) auto

lemma card_diff_insert_less: "finite K \<Longrightarrow> x \<in> K \<Longrightarrow> x \<notin> S \<Longrightarrow> card (K - insert x S) < card (K - S)"
  by (intro psubset_card_mono) auto

termination reach_loop
proof (relation "measures [\<lambda>(states, pending, reachable). card (set (map fst states) - reachable),
                           \<lambda>(states, pending, reachable). length pending]", goal_cases)
  case 1
  then show ?case by simp
next
  case 2
  then show ?case by simp
next
  case (3 states current pending reachable)
  show ?case
  proof (cases "bt_get states current")
    case None
    with card_diff_insert_le [of "set (map fst states)" current reachable] show ?thesis
      by (simp add: le_less)
  next
    case (Some st)
    then have "current \<in> set (map fst states)"
      using bt_get_None_iff [of states current] by simp
    with 3 card_diff_insert_less [of "set (map fst states)" current reachable] show ?thesis
      by simp
  qed
qed

text \<open>The reverse adjacency map, \<open>reverse.entry(target).or_default().push(id)\<close>.\<close>

definition add_reverse_edge ::
  "state_id \<Rightarrow> state_id \<Rightarrow> (state_id, state_id list) btree_map \<Rightarrow> (state_id, state_id list) btree_map"
where
  "add_reverse_edge source target reverse =
     bt_insert target (option_list (bt_get reverse target) @ [source]) reverse"

definition reverse_edges ::
  "(state_id, compiled_state) btree_map \<Rightarrow> (state_id, state_id list) btree_map" where
  "reverse_edges states =
     fold (\<lambda>st. fold (add_reverse_edge (cs_id st)) (authored_targets st)) (map snd states) []"

definition predecessors :: "(state_id, state_id list) btree_map \<Rightarrow> state_id \<Rightarrow> state_id list" where
  "predecessors reverse s = option_list (bt_get reverse s)"

text \<open>The body of the second loop: mark and queue every new predecessor.\<close>

fun push_new :: "state_id list \<Rightarrow> state_id set \<Rightarrow> state_id list \<Rightarrow> state_id set \<times> state_id list" where
  "push_new [] can pending = (can, pending)"
| "push_new (p # ps) can pending =
     (if p \<in> can then push_new ps can pending
      else push_new ps (insert p can) (pending @ [p]))"

lemma push_new_fst: "fst (push_new ps can pending) = can \<union> set ps"
  by (induction ps can pending rule: push_new.induct) auto

lemma push_new_snd:
  "\<exists>new. snd (push_new ps can pending) = pending @ new \<and> set new = set ps - can
     \<and> (set ps \<subseteq> can \<longrightarrow> new = [])"
proof (induction ps can pending rule: push_new.induct)
  case 1
  then show ?case by simp
next
  case (2 p ps can pending)
  show ?case
  proof (cases "p \<in> can")
    case True
    with 2(1) show ?thesis by (simp add: insert_Diff_if)
  next
    case False
    with 2(2) obtain new where "snd (push_new ps (insert p can) (pending @ [p])) = (pending @ [p]) @ new"
      and "set new = set ps - insert p can" by blast
    with False show ?thesis by (intro exI [of _ "p # new"]) auto
  qed
qed

function coreach_loop ::
  "(state_id, state_id list) btree_map \<Rightarrow> state_id list \<Rightarrow> state_id set \<Rightarrow> state_id set" where
  "coreach_loop reverse [] can = can"
| "coreach_loop reverse (current # pending) can =
     coreach_loop reverse (snd (push_new (predecessors reverse current) can pending))
                      (fst (push_new (predecessors reverse current) can pending))"
  by pat_completeness auto

lemma predecessors_bounded: "set (predecessors reverse s) \<subseteq> \<Union> (set ` snd ` set reverse)"
proof (cases "bt_get reverse s")
  case None
  then show ?thesis by (simp add: predecessors_def)
next
  case (Some l)
  then have "(s, l) \<in> set reverse" by (simp add: bt_get_def map_of_SomeD)
  then have "set l \<subseteq> \<Union> (set ` snd ` set reverse)" by force
  with Some show ?thesis by (simp add: predecessors_def)
qed

termination coreach_loop
proof (relation "measures [\<lambda>(reverse, pending, can). card (\<Union> (set ` snd ` set reverse) - can),
                           \<lambda>(reverse, pending, can). length pending]", goal_cases)
  case 1
  then show ?case by simp
next
  case (2 reverse current pending can)
  let ?ps = "predecessors reverse current" and ?U = "\<Union> (set ` snd ` set reverse)"
  obtain new where new: "snd (push_new ?ps can pending) = pending @ new"
    "set ?ps \<subseteq> can \<Longrightarrow> new = []" using push_new_snd by blast
  show ?case
  proof (cases "set ?ps \<subseteq> can")
    case True
    then have "can \<union> set ?ps = can" by blast
    with True new show ?thesis by (simp add: push_new_fst)
  next
    case False
    then obtain p where p: "p \<in> set ?ps" "p \<notin> can" by blast
    then have "p \<in> ?U" using predecessors_bounded [of reverse current] by (rule_tac subsetD)
    with p have "?U - (can \<union> set ?ps) \<subset> ?U - can"
      by (intro psubsetI) (auto simp del: UN_simps Union_iff)
    then have "card (?U - (can \<union> set ?ps)) < card (?U - can)"
      by (intro psubset_card_mono) simp_all
    then show ?thesis by (simp add: push_new_fst)
  qed
qed


definition terminal_ids :: "(state_id, compiled_state) btree_map \<Rightarrow> state_id set" where
  "terminal_ids states = set (map cs_id (filter cs_terminal (map snd states)))"

definition debug_state_id :: "state_id \<Rightarrow> message" where
  "debug_state_id s = [Lit ''StateId('', Dbg s, Lit '')'']"

definition unreachable_diag :: "state_id \<Rightarrow> state_id \<Rightarrow> flow_diagnostic" where
  "unreachable_diag initial s =
     diag ''unreachable_state'' (''states.'' @ s)
       ([Lit ''state ''] @ debug_state_id s @ [Lit '' is unreachable from initial state '']
        @ debug_state_id initial)"

definition terminal_unreachable_diag :: "state_id \<Rightarrow> flow_diagnostic" where
  "terminal_unreachable_diag s =
     diag ''terminal_unreachable'' (''states.'' @ s)
       ([Lit ''state ''] @ debug_state_id s
        @ [Lit '' cannot reach a user-declared terminal state; the graph contains a closed non-terminal path''])"

definition validate_graph ::
  "(state_id, compiled_state) btree_map \<Rightarrow> state_id \<Rightarrow> flow_diagnostic list" where
  "validate_graph states initial =
     (if bt_get states initial = None then []
      else
        let reachable = reach_loop states [initial] {};
            unreachable = map (unreachable_diag initial)
                            (filter (\<lambda>s. s \<notin> reachable) (bt_keys states));
            terminal_states = terminal_ids states
        in if terminal_states = {}
           then unreachable
                @ [diag ''terminal_missing'' ''states''
                     [Lit ''Flow must declare at least one terminal state'']]
           else
             let can_reach_terminal =
                   coreach_loop (reverse_edges states)
                     (sorted_list_of_set terminal_states) terminal_states
             in unreachable
                @ map terminal_unreachable_diag
                    (filter (\<lambda>s. s \<notin> can_reach_terminal) (sorted_list_of_set reachable)))"

subsection \<open>Compilation\<close>

text \<open>One iteration of the transition loop: its diagnostics and the compiled transition.\<close>

definition compile_transition ::
  "string set \<Rightarrow> string \<Rightarrow> string \<times> transition_source
     \<Rightarrow> flow_diagnostic list \<times> compiled_transition" where
  "compile_transition declared_names state_path nt =
     (let transition_name = fst nt; transition_source = snd nt;
          transition_path = state_path @ ''.transitions.'' @ transition_name;
          target = ts_target transition_source
      in ((if transition_name = CANCEL_TRANSITION_ID \<or> starts_with_dollar transition_name
           then [diag ''reserved_transition'' transition_path
                   [Lit ''transition identifiers beginning with '$' are reserved by the Flow runtime'']]
           else [])
          @ identifier_diag ''transition'' transition_name ''invalid_transition_id'' transition_path
          @ (if target = CANCELLED_STATE_ID \<or> starts_with_dollar target
             then [diag ''reserved_transition_target'' (transition_path @ ''.target'')
                     [Lit ''definition authors cannot target runtime-reserved states'']]
             else [])
          @ identifier_diag ''state'' target ''invalid_transition_target''
              (transition_path @ ''.target'')
          @ (if target \<notin> declared_names
             then [diag ''transition_target_not_found'' (transition_path @ ''.target'')
                     ([Lit ''transition target ''] @ debug_state_id target @ [Lit '' is not declared''])]
             else [])
          @ validate_text ''condition'' (transition_path @ ''.condition'')
              (ts_condition transition_source) False,
          \<lparr>ct_id = transition_name, ct_target = target,
           ct_condition = ts_condition transition_source, ct_synthetic = False\<rparr>))"

definition cancel_transition :: compiled_transition where
  "cancel_transition =
     \<lparr>ct_id = CANCEL_TRANSITION_ID, ct_target = CANCELLED_STATE_ID,
      ct_condition = CANCEL_CONDITION, ct_synthetic = True\<rparr>"

text \<open>One iteration of the state loop.\<close>

definition compile_state ::
  "string set \<Rightarrow> string \<times> state_source \<Rightarrow> flow_diagnostic list \<times> compiled_state" where
  "compile_state declared_names ns =
     (let state_name = fst ns; state_source = snd ns;
          state_path = ''states.'' @ state_name;
          compiled = map (compile_transition declared_names state_path) (ss_transitions state_source)
      in (identifier_diag ''state'' state_name ''invalid_state_id'' state_path
          @ validate_text ''instructions'' (state_path @ ''.instructions'')
              (ss_instructions state_source) (ss_terminal state_source)
          @ (if ss_terminal state_source \<and> ss_transitions state_source \<noteq> []
             then [diag ''terminal_has_transitions'' (state_path @ ''.transitions'')
                     [Lit ''terminal states must not declare outgoing transitions'']] else [])
          @ (if \<not> ss_terminal state_source \<and> ss_transitions state_source = []
             then [diag ''non_terminal_without_transition'' (state_path @ ''.transitions'')
                     [Lit ''non-terminal states must declare at least one transition'']] else [])
          @ (if length (ss_transitions state_source) > MAX_TRANSITIONS_PER_STATE
             then [diag ''too_many_transitions'' (state_path @ ''.transitions'')
                     [Lit (''state declares more than '' @ dec MAX_TRANSITIONS_PER_STATE
                           @ '' transitions'')]] else [])
          @ concat (map fst compiled),
          \<lparr>cs_id = state_name, cs_instructions = ss_instructions state_source,
           cs_terminal = ss_terminal state_source,
           cs_transitions = map snd compiled
             @ (if ss_terminal state_source then [] else [cancel_transition])\<rparr>))"

definition cancelled_state :: compiled_state where
  "cancelled_state =
     \<lparr>cs_id = CANCELLED_STATE_ID, cs_instructions = [], cs_terminal = True, cs_transitions = []\<rparr>"

definition content_digest :: "(string \<Rightarrow> u8 list) \<Rightarrow> string \<Rightarrow> string" where
  "content_digest sha256 content = ''sha256:'' @ concat (map hex02 (sha256 content))"

text \<open>The diagnostics of the checks before the state loop.\<close>

definition header_diagnostics :: "flow_source \<Rightarrow> flow_diagnostic list" where
  "header_diagnostics source =
     (if fs_schema_version source \<noteq> FLOW_SCHEMA_VERSION
      then [diag ''unsupported_schema_version'' ''schema_version''
              [Lit (''unsupported Flow schema version '' @ dec (unat (fs_schema_version source))
                    @ ''; expected '' @ dec (unat FLOW_SCHEMA_VERSION))]] else [])
     @ identifier_diag ''Flow'' (fs_name source) ''invalid_name'' ''name''
     @ (if fs_states source = []
        then [diag ''states_empty'' ''states'' [Lit ''Flow must declare at least one state'']] else [])
     @ (if length (fs_states source) > MAX_STATES
        then [diag ''too_many_states'' ''states''
                [Lit (''Flow declares more than '' @ dec MAX_STATES @ '' states'')]] else [])
     @ (if fs_initial source = CANCELLED_STATE_ID
        then [diag ''reserved_state'' ''initial''
                [Lit (CANCELLED_STATE_ID @ '' is reserved by the Flow runtime'')]] else [])
     @ identifier_diag ''state'' (fs_initial source) ''invalid_initial'' ''initial''
     @ (if fs_initial source \<notin> set (bt_keys (fs_states source))
        then [diag ''initial_not_found'' ''initial''
                ([Lit ''initial state ''] @ debug_state_id (fs_initial source)
                 @ [Lit '' is not declared''])] else [])
     @ (if CANCELLED_STATE_ID \<in> set (bt_keys (fs_states source))
        then [diag ''reserved_state'' (''states.'' @ CANCELLED_STATE_ID)
                [Lit (CANCELLED_STATE_ID @ '' is reserved by the Flow runtime'')]] else [])"

definition compile_states ::
  "flow_source \<Rightarrow> flow_diagnostic list \<times> (state_id, compiled_state) btree_map" where
  "compile_states source =
     fold (\<lambda>ns (ds, states).
             let c = compile_state (set (bt_keys (fs_states source))) ns
             in (ds @ fst c, bt_insert (fst ns) (snd c) states))
       (fs_states source) (header_diagnostics source, [])"

definition compile_typed_source ::
  "(string \<Rightarrow> u8 list) \<Rightarrow> flow_source \<Rightarrow> string \<Rightarrow> flow_diagnostic list + compiled_flow" where
  "compile_typed_source sha256 source content =
     (let (diagnostics, states) = compile_states source;
          diagnostics' = (if diagnostics = [] then validate_graph states (fs_initial source)
                          else diagnostics)
      in if diagnostics' \<noteq> [] then Inl diagnostics'
         else Inr \<lparr>cf_schema_version = fs_schema_version source, cf_name = fs_name source,
                   cf_initial = fs_initial source,
                   cf_states = bt_insert CANCELLED_STATE_ID cancelled_state states,
                   cf_content_digest = content_digest sha256 content\<rparr>)"

subsection \<open>From source text\<close>

definition state_id_new :: "string \<Rightarrow> string + state_id" where
  "state_id_new value = and_then (validate_identifier ''state'' value) (\<lambda>_. Inr value)"

definition transition_id_new :: "string \<Rightarrow> string + transition_id" where
  "transition_id_new value = and_then (validate_identifier ''transition'' value) (\<lambda>_. Inr value)"

text \<open>
  Values of the DCDL language (crate \<open>decodal\<close>); a float is its IEEE-754 bit pattern, and
  \<open>Number::from_f64\<close> of \<open>serde_json\<close> refuses the non-finite ones.
\<close>

datatype decodal_data =
    DBool bool | DInt "64 word" | DFloat u64 | DString string
  | DArray "decodal_data list" | DObject "(string \<times> decodal_data) list"

definition f64_is_finite :: "u64 \<Rightarrow> bool" where
  "f64_is_finite w \<longleftrightarrow> (unat w div 2 ^ 52) mod 2 ^ 11 \<noteq> 2 ^ 11 - 1"

definition bt_collect :: "('k::linorder \<times> 'v) list \<Rightarrow> ('k, 'v) btree_map" where
  "bt_collect kvs = fold (\<lambda>(k, v). bt_insert k v) kvs []"

fun decodal_data_to_json :: "decodal_data \<Rightarrow> json" where
  "decodal_data_to_json (DBool b) = JBool b"
| "decodal_data_to_json (DInt i) = JInt i"
| "decodal_data_to_json (DFloat w) = (if f64_is_finite w then JFloat w else JNull)"
| "decodal_data_to_json (DString s) = JString s"
| "decodal_data_to_json (DArray vs) = JArray (map decodal_data_to_json vs)"
| "decodal_data_to_json (DObject members) =
     JObject (bt_collect (map (\<lambda>(name, v). (name, decodal_data_to_json v)) members))"

definition one_diagnostic :: "string \<Rightarrow> string \<Rightarrow> message \<Rightarrow> flow_diagnostic list" where
  "one_diagnostic code path message = [diag code path message]"

text \<open>The import loader handed to the engine: every import is refused.\<close>

type_synonym import_loader = "string option \<Rightarrow> string \<Rightarrow> message + string"

definition reject_imports :: import_loader where
  "reject_imports current_key specifier =
     Inl [Lit ''Flow source imports are not enabled: '', Lit specifier]"

text \<open>
  The engine of crate \<open>decodal\<close> and the derived \<open>serde\<close> decoder of \<open>FlowSource\<close> are
  parameters; their errors are given as the rendered text.
\<close>

record ('m, 'v) flow_engine =
  en_add_root_source :: "import_loader \<Rightarrow> string \<Rightarrow> string + 'm"
  en_eval_module :: "import_loader \<Rightarrow> 'm \<Rightarrow> string + 'v"
  en_materialize :: "import_loader \<Rightarrow> 'v \<Rightarrow> string + decodal_data"

definition compile_flow_source ::
  "(string \<Rightarrow> u8 list) \<Rightarrow> ('m, 'v) flow_engine \<Rightarrow> (json \<Rightarrow> string + flow_source) \<Rightarrow> string
     \<Rightarrow> flow_diagnostic list + compiled_flow" where
  "compile_flow_source sha256 engine from_value content =
     (if length content > MAX_SOURCE_BYTES
      then Inl (one_diagnostic ''source_too_large'' ''$''
                  [Lit (''Flow source exceeds '' @ dec MAX_SOURCE_BYTES @ '' bytes'')])
      else
        and_then (map_err (\<lambda>e. one_diagnostic ''dcdl_parse'' ''$''
                                  [Lit ''DCDL parsing failed: '', Lit e])
                    (en_add_root_source engine reject_imports content)) (\<lambda>module.
        and_then (map_err (\<lambda>e. one_diagnostic ''dcdl_evaluation'' ''$''
                                  [Lit ''DCDL evaluation failed: '', Lit e])
                    (en_eval_module engine reject_imports module)) (\<lambda>value.
        and_then (map_err (\<lambda>e. one_diagnostic ''dcdl_materialization'' ''$''
                                  [Lit ''DCDL materialization failed: '', Lit e])
                    (en_materialize engine reject_imports value)) (\<lambda>data.
        and_then (map_err (\<lambda>e. one_diagnostic ''schema_decode'' ''$''
                                  [Lit ''Flow source does not match schema: '', Lit e])
                    (from_value (decodal_data_to_json data))) (\<lambda>source.
        compile_typed_source sha256 source content)))))"

subsection \<open>The built-in catalog\<close>

record builtin_flow_source_t =
  bf_slug :: string
  bf_path :: string
  bf_content :: string

definition CODER_REVIEW_FLOW_SLUG :: string where
  "CODER_REVIEW_FLOW_SLUG = ''coder-review''"

text \<open>The embedded text (\<open>include_str!\<close>) is a parameter.\<close>

definition builtin_flow_source :: "string \<Rightarrow> string \<Rightarrow> builtin_flow_source_t option" where
  "builtin_flow_source coder_review slug =
     (if slug = CODER_REVIEW_FLOW_SLUG
      then Some \<lparr>bf_slug = CODER_REVIEW_FLOW_SLUG, bf_path = ''builtin/flows/coder-review.dcdl'',
                 bf_content = coder_review\<rparr>
      else None)"

definition builtin_flow_sources :: "string \<Rightarrow> builtin_flow_source_t list" where
  "builtin_flow_sources coder_review =
     [\<lparr>bf_slug = CODER_REVIEW_FLOW_SLUG, bf_path = ''builtin/flows/coder-review.dcdl'',
       bf_content = coder_review\<rparr>]"

end
