(* ===== verification/Flow_Graph.thy ===== *)
theory Flow_Graph
  imports Flow_Definition
begin

text \<open>
  Correctness of the graph validation of \<open>crates/flow/src/definition.rs\<close>: the two
  work-list loops compute the forward closure of the initial state and the backward closure
  of the terminal states, and \<open>validate_graph\<close> is silent exactly when every state is
  reachable and every reachable state can reach a terminal state.
\<close>

section \<open>Work-list closures\<close>

text \<open>
  Both loops return a set that contains the start, stays inside the closure and is closed
  under the step relation; such a set is the closure.
\<close>

locale closure_search =
  fixes E :: "('a \<times> 'a) set" and start result :: "'a set"
  assumes contains_start: "start \<subseteq> result"
    and inside: "result \<subseteq> E\<^sup>* `` start"
    and closed: "E `` result \<subseteq> result"
begin

lemma result_eq: "result = E\<^sup>* `` start"
proof
  have "E\<^sup>* `` start \<subseteq> E\<^sup>* `` result" using contains_start by blast
  also have "\<dots> = result" using closed by (rule Image_closed_trancl)
  finally show "E\<^sup>* `` start \<subseteq> result" .
qed (rule inside)

end

definition authored_edges :: "(state_id, compiled_state) btree_map \<Rightarrow> (state_id \<times> state_id) set" where
  "authored_edges states =
     {(a, b). \<exists>st. bt_get states a = Some st \<and> b \<in> set (authored_targets st)}"

lemma authored_edgesI:
  "bt_get states a = Some st \<Longrightarrow> b \<in> set (authored_targets st) \<Longrightarrow> (a, b) \<in> authored_edges states"
  by (auto simp: authored_edges_def)

lemma reach_loop_contains: "set pending \<union> seen \<subseteq> reach_loop states pending seen"
proof (induction states pending seen rule: reach_loop.induct)
  case (2 states current pending seen)
  then show ?case by (cases "current \<in> seen") auto
qed simp

lemma reach_loop_inside:
  "reach_loop states pending seen \<subseteq> seen \<union> (authored_edges states)\<^sup>* `` set pending"
proof (induction states pending seen rule: reach_loop.induct)
  case (2 states current pending seen)
  let ?E = "authored_edges states"
  let ?ts = "option_list (map_option authored_targets (bt_get states current))"
  have succ: "(current, t) \<in> ?E" if "t \<in> set ?ts" for t
    using that by (auto simp: in_set_option_list intro: authored_edgesI)
  have "?E\<^sup>* `` set ?ts \<subseteq> ?E\<^sup>* `` {current}"
    using succ by (auto intro: converse_rtrancl_into_rtrancl)
  moreover have "current \<in> ?E\<^sup>* `` {current}" by simp
  ultimately have step: "insert current (?E\<^sup>* `` (set pending \<union> set ?ts))
      \<subseteq> ?E\<^sup>* `` insert current (set pending)"
    by (auto simp: Image_Un)
  show ?case
  proof (cases "current \<in> seen")
    case True
    with 2 show ?thesis by auto
  next
    case False
    with 2 have "reach_loop states (current # pending) seen
        \<subseteq> insert current seen \<union> ?E\<^sup>* `` (set pending \<union> set ?ts)" by simp
    with step show ?thesis unfolding list.set by blast
  qed
qed simp

lemma reach_loop_closed:
  "authored_edges states `` seen \<subseteq> seen \<union> set pending \<Longrightarrow>
     authored_edges states `` reach_loop states pending seen \<subseteq> reach_loop states pending seen"
proof (induction states pending seen rule: reach_loop.induct)
  case (2 states current pending seen)
  let ?E = "authored_edges states"
  let ?ts = "option_list (map_option authored_targets (bt_get states current))"
  have "?E `` {current} \<subseteq> set ?ts"
    by (auto simp: authored_edges_def in_set_option_list)
  with 2 show ?case by (cases "current \<in> seen") auto
qed simp

interpretation forward: closure_search "authored_edges states" "{i}" "reach_loop states [i] {}"
  for states i
  using reach_loop_contains [of "[i]" "{}" states] reach_loop_inside [of states "[i]" "{}"]
    reach_loop_closed [of states "{}" "[i]"]
  by unfold_locales auto

text \<open>The reverse adjacency map holds exactly the authored edges, backwards.\<close>

definition pred_edges :: "(state_id, state_id list) btree_map \<Rightarrow> (state_id \<times> state_id) set" where
  "pred_edges reverse = {(s, p). p \<in> set (predecessors reverse s)}"

lemma predecessors_add_reverse_edge:
  "set (predecessors (add_reverse_edge p t reverse) s)
     = set (predecessors reverse s) \<union> (if s = t then {p} else {})"
  by (simp add: predecessors_def add_reverse_edge_def bt_get_insert)

lemma predecessors_fold_add:
  "set (predecessors (fold (add_reverse_edge p) ts reverse) s)
     = set (predecessors reverse s) \<union> (if s \<in> set ts then {p} else {})"
  by (induction ts arbitrary: reverse) (auto simp: predecessors_add_reverse_edge)

lemma predecessors_fold_states:
  "set (predecessors (fold (\<lambda>st. fold (add_reverse_edge (cs_id st)) (authored_targets st)) sts reverse) s)
     = set (predecessors reverse s) \<union> {cs_id st | st. st \<in> set sts \<and> s \<in> set (authored_targets st)}"
  by (induction sts arbitrary: reverse) (auto simp: predecessors_fold_add)

lemma predecessors_reverse_edges:
  "set (predecessors (reverse_edges states) s)
     = {cs_id st | st. st \<in> snd ` set states \<and> s \<in> set (authored_targets st)}"
proof -
  have "set (predecessors [] s) = {}" by (simp add: predecessors_def bt_get_def)
  then show ?thesis by (simp add: reverse_edges_def predecessors_fold_states)
qed

lemma coreach_loop_contains: "can \<subseteq> coreach_loop reverse pending can"
  by (induction reverse pending can rule: coreach_loop.induct) (auto simp: push_new_fst)

lemma coreach_loop_inside:
  "set pending \<subseteq> can \<Longrightarrow> coreach_loop reverse pending can \<subseteq> (pred_edges reverse)\<^sup>* `` can"
proof (induction reverse pending can rule: coreach_loop.induct)
  case (2 reverse current pending can)
  let ?ps = "predecessors reverse current" and ?P = "pred_edges reverse"
  have "set (snd (push_new ?ps can pending)) \<subseteq> fst (push_new ?ps can pending)"
    using 2(2) push_new_snd [of ?ps can pending] by (auto simp: push_new_fst)
  from 2(1) [OF this] have "coreach_loop reverse (current # pending) can \<subseteq> ?P\<^sup>* `` (can \<union> set ?ps)"
    by (simp add: push_new_fst)
  also have "\<dots> \<subseteq> ?P\<^sup>* `` can"
    using 2(2) by (auto simp: Image_Un pred_edges_def intro: converse_rtrancl_into_rtrancl)
  finally show ?case .
qed auto

lemma coreach_loop_closed:
  assumes "set pending \<subseteq> can" and "pred_edges reverse `` (can - set pending) \<subseteq> can"
  shows "pred_edges reverse `` coreach_loop reverse pending can \<subseteq> coreach_loop reverse pending can"
  using assms
proof (induction reverse pending can rule: coreach_loop.induct)
  case (2 reverse current pending can)
  let ?ps = "predecessors reverse current" and ?P = "pred_edges reverse"
  let ?can' = "fst (push_new ?ps can pending)" and ?pending' = "snd (push_new ?ps can pending)"
  obtain new where new: "?pending' = pending @ new" "set new = set ?ps - can"
    using push_new_snd by blast
  have can': "?can' = can \<union> set ?ps" by (rule push_new_fst)
  have "set ?pending' \<subseteq> ?can'" using 2(2) new can' by auto
  moreover have "?P `` (?can' - set ?pending') \<subseteq> ?can'"
  proof
    fix p assume "p \<in> ?P `` (?can' - set ?pending')"
    then obtain s where s: "s \<in> can" "s \<notin> set pending" and p: "(s, p) \<in> ?P"
      using new can' by auto
    show "p \<in> ?can'"
    proof (cases "s = current")
      case True
      with p can' show ?thesis by (simp add: pred_edges_def)
    next
      case False
      with s p 2(3) can' show ?thesis by auto
    qed
  qed
  ultimately show ?case using 2(1) by simp
qed auto

interpretation backward: closure_search "pred_edges reverse" "set ts"
    "coreach_loop reverse ts (set ts)" for reverse ts
  using coreach_loop_contains [of "set ts" reverse ts] coreach_loop_inside [of ts "set ts" reverse]
    coreach_loop_closed [of ts "set ts" reverse]
  by unfold_locales auto


declare reach_loop.simps [simp del] coreach_loop.simps [simp del]

section \<open>Graph validation\<close>

text \<open>What \<open>compile_typed_source\<close> guarantees of the map it passes: keys are the state ids.\<close>

definition states_wf :: "(state_id, compiled_state) btree_map \<Rightarrow> bool" where
  "states_wf states \<longleftrightarrow> bt_wf states \<and> (\<forall>(k, st) \<in> set states. cs_id st = k)"

lemma states_wf_get:
  assumes "states_wf states"
  shows "bt_get states k = Some st \<longleftrightarrow> (k, st) \<in> set states"
    and "bt_get states k = Some st \<Longrightarrow> cs_id st = k"
  using assms by (auto simp: states_wf_def bt_get_Some_iff)

lemma pred_edges_converse:
  assumes "states_wf states"
  shows "pred_edges (reverse_edges states) = (authored_edges states)\<inverse>"
proof -
  have "(s, p) \<in> pred_edges (reverse_edges states) \<longleftrightarrow> (p, s) \<in> authored_edges states" for s p
    using assms
    by (force simp: pred_edges_def predecessors_reverse_edges authored_edges_def
        states_wf_get(1) states_wf_def)
  then show ?thesis by auto
qed

lemma terminal_ids_iff:
  assumes "states_wf states"
  shows "t \<in> terminal_ids states \<longleftrightarrow> (\<exists>st. bt_get states t = Some st \<and> cs_terminal st)"
  using assms by (force simp: terminal_ids_def states_wf_get(1) states_wf_def)

definition reaches_terminal :: "(state_id, compiled_state) btree_map \<Rightarrow> state_id \<Rightarrow> bool" where
  "reaches_terminal states s \<longleftrightarrow>
     (\<exists>t st. (s, t) \<in> (authored_edges states)\<^sup>* \<and> bt_get states t = Some st \<and> cs_terminal st)"

lemma finite_terminal_ids [simp]: "finite (terminal_ids states)"
  by (simp add: terminal_ids_def)

lemma can_reach_terminal_eq:
  assumes "states_wf states"
  shows "s \<in> coreach_loop (reverse_edges states) (sorted_list_of_set (terminal_ids states))
               (terminal_ids states) \<longleftrightarrow> reaches_terminal states s"
proof -
  let ?ts = "sorted_list_of_set (terminal_ids states)"
  have "coreach_loop (reverse_edges states) ?ts (set ?ts)
      = ((authored_edges states)\<inverse>)\<^sup>* `` set ?ts"
    using backward.result_eq [of "reverse_edges states" ?ts] by (simp add: pred_edges_converse assms)
  then show ?thesis
    by (auto simp: rtrancl_converse reaches_terminal_def terminal_ids_iff [OF assms])
qed

lemma finite_reach_loop: "finite seen \<Longrightarrow> finite (reach_loop states pending seen)"
  by (induction states pending seen rule: reach_loop.induct) (auto simp: reach_loop.simps)

lemma validate_graph_Nil_iff:
  assumes wf: "states_wf states" and initial: "bt_get states initial \<noteq> None"
  shows "validate_graph states initial = [] \<longleftrightarrow>
    (\<forall>k \<in> set (bt_keys states). (initial, k) \<in> (authored_edges states)\<^sup>*)
    \<and> (\<forall>k. (initial, k) \<in> (authored_edges states)\<^sup>* \<longrightarrow> reaches_terminal states k)"
proof -
  let ?R = "reach_loop states [initial] {}"
  have R: "k \<in> ?R \<longleftrightarrow> (initial, k) \<in> (authored_edges states)\<^sup>*" for k
    by (simp add: forward.result_eq)
  have no_terminal: "\<not> reaches_terminal states initial" if "terminal_ids states = {}"
    using that terminal_ids_iff [OF wf] by (auto simp: reaches_terminal_def)
  show ?thesis
  proof (cases "terminal_ids states = {}")
    case True
    with no_terminal initial show ?thesis by (auto simp: validate_graph_def Let_def)
  next
    case False
    with initial show ?thesis
      by (auto simp: validate_graph_def Let_def filter_empty_conv can_reach_terminal_eq [OF wf]
          finite_reach_loop R)
  qed
qed

section \<open>The compiled definition\<close>

text \<open>A decoded source holds proper \<open>BTreeMap\<close>s.\<close>

definition source_wf :: "flow_source \<Rightarrow> bool" where
  "source_wf source \<longleftrightarrow>
     bt_wf (fs_states source) \<and> (\<forall>(n, s) \<in> set (fs_states source). bt_wf (ss_transitions s))"

lemma bt_insert_above:
  "\<forall>x \<in> set (map fst m). x < k \<Longrightarrow> bt_insert k v m = m @ [(k, v)]"
  by (induction k v m rule: bt_insert.induct) auto

lemma fold_bt_insert_append:
  assumes "sorted_wrt (<) (map fst acc @ map fst xs)"
  shows "fold (\<lambda>ns (ds, m). (ds @ f ns, bt_insert (fst ns) (g ns) m)) xs (ds, acc)
    = (ds @ concat (map f xs), acc @ map (\<lambda>ns. (fst ns, g ns)) xs)"
  using assms
proof (induction xs arbitrary: ds acc)
  case (Cons x xs)
  have "bt_insert (fst x) (g x) acc = acc @ [(fst x, g x)]"
    using Cons.prems by (intro bt_insert_above) (auto simp: sorted_wrt_append)
  then show ?case using Cons.IH [of "acc @ [(fst x, g x)]" "ds @ f x"] Cons.prems by simp
qed simp

lemma compile_states_eq:
  assumes "bt_wf (fs_states source)"
  shows "compile_states source =
    (let c = compile_state (set (bt_keys (fs_states source)))
     in (header_diagnostics source @ concat (map (fst \<circ> c) (fs_states source)),
         map (\<lambda>ns. (fst ns, snd (c ns))) (fs_states source)))"
  using assms
    fold_bt_insert_append [of "[]" "fs_states source"
      "fst \<circ> compile_state (set (bt_keys (fs_states source)))"
      "snd \<circ> compile_state (set (bt_keys (fs_states source)))" "header_diagnostics source"]
  by (simp add: compile_states_def Let_def bt_wf_def comp_def)


definition state_entry_wf :: "state_id set \<Rightarrow> state_id \<Rightarrow> compiled_state \<Rightarrow> bool" where
  "state_entry_wf ids k st \<longleftrightarrow>
     cs_id st = k
     \<and> distinct (map ct_id (cs_transitions st))
     \<and> length (cs_transitions st) \<le> Suc MAX_TRANSITIONS_PER_STATE
     \<and> (\<forall>t \<in> set (cs_transitions st). ct_target t \<in> insert CANCELLED_STATE_ID ids
          \<and> (ct_synthetic t \<longleftrightarrow> t = cancel_transition)
          \<and> (\<not> ct_synthetic t \<longrightarrow> ct_target t \<noteq> CANCELLED_STATE_ID))
     \<and> (if cs_terminal st then cs_transitions st = []
        else authored_targets st \<noteq> [] \<and> last (cs_transitions st) = cancel_transition)"

lemma identifier_diag_Nil_iff:
  "identifier_diag kind v code path = [] \<longleftrightarrow> validate_identifier kind v = Inr ()"
  by (simp add: identifier_diag_def split: sum.split)

lemma valid_identifier_not_reserved:
  "validate_identifier kind v = Inr () \<Longrightarrow>
     \<not> starts_with_dollar v \<and> v \<noteq> CANCELLED_STATE_ID \<and> v \<noteq> CANCEL_TRANSITION_ID"
  by (auto simp: validate_identifier_def starts_with_dollar_def CANCELLED_STATE_ID_def
      CANCEL_TRANSITION_ID_def split: if_splits)

lemma compile_transition_ok:
  assumes "fst (compile_transition declared path nt) = []"
  defines "t \<equiv> snd (compile_transition declared path nt)"
  shows "ct_id t = fst nt" and "ct_target t \<in> declared" and "\<not> ct_synthetic t"
    and "ct_target t \<noteq> CANCELLED_STATE_ID" and "ct_id t \<noteq> CANCEL_TRANSITION_ID"
  using assms valid_identifier_not_reserved [of "''state''" "ts_target (snd nt)"]
    valid_identifier_not_reserved [of "''transition''" "fst nt"]
  by (auto simp: compile_transition_def Let_def identifier_diag_Nil_iff split: if_splits)

lemma cancel_transition_sel [simp]:
  "ct_id cancel_transition = CANCEL_TRANSITION_ID"
  "ct_target cancel_transition = CANCELLED_STATE_ID"
  "ct_synthetic cancel_transition"
  by (simp_all add: cancel_transition_def)

lemma compile_state_ok:
  assumes ok: "fst (compile_state declared ns) = []" and wf: "bt_wf (ss_transitions (snd ns))"
  shows "state_entry_wf declared (fst ns) (snd (compile_state declared ns))"
proof -
  define c where "c = compile_transition declared (''states.'' @ fst ns)"
  define ts where "ts = ss_transitions (snd ns)"
  define terminal where "terminal = ss_terminal (snd ns)"
  define authored where "authored = map (snd \<circ> c) ts"
  define st where "st = snd (compile_state declared ns)"
  have trans: "cs_transitions st = authored @ (if terminal then [] else [cancel_transition])"
    and st: "cs_id st = fst ns" "cs_terminal st \<longleftrightarrow> terminal"
    by (simp_all add: compile_state_def Let_def authored_def c_def ts_def terminal_def st_def)
  have each: "fst (c nt) = []" if "nt \<in> set ts" for nt
    using ok that by (auto simp: compile_state_def Let_def c_def ts_def)
  note t_ok = compile_transition_ok [where declared = declared and path = "''states.'' @ fst ns",
      folded c_def, OF each]
  have bounds: "length ts \<le> MAX_TRANSITIONS_PER_STATE" "terminal \<longleftrightarrow> ts = []"
    using ok by (auto simp: compile_state_def Let_def ts_def terminal_def split: if_splits)
  have authored: "ct_target t \<in> declared \<and> \<not> ct_synthetic t \<and> ct_target t \<noteq> CANCELLED_STATE_ID
      \<and> ct_id t \<noteq> CANCEL_TRANSITION_ID" if t: "t \<in> set authored" for t
  proof -
    obtain nt where nt: "nt \<in> set ts" and "t = snd (c nt)"
      using t by (auto simp: authored_def)
    with t_ok(2-5) [OF nt] show ?thesis by blast
  qed
  have "map ct_id authored = map fst ts"
    unfolding authored_def map_map by (rule map_cong [OF refl]) (simp add: t_ok(1))
  then have "distinct (map ct_id authored)" using bt_wf_distinct [OF wf] by (simp add: ts_def)
  moreover have "CANCEL_TRANSITION_ID \<notin> ct_id ` set authored" by (metis authored imageE)
  ultimately have "distinct (map ct_id (cs_transitions st))"
    by (simp add: trans)
  moreover have "\<forall>t \<in> set (cs_transitions st). ct_target t \<in> insert CANCELLED_STATE_ID declared
      \<and> (ct_synthetic t \<longleftrightarrow> t = cancel_transition)
      \<and> (\<not> ct_synthetic t \<longrightarrow> ct_target t \<noteq> CANCELLED_STATE_ID)"
    using authored authored [of cancel_transition] by (auto simp: trans split: if_splits)
  moreover have "length (cs_transitions st) \<le> Suc MAX_TRANSITIONS_PER_STATE"
    using bounds(1) by (simp add: trans authored_def)
  moreover have "if terminal then cs_transitions st = []
      else authored_targets st \<noteq> [] \<and> last (cs_transitions st) = cancel_transition"
  proof (cases terminal)
    case True
    with bounds(2) show ?thesis by (simp add: trans authored_def)
  next
    case False
    with bounds(2) obtain t where t: "t \<in> set authored" by (cases ts) (auto simp: authored_def)
    with authored have "ct_target t \<in> set (authored_targets st)"
      by (auto simp: authored_targets_def trans)
    then have "authored_targets st \<noteq> []" by auto
    with False show ?thesis by (simp add: trans)
  qed
  ultimately have "state_entry_wf declared (fst ns) st"
    unfolding state_entry_wf_def using st by simp
  then show ?thesis by (simp add: st_def)
qed

text \<open>
  A compiled definition: every entry is well formed, the cancellation state is present and
  terminal, and over the authored transitions alone every authored state is reachable from
  the initial state and reaches an authored terminal state.
\<close>

definition flow_wf :: "compiled_flow \<Rightarrow> bool" where
  "flow_wf d \<longleftrightarrow>
     bt_wf (cf_states d)
     \<and> (\<forall>(k, st) \<in> set (cf_states d). state_entry_wf (set (bt_keys (cf_states d))) k st)
     \<and> flow_state d CANCELLED_STATE_ID = Some cancelled_state
     \<and> cf_initial d \<in> set (bt_keys (cf_states d)) - {CANCELLED_STATE_ID}
     \<and> (\<forall>k \<in> set (bt_keys (cf_states d)) - {CANCELLED_STATE_ID}.
          (cf_initial d, k) \<in> (authored_edges (cf_states d))\<^sup>*
          \<and> (\<exists>t st. (k, t) \<in> (authored_edges (cf_states d))\<^sup>* \<and> t \<noteq> CANCELLED_STATE_ID
               \<and> flow_state d t = Some st \<and> cs_terminal st))"

lemma authored_edges_insert_cancelled:
  assumes "CANCELLED_STATE_ID \<notin> set (map fst states)"
  shows "authored_edges (bt_insert CANCELLED_STATE_ID cancelled_state states) = authored_edges states"
proof -
  have "bt_get states CANCELLED_STATE_ID = None"
    using assms by (simp add: bt_get_None_iff)
  then show ?thesis
    by (auto simp: authored_edges_def bt_get_insert cancelled_state_def authored_targets_def
        split: if_splits)
qed


lemma compile_typed_source_Inr:
  assumes "compile_typed_source sha256 source content = Inr d" and "source_wf source"
  defines "declared \<equiv> set (bt_keys (fs_states source))"
  defines "states \<equiv> map (\<lambda>ns. (fst ns, snd (compile_state declared ns))) (fs_states source)"
  shows "d = \<lparr>cf_schema_version = fs_schema_version source, cf_name = fs_name source,
              cf_initial = fs_initial source,
              cf_states = bt_insert CANCELLED_STATE_ID cancelled_state states,
              cf_content_digest = content_digest sha256 content\<rparr>"
    and "header_diagnostics source = []"
    and "\<And>ns. ns \<in> set (fs_states source) \<Longrightarrow> fst (compile_state declared ns) = []"
    and "validate_graph states (fs_initial source) = []"
  using assms(1,2)
  by (auto simp: compile_typed_source_def compile_states_eq source_wf_def Let_def declared_def
      states_def split: if_splits)

lemma header_diagnostics_Nil:
  assumes "header_diagnostics source = []"
  shows "fs_schema_version source = FLOW_SCHEMA_VERSION"
    and "fs_initial source \<in> set (bt_keys (fs_states source))"
    and "CANCELLED_STATE_ID \<notin> set (bt_keys (fs_states source))"
    and "length (fs_states source) \<le> MAX_STATES"
  using assms by (auto simp: header_diagnostics_def split: if_splits)

text \<open>A successful compilation yields a well-formed definition.\<close>

lemma compile_typed_source_wf:
  assumes ok: "compile_typed_source sha256 source content = Inr d" and wf: "source_wf source"
  shows "flow_wf d"
proof -
  define declared where "declared = set (bt_keys (fs_states source))"
  define states where "states = map (\<lambda>ns. (fst ns, snd (compile_state declared ns))) (fs_states source)"
  note c = compile_typed_source_Inr [OF ok wf, folded declared_def, folded states_def]
  note h = header_diagnostics_Nil [OF c(2), folded declared_def]
  have fst_states: "map fst states = map fst (fs_states source)" by (simp add: states_def)
  then have keys: "set (bt_keys states) = declared" by (simp add: bt_keys_def declared_def del: set_map)
  have bt: "bt_wf states" using wf fst_states by (simp add: source_wf_def bt_wf_def)
  have cancelled: "CANCELLED_STATE_ID \<notin> set (map fst states)"
    using h(3) keys by (simp add: bt_keys_def)
  have entry: "state_entry_wf declared k st" if mem: "(k, st) \<in> set states" for k st
  proof -
    obtain ns where ns: "ns \<in> set (fs_states source)" and k: "k = fst ns"
      and st: "st = snd (compile_state declared ns)" using mem unfolding states_def set_map by blast
    have "bt_wf (ss_transitions (snd ns))" using wf ns by (auto simp: source_wf_def)
    with c(3) [OF ns] show ?thesis unfolding k st by (rule compile_state_ok)
  qed
  then have swf: "states_wf states" using bt by (auto simp: states_wf_def state_entry_wf_def)
  have init: "bt_get states (fs_initial source) \<noteq> None"
    using h(2) keys by (simp add: bt_get_None_iff bt_keys_def)
  note graph = c(4) [unfolded validate_graph_Nil_iff [OF swf init] keys]
  have d: "cf_states d = bt_insert CANCELLED_STATE_ID cancelled_state states"
    "cf_initial d = fs_initial source" using c(1) by simp_all
  have dkeys: "set (bt_keys (cf_states d)) = insert CANCELLED_STATE_ID declared"
    using keys by (simp add: d bt_keys_def set_keys_bt_insert del: set_map)
  have E: "authored_edges (cf_states d) = authored_edges states"
    using cancelled by (simp add: d authored_edges_insert_cancelled)
  have dget: "flow_state d k = (if k = CANCELLED_STATE_ID then Some cancelled_state else bt_get states k)" for k
    by (simp add: flow_state_def d bt_get_insert)
  have dwf: "bt_wf (cf_states d)" using bt by (simp add: d bt_wf_insert)
  have dentry: "state_entry_wf (set (bt_keys (cf_states d))) k st" if "(k, st) \<in> set (cf_states d)" for k st
  proof -
    from that have "flow_state d k = Some st" using dwf by (simp add: flow_state_def bt_get_Some_iff)
    then consider "k = CANCELLED_STATE_ID" "st = cancelled_state" | "(k, st) \<in> set states"
      using bt by (auto simp: dget bt_get_Some_iff split: if_splits)
    then show ?thesis
    proof cases
      case 1
      then show ?thesis by (simp add: state_entry_wf_def cancelled_state_def)
    next
      case 2
      from entry [OF 2] show ?thesis by (auto simp: state_entry_wf_def dkeys)
    qed
  qed
  have to_terminal: "\<exists>t st. (k, t) \<in> (authored_edges states)\<^sup>* \<and> t \<noteq> CANCELLED_STATE_ID
      \<and> flow_state d t = Some st \<and> cs_terminal st" if "k \<in> declared" for k
  proof -
    have "reaches_terminal states k" using graph that by blast
    then obtain t st where t: "(k, t) \<in> (authored_edges states)\<^sup>*" "bt_get states t = Some st" "cs_terminal st"
      by (auto simp: reaches_terminal_def)
    moreover have "t \<noteq> CANCELLED_STATE_ID"
      using t(2) cancelled bt_get_None_iff [of states CANCELLED_STATE_ID] by auto
    ultimately show ?thesis by (auto simp: dget)
  qed
  show ?thesis
    unfolding flow_wf_def E dkeys
    using dwf dentry [unfolded dkeys] h(2,3) graph to_terminal by (auto simp: dget d(2))
qed

section \<open>A concrete Flow\<close>

text \<open>A two-state Flow used by the witnesses, compiled by the model itself.\<close>

definition review_source :: flow_source where
  "review_source =
     \<lparr>fs_schema_version = 1, fs_name = ''review'', fs_initial = ''draft'',
      fs_states =
        [(''done'', \<lparr>ss_instructions = ''Report.'', ss_terminal = True, ss_transitions = []\<rparr>),
         (''draft'', \<lparr>ss_instructions = ''Write.'', ss_terminal = False,
            ss_transitions =
              [(''approve'', \<lparr>ts_target = ''done'', ts_condition = ''approved''\<rparr>),
               (''revise'', \<lparr>ts_target = ''draft'', ts_condition = ''changes asked''\<rparr>)]\<rparr>)]\<rparr>"

definition no_digest :: "string \<Rightarrow> u8 list" where
  "no_digest s = []"

definition review_flow :: compiled_flow where
  "review_flow =
     \<lparr>cf_schema_version = 1, cf_name = ''review'', cf_initial = ''draft'',
      cf_states =
        [(''$cancelled'', \<lparr>cs_id = ''$cancelled'', cs_instructions = [], cs_terminal = True,
            cs_transitions = []\<rparr>),
         (''done'', \<lparr>cs_id = ''done'', cs_instructions = ''Report.'', cs_terminal = True,
            cs_transitions = []\<rparr>),
         (''draft'', \<lparr>cs_id = ''draft'', cs_instructions = ''Write.'', cs_terminal = False,
            cs_transitions =
              [\<lparr>ct_id = ''approve'', ct_target = ''done'', ct_condition = ''approved'',
                ct_synthetic = False\<rparr>,
               \<lparr>ct_id = ''revise'', ct_target = ''draft'', ct_condition = ''changes asked'',
                ct_synthetic = False\<rparr>,
               cancel_transition]\<rparr>)],
      cf_content_digest = ''sha256:''\<rparr>"

lemmas compile_eval = compile_typed_source_def compile_states_def compile_state_def
  compile_transition_def header_diagnostics_def identifier_diag_def validate_identifier_def
  validate_text_def starts_with_dollar_def identifier_char_def chars_all_ascii_def
  is_ascii_alphanumeric_def is_ascii_digit_def CANCELLED_STATE_ID_def CANCEL_TRANSITION_ID_def
  MAX_TEXT_BYTES_def MAX_STATES_def MAX_TRANSITIONS_PER_STATE_def FLOW_SCHEMA_VERSION_def
  content_digest_def no_digest_def cancelled_state_def cancel_transition_def trim_empty_iff
  is_whitespace_def whitespace_chars_def char_len_def byte_of_def bt_keys_def

lemma review_states: "compile_states review_source = ([], tl (cf_states review_flow))"
  by (simp add: review_source_def review_flow_def compile_eval Let_def)

lemma review_graph: "validate_graph (tl (cf_states review_flow)) ''draft'' = []"
  by code_simp

lemma review_compiles: "compile_typed_source no_digest review_source [] = Inr review_flow"
proof -
  have "fs_initial review_source = ''draft''" "fs_schema_version review_source = 1"
    "fs_name review_source = ''review''" by (simp_all add: review_source_def)
  with review_graph show ?thesis
    by (simp add: compile_typed_source_def review_states Let_def)
      (simp add: review_flow_def content_digest_def no_digest_def cancelled_state_def
        CANCELLED_STATE_ID_def)
qed

lemma review_source_wf: "source_wf review_source"
  by code_simp

lemma review_flow_wf: "flow_wf review_flow"
  by (rule compile_typed_source_wf [OF review_compiles review_source_wf])

section \<open>Properties\<close>

text \<open>
  C7. The graph check is exact. For a table of states keyed by their own ids that declares the
  initial state, validation is silent exactly when every state is reachable from the initial
  state over authored transitions and every reachable state can reach a terminal state.
\<close>

theorem graph_validation_exact:
  assumes "states_wf states" and "bt_get states initial \<noteq> None"
  shows "validate_graph states initial = [] \<longleftrightarrow>
    (\<forall>k \<in> set (bt_keys states). (initial, k) \<in> (authored_edges states)\<^sup>*)
    \<and> (\<forall>k. (initial, k) \<in> (authored_edges states)\<^sup>* \<longrightarrow> reaches_terminal states k)"
  using assms by (rule validate_graph_Nil_iff)

theorem graph_validation_exact_witness:
  "let d = [(''d'', \<lparr>cs_id = ''d'', cs_instructions = [], cs_terminal = True, cs_transitions = []\<rparr>)] in
     validate_graph d ''d'' = [] \<and> reaches_terminal d ''d''"
proof -
  define d :: "(state_id, compiled_state) btree_map" where
    "d = [(''d'', \<lparr>cs_id = ''d'', cs_instructions = [], cs_terminal = True, cs_transitions = []\<rparr>)]"
  have "states_wf d" "bt_get d ''d'' \<noteq> None" by (simp_all add: d_def states_wf_def bt_wf_def bt_get_def)
  note graph_validation_exact [OF this]
  moreover have "validate_graph d ''d'' = []"
    unfolding d_def by code_simp
  ultimately show ?thesis unfolding d_def [symmetric] Let_def by blast
qed

text \<open>
  C12. What compiles is well formed. If the decoder yields maps (as its type promises) and
  compilation of a source text succeeds, the text is within the size limit, the definition
  carries the digest of that text, and: state ids are unique and match their entries;
  transition ids are unique per state; every target is declared; a terminal state has no
  transitions and every other state has an authored one and ends with the cancel transition;
  the cancellation state is present; and every authored state is reachable from the initial
  state and can reach an authored terminal state.
\<close>

theorem compile_flow_source_wf:
  assumes decoder: "\<And>j source. from_value j = Inr source \<Longrightarrow> source_wf source"
    and ok: "compile_flow_source sha256 engine from_value content = Inr d"
  shows "flow_wf d \<and> cf_content_digest d = content_digest sha256 content
    \<and> length content \<le> MAX_SOURCE_BYTES"
proof -
  from ok obtain source where source: "source_wf source"
    and c: "compile_typed_source sha256 source content = Inr d" and len: "length content \<le> MAX_SOURCE_BYTES"
    by (auto simp: compile_flow_source_def and_then_Inr_iff dest: decoder split: if_splits)
  have "cf_content_digest d = content_digest sha256 content"
    using compile_typed_source_Inr(1) [OF c source] by simp
  with compile_typed_source_wf [OF c source] len show ?thesis by simp
qed

theorem compile_flow_source_wf_witness:
  "flow_wf review_flow \<and> cf_content_digest review_flow = ''sha256:''"
proof -
  let ?engine = "\<lparr>en_add_root_source = (\<lambda>l c. Inr ()), en_eval_module = (\<lambda>l m. Inr ()),
    en_materialize = (\<lambda>l v. Inr (DBool True))\<rparr> :: (unit, unit) flow_engine"
  have "compile_flow_source no_digest ?engine (\<lambda>j. Inr review_source) [] = Inr review_flow"
    using review_compiles by (simp add: compile_flow_source_def)
  from compile_flow_source_wf [OF _ this] review_source_wf show ?thesis
    by (simp add: content_digest_def no_digest_def)
qed

end
