(* ===== verification/Step_System.thy ===== *)
theory Step_System
  imports Main
begin

text \<open>
  Components with state: an operation takes the state to a result and the next state.
  The locale states the contract the component theories discharge for their own
  operations (every operation keeps the invariant) and gives its consequences for whole
  runs: every state of a run, and every reachable state, satisfies the invariant.
\<close>

fun run_ops :: "('s \<Rightarrow> 'op \<Rightarrow> 's) \<Rightarrow> 's \<Rightarrow> 'op list \<Rightarrow> 's" where
  "run_ops step s [] = s"
| "run_ops step s (x # xs) = run_ops step (step s x) xs"

lemma run_ops_append [simp]:
  "run_ops step s (xs @ ys) = run_ops step (run_ops step s xs) ys"
  by (induction xs arbitrary: s) auto

locale step_system =
  fixes step :: "'s \<Rightarrow> 'op \<Rightarrow> 's"
    and inv :: "'s \<Rightarrow> bool"
  assumes step_inv: "inv s \<Longrightarrow> inv (step s x)"
begin

lemma run_inv: "inv s \<Longrightarrow> inv (run_ops step s xs)"
  by (induction xs arbitrary: s) (auto intro: step_inv)

lemma run_prefix_inv: "inv s \<Longrightarrow> inv (run_ops step s (take n xs))"
  by (rule run_inv)

end

text \<open>
  A measure of the state that no operation decreases (the length of an append-only log, a
  set that only grows): \<open>grows s t\<close> relates a state to every later state of a run.
\<close>

locale growing_system = step_system +
  fixes grows :: "'a \<Rightarrow> 'a \<Rightarrow> bool"
  assumes grows_refl: "inv s \<Longrightarrow> grows s s"
    and grows_trans: "grows s t \<Longrightarrow> grows t u \<Longrightarrow> grows s u"
    and step_grows: "inv s \<Longrightarrow> grows s (step s x)"
begin

lemma run_grows: "inv s \<Longrightarrow> grows s (run_ops step s xs)"
proof (induction xs arbitrary: s)
  case Nil
  then show ?case by (simp add: grows_refl)
next
  case (Cons x xs)
  have "grows s (step s x)" using Cons.prems by (rule step_grows)
  moreover have "grows (step s x) (run_ops step (step s x) xs)"
    using Cons.prems by (intro Cons.IH step_inv)
  ultimately show ?case by (auto intro: grows_trans)
qed

end

end
