(* ===== verification/Flow_Coordinator.thy ===== *)
theory Flow_Coordinator
  imports Flow_Graph Flow_Selector Step_System
begin

text \<open>
  The Flow runtime, \<open>crates/flow/src/coordinator.rs\<close>: instances, transition attempts,
  verifier outcomes and the state one Worker owns. A state operation returns its result and
  the next state. Errors of \<open>begin_transition\<close> and \<open>resolve_transition\<close> are
  raised before the instance is written, so those two return either an error or the new
  instance.
\<close>

section \<open>Model\<close>

subsection \<open>Data\<close>

definition MAX_REASON_BYTES :: nat where "MAX_REASON_BYTES = 16 * 1024"
definition MAX_RATIONALE_BYTES :: nat where "MAX_RATIONALE_BYTES = 32 * 1024"

datatype flow_instance_status = InstanceActive | InstanceCompleted | InstanceCancelled

record flow_instance =
  fi_instance_id :: string
  fi_definition_id :: string
  fi_definition_digest :: string
  fi_current_state :: state_id
  fi_status :: flow_instance_status
  fi_active_attempt_id :: "string option"

record transition_check =
  tc_transition_id :: transition_id
  tc_target :: state_id
  tc_condition :: string
  tc_synthetic :: bool

definition check_snapshot :: "compiled_transition \<Rightarrow> transition_check" where
  "check_snapshot t =
     \<lparr>tc_transition_id = ct_id t, tc_target = ct_target t, tc_condition = ct_condition t,
      tc_synthetic = ct_synthetic t\<rparr>"

datatype flow_attempt_status =
  Verifying | Entered | Rejected | AttemptCancelled | AttemptFailed

record flow_attempt =
  fa_attempt_id :: string
  fa_instance_id :: string
  fa_definition_digest :: string
  fa_from_state :: state_id
  fa_reason :: string
  fa_transitions :: "transition_check list"
  fa_status :: flow_attempt_status

datatype condition_verdict = Met | NotMet | Indeterminate

record condition_result =
  cr_transition_id :: transition_id
  cr_verdict :: condition_verdict
  cr_rationale :: string

datatype verifier_outcome =
    OutcomeCompleted "condition_result list"
  | OutcomeCancelled
  | OutcomeFailed string

datatype rejection_code =
    NoConditionMet | MultipleConditionsMet | IndeterminateConditions | InvalidVerifierOutput
  | VerifierCancelled | VerifierFailed | StaleState

record flow_rejection =
  rj_code :: rejection_code
  rj_message :: message

datatype flow_event =
    TransitionRequested string state_id string "transition_check list"
  | TransitionVerifying string
  | TransitionCheckPassed string transition_id "condition_result list"
  | TransitionCheckRejected string flow_rejection "condition_result list"
  | TransitionVerificationCancelled string
  | TransitionVerificationFailed string string
  | StateEntered string state_id flow_instance_status

record runtime_event =
  re_sequence :: u64
  re_event :: flow_event

record flow_resolution =
  fr_attempt :: flow_attempt
  fr_entered_state :: "state_id option"
  fr_state_instructions :: "string option"
  fr_rejection :: "flow_rejection option"
  fr_events :: "flow_event list"

record flow_runtime =
  rt_definition :: compiled_flow
  rt_instance :: flow_instance
  rt_active_attempt :: "flow_attempt option"
  rt_events :: "runtime_event list"

record resolved_flow_source =
  rs_selector :: flow_selector
  rs_workspace_id :: string
  rs_flow_id :: string
  rs_content_digest :: string
  rs_definition :: compiled_flow

datatype flow_transition_error =
    NotActive
  | AttemptInProgress
  | DefinitionMismatch
  | InvalidRequest message
  | Invariant message

subsection \<open>Starting an instance\<close>

definition ensure_non_empty :: "string \<Rightarrow> string \<Rightarrow> message + unit" where
  "ensure_non_empty field value =
     (if trim_str value = [] then Inl [Lit (field @ '' must not be empty'')] else Inr ())"

definition instance_start ::
  "string \<Rightarrow> string \<Rightarrow> compiled_flow \<Rightarrow> flow_transition_error + flow_instance" where
  "instance_start instance_id definition_id d =
     and_then (map_err InvalidRequest
                 (and_then (ensure_non_empty ''instance_id'' instance_id)
                    (\<lambda>_. ensure_non_empty ''definition_id'' definition_id)))
       (\<lambda>_. case flow_state d (cf_initial d) of
          None \<Rightarrow> Inl (Invariant [Lit ''compiled initial state is missing''])
        | Some initial_state \<Rightarrow>
            Inr \<lparr>fi_instance_id = instance_id, fi_definition_id = definition_id,
                 fi_definition_digest = cf_content_digest d, fi_current_state = cf_initial d,
                 fi_status = (if cs_terminal initial_state then InstanceCompleted
                              else InstanceActive),
                 fi_active_attempt_id = None\<rparr>)"

definition runtime_start ::
  "resolved_flow_source \<Rightarrow> string \<Rightarrow> flow_transition_error + (flow_runtime \<times> string)" where
  "runtime_start source instance_id =
     (let d = rs_definition source in
      if rs_content_digest source \<noteq> cf_content_digest d
      then Inl (InvalidRequest
                  [Lit ''resolved Flow source digest does not match compiled definition''])
      else if selector_slug (rs_selector source) \<noteq> cf_name d
      then Inl (InvalidRequest
                  [Lit ''resolved Flow selector does not match compiled definition name''])
      else and_then (instance_start instance_id (rs_flow_id source) d)
        (\<lambda>inst. case flow_state d (cf_initial d) of
           None \<Rightarrow> Inl (Invariant [Lit ''compiled initial state is missing''])
         | Some initial \<Rightarrow>
             Inr (\<lparr>rt_definition = d, rt_instance = inst, rt_active_attempt = None,
                   rt_events = [\<lparr>re_sequence = 0,
                     re_event = StateEntered [] (fi_current_state inst) (fi_status inst)\<rparr>]\<rparr>,
                  cs_instructions initial)))"

subsection \<open>Beginning a transition\<close>

definition validate_reason :: "string \<Rightarrow> flow_transition_error + unit" where
  "validate_reason reason =
     (if trim_str reason = [] then Inl (InvalidRequest [Lit ''reason must not be empty''])
      else if length reason > MAX_REASON_BYTES
      then Inl (InvalidRequest [Lit (''reason exceeds '' @ dec MAX_REASON_BYTES @ '' bytes'')])
      else Inr ())"

definition begin_transition ::
  "flow_instance \<Rightarrow> compiled_flow \<Rightarrow> string \<Rightarrow> string
     \<Rightarrow> flow_transition_error + (flow_instance \<times> flow_attempt \<times> flow_event list)" where
  "begin_transition inst d attempt_id reason =
     (if fi_status inst \<noteq> InstanceActive then Inl NotActive
      else if fi_active_attempt_id inst \<noteq> None then Inl AttemptInProgress
      else if cf_content_digest d \<noteq> fi_definition_digest inst then Inl DefinitionMismatch
      else and_then (map_err InvalidRequest (ensure_non_empty ''attempt_id'' attempt_id)) (\<lambda>_.
        and_then (validate_reason reason) (\<lambda>_.
          case flow_state d (fi_current_state inst) of
            None \<Rightarrow> Inl (Invariant ([Lit ''current state ''] @ debug_state_id (fi_current_state inst)
                           @ [Lit '' is missing from the pinned definition'']))
          | Some state \<Rightarrow>
              if cs_terminal state \<or> cs_transitions state = []
              then Inl (Invariant [Lit ''active instance points at a state without transitions''])
              else
                let transitions = map check_snapshot (cs_transitions state);
                    attempt = \<lparr>fa_attempt_id = attempt_id, fa_instance_id = fi_instance_id inst,
                               fa_definition_digest = fi_definition_digest inst,
                               fa_from_state = fi_current_state inst, fa_reason = reason,
                               fa_transitions = transitions, fa_status = Verifying\<rparr>
                in Inr (inst\<lparr>fi_active_attempt_id := Some attempt_id\<rparr>, attempt,
                        [TransitionRequested attempt_id (fa_from_state attempt) reason transitions,
                         TransitionVerifying attempt_id]))))"

text \<open>\<open>append_events\<close>: events are numbered by their position; \<open>u64::try_from\<close> fails past the width.\<close>

fun append_events ::
  "flow_runtime \<Rightarrow> flow_event list \<Rightarrow> (flow_transition_error + unit) \<times> flow_runtime" where
  "append_events rt [] = (Inr (), rt)"
| "append_events rt (event # events) =
     (if length (rt_events rt) < 2 ^ 64
      then append_events
             (rt\<lparr>rt_events := rt_events rt
                @ [\<lparr>re_sequence = of_nat (length (rt_events rt)), re_event = event\<rparr>]\<rparr>) events
      else (Inl (Invariant [Lit ''Flow event sequence overflowed'']), rt))"

definition requested_ids :: "runtime_event list \<Rightarrow> string list" where
  "requested_ids evs =
     concat (map (\<lambda>e. case re_event e of TransitionRequested a _ _ _ \<Rightarrow> [a] | _ \<Rightarrow> []) evs)"

definition begin_or_recover_transition ::
  "flow_runtime \<Rightarrow> string \<Rightarrow> string \<Rightarrow> (flow_transition_error + flow_attempt) \<times> flow_runtime" where
  "begin_or_recover_transition rt attempt_id reason =
     (case rt_active_attempt rt of
        Some attempt \<Rightarrow> (Inr attempt, rt)
      | None \<Rightarrow>
          if attempt_id \<in> set (requested_ids (rt_events rt))
          then (Inl (InvalidRequest [Lit ''transition attempt ID has already been used'']), rt)
          else
            case begin_transition (rt_instance rt) (rt_definition rt) attempt_id reason of
              Inl e \<Rightarrow> (Inl e, rt)
            | Inr (inst, attempt, events) \<Rightarrow>
                (case append_events (rt\<lparr>rt_instance := inst\<rparr>) events of
                   (Inl e, rt') \<Rightarrow> (Inl e, rt')
                 | (Inr _, rt') \<Rightarrow> (Inr attempt, rt'\<lparr>rt_active_attempt := Some attempt\<rparr>)))"

subsection \<open>Resolving a transition\<close>

definition ellipsis :: string where
  "ellipsis = [CHR 0xE2, CHR 0x80, CHR 0xA6]"

definition bounded_message :: "string \<Rightarrow> string" where
  "bounded_message message =
     (if length message \<le> MAX_RATIONALE_BYTES then message
      else truncate_at_boundary MAX_RATIONALE_BYTES message @ ellipsis)"

definition rejected_resolution ::
  "flow_attempt \<Rightarrow> rejection_code \<Rightarrow> message \<Rightarrow> condition_result list \<Rightarrow> flow_event list
     \<Rightarrow> flow_resolution" where
  "rejected_resolution attempt code message results events =
     (let rejection = \<lparr>rj_code = code, rj_message = message\<rparr> in
      \<lparr>fr_attempt = attempt, fr_entered_state = None, fr_state_instructions = None,
       fr_rejection = Some rejection,
       fr_events = events @ [TransitionCheckRejected (fa_attempt_id attempt) rejection results]\<rparr>)"

definition debug_transition_id :: "transition_id \<Rightarrow> message" where
  "debug_transition_id t = [Lit ''TransitionId('', Dbg t, Lit '')'']"

text \<open>The loop over the results: it stops at the first oversized rationale or repeated id.\<close>

fun scan_results ::
  "(transition_id, condition_verdict) btree_map \<Rightarrow> condition_result list
     \<Rightarrow> (transition_id, condition_verdict) btree_map \<times> message option" where
  "scan_results by_id [] = (by_id, None)"
| "scan_results by_id (result # results) =
     (if length (cr_rationale result) > MAX_RATIONALE_BYTES
      then (by_id, Some ([Lit ''rationale for transition '']
                           @ debug_transition_id (cr_transition_id result)
                           @ [Lit ('' exceeds '' @ dec MAX_RATIONALE_BYTES @ '' bytes'')]))
      else
        let by_id' = bt_insert (cr_transition_id result) (cr_verdict result) by_id in
        if bt_get by_id (cr_transition_id result) \<noteq> None
        then (by_id', Some ([Lit ''verifier returned transition '']
                              @ debug_transition_id (cr_transition_id result)
                              @ [Lit '' more than once'']))
        else scan_results by_id' results)"

definition invalid_results :: "flow_attempt \<Rightarrow> condition_result list \<Rightarrow> message option" where
  "invalid_results attempt results =
     (let expected = set (map tc_transition_id (fa_transitions attempt));
          (by_id, invalid_reason) = scan_results [] results;
          actual = set (bt_keys by_id)
      in if invalid_reason = None \<and> actual \<noteq> expected
         then Some [Lit (''verifier must return exactly one result for every captured ''
                         @ ''outgoing transition'')]
         else invalid_reason)"

definition verdict_rejection :: "condition_result list \<Rightarrow> flow_rejection option" where
  "verdict_rejection results =
     (let met = filter (\<lambda>r. cr_verdict r = Met) results in
      if met = [] then
        (if \<exists>r \<in> set results. cr_verdict r = Indeterminate
         then Some \<lparr>rj_code = IndeterminateConditions,
                    rj_message = [Lit (''No transition condition was met and at least one ''
                                       @ ''condition could not be determined'')]\<rparr>
         else Some \<lparr>rj_code = NoConditionMet,
                    rj_message = [Lit ''No outgoing transition condition was met'']\<rparr>)
      else if length met > 1 then
        Some \<lparr>rj_code = MultipleConditionsMet,
              rj_message = [Lit ''More than one outgoing transition condition was met'']\<rparr>
      else None)"

definition entered_status :: "compiled_state \<Rightarrow> state_id \<Rightarrow> flow_instance_status" where
  "entered_status target_state target =
     (if target = CANCELLED_STATE_ID then InstanceCancelled
      else if cs_terminal target_state then InstanceCompleted
      else InstanceActive)"

definition resolve_completed_results ::
  "flow_instance \<Rightarrow> compiled_flow \<Rightarrow> flow_attempt \<Rightarrow> condition_result list \<Rightarrow> flow_event list
     \<Rightarrow> flow_transition_error + (flow_instance \<times> flow_resolution)" where
  "resolve_completed_results inst d attempt results events =
     (case invalid_results attempt results of
        Some message \<Rightarrow>
          Inr (inst, rejected_resolution (attempt\<lparr>fa_status := Rejected\<rparr>)
                       InvalidVerifierOutput message results events)
      | None \<Rightarrow>
          (case verdict_rejection results of
             Some rejection \<Rightarrow>
               Inr (inst, rejected_resolution (attempt\<lparr>fa_status := Rejected\<rparr>)
                            (rj_code rejection) (rj_message rejection) results events)
           | None \<Rightarrow>
               let selected = hd (filter (\<lambda>r. cr_verdict r = Met) results) in
               case find (\<lambda>t. tc_transition_id t = cr_transition_id selected)
                         (fa_transitions attempt) of
                 None \<Rightarrow> Inl (Invariant
                           [Lit ''selected transition is missing from the captured attempt''])
               | Some transition \<Rightarrow>
                   (case flow_state d (tc_target transition) of
                      None \<Rightarrow> Inl (Invariant ([Lit ''target state '']
                                @ debug_state_id (tc_target transition)
                                @ [Lit '' is missing from the pinned definition'']))
                    | Some target_state \<Rightarrow>
                        let target = tc_target transition;
                            status = entered_status target_state target
                        in Inr (inst\<lparr>fi_current_state := target, fi_status := status\<rparr>,
                             \<lparr>fr_attempt = attempt\<lparr>fa_status := Entered\<rparr>,
                              fr_entered_state = Some target,
                              fr_state_instructions = Some (cs_instructions target_state),
                              fr_rejection = None,
                              fr_events = events
                                @ [TransitionCheckPassed (fa_attempt_id attempt)
                                     (tc_transition_id transition) results,
                                   StateEntered (fa_attempt_id attempt) target status]\<rparr>))))"

text \<open>Every arm of \<open>resolve_transition\<close> that returns releases the reservation at the end.\<close>

definition resolve_transition ::
  "flow_instance \<Rightarrow> compiled_flow \<Rightarrow> flow_attempt \<Rightarrow> verifier_outcome
     \<Rightarrow> flow_transition_error + (flow_instance \<times> flow_resolution)" where
  "resolve_transition inst d attempt outcome =
     (if fi_instance_id inst \<noteq> fa_instance_id attempt
         \<or> fi_active_attempt_id inst \<noteq> Some (fa_attempt_id attempt)
      then Inl (InvalidRequest
                  [Lit ''attempt is not the active/latest attempt for this Flow instance''])
      else if cf_content_digest d \<noteq> fi_definition_digest inst
              \<or> fa_definition_digest attempt \<noteq> fi_definition_digest inst
      then Inl DefinitionMismatch
      else and_then
        (case outcome of
           OutcomeCancelled \<Rightarrow>
             Inr (inst, rejected_resolution (attempt\<lparr>fa_status := AttemptCancelled\<rparr>)
               VerifierCancelled
               [Lit ''Flow verifier was cancelled before producing a complete verdict''] []
               [TransitionVerificationCancelled (fa_attempt_id attempt)])
         | OutcomeFailed message \<Rightarrow>
             let message = bounded_message message in
             Inr (inst, rejected_resolution (attempt\<lparr>fa_status := AttemptFailed\<rparr>)
               VerifierFailed [Lit ''Flow verifier failed: '', Lit message] []
               [TransitionVerificationFailed (fa_attempt_id attempt) message])
         | OutcomeCompleted results \<Rightarrow>
             if fi_status inst \<noteq> InstanceActive \<or> fi_current_state inst \<noteq> fa_from_state attempt
             then Inr (inst, rejected_resolution (attempt\<lparr>fa_status := Rejected\<rparr>) StaleState
                    [Lit ''Flow state changed after verification began''] results [])
             else resolve_completed_results inst d attempt results [])
        (\<lambda>(inst', resolution). Inr (inst'\<lparr>fi_active_attempt_id := None\<rparr>, resolution)))"

definition resolve_active_transition ::
  "flow_runtime \<Rightarrow> string \<Rightarrow> verifier_outcome
     \<Rightarrow> (flow_transition_error + flow_resolution) \<times> flow_runtime" where
  "resolve_active_transition rt attempt_id outcome =
     (case rt_active_attempt rt of
        None \<Rightarrow> (Inl (InvalidRequest [Lit ''Flow has no active transition attempt'']), rt)
      | Some attempt \<Rightarrow>
          if fa_attempt_id attempt \<noteq> attempt_id
          then (Inl (InvalidRequest
                  [Lit ''attempt is not the active/latest attempt for this Flow instance'']), rt)
          else
            case resolve_transition (rt_instance rt) (rt_definition rt) attempt outcome of
              Inl e \<Rightarrow> (Inl e, rt)
            | Inr (inst, resolution) \<Rightarrow>
                (case append_events (rt\<lparr>rt_instance := inst\<rparr>) (fr_events resolution) of
                   (Inl e, rt') \<Rightarrow> (Inl e, rt')
                 | (Inr _, rt') \<Rightarrow> (Inr resolution, rt'\<lparr>rt_active_attempt := None\<rparr>)))"

text \<open>The calls a Worker makes on the Flow it owns, as one step on the runtime state.\<close>

datatype flow_op = BeginOrRecover string string | Resolve string verifier_outcome

fun flow_step :: "flow_runtime \<Rightarrow> flow_op \<Rightarrow> flow_runtime" where
  "flow_step rt (BeginOrRecover attempt_id reason) =
     snd (begin_or_recover_transition rt attempt_id reason)"
| "flow_step rt (Resolve attempt_id outcome) = snd (resolve_active_transition rt attempt_id outcome)"

end
