(* ===== verification/Flow_Runtime.thy ===== *)
theory Flow_Runtime
  imports Flow_Coordinator "HOL-Library.Sublist"
begin

text \<open>
  Correctness of the Flow runtime: the invariant of \<open>FlowRuntimeState\<close> and that both
  operations keep it, exactly when a transition is entered, that attempt ids are used once,
  and that every live instance can be driven to completion.
\<close>

section \<open>The event log\<close>

definition numbered :: "nat \<Rightarrow> flow_event list \<Rightarrow> runtime_event list" where
  "numbered n evs = map (\<lambda>(i, e). \<lparr>re_sequence = of_nat i, re_event = e\<rparr>) (enumerate n evs)"

lemma numbered_simps [simp]:
  "numbered n [] = []"
  "numbered n (e # evs) = \<lparr>re_sequence = of_nat n, re_event = e\<rparr> # numbered (Suc n) evs"
  by (simp_all add: numbered_def)

lemma numbered_append: "numbered n (xs @ ys) = numbered n xs @ numbered (n + length xs) ys"
  by (induction xs arbitrary: n) simp_all

lemma map_event_numbered [simp]: "map re_event (numbered n evs) = evs"
  by (induction evs arbitrary: n) simp_all

definition log_wf :: "runtime_event list \<Rightarrow> bool" where
  "log_wf evs \<longleftrightarrow> evs = numbered 0 (map re_event evs)"

lemma length_numbered [simp]: "length (numbered n evs) = length evs"
  by (induction evs arbitrary: n) simp_all

lemma log_wf_append [intro, simp]: "log_wf evs \<Longrightarrow> log_wf (evs @ numbered (length evs) new)"
  by (simp add: log_wf_def numbered_append)

lemma append_events_eq:
  "length (rt_events rt) + length evs \<le> 2 ^ 64 \<Longrightarrow>
     append_events rt evs =
       (Inr (), rt\<lparr>rt_events := rt_events rt @ numbered (length (rt_events rt)) evs\<rparr>)"
  by (induction rt evs rule: append_events.induct) simp_all

lemma append_events_grows:
  "\<exists>tail. rt_events (snd (append_events rt evs)) = rt_events rt @ tail"
  by (induction rt evs rule: append_events.induct) auto

definition event_requests :: "flow_event list \<Rightarrow> string list" where
  "event_requests evs =
     concat (map (\<lambda>e. case e of TransitionRequested a _ _ _ \<Rightarrow> [a] | _ \<Rightarrow> []) evs)"

lemma requested_ids_eq: "requested_ids evs = event_requests (map re_event evs)"
  by (simp add: requested_ids_def event_requests_def comp_def)

lemma event_requests_append [simp]:
  "event_requests (xs @ ys) = event_requests xs @ event_requests ys"
  by (simp add: event_requests_def)

text \<open>The states the log enters, in order.\<close>

definition entered_states :: "flow_event list \<Rightarrow> state_id list" where
  "entered_states evs = concat (map (\<lambda>e. case e of StateEntered _ s _ \<Rightarrow> [s] | _ \<Rightarrow> []) evs)"

lemma entered_states_append [simp]:
  "entered_states (xs @ ys) = entered_states xs @ entered_states ys"
  by (simp add: entered_states_def)

definition transition_edges :: "compiled_flow \<Rightarrow> (state_id \<times> state_id) set" where
  "transition_edges d =
     {(a, b). \<exists>st. flow_state d a = Some st \<and> b \<in> ct_target ` set (cs_transitions st)}"

section \<open>The invariant\<close>

definition status_at :: "compiled_flow \<Rightarrow> state_id \<Rightarrow> flow_instance_status option" where
  "status_at d s = map_option (\<lambda>st. entered_status st s) (flow_state d s)"

definition attempt_wf :: "flow_runtime \<Rightarrow> flow_attempt \<Rightarrow> bool" where
  "attempt_wf rt a \<longleftrightarrow>
     fa_instance_id a = fi_instance_id (rt_instance rt)
     \<and> fa_definition_digest a = cf_content_digest (rt_definition rt)
     \<and> fa_from_state a = fi_current_state (rt_instance rt)
     \<and> fi_status (rt_instance rt) = InstanceActive
     \<and> fa_status a = Verifying
     \<and> map_option (map check_snapshot) (flow_outgoing (rt_definition rt) (fa_from_state a))
         = Some (fa_transitions a)
     \<and> fa_attempt_id a \<in> set (requested_ids (rt_events rt))"

definition flow_runtime_wf :: "flow_runtime \<Rightarrow> bool" where
  "flow_runtime_wf rt \<longleftrightarrow>
     flow_wf (rt_definition rt)
     \<and> fi_definition_digest (rt_instance rt) = cf_content_digest (rt_definition rt)
     \<and> status_at (rt_definition rt) (fi_current_state (rt_instance rt))
         = Some (fi_status (rt_instance rt))
     \<and> fi_active_attempt_id (rt_instance rt) = map_option fa_attempt_id (rt_active_attempt rt)
     \<and> (\<forall>a. rt_active_attempt rt = Some a \<longrightarrow> attempt_wf rt a)
     \<and> log_wf (rt_events rt)
     \<and> distinct (requested_ids (rt_events rt))
     \<and> (let walk = entered_states (map re_event (rt_events rt)) in
         walk \<noteq> [] \<and> hd walk = cf_initial (rt_definition rt)
         \<and> last walk = fi_current_state (rt_instance rt)
         \<and> successively (\<lambda>a b. (a, b) \<in> transition_edges (rt_definition rt)) walk)"

lemma flow_wf_entry:
  assumes "flow_wf d" and "flow_state d k = Some st"
  shows "state_entry_wf (set (bt_keys (cf_states d))) k st"
  using assms by (auto simp: flow_wf_def flow_state_def bt_get_Some_iff)

lemma flow_wf_state_iff:
  "flow_wf d \<Longrightarrow> k \<in> set (bt_keys (cf_states d)) \<longleftrightarrow> (\<exists>st. flow_state d k = Some st)"
  by (auto simp: flow_wf_def flow_state_def bt_get_Some_iff bt_keys_def intro: rev_image_eqI)

lemma flow_wf_reaches_terminal:
  assumes wf: "flow_wf d" and st: "flow_state d k = Some st" and "k \<noteq> CANCELLED_STATE_ID"
  shows "\<exists>t st. (k, t) \<in> (authored_edges (cf_states d))\<^sup>* \<and> t \<noteq> CANCELLED_STATE_ID
    \<and> flow_state d t = Some st \<and> cs_terminal st"
proof -
  have "k \<in> set (bt_keys (cf_states d)) - {CANCELLED_STATE_ID}"
    using flow_wf_state_iff [OF wf, of k] st assms(3) by simp
  with wf show ?thesis unfolding flow_wf_def by blast
qed

lemma flow_wf_target:
  assumes "flow_wf d" and "flow_state d k = Some st" and "t \<in> set (cs_transitions st)"
  shows "\<exists>st'. flow_state d (ct_target t) = Some st'"
  using flow_wf_entry [OF assms(1,2)] assms(3) flow_wf_state_iff [OF assms(1)] assms(1)
  by (auto simp: state_entry_wf_def flow_wf_def)

section \<open>Verifier results\<close>

text \<open>A complete answer: one bounded result for every captured transition.\<close>

definition complete_results :: "flow_attempt \<Rightarrow> condition_result list \<Rightarrow> bool" where
  "complete_results a results \<longleftrightarrow>
     (\<forall>r \<in> set results. length (cr_rationale r) \<le> MAX_RATIONALE_BYTES)
     \<and> distinct (map cr_transition_id results)
     \<and> cr_transition_id ` set results = tc_transition_id ` set (fa_transitions a)"

lemma scan_results_None_iff:
  assumes "bt_wf by_id"
  shows "snd (scan_results by_id results) = None \<longleftrightarrow>
    (\<forall>r \<in> set results. length (cr_rationale r) \<le> MAX_RATIONALE_BYTES)
    \<and> distinct (map cr_transition_id results)
    \<and> cr_transition_id ` set results \<inter> set (bt_keys by_id) = {}"
  using assms
  by (induction by_id results rule: scan_results.induct)
    (auto simp: Let_def bt_get_None_keys bt_wf_insert)

lemma scan_results_keys:
  "snd (scan_results by_id results) = None \<Longrightarrow>
     set (bt_keys (fst (scan_results by_id results)))
       = set (bt_keys by_id) \<union> cr_transition_id ` set results"
  by (induction by_id results rule: scan_results.induct)
    (auto simp: Let_def split: if_splits)

lemma invalid_results_None_iff: "invalid_results a results = None \<longleftrightarrow> complete_results a results"
  using scan_results_None_iff [of "[]" results] scan_results_keys [of "[]" results]
  by (cases "scan_results [] results")
    (auto simp: invalid_results_def complete_results_def bt_wf_def)

lemma verdict_rejection_None_iff:
  "verdict_rejection results = None \<longleftrightarrow> (\<exists>r. filter (\<lambda>r. cr_verdict r = Met) results = [r])"
  by (cases "filter (\<lambda>r. cr_verdict r = Met) results" rule: remdups_adj.cases)
    (auto simp: verdict_rejection_def Let_def)

text \<open>The transition an outcome selects: the only met condition of a complete answer.\<close>

definition selects :: "flow_attempt \<Rightarrow> verifier_outcome \<Rightarrow> transition_check \<Rightarrow> bool" where
  "selects a outcome t \<longleftrightarrow>
     (\<exists>results r. outcome = OutcomeCompleted results \<and> complete_results a results
        \<and> filter (\<lambda>r. cr_verdict r = Met) results = [r]
        \<and> find (\<lambda>t. tc_transition_id t = cr_transition_id r) (fa_transitions a) = Some t)"

text \<open>A captured transition comes from the state the attempt started in.\<close>

lemma attempt_transition:
  assumes wf: "flow_wf (rt_definition rt)" and a: "attempt_wf rt a" and t: "t \<in> set (fa_transitions a)"
  obtains st ct target where
    "flow_state (rt_definition rt) (fi_current_state (rt_instance rt)) = Some st"
    "ct \<in> set (cs_transitions st)" "t = check_snapshot ct"
    "flow_state (rt_definition rt) (tc_target t) = Some target"
proof -
  from a obtain st where st: "flow_state (rt_definition rt) (fi_current_state (rt_instance rt)) = Some st"
    and ts: "fa_transitions a = map check_snapshot (cs_transitions st)"
    by (auto simp: attempt_wf_def flow_outgoing_def)
  from ts t obtain ct where ct: "ct \<in> set (cs_transitions st)" "t = check_snapshot ct" by auto
  with flow_wf_target [OF wf st] that st show thesis by (auto simp: check_snapshot_def)
qed

lemma selects_in: "selects a outcome t \<Longrightarrow> t \<in> set (fa_transitions a)"
  by (auto simp: selects_def find_Some_iff)

lemma selects_unique: "selects a outcome t \<Longrightarrow> selects a outcome t' \<Longrightarrow> t = t'"
  by (auto simp: selects_def)

lemma complete_results_find:
  "complete_results a results \<Longrightarrow> r \<in> set results \<Longrightarrow>
     \<exists>t. find (\<lambda>t. tc_transition_id t = cr_transition_id r) (fa_transitions a) = Some t"
  by (cases "find (\<lambda>t. tc_transition_id t = cr_transition_id r) (fa_transitions a)")
    (force simp: complete_results_def find_None_iff)+

lemma filter_singleton_mem: "filter P xs = [x] \<Longrightarrow> x \<in> set xs"
  by (metis filter_is_subset list.set_intros(1) subset_code(1))

definition entered_resolution ::
  "flow_attempt \<Rightarrow> compiled_state \<Rightarrow> transition_check \<Rightarrow> condition_result list \<Rightarrow> flow_resolution" where
  "entered_resolution a target t results =
     \<lparr>fr_attempt = a\<lparr>fa_status := Entered\<rparr>, fr_entered_state = Some (tc_target t),
      fr_state_instructions = Some (cs_instructions target), fr_rejection = None,
      fr_events = [TransitionCheckPassed (fa_attempt_id a) (tc_transition_id t) results,
        StateEntered (fa_attempt_id a) (tc_target t) (entered_status target (tc_target t))]\<rparr>"

lemma resolve_selected:
  assumes sel: "selects a (OutcomeCompleted results) t"
    and target: "flow_state d (tc_target t) = Some target"
  shows "resolve_completed_results inst d a results [] =
    Inr (inst\<lparr>fi_current_state := tc_target t, fi_status := entered_status target (tc_target t)\<rparr>,
         entered_resolution a target t results)"
proof -
  from sel obtain r where c: "complete_results a results"
    and r: "filter (\<lambda>r. cr_verdict r = Met) results = [r]"
    and t: "find (\<lambda>t. tc_transition_id t = cr_transition_id r) (fa_transitions a) = Some t"
    by (auto simp: selects_def)
  from c have "invalid_results a results = None" by (simp add: invalid_results_None_iff)
  moreover from r have "verdict_rejection results = None" by (auto simp: verdict_rejection_None_iff)
  ultimately show ?thesis
    by (simp add: resolve_completed_results_def r t target Let_def entered_resolution_def)
qed

lemma resolve_unselected:
  assumes "\<And>t. \<not> selects a (OutcomeCompleted results) t"
  shows "\<exists>code message. resolve_completed_results inst d a results [] =
    Inr (inst, rejected_resolution (a\<lparr>fa_status := Rejected\<rparr>) code message results [])"
proof -
  have "invalid_results a results \<noteq> None \<or> verdict_rejection results \<noteq> None"
  proof (rule ccontr)
    assume "\<not> ?thesis"
    then obtain r where "complete_results a results" "filter (\<lambda>r. cr_verdict r = Met) results = [r]"
      by (auto simp: invalid_results_None_iff verdict_rejection_None_iff)
    with complete_results_find [of a results r] filter_singleton_mem [of _ results r] assms
    show False by (auto simp: selects_def)
  qed
  then show ?thesis
    by (auto simp: resolve_completed_results_def split: option.split)
qed

text \<open>
  The result of resolving the active attempt: it always succeeds; a selected transition is
  entered, anything else rejects and leaves state and status alone.
\<close>

lemma resolve_transition_total:
  assumes wf: "flow_runtime_wf rt" and a: "rt_active_attempt rt = Some a"
  obtains (entered) results t target where "outcome = OutcomeCompleted results"
      "selects a outcome t" "flow_state (rt_definition rt) (tc_target t) = Some target"
      "resolve_transition (rt_instance rt) (rt_definition rt) a outcome =
         Inr ((rt_instance rt)\<lparr>fi_current_state := tc_target t,
                 fi_status := entered_status target (tc_target t), fi_active_attempt_id := None\<rparr>,
              entered_resolution a target t results)"
  | (rejected) a' code message results evs where "\<And>t. \<not> selects a outcome t"
      "resolve_transition (rt_instance rt) (rt_definition rt) a outcome =
         Inr ((rt_instance rt)\<lparr>fi_active_attempt_id := None\<rparr>,
              rejected_resolution a' code message results evs)"
      "fa_attempt_id a' = fa_attempt_id a" "fa_status a' \<notin> {Verifying, Entered}"
      "length evs \<le> 1" "entered_states evs = []" "event_requests evs = []"
proof -
  from wf a have aw: "attempt_wf rt a" and fw: "flow_wf (rt_definition rt)"
    and guards: "fi_instance_id (rt_instance rt) = fa_instance_id a"
      "fi_active_attempt_id (rt_instance rt) = Some (fa_attempt_id a)"
      "cf_content_digest (rt_definition rt) = fi_definition_digest (rt_instance rt)"
      "fa_definition_digest a = fi_definition_digest (rt_instance rt)"
      "fi_status (rt_instance rt) = InstanceActive"
      "fi_current_state (rt_instance rt) = fa_from_state a"
    by (auto simp: flow_runtime_wf_def attempt_wf_def)
  note simps = resolve_transition_def guards and_then_def Let_def entered_states_def
    event_requests_def
  show thesis
  proof (cases outcome)
    case (OutcomeCompleted results)
    show thesis
    proof (cases "\<exists>t. selects a outcome t")
      case True
      then obtain t where t: "selects a outcome t" ..
      obtain target where "flow_state (rt_definition rt) (tc_target t) = Some target"
        using attempt_transition [OF fw aw selects_in [OF t]] by metis
      with t OutcomeCompleted resolve_selected [of a results t "rt_definition rt" target]
      show thesis by (intro entered [of results t target]) (simp_all add: simps)
    next
      case False
      with OutcomeCompleted resolve_unselected [of a results "rt_instance rt" "rt_definition rt"]
      obtain code message where "resolve_completed_results (rt_instance rt) (rt_definition rt) a results []
          = Inr (rt_instance rt, rejected_resolution (a\<lparr>fa_status := Rejected\<rparr>) code message results [])"
        by auto
      with False OutcomeCompleted show thesis
        by (intro rejected [where a' = "a\<lparr>fa_status := Rejected\<rparr>" and evs = "[]"
              and code = code and message = message and results = results]) (simp_all add: simps)
    qed
  next
    case OutcomeCancelled
    then show thesis
      by (intro rejected [where a' = "a\<lparr>fa_status := AttemptCancelled\<rparr>" and results = "[]"
            and evs = "[TransitionVerificationCancelled (fa_attempt_id a)]"])
        (simp_all add: simps selects_def)
  next
    case (OutcomeFailed message)
    then show thesis
      by (intro rejected [where a' = "a\<lparr>fa_status := AttemptFailed\<rparr>" and results = "[]"
            and evs = "[TransitionVerificationFailed (fa_attempt_id a) (bounded_message message)]"])
        (simp_all add: simps selects_def)
  qed
qed

section \<open>The operations keep the invariant\<close>

text \<open>
  A log below the width of its sequence numbers; both operations append at most two events.
\<close>

definition log_room :: "flow_runtime \<Rightarrow> bool" where
  "log_room rt \<longleftrightarrow> length (rt_events rt) + 2 \<le> 2 ^ 64"

lemma runtime_start_wf:
  assumes start: "runtime_start source instance_id = Inr (rt, instructions)"
    and wf: "flow_wf (rs_definition source)"
  shows "flow_runtime_wf rt"
proof -
  from wf obtain st where st: "flow_state (rs_definition source) (cf_initial (rs_definition source)) = Some st"
    and ne: "cf_initial (rs_definition source) \<noteq> CANCELLED_STATE_ID"
    using flow_wf_state_iff [OF wf] by (auto simp: flow_wf_def)
  from start st have "rt = \<lparr>rt_definition = rs_definition source,
      rt_instance = rt_instance rt, rt_active_attempt = None,
      rt_events = [\<lparr>re_sequence = 0, re_event = StateEntered [] (fi_current_state (rt_instance rt))
        (fi_status (rt_instance rt))\<rparr>]\<rparr>"
    and "fi_current_state (rt_instance rt) = cf_initial (rs_definition source)"
    and "fi_active_attempt_id (rt_instance rt) = None"
    and "fi_definition_digest (rt_instance rt) = cf_content_digest (rs_definition source)"
    and "fi_status (rt_instance rt) = entered_status st (cf_initial (rs_definition source))"
    using ne by (auto simp: runtime_start_def Let_def instance_start_def and_then_Inr_iff
        entered_status_def split: if_splits)
  then show ?thesis
    using wf st
    by (cases rt) (simp add: flow_runtime_wf_def status_at_def entered_states_def requested_ids_def
        log_wf_def)
qed

text \<open>When a new attempt is accepted.\<close>

definition begin_ok :: "flow_runtime \<Rightarrow> string \<Rightarrow> string \<Rightarrow> bool" where
  "begin_ok rt attempt_id reason \<longleftrightarrow>
     fi_status (rt_instance rt) = InstanceActive
     \<and> attempt_id \<notin> set (requested_ids (rt_events rt))
     \<and> trim_str attempt_id \<noteq> [] \<and> trim_str reason \<noteq> [] \<and> length reason \<le> MAX_REASON_BYTES"

definition new_attempt :: "flow_runtime \<Rightarrow> string \<Rightarrow> string \<Rightarrow> flow_attempt" where
  "new_attempt rt attempt_id reason =
     \<lparr>fa_attempt_id = attempt_id, fa_instance_id = fi_instance_id (rt_instance rt),
      fa_definition_digest = fi_definition_digest (rt_instance rt),
      fa_from_state = fi_current_state (rt_instance rt), fa_reason = reason,
      fa_transitions = map check_snapshot
        (option_list (flow_outgoing (rt_definition rt) (fi_current_state (rt_instance rt)))),
      fa_status = Verifying\<rparr>"

definition attempt_events :: "flow_attempt \<Rightarrow> flow_event list" where
  "attempt_events a =
     [TransitionRequested (fa_attempt_id a) (fa_from_state a) (fa_reason a) (fa_transitions a),
      TransitionVerifying (fa_attempt_id a)]"

lemma active_state:
  assumes wf: "flow_runtime_wf rt" and active: "fi_status (rt_instance rt) = InstanceActive"
  obtains st where "flow_state (rt_definition rt) (fi_current_state (rt_instance rt)) = Some st"
    "\<not> cs_terminal st" "cs_transitions st \<noteq> []"
    "fi_current_state (rt_instance rt) \<noteq> CANCELLED_STATE_ID"
proof -
  from wf have "status_at (rt_definition rt) (fi_current_state (rt_instance rt)) = Some InstanceActive"
    and fw: "flow_wf (rt_definition rt)"
    using active by (auto simp: flow_runtime_wf_def)
  then obtain st where st: "flow_state (rt_definition rt) (fi_current_state (rt_instance rt)) = Some st"
      "\<not> cs_terminal st" "fi_current_state (rt_instance rt) \<noteq> CANCELLED_STATE_ID"
    by (auto simp: status_at_def entered_status_def split: if_splits)
  with flow_wf_entry [OF fw st(1)] have "cs_transitions st \<noteq> []"
    by (auto simp: state_entry_wf_def authored_targets_def)
  with st that show thesis by blast
qed

lemma begin_new_eq:
  assumes wf: "flow_runtime_wf rt" and none: "rt_active_attempt rt = None"
    and ok: "begin_ok rt attempt_id reason" and room: "log_room rt"
  defines "a \<equiv> new_attempt rt attempt_id reason"
  shows "begin_or_recover_transition rt attempt_id reason =
    (Inr a, rt\<lparr>rt_instance := (rt_instance rt)\<lparr>fi_active_attempt_id := Some attempt_id\<rparr>,
                rt_events := rt_events rt @ numbered (length (rt_events rt)) (attempt_events a),
                rt_active_attempt := Some a\<rparr>)"
proof -
  from ok have active: "fi_status (rt_instance rt) = InstanceActive" by (simp add: begin_ok_def)
  obtain st where st: "flow_state (rt_definition rt) (fi_current_state (rt_instance rt)) = Some st"
    "\<not> cs_terminal st" "cs_transitions st \<noteq> []"
    by (rule active_state [OF wf active])
  then have "begin_transition (rt_instance rt) (rt_definition rt) attempt_id reason =
      Inr ((rt_instance rt)\<lparr>fi_active_attempt_id := Some attempt_id\<rparr>, a, attempt_events a)"
    using ok wf none
    by (simp add: begin_transition_def begin_ok_def flow_runtime_wf_def ensure_non_empty_def
        validate_reason_def Let_def a_def new_attempt_def attempt_events_def flow_outgoing_def)
  then show ?thesis
    using ok none room append_events_eq [of "rt\<lparr>rt_instance := (rt_instance rt)
        \<lparr>fi_active_attempt_id := Some attempt_id\<rparr>\<rparr>" "attempt_events a"]
    by (simp add: begin_or_recover_transition_def begin_ok_def log_room_def attempt_events_def)
qed

lemma begin_refused:
  assumes wf: "flow_runtime_wf rt" and none: "rt_active_attempt rt = None"
    and "\<not> begin_ok rt attempt_id reason"
  shows "\<exists>e. begin_or_recover_transition rt attempt_id reason = (Inl e, rt)"
  using assms
  by (auto simp: begin_or_recover_transition_def begin_transition_def begin_ok_def map_err_def
      ensure_non_empty_def validate_reason_def)

lemma begin_keeps_wf:
  assumes wf: "flow_runtime_wf rt" and room: "log_room rt"
  shows "flow_runtime_wf (snd (begin_or_recover_transition rt attempt_id reason))"
proof (cases "rt_active_attempt rt = None \<and> begin_ok rt attempt_id reason")
  case True
  then have none: "rt_active_attempt rt = None" and ok: "begin_ok rt attempt_id reason" by auto
  from ok have active: "fi_status (rt_instance rt) = InstanceActive" by (simp add: begin_ok_def)
  obtain st where "flow_state (rt_definition rt) (fi_current_state (rt_instance rt)) = Some st"
    by (rule active_state [OF wf active])
  then show ?thesis
    using wf ok active
    using log_wf_append [of "rt_events rt" "attempt_events (new_attempt rt attempt_id reason)"]
    by (auto simp: begin_new_eq [OF wf none ok room] flow_runtime_wf_def attempt_wf_def Let_def
        new_attempt_def attempt_events_def requested_ids_eq begin_ok_def
        entered_states_def event_requests_def flow_outgoing_def option_list_def)
next
  case False
  then show ?thesis
    using begin_refused [OF wf, of attempt_id reason] wf
    by (cases "rt_active_attempt rt") (auto simp: begin_or_recover_transition_def)
qed

text \<open>The state after a resolution, on either arm of \<open>resolve_transition_total\<close>.\<close>

lemma resolve_active_eq:
  assumes a: "rt_active_attempt rt = Some a" and room: "log_room rt"
    and res: "resolve_transition (rt_instance rt) (rt_definition rt) a outcome = Inr (inst, res)"
    and len: "length (fr_events res) \<le> 2"
  shows "resolve_active_transition rt (fa_attempt_id a) outcome =
    (Inr res, rt\<lparr>rt_instance := inst, rt_active_attempt := None,
       rt_events := rt_events rt @ numbered (length (rt_events rt)) (fr_events res)\<rparr>)"
  using a room res len append_events_eq [of "rt\<lparr>rt_instance := inst\<rparr>" "fr_events res"]
  by (simp add: resolve_active_transition_def log_room_def)

lemma rejected_resolution_sel [simp]:
  "fr_entered_state (rejected_resolution a code msg results evs) = None"
  "fr_attempt (rejected_resolution a code msg results evs) = a"
  "fr_rejection (rejected_resolution a code msg results evs) = Some \<lparr>rj_code = code, rj_message = msg\<rparr>"
  "fr_events (rejected_resolution a code msg results evs) =
     evs @ [TransitionCheckRejected (fa_attempt_id a) \<lparr>rj_code = code, rj_message = msg\<rparr> results]"
  by (simp_all add: rejected_resolution_def Let_def)

lemma rejected_events [simp]:
  "entered_states [TransitionCheckRejected i rej results] = []"
  "event_requests [TransitionCheckRejected i rej results] = []"
  by (simp_all add: entered_states_def event_requests_def)

lemma entered_resolution_sel [simp]:
  "fr_entered_state (entered_resolution a target t results) = Some (tc_target t)"
  "fr_rejection (entered_resolution a target t results) = None"
  "fr_attempt (entered_resolution a target t results) = a\<lparr>fa_status := Entered\<rparr>"
  "fr_state_instructions (entered_resolution a target t results) = Some (cs_instructions target)"
  "length (fr_events (entered_resolution a target t results)) = 2"
  "entered_states (fr_events (entered_resolution a target t results)) = [tc_target t]"
  "event_requests (fr_events (entered_resolution a target t results)) = []"
  by (simp_all add: entered_resolution_def entered_states_def event_requests_def)

lemma selected_edge:
  assumes "flow_runtime_wf rt" "rt_active_attempt rt = Some a" "selects a outcome t"
  shows "(fi_current_state (rt_instance rt), tc_target t) \<in> transition_edges (rt_definition rt)"
proof -
  from assms have "flow_wf (rt_definition rt)" "attempt_wf rt a" by (auto simp: flow_runtime_wf_def)
  from attempt_transition [OF this selects_in [OF assms(3)]] show ?thesis
    by (force simp: transition_edges_def check_snapshot_def)
qed

lemma resolve_other_id:
  assumes "\<And>a. rt_active_attempt rt = Some a \<Longrightarrow> fa_attempt_id a \<noteq> attempt_id"
  shows "\<exists>e. resolve_active_transition rt attempt_id outcome = (Inl (InvalidRequest e), rt)"
  using assms by (auto simp: resolve_active_transition_def split: option.split)

lemma resolve_keeps_wf:
  assumes wf: "flow_runtime_wf rt" and room: "log_room rt"
  shows "flow_runtime_wf (snd (resolve_active_transition rt attempt_id outcome))"
proof (cases "\<exists>a. rt_active_attempt rt = Some a \<and> fa_attempt_id a = attempt_id")
  case False
  with resolve_other_id [of rt attempt_id outcome] wf show ?thesis by auto
next
  case True
  then obtain a where a: "rt_active_attempt rt = Some a" and id: "attempt_id = fa_attempt_id a" by auto
  show ?thesis
  proof (cases rule: resolve_transition_total [OF wf a, of outcome, case_names entered rejected])
    case (entered results t target)
    from selected_edge [OF wf a entered(2)] wf entered(3) show ?thesis
      by (simp add: id resolve_active_eq [OF a room entered(4)] flow_runtime_wf_def Let_def
          status_at_def requested_ids_eq successively_append_iff)
  next
    case (rejected a' code message results evs)
    have "length (fr_events (rejected_resolution a' code message results evs)) \<le> 2"
      using rejected(5) by simp
    with rejected wf show ?thesis
      by (simp add: id resolve_active_eq [OF a room rejected(2)] flow_runtime_wf_def Let_def
          requested_ids_eq)
  qed
qed

text \<open>
  The operations as a system of steps: the invariant holds until the log is as long as its
  sequence numbers are wide, and no step shortens the log or rewrites what it holds.
\<close>

definition flow_inv :: "flow_runtime \<Rightarrow> bool" where
  "flow_inv rt \<longleftrightarrow> (log_room rt \<longrightarrow> flow_runtime_wf rt)"

definition log_extends :: "flow_runtime \<Rightarrow> flow_runtime \<Rightarrow> bool" where
  "log_extends rt rt' \<longleftrightarrow>
     prefix (rt_events rt) (rt_events rt') \<and> rt_definition rt' = rt_definition rt"

lemma log_extends_refl: "log_extends rt rt"
  by (simp add: log_extends_def)

lemma log_extends_trans: "log_extends s t \<Longrightarrow> log_extends t u \<Longrightarrow> log_extends s u"
  by (auto simp: log_extends_def intro: prefix_order.trans)

lemma append_events_extends: "log_extends rt (snd (append_events rt evs))"
  by (induction rt evs rule: append_events.induct) (auto simp: log_extends_def prefix_def)

lemma flow_step_extends: "log_extends rt (flow_step rt x)"
proof -
  have upd: "log_extends rt (rt'\<lparr>rt_active_attempt := v\<rparr>)"
    if "append_events (rt\<lparr>rt_instance := i\<rparr>) evs = (r, rt')" for i evs r rt' v
    using append_events_extends [of "rt\<lparr>rt_instance := i\<rparr>" evs] that by (simp add: log_extends_def)
  then have upd': "log_extends rt rt'"
    if "append_events (rt\<lparr>rt_instance := i\<rparr>) evs = (r, rt')" for i evs r rt'
    using that by (simp add: log_extends_def)
  show ?thesis
    by (cases x) (auto simp: begin_or_recover_transition_def resolve_active_transition_def log_extends_refl
        split: option.split sum.split prod.split dest: upd upd')
qed

lemma log_extends_room: "log_extends rt rt' \<Longrightarrow> log_room rt' \<Longrightarrow> log_room rt"
  by (auto simp: log_extends_def log_room_def prefix_def)

lemma flow_step_inv: "flow_inv rt \<Longrightarrow> flow_inv (flow_step rt x)"
  using log_extends_room [OF flow_step_extends [of rt x]]
  by (cases x) (auto simp: flow_inv_def intro: begin_keeps_wf resolve_keeps_wf)

interpretation flow: growing_system flow_step flow_inv log_extends
  by unfold_locales (simp_all add: flow_step_inv flow_step_extends log_extends_refl log_extends_trans)

lemma ellipsis_facts [simp]: "utf8_valid ellipsis" "length ellipsis = 3"
  by (simp_all add: ellipsis_def utf8_valid_def char_len_def byte_of_def is_cont_def)

section \<open>Spent attempts\<close>

text \<open>An id that was requested and is not the active attempt's stays so.\<close>

definition spent :: "string \<Rightarrow> flow_runtime \<Rightarrow> bool" where
  "spent i rt \<longleftrightarrow> i \<in> set (requested_ids (rt_events rt))
     \<and> (\<forall>a. rt_active_attempt rt = Some a \<longrightarrow> fa_attempt_id a \<noteq> i)"

definition spent_inv :: "string \<Rightarrow> flow_runtime \<Rightarrow> bool" where
  "spent_inv i rt \<longleftrightarrow> (log_room rt \<longrightarrow> flow_runtime_wf rt \<and> spent i rt)"

lemma requested_ids_mono: "log_extends rt rt' \<Longrightarrow> set (requested_ids (rt_events rt)) \<subseteq> set (requested_ids (rt_events rt'))"
  by (auto simp: log_extends_def requested_ids_eq prefix_def)

lemma begin_active:
  assumes wf: "flow_runtime_wf rt" and room: "log_room rt"
    and a: "rt_active_attempt (snd (begin_or_recover_transition rt i reason)) = Some a"
  shows "rt_active_attempt rt = Some a \<or> fa_attempt_id a \<notin> set (requested_ids (rt_events rt))"
proof (cases "rt_active_attempt rt = None \<and> begin_ok rt i reason")
  case True
  with a begin_new_eq [OF wf _ _ room, of i reason] show ?thesis
    by (auto simp: new_attempt_def begin_ok_def)
next
  case False
  with a begin_refused [OF wf, of i reason] show ?thesis
    by (cases "rt_active_attempt rt") (auto simp: begin_or_recover_transition_def)
qed

lemma resolve_active:
  assumes wf: "flow_runtime_wf rt" and room: "log_room rt"
    and a: "rt_active_attempt (snd (resolve_active_transition rt i outcome)) = Some a"
  shows "rt_active_attempt rt = Some a"
proof (cases "rt_active_attempt rt")
  case None
  with a show ?thesis by (simp add: resolve_active_transition_def)
next
  case (Some b)
  have "rt_active_attempt (snd (resolve_active_transition rt (fa_attempt_id b) outcome)) = None"
  proof (cases rule: resolve_transition_total [OF wf Some, of outcome, case_names entered rejected])
    case entered
    show ?thesis by (simp add: resolve_active_eq [OF Some room entered(4)])
  next
    case rejected
    then show ?thesis by (simp add: resolve_active_eq [OF Some room rejected(2)])
  qed
  with a Some show ?thesis
    by (cases "fa_attempt_id b = i") (auto simp: resolve_active_transition_def)
qed

lemma spent_step: "spent_inv i rt \<Longrightarrow> spent_inv i (flow_step rt x)"
proof -
  assume inv: "spent_inv i rt"
  have ext: "log_extends rt (flow_step rt x)" by (rule flow_step_extends)
  show ?thesis
  proof (cases "log_room (flow_step rt x)")
    case True
    with log_extends_room [OF ext] inv have room: "log_room rt" and wf: "flow_runtime_wf rt"
      and sp: "spent i rt" by (auto simp: spent_inv_def)
    have "flow_runtime_wf (flow_step rt x)"
      using flow_step_inv [of rt x] wf True by (simp add: flow_inv_def)
    moreover have "fa_attempt_id a \<noteq> i" if "rt_active_attempt (flow_step rt x) = Some a" for a
      using that sp
      by (cases x) (auto simp: spent_def dest: begin_active [OF wf room] resolve_active [OF wf room])
    ultimately show ?thesis
      using sp requested_ids_mono [OF ext] by (auto simp: spent_inv_def spent_def)
  qed (simp add: spent_inv_def)
qed

interpretation spent: step_system flow_step "spent_inv i" for i
  by unfold_locales (rule spent_step)

section \<open>Progress\<close>

lemma fresh_id_exists: "\<exists>i. i \<notin> set ids \<and> trim_str i \<noteq> []"
proof -
  define i where "i = replicate (Suc (sum_list (map length ids))) CHR ''x''"
  have "length j \<le> sum_list (map length ids)" if "j \<in> set ids" for j
    using that by (simp add: member_le_sum_list)
  then have "i \<notin> set ids" by (fastforce simp: i_def)
  moreover have "trim_str i \<noteq> []"
    by (simp add: trim_empty_iff i_def list_all_iff char_len_def is_whitespace_def
        whitespace_chars_def byte_of_def)
  ultimately show ?thesis by blast
qed

text \<open>The answer that meets exactly the condition of transition \<open>i\<close>.\<close>

definition only_met :: "transition_id \<Rightarrow> flow_attempt \<Rightarrow> condition_result list" where
  "only_met i a = map (\<lambda>t. \<lparr>cr_transition_id = tc_transition_id t,
     cr_verdict = (if tc_transition_id t = i then Met else NotMet), cr_rationale = []\<rparr>) (fa_transitions a)"

lemma filter_unique_key: "distinct (map f xs) \<Longrightarrow> x \<in> set xs \<Longrightarrow> filter (\<lambda>y. f y = f x) xs = [x]"
  by (induction xs) (auto simp: filter_empty_conv image_iff)

lemma find_unique_key: "distinct (map f xs) \<Longrightarrow> x \<in> set xs \<Longrightarrow> find (\<lambda>y. f y = f x) xs = Some x"
  by (induction xs) (auto simp: image_iff)

lemma selects_only_met:
  assumes "distinct (map tc_transition_id (fa_transitions a))" and "t \<in> set (fa_transitions a)"
  shows "selects a (OutcomeCompleted (only_met (tc_transition_id t) a)) t"
proof -
  have "filter (\<lambda>r. cr_verdict r = Met) (only_met (tc_transition_id t) a)
      = map (\<lambda>u. \<lparr>cr_transition_id = tc_transition_id u, cr_verdict = Met, cr_rationale = []\<rparr>)
          (filter (\<lambda>u. tc_transition_id u = tc_transition_id t) (fa_transitions a))"
    by (auto simp: only_met_def filter_map comp_def intro!: map_cong filter_cong)
  also have "\<dots> = [\<lparr>cr_transition_id = tc_transition_id t, cr_verdict = Met, cr_rationale = []\<rparr>]"
    by (simp add: filter_unique_key [OF assms])
  finally show ?thesis
    using assms find_unique_key [OF assms]
    by (simp add: selects_def complete_results_def comp_def)
      (force simp: only_met_def comp_def)
qed

definition idle_at :: "flow_runtime \<Rightarrow> state_id \<Rightarrow> bool" where
  "idle_at rt s \<longleftrightarrow> flow_runtime_wf rt \<and> rt_active_attempt rt = None \<and> fi_current_state (rt_instance rt) = s"

lemma idle_active:
  assumes idle: "idle_at rt s" and st: "flow_state (rt_definition rt) s = Some st"
    and "cs_transitions st \<noteq> []"
  shows "fi_status (rt_instance rt) = InstanceActive"
proof -
  from idle have fw: "flow_wf (rt_definition rt)" by (auto simp: idle_at_def flow_runtime_wf_def)
  then have "s \<noteq> CANCELLED_STATE_ID"
    using st assms(3) by (auto simp: flow_wf_def cancelled_state_def)
  moreover have "\<not> cs_terminal st"
    using flow_wf_entry [OF fw st] assms(3) by (auto simp: state_entry_wf_def)
  ultimately show ?thesis
    using idle st by (auto simp: idle_at_def flow_runtime_wf_def status_at_def entered_status_def)
qed

text \<open>Some attempt with a suitable answer follows any transition of the current state.\<close>

lemma follow_transition:
  assumes idle: "idle_at rt s" and edge: "(s, t) \<in> transition_edges (rt_definition rt)"
    and room: "length (rt_events rt) + 4 \<le> 2 ^ 64"
  obtains ops where "idle_at (run_ops flow_step rt ops) t"
    "length (rt_events (run_ops flow_step rt ops)) = length (rt_events rt) + 4"
proof -
  from idle have wf: "flow_runtime_wf rt" and none: "rt_active_attempt rt = None"
    and cur: "fi_current_state (rt_instance rt) = s" by (auto simp: idle_at_def)
  from edge obtain st ct where st: "flow_state (rt_definition rt) s = Some st"
    and ct: "ct \<in> set (cs_transitions st)" and t: "ct_target ct = t"
    by (auto simp: transition_edges_def)
  obtain i where i: "i \<notin> set (requested_ids (rt_events rt))" "trim_str i \<noteq> []"
    using fresh_id_exists by blast
  obtain reason where reason: "trim_str reason \<noteq> []" "length reason \<le> MAX_REASON_BYTES"
    by (rule that [of "''x''"])
      (simp_all add: trim_empty_iff char_len_def is_whitespace_def whitespace_chars_def byte_of_def
        MAX_REASON_BYTES_def)
  have ok: "begin_ok rt i reason"
    using idle_active [OF idle st] ct i reason by (cases "cs_transitions st") (auto simp: begin_ok_def)
  have room': "log_room rt" using room by (simp add: log_room_def)
  define a where "a = new_attempt rt i reason"
  define rt1 where "rt1 = snd (begin_or_recover_transition rt i reason)"
  have wf1: "flow_runtime_wf rt1" unfolding rt1_def by (rule begin_keeps_wf [OF wf room'])
  have rt1: "rt_active_attempt rt1 = Some a" "length (rt_events rt1) = length (rt_events rt) + 2"
      "rt_definition rt1 = rt_definition rt"
    by (simp_all add: rt1_def begin_new_eq [OF wf none ok room'] a_def attempt_events_def)
  have ts: "fa_transitions a = map check_snapshot (cs_transitions st)"
    by (simp add: a_def new_attempt_def cur st flow_outgoing_def)
  have fw: "flow_wf (rt_definition rt)" using wf by (simp add: flow_runtime_wf_def)
  have "distinct (map tc_transition_id (fa_transitions a))"
    using flow_wf_entry [OF fw st] by (simp add: ts comp_def check_snapshot_def state_entry_wf_def)
  then have sel: "selects a (OutcomeCompleted (only_met (ct_id ct) a)) (check_snapshot ct)"
    using selects_only_met [of a "check_snapshot ct"] ct by (simp add: ts check_snapshot_def)
  define out where "out = OutcomeCompleted (only_met (ct_id ct) a)"
  have room1: "log_room rt1" using room rt1(2) by (simp add: log_room_def)
  show thesis
  proof (cases rule: resolve_transition_total [OF wf1 rt1(1), of out, case_names entered rejected])
    case (entered results u target)
    have "tc_target u = t"
      using selects_unique [OF entered(2) sel [folded out_def]] t by (simp add: check_snapshot_def)
    then show thesis
      using resolve_keeps_wf [OF wf1 room1, of "fa_attempt_id a" out] rt1(2)
      by (intro that [of "[BeginOrRecover i reason, Resolve (fa_attempt_id a) out]"])
        (simp_all add: rt1_def [symmetric] resolve_active_eq [OF rt1(1) room1 entered(4)] idle_at_def)
  next
    case (rejected a' code message results evs)
    with sel show thesis by (simp add: out_def)
  qed
qed

lemma authored_is_transition: "(s, t) \<in> authored_edges (cf_states d) \<Longrightarrow> (s, t) \<in> transition_edges d"
  by (auto simp: authored_edges_def authored_targets_def transition_edges_def flow_state_def)

lemma run_definition: "rt_definition (run_ops flow_step rt ops) = rt_definition rt"
  by (induction ops arbitrary: rt) (use flow_step_extends in \<open>auto simp: log_extends_def\<close>)

lemma follow_path:
  assumes "idle_at rt s" and "(s, t) \<in> authored_edges (cf_states (rt_definition rt)) ^^ n"
    and "length (rt_events rt) + 4 * n \<le> 2 ^ 64"
  shows "\<exists>ops. idle_at (run_ops flow_step rt ops) t"
  using assms
proof (induction n arbitrary: rt s)
  case 0
  then have "idle_at (run_ops flow_step rt []) t" by simp
  then show ?case by blast
next
  case (Suc n)
  from relpow_Suc_D2 [OF Suc.prems(2)] obtain u
    where u: "(s, u) \<in> authored_edges (cf_states (rt_definition rt))"
      "(u, t) \<in> authored_edges (cf_states (rt_definition rt)) ^^ n" by blast
  have room: "length (rt_events rt) + 4 \<le> 2 ^ 64" using Suc.prems(3) by simp
  obtain ops where ops: "idle_at (run_ops flow_step rt ops) u"
    "length (rt_events (run_ops flow_step rt ops)) = length (rt_events rt) + 4"
    by (rule follow_transition [OF Suc.prems(1) authored_is_transition [OF u(1)] room])
  from ops(2) Suc.prems(3) have room2: "length (rt_events (run_ops flow_step rt ops)) + 4 * n \<le> 2 ^ 64"
    by simp
  from u(2) have u2: "(u, t) \<in> authored_edges (cf_states (rt_definition (run_ops flow_step rt ops))) ^^ n"
    by (simp add: run_definition)
  from Suc.IH [OF ops(1) u2 room2] obtain ops'
    where "idle_at (run_ops flow_step rt (ops @ ops')) t" by auto
  then show ?case by blast
qed

lemma finite_authored_edges: "finite (authored_edges states)"
proof (rule finite_subset)
  show "authored_edges states \<subseteq> (\<Union>(k, st) \<in> set states. {k} \<times> set (authored_targets st))"
    by (auto simp: authored_edges_def bt_get_def dest!: map_of_SomeD)
qed auto

lemma cancel_active:
  assumes wf: "flow_runtime_wf rt" and room: "log_room rt"
  obtains ops where "idle_at (run_ops flow_step rt ops) (fi_current_state (rt_instance rt))"
    "length (rt_events (run_ops flow_step rt ops)) \<le> length (rt_events rt) + 2"
proof (cases "rt_active_attempt rt")
  case None
  with wf show thesis by (intro that [of "[]"]) (simp_all add: idle_at_def)
next
  case (Some a)
  show thesis
  proof (cases rule: resolve_transition_total
      [OF wf Some, of OutcomeCancelled, case_names entered rejected])
    case (rejected a' code message results evs)
    have eq: "length (fr_events (rejected_resolution a' code message results evs)) \<le> 2"
      using rejected(5) by simp
    show thesis
      using resolve_keeps_wf [OF wf room, of "fa_attempt_id a" OutcomeCancelled] rejected(5) eq
      by (intro that [of "[Resolve (fa_attempt_id a) OutcomeCancelled]"])
        (simp_all add: resolve_active_eq [OF Some room rejected(2) eq] idle_at_def)
  qed simp
qed

section \<open>A concrete run\<close>

definition review_resolved :: resolved_flow_source where
  "review_resolved =
     \<lparr>rs_selector = Builtin ''review'', rs_workspace_id = ''w'', rs_flow_id = ''f'',
      rs_content_digest = ''sha256:'', rs_definition = review_flow\<rparr>"

definition review_start :: flow_runtime where
  "review_start =
     \<lparr>rt_definition = review_flow,
      rt_instance = \<lparr>fi_instance_id = ''i'', fi_definition_id = ''f'',
        fi_definition_digest = ''sha256:'', fi_current_state = ''draft'',
        fi_status = InstanceActive, fi_active_attempt_id = None\<rparr>,
      rt_active_attempt = None,
      rt_events = [\<lparr>re_sequence = 0, re_event = StateEntered [] ''draft'' InstanceActive\<rparr>]\<rparr>"

lemma review_starts: "runtime_start review_resolved ''i'' = Inr (review_start, ''Write.'')"
  by code_simp

definition review_verifying :: flow_runtime where
  "review_verifying = snd (begin_or_recover_transition review_start ''a1'' ''ready'')"

lemma review_start_wf: "flow_runtime_wf review_start"
proof -
  have "flow_wf (rs_definition review_resolved)" by (simp add: review_resolved_def review_flow_wf)
  with review_starts show ?thesis by (rule runtime_start_wf)
qed

lemma review_begin_ok: "begin_ok review_start ''a1'' ''ready''"
  by (simp add: begin_ok_def review_start_def requested_ids_def trim_empty_iff is_whitespace_def
      whitespace_chars_def char_len_def byte_of_def MAX_REASON_BYTES_def)

lemma review_room: "log_room review_start"
  by (simp add: log_room_def review_start_def)

lemma review_verifying_eqs:
  "rt_active_attempt review_verifying = Some (new_attempt review_start ''a1'' ''ready'')"
  "length (rt_events review_verifying) = 3"
  "fa_attempt_id (new_attempt review_start ''a1'' ''ready'') = ''a1''"
  "map (\<lambda>t. (tc_transition_id t, tc_target t)) (fa_transitions (new_attempt review_start ''a1'' ''ready''))
     = [(''approve'', ''done''), (''revise'', ''draft''), (''$cancel'', ''$cancelled'')]"
  using begin_new_eq [OF review_start_wf _ review_begin_ok review_room]
  by (simp_all add: review_verifying_def review_start_def attempt_events_def new_attempt_def
      flow_outgoing_def flow_state_def bt_get_def review_flow_def check_snapshot_def
      cancel_transition_def CANCEL_TRANSITION_ID_def CANCELLED_STATE_ID_def)

lemma review_verifying_wf: "flow_runtime_wf review_verifying"
  unfolding review_verifying_def by (rule begin_keeps_wf [OF review_start_wf review_room])

lemma review_verifying_room: "log_room review_verifying"
  by (simp add: log_room_def review_verifying_eqs)

definition review_cancelled :: flow_runtime where
  "review_cancelled = snd (resolve_active_transition review_verifying ''a1'' OutcomeCancelled)"

lemma review_cancelled_facts:
  "flow_runtime_wf review_cancelled"
  "spent ''a1'' review_cancelled"
  "log_room (run_ops flow_step review_cancelled [BeginOrRecover ''a1'' ''again''])"
proof -
  show "flow_runtime_wf review_cancelled"
    unfolding review_cancelled_def by (rule resolve_keeps_wf [OF review_verifying_wf review_verifying_room])
  have start: "rt_active_attempt review_start = None" "length (rt_events review_start) = 1"
    "\<And>x. x \<in> set (rt_events review_start) \<Longrightarrow> re_event x = StateEntered [] ''draft'' InstanceActive"
    "fi_definition_digest (rt_instance review_start) = cf_content_digest (rt_definition review_start)"
    by (simp_all add: review_start_def review_flow_def)
  have eqs: "rt_active_attempt review_cancelled = None"
    "requested_ids (rt_events review_cancelled) = [''a1'']" "length (rt_events review_cancelled) = 5"
    by (simp_all add: review_cancelled_def review_verifying_def resolve_active_transition_def start
        begin_new_eq [OF review_start_wf start(1) review_begin_ok review_room] requested_ids_eq
        resolve_transition_def new_attempt_def attempt_events_def Let_def rejected_resolution_def
        event_requests_def)
  show "spent ''a1'' review_cancelled" by (simp add: spent_def eqs)
  show "log_room (run_ops flow_step review_cancelled [BeginOrRecover ''a1'' ''again''])"
    by (simp add: log_room_def begin_or_recover_transition_def eqs)
qed

section \<open>Properties\<close>

text \<open>
  C2. The runtime invariant. An instance started on a compiled definition satisfies, after
  any sequence of calls (whatever attempt ids, reasons and verifier outcomes they carry, and
  as long as the log is shorter than its 64-bit sequence numbers allow): its digest is the
  pinned definition's; its status is the one its current state has; the reserved attempt id
  and the active attempt agree, and the attempt captured exactly the outgoing transitions of
  the current state; events are numbered by position; no attempt id was requested twice; and
  the states the log enters form a walk in the definition from the initial to the current
  state.
\<close>

theorem flow_runtime_invariant:
  assumes "runtime_start source instance_id = Inr (rt, instructions)"
    and "flow_wf (rs_definition source)"
    and "log_room (run_ops flow_step rt ops)"
  shows "flow_runtime_wf (run_ops flow_step rt ops)"
proof -
  have "flow_inv rt" using runtime_start_wf [OF assms(1,2)] by (simp add: flow_inv_def)
  from flow.run_inv [OF this] assms(3) show ?thesis by (simp add: flow_inv_def)
qed

theorem flow_runtime_invariant_witness:
  "flow_runtime_wf (run_ops flow_step review_start [BeginOrRecover ''a1'' ''ready''])"
proof -
  have "run_ops flow_step review_start [BeginOrRecover ''a1'' ''ready''] = review_verifying"
    by (simp add: review_verifying_def)
  with flow_runtime_invariant [OF review_starts, of "[BeginOrRecover ''a1'' ''ready'']"]
    review_flow_wf review_verifying_room
  show ?thesis by (simp add: review_resolved_def)
qed



text \<open>
  C10. A late result cannot act. Once an attempt id has been requested and is no longer the
  active attempt, whatever calls follow, a result delivered under that id is refused and
  changes nothing, and a new attempt under that id is never started.
\<close>

theorem spent_attempt_is_inert:
  assumes "flow_runtime_wf rt" and "spent i rt" and "log_room (run_ops flow_step rt ops)"
  defines "rt' \<equiv> run_ops flow_step rt ops"
  shows "(\<exists>e. resolve_active_transition rt' i outcome = (Inl (InvalidRequest e), rt'))
    \<and> snd (begin_or_recover_transition rt' i reason) = rt'"
proof -
  have "spent_inv i rt" using assms(1,2) by (simp add: spent_inv_def)
  from spent.run_inv [OF this, of ops] assms(3) have sp: "spent i rt'"
    by (simp add: spent_inv_def rt'_def)
  then show ?thesis
    using resolve_other_id [of rt' i outcome]
    by (auto simp: spent_def begin_or_recover_transition_def split: option.split)
qed

theorem spent_attempt_is_inert_witness:
  "\<exists>e. resolve_active_transition (run_ops flow_step review_cancelled [BeginOrRecover ''a1'' ''again'']) ''a1''
     OutcomeCancelled = (Inl (InvalidRequest e), run_ops flow_step review_cancelled [BeginOrRecover ''a1'' ''again''])"
  using spent_attempt_is_inert [OF review_cancelled_facts, of OutcomeCancelled] by blast

text \<open>
  An undetermined condition does not block an entry: a complete answer with exactly one
  met condition enters that transition's target even when other conditions are indeterminate.
\<close>

theorem indeterminate_does_not_block:
  assumes wf: "flow_runtime_wf rt" and a: "rt_active_attempt rt = Some a" and room: "log_room rt"
    and c: "complete_results a results" and "\<exists>x \<in> set results. cr_verdict x = Indeterminate"
    and r: "filter (\<lambda>x. cr_verdict x = Met) results = [r]"
  shows "\<exists>res t. fst (resolve_active_transition rt (fa_attempt_id a) (OutcomeCompleted results)) = Inr res
    \<and> t \<in> set (fa_transitions a) \<and> tc_transition_id t = cr_transition_id r
    \<and> fr_entered_state res = Some (tc_target t)"
proof -
  obtain t where t: "find (\<lambda>t. tc_transition_id t = cr_transition_id r) (fa_transitions a) = Some t"
    using complete_results_find [OF c] filter_singleton_mem [OF r] by blast
  then have sel: "selects a (OutcomeCompleted results) t" using c r by (simp add: selects_def)
  have t': "t \<in> set (fa_transitions a)" "tc_transition_id t = cr_transition_id r"
    using t by (auto simp: find_Some_iff)
  show ?thesis
  proof (cases rule: resolve_transition_total
      [OF wf a, of "OutcomeCompleted results", case_names entered rejected])
    case (entered results' u target)
    have "u = t" by (rule selects_unique [OF entered(2) sel])
    then show ?thesis using t' by (auto simp: resolve_active_eq [OF a room entered(4)])
  next
    case rejected
    with sel show ?thesis by simp
  qed
qed

theorem indeterminate_does_not_block_witness:
  "\<exists>res. fst (resolve_active_transition review_verifying ''a1'' (OutcomeCompleted
      [\<lparr>cr_transition_id = ''approve'', cr_verdict = Met, cr_rationale = ''ok''\<rparr>,
       \<lparr>cr_transition_id = ''revise'', cr_verdict = Indeterminate, cr_rationale = ''unclear''\<rparr>,
       \<lparr>cr_transition_id = ''$cancel'', cr_verdict = NotMet, cr_rationale = ''no''\<rparr>])) = Inr res
    \<and> fr_entered_state res = Some ''done''"
proof -
  define a where "a = new_attempt review_start ''a1'' ''ready''"
  have ts: "tc_transition_id ` set (fa_transitions a) = {''approve'', ''revise'', ''$cancel''}"
    "\<And>t. t \<in> set (fa_transitions a) \<Longrightarrow> tc_transition_id t = ''approve'' \<Longrightarrow> tc_target t = ''done''"
    using review_verifying_eqs(4) [folded a_def] by (auto simp: map_eq_Cons_conv)
  define results where "results = [\<lparr>cr_transition_id = ''approve'', cr_verdict = Met, cr_rationale = ''ok''\<rparr>,
     \<lparr>cr_transition_id = ''revise'', cr_verdict = Indeterminate, cr_rationale = ''unclear''\<rparr>,
     \<lparr>cr_transition_id = ''$cancel'', cr_verdict = NotMet, cr_rationale = ''no''\<rparr>]"
  have "complete_results a results"
    by (simp add: complete_results_def results_def ts MAX_RATIONALE_BYTES_def)
  from indeterminate_does_not_block [OF review_verifying_wf review_verifying_eqs(1)
      review_verifying_room this [unfolded a_def]] ts(2)
  show ?thesis by (auto simp: results_def review_verifying_eqs(3) a_def)
qed

text \<open>
  C22. No instance is stuck. From every well-formed runtime whose instance is active, whatever
  attempt is in flight, some sequence of calls completes the instance: there is always an
  order of attempts and verifier answers that follows authored transitions to an authored
  terminal state (the log needs room for four events per transition of the graph).
\<close>

theorem flow_can_complete:
  assumes wf: "flow_runtime_wf rt" and active: "fi_status (rt_instance rt) = InstanceActive"
    and room: "length (rt_events rt) + 2 + 4 * card (authored_edges (cf_states (rt_definition rt))) \<le> 2 ^ 64"
  shows "\<exists>ops. fi_status (rt_instance (run_ops flow_step rt ops)) = InstanceCompleted"
proof -
  let ?d = "rt_definition rt" and ?s = "fi_current_state (rt_instance rt)"
  let ?E = "authored_edges (cf_states ?d)"
  have fw: "flow_wf ?d" using wf by (simp add: flow_runtime_wf_def)
  obtain st where "flow_state ?d ?s = Some st" "?s \<noteq> CANCELLED_STATE_ID"
    by (rule active_state [OF wf active])
  then obtain t tst where t: "(?s, t) \<in> ?E\<^sup>*" "t \<noteq> CANCELLED_STATE_ID"
    "flow_state ?d t = Some tst" "cs_terminal tst"
    using flow_wf_reaches_terminal [OF fw] by blast
  from t(1) obtain n where n: "n \<le> card ?E" "(?s, t) \<in> ?E ^^ n"
    using rtrancl_finite_eq_relpow [OF finite_authored_edges] by blast
  obtain ops where ops: "idle_at (run_ops flow_step rt ops) ?s"
    "length (rt_events (run_ops flow_step rt ops)) \<le> length (rt_events rt) + 2"
    using cancel_active [OF wf] room by (auto simp: log_room_def)
  have path: "(?s, t) \<in> authored_edges (cf_states (rt_definition (run_ops flow_step rt ops))) ^^ n"
    using n(2) by (simp add: run_definition)
  have room': "length (rt_events (run_ops flow_step rt ops)) + 4 * n \<le> 2 ^ 64"
    using ops(2) n(1) room by linarith
  from follow_path [OF ops(1) path room'] obtain ops'
    where idle: "idle_at (run_ops flow_step rt (ops @ ops')) t" by auto
  have "status_at ?d t = Some (fi_status (rt_instance (run_ops flow_step rt (ops @ ops'))))"
    using idle run_definition [of rt "ops @ ops'"] by (auto simp: idle_at_def flow_runtime_wf_def)
  then have "fi_status (rt_instance (run_ops flow_step rt (ops @ ops'))) = InstanceCompleted"
    using t(2-4) by (simp add: status_at_def entered_status_def)
  then show ?thesis by blast
qed

theorem flow_can_complete_witness:
  "\<exists>ops. fi_status (rt_instance (run_ops flow_step review_start ops)) = InstanceCompleted"
proof -
  have "authored_edges (cf_states review_flow) \<subseteq> {(''draft'', ''done''), (''draft'', ''draft'')}"
    by (auto simp: authored_edges_def review_flow_def bt_get_def authored_targets_def
        cancel_transition_def split: if_splits)
  then have "card (authored_edges (cf_states review_flow)) \<le> card {(''draft'', ''done''), (''draft'', ''draft'')}"
    by (intro card_mono) auto
  then show ?thesis
    using flow_can_complete [OF review_start_wf] by (simp add: review_start_def)
qed

text \<open>
  Verifier failure texts are bounded: what is recorded is valid UTF-8 whenever the message
  is, at most 32 KiB and the three bytes of the ellipsis, and the message itself when it fits.
\<close>

theorem bounded_message_bound:
  assumes "utf8_valid message"
  shows "utf8_valid (bounded_message message)
    \<and> length (bounded_message message) \<le> MAX_RATIONALE_BYTES + 3
    \<and> (length message \<le> MAX_RATIONALE_BYTES \<longrightarrow> bounded_message message = message)
    \<and> (length message > MAX_RATIONALE_BYTES \<longrightarrow>
         (\<exists>p. prefix p message \<and> bounded_message message = p @ ellipsis))"
  using assms length_truncate_at_boundary [of MAX_RATIONALE_BYTES message]
    utf8_valid_truncate [of message MAX_RATIONALE_BYTES]
  by (auto simp: bounded_message_def utf8_valid_append truncate_at_boundary_def
      intro: take_is_prefix)

theorem bounded_message_bound_witness:
  "bounded_message ''timeout'' = ''timeout''"
proof -
  have "utf8_valid ''timeout''" by code_simp
  from bounded_message_bound [OF this] show ?thesis by (simp add: MAX_RATIONALE_BYTES_def)
qed

end
