(* ===== verification/Rust_Path.thy ===== *)
theory Rust_Path
  imports Rust_Std "HOL-Library.Sublist"
begin

text \<open>
  The parts of \<open>std::path\<close> and \<open>std::io\<close> the path authority uses. A \<open>Path\<close> is the list
  \<open>components()\<close> yields (Unix: no prefix component); comparison, \<open>starts_with\<close> and
  \<open>parent\<close> work on components in Rust too.
\<close>

section \<open>Paths\<close>

datatype component = RootDir | CurDir | ParentDir | Normal string

type_synonym path = "component list"

definition is_absolute :: "path \<Rightarrow> bool" where
  "is_absolute p \<longleftrightarrow> (case p of RootDir # _ \<Rightarrow> True | _ \<Rightarrow> False)"

definition path_starts_with :: "path \<Rightarrow> path \<Rightarrow> bool" where
  "path_starts_with p base \<longleftrightarrow> prefix base p"

definition path_parent :: "path \<Rightarrow> path option" where
  "path_parent p = (if p = [] \<or> last p = RootDir then None else Some (butlast p))"

definition file_name :: "path \<Rightarrow> string option" where
  "file_name p = (if p = [] then None else case last p of Normal n \<Rightarrow> Some n | _ \<Rightarrow> None)"

text \<open>\<open>PathBuf::push\<close> of a path: an absolute argument replaces the buffer.\<close>

definition path_push :: "path \<Rightarrow> path \<Rightarrow> path" where
  "path_push p q = (if is_absolute q then q else p @ q)"

text \<open>\<open>PathBuf::pop\<close>: whether there was a parent, and the buffer afterwards.\<close>

definition path_pop :: "path \<Rightarrow> bool \<times> path" where
  "path_pop p = (case path_parent p of None \<Rightarrow> (False, p) | Some q \<Rightarrow> (True, q))"

text \<open>The displayed form of a path.\<close>

fun join_components :: "path \<Rightarrow> string" where
  "join_components [] = []"
| "join_components [c] =
     (case c of RootDir \<Rightarrow> ''/'' | CurDir \<Rightarrow> ''.'' | ParentDir \<Rightarrow> ''..'' | Normal n \<Rightarrow> n)"
| "join_components (RootDir # c # cs) = ''/'' @ join_components (c # cs)"
| "join_components (CurDir # c # cs) = ''./'' @ join_components (c # cs)"
| "join_components (ParentDir # c # cs) = ''../'' @ join_components (c # cs)"
| "join_components (Normal n # c # cs) = n @ ''/'' @ join_components (c # cs)"

section \<open>Normal paths\<close>

text \<open>An absolute path with ordinary components only.\<close>

definition normal_path :: "path \<Rightarrow> bool" where
  "normal_path p \<longleftrightarrow> (\<exists>ns. p = RootDir # map Normal ns)"

lemma normal_path_code [code]:
  "normal_path p \<longleftrightarrow> (case p of RootDir # cs \<Rightarrow> list_all (\<lambda>c. case c of Normal _ \<Rightarrow> True | _ \<Rightarrow> False) cs
                        | _ \<Rightarrow> False)"
proof -
  have "list_all (\<lambda>c. case c of Normal _ \<Rightarrow> True | _ \<Rightarrow> False) cs \<longleftrightarrow> (\<exists>ns. cs = map Normal ns)" for cs
    by (induction cs) (auto simp: Cons_eq_map_conv split: component.splits)
  then show ?thesis by (auto simp: normal_path_def split: list.split component.split)
qed

lemma normal_path_absolute: "normal_path p \<Longrightarrow> is_absolute p"
  by (auto simp: normal_path_def is_absolute_def)

lemma normal_path_root [simp]: "normal_path [RootDir]"
  by (auto simp: normal_path_def)

lemma normal_path_snoc [simp]: "p \<noteq> [] \<Longrightarrow> normal_path (p @ [Normal n]) \<longleftrightarrow> normal_path p"
  by (cases p) (auto simp: normal_path_def append_eq_map_conv Cons_eq_map_conv)

lemma normal_path_nonempty: "normal_path p \<Longrightarrow> p \<noteq> []"
  by (auto simp: normal_path_def)

text \<open>The shape of a normal path's parent.\<close>

lemma path_parent_Some_iff:
  "normal_path p \<Longrightarrow> path_parent p = Some q \<longleftrightarrow> normal_path q \<and> (\<exists>n. p = q @ [Normal n])"
proof -
  assume "normal_path p"
  then obtain ns where ns: "p = RootDir # map Normal ns" by (auto simp: normal_path_def)
  show ?thesis
  proof (cases ns rule: rev_cases)
    case Nil
    have "q = [RootDir] \<or> \<not> normal_path q \<or> p \<noteq> q @ [Normal n]" for n
      by (auto simp: ns Nil)
    then show ?thesis
      by (auto simp: path_parent_def ns Nil normal_path_def)
  next
    case (snoc ms m)
    then show ?thesis
      by (auto simp: path_parent_def ns normal_path_def)
  qed
qed

lemma path_parent_prefix: "path_parent p = Some q \<Longrightarrow> prefix q p"
  by (auto simp: path_parent_def split: if_splits intro: prefixeq_butlast)

lemma path_parent_length: "path_parent p = Some q \<Longrightarrow> length p = Suc (length q)"
  by (auto simp: path_parent_def split: if_splits)

section \<open>Regions\<close>

text \<open>
  The normal paths a rule claims: the subtree under its target, or the target and its direct
  children.
\<close>

definition region :: "bool \<Rightarrow> path \<Rightarrow> path set" where
  "region recursive target =
     (if recursive then {p. normal_path p \<and> prefix target p}
      else {p. normal_path p \<and> (p = target \<or> path_parent p = Some target)})"

lemma mem_region_recursive: "p \<in> region True t \<longleftrightarrow> normal_path p \<and> prefix t p"
  by (simp add: region_def)

lemma mem_region_flat:
  "p \<in> region False t \<longleftrightarrow> normal_path p \<and> (p = t \<or> (normal_path t \<and> (\<exists>n. p = t @ [Normal n])))"
  by (auto simp: region_def path_parent_Some_iff)

lemma target_in_region [simp]: "normal_path t \<Longrightarrow> t \<in> region r t"
  by (cases r) (auto simp: region_def)

lemma child_in_region [simp]: "normal_path t \<Longrightarrow> t @ [Normal n] \<in> region r t"
  by (cases r) (auto simp: mem_region_recursive mem_region_flat normal_path_nonempty)

lemma region_flat_subset: "region False t \<subseteq> region True t"
  by (auto simp: mem_region_recursive mem_region_flat)

lemma region_subset_iff:
  assumes t: "normal_path t" and u: "normal_path u"
  shows "region ru u \<subseteq> region rt t \<longleftrightarrow> (if rt then prefix t u else \<not> ru \<and> u = t)"
proof (cases rt)
  case True
  have "region ru u \<subseteq> region True t" if "prefix t u"
    using that region_flat_subset [of u]
    by (cases ru) (auto simp: mem_region_recursive mem_region_flat intro: prefix_order.trans)
  moreover have "prefix t u" if "region ru u \<subseteq> region True t"
    using that target_in_region [OF u, of ru] by (auto simp: mem_region_recursive)
  ultimately show ?thesis using True by auto
next
  case False
  have "\<not> ru \<and> u = t" if sub: "region ru u \<subseteq> region False t"
  proof -
    have "u \<in> region False t" "u @ [Normal []] \<in> region False t"
      using sub u by (auto intro: target_in_region child_in_region)
    then have "u = t" by (auto simp: mem_region_flat)
    moreover have "u @ [Normal [], Normal []] \<notin> region False u"
      by (auto simp: mem_region_flat)
    moreover have "u @ [Normal [], Normal []] \<in> region True u"
      using u normal_path_snoc [of "u @ [Normal []]" "[]"]
      by (simp add: mem_region_recursive normal_path_nonempty)
    ultimately show ?thesis using sub by (cases ru) auto
  qed
  with False show ?thesis by auto
qed

lemma region_meets_iff:
  assumes a: "normal_path a" and b: "normal_path b"
  shows "region ra a \<inter> region rb b \<noteq> {} \<longleftrightarrow>
    (if ra \<and> rb then prefix b a \<or> prefix a b
     else if ra then prefix a b \<or> path_parent a = Some b
     else if rb then prefix b a \<or> path_parent b = Some a
     else a = b \<or> path_parent a = Some b \<or> path_parent b = Some a)"
proof -
  have rr: "region True a \<inter> region True b \<noteq> {} \<longleftrightarrow> prefix b a \<or> prefix a b"
  proof
    assume "region True a \<inter> region True b \<noteq> {}"
    then obtain p where "prefix a p" "prefix b p" by (auto simp: mem_region_recursive)
    then show "prefix b a \<or> prefix a b" by (auto dest: prefix_same_cases)
  next
    assume "prefix b a \<or> prefix a b"
    then show "region True a \<inter> region True b \<noteq> {}"
      using a b by (auto simp: mem_region_recursive disjoint_iff)
  qed
  have rf: "region True x \<inter> region False y \<noteq> {} \<longleftrightarrow> prefix x y \<or> path_parent x = Some y"
    if x: "normal_path x" and y: "normal_path y" for x y
  proof
    assume "region True x \<inter> region False y \<noteq> {}"
    then obtain p where "p \<in> region True x" "p \<in> region False y" by blast
    then have "prefix x p" "p = y \<or> (\<exists>n. p = y @ [Normal n])"
      by (simp_all add: mem_region_recursive mem_region_flat) blast
    then show "prefix x y \<or> path_parent x = Some y"
      using x y by (auto simp: path_parent_Some_iff)
  next
    assume "prefix x y \<or> path_parent x = Some y"
    then have "y \<in> region True x \<or> x \<in> region False y"
      using x y by (auto simp: mem_region_recursive region_def)
    then show "region True x \<inter> region False y \<noteq> {}"
      using x y target_in_region by blast
  qed
  have ff: "region False a \<inter> region False b \<noteq> {} \<longleftrightarrow>
      a = b \<or> path_parent a = Some b \<or> path_parent b = Some a"
  proof
    assume "region False a \<inter> region False b \<noteq> {}"
    then show "a = b \<or> path_parent a = Some b \<or> path_parent b = Some a"
      using a b by (auto simp: mem_region_flat path_parent_Some_iff)
  next
    assume "a = b \<or> path_parent a = Some b \<or> path_parent b = Some a"
    then have "a \<in> region False b \<or> b \<in> region False a"
      using a b by (auto simp: region_def)
    then show "region False a \<inter> region False b \<noteq> {}"
      using a b target_in_region by blast
  qed
  show ?thesis
    using rr ff rf [OF a b] rf [OF b a] by (cases ra; cases rb) (auto simp: Int_commute)
qed

section \<open>Rules that denote regions\<close>

text \<open>
  The contract between code that compares path rules by their targets and code that reasons
  about the paths they claim: containment of rules is containment of regions, and rules
  overlap exactly when their regions share a path.
\<close>

locale region_rules =
  fixes recursive :: "'r \<Rightarrow> bool"
    and target :: "'r \<Rightarrow> path"
    and contains :: "'r \<Rightarrow> 'r \<Rightarrow> bool"
    and overlaps :: "'r \<Rightarrow> 'r \<Rightarrow> bool"
  assumes contains_iff:
      "normal_path (target a) \<Longrightarrow> normal_path (target b) \<Longrightarrow>
         contains a b \<longleftrightarrow> region (recursive b) (target b) \<subseteq> region (recursive a) (target a)"
    and overlaps_iff:
      "normal_path (target a) \<Longrightarrow> normal_path (target b) \<Longrightarrow>
         overlaps a b \<longleftrightarrow> region (recursive a) (target a) \<inter> region (recursive b) (target b) \<noteq> {}"
begin

lemma contains_refl: "normal_path (target a) \<Longrightarrow> contains a a"
  by (simp add: contains_iff)

lemma contains_trans:
  "normal_path (target a) \<Longrightarrow> normal_path (target b) \<Longrightarrow> normal_path (target c) \<Longrightarrow>
     contains a b \<Longrightarrow> contains b c \<Longrightarrow> contains a c"
  by (auto simp: contains_iff)

lemma overlaps_sym:
  "normal_path (target a) \<Longrightarrow> normal_path (target b) \<Longrightarrow> overlaps a b \<longleftrightarrow> overlaps b a"
  by (auto simp: overlaps_iff)

lemma overlaps_refl: "normal_path (target a) \<Longrightarrow> overlaps a a"
  using target_in_region [of "target a" "recursive a"] by (auto simp: overlaps_iff simp del: target_in_region)

lemma contains_overlaps:
  "normal_path (target a) \<Longrightarrow> normal_path (target b) \<Longrightarrow> normal_path (target c) \<Longrightarrow>
     contains a b \<Longrightarrow> overlaps b c \<Longrightarrow> overlaps a c"
  by (auto simp: contains_iff overlaps_iff)

lemma contained_disjoint:
  "normal_path (target a) \<Longrightarrow> normal_path (target b) \<Longrightarrow> normal_path (target c) \<Longrightarrow>
   normal_path (target d) \<Longrightarrow>
     contains a b \<Longrightarrow> contains c d \<Longrightarrow> \<not> overlaps a c \<Longrightarrow> \<not> overlaps b d"
  by (auto simp: contains_iff overlaps_iff)

end

end
