(* ===== verification/Manifest_Scope.thy ===== *)
theory Manifest_Scope
  imports Rust_Path Step_System "HOL-Library.Multiset"
begin

text \<open>
  Path authority, \<open>crates/manifest/src/scope.rs\<close> (\<open>Scope\<close>, \<open>DelegationScope\<close>,
  \<open>SharedScope\<close>) over the rule types of \<open>crates/protocol/src/lib.rs\<close>. The two calls on the
  filesystem, \<open>canonicalize\<close> and the symlink test of \<open>symlink_metadata\<close>, are a parameter.
\<close>

section \<open>Model\<close>

subsection \<open>Permissions and rules\<close>

datatype permission = Read | Write

instantiation permission :: linorder
begin

definition less_eq_permission :: "permission \<Rightarrow> permission \<Rightarrow> bool" where
  "p \<le> q \<longleftrightarrow> p = Read \<or> q = Write"

definition less_permission :: "permission \<Rightarrow> permission \<Rightarrow> bool" where
  "p < q \<longleftrightarrow> p = Read \<and> q = Write"

instance
proof
  fix x y z :: permission
  show "x < y \<longleftrightarrow> x \<le> y \<and> \<not> y \<le> x"
    by (cases x; cases y) (simp_all add: less_eq_permission_def less_permission_def)
  show "x \<le> x" by (cases x) (simp_all add: less_eq_permission_def)
  show "x \<le> y \<Longrightarrow> y \<le> z \<Longrightarrow> x \<le> z" by (cases y) (simp_all add: less_eq_permission_def)
  show "x \<le> y \<Longrightarrow> y \<le> x \<Longrightarrow> x = y"
    by (cases x; cases y) (simp_all add: less_eq_permission_def)
  show "x \<le> y \<or> y \<le> x" by (cases x) (simp_all add: less_eq_permission_def)
qed

end

lemma permission_order [simp]: "Read \<le> p" "p \<le> Write" "Write \<le> p \<longleftrightarrow> p = Write" "p \<le> Read \<longleftrightarrow> p = Read"
  by (auto simp: less_eq_permission_def)

lemma permission_max_min [simp]:
  "max p Write = Write" "max Write p = Write" "max p Read = p" "max Read p = p"
  "min p Read = Read" "min Read p = Read" "min p Write = p" "min Write p = p"
  by (simp_all add: max_def min_def)

datatype symlink_policy = Resolved | Logical

definition policy_le :: "symlink_policy \<Rightarrow> symlink_policy \<Rightarrow> bool" where
  "policy_le p q \<longleftrightarrow> p = Resolved \<or> q = Logical"

record scope_rule =
  sr_target :: path
  sr_permission :: permission
  sr_recursive :: bool
  sr_symlink_policy :: symlink_policy

record scope_config =
  sc_allow :: "scope_rule list"
  sc_deny :: "scope_rule list"

record resolved_rule =
  rr_logical_target :: path
  rr_resolved_target :: path
  rr_permission :: permission
  rr_recursive :: bool
  rr_symlink_policy :: symlink_policy

record scope =
  s_allow :: "resolved_rule list"
  s_deny :: "resolved_rule list"

datatype io_kind =
    NotFound | InvalidInput | AlreadyExists | PermissionDenied | NotADirectory | Unsupported
  | Interrupted | TimedOut | OtherKind | UnlistedKind nat

datatype io_error = IoError (io_kind: io_kind) string

datatype scope_error = EmptyAllow | RelativeTarget path | ResolveTarget path io_error

text \<open>The filesystem as the code sees it.\<close>

record file_system =
  fs_canonicalize :: "path \<Rightarrow> io_error + path"
  fs_is_symlink :: "path \<Rightarrow> bool"

subsection \<open>Normalisation and resolution\<close>

text \<open>The loop of \<open>normalize_path\<close>, with the buffer it fills.\<close>

fun normalize_components :: "path \<Rightarrow> path \<Rightarrow> path option" where
  "normalize_components normalized [] = (if is_absolute normalized then Some normalized else None)"
| "normalize_components normalized (RootDir # cs) =
     normalize_components (path_push normalized [RootDir]) cs"
| "normalize_components normalized (CurDir # cs) = normalize_components normalized cs"
| "normalize_components normalized (ParentDir # cs) =
     (case path_pop normalized of
        (False, _) \<Rightarrow> None
      | (True, popped) \<Rightarrow> normalize_components popped cs)"
| "normalize_components normalized (Normal part # cs) =
     normalize_components (path_push normalized [Normal part]) cs"

definition normalize_path :: "path \<Rightarrow> path option" where
  "normalize_path p = (if \<not> is_absolute p then None else normalize_components [] p)"

text \<open>The loop of \<open>resolve_path\<close>: the cursor moves to its parent until it exists.\<close>

function resolve_path_from :: "file_system \<Rightarrow> path \<Rightarrow> string list \<Rightarrow> io_error + path" where
  "resolve_path_from fs cursor missing =
     (case fs_canonicalize fs cursor of
        Inr resolved \<Rightarrow>
          (case normalize_path
                  (fold (\<lambda>component buf. path_push buf [Normal component]) (rev missing) resolved) of
             Some normalized \<Rightarrow> Inr normalized
           | None \<Rightarrow> Inl (IoError InvalidInput
                            ''resolved target is not an absolute normalized path''))
      | Inl error \<Rightarrow>
          if io_kind error = NotFound then
            if fs_is_symlink fs cursor then Inl error
            else case file_name cursor of
                None \<Rightarrow> Inl error
              | Some name \<Rightarrow>
                  (case path_parent cursor of
                     None \<Rightarrow> Inl (IoError NotFound ''scope target has no existing ancestor'')
                   | Some parent \<Rightarrow> resolve_path_from fs parent (missing @ [name]))
          else Inl error)"
  by pat_completeness auto
termination
  by (relation "measure (\<lambda>(fs, cursor, missing). length cursor)") (auto dest: path_parent_length)

declare resolve_path_from.simps [simp del]

definition resolve_path :: "file_system \<Rightarrow> path \<Rightarrow> io_error + path" where
  "resolve_path fs p = resolve_path_from fs p []"

definition resolve_rule :: "file_system \<Rightarrow> scope_rule \<Rightarrow> scope_error + resolved_rule" where
  "resolve_rule fs rule =
     (if \<not> is_absolute (sr_target rule) then Inl (RelativeTarget (sr_target rule))
      else case normalize_path (sr_target rule) of
          None \<Rightarrow> Inl (ResolveTarget (sr_target rule)
                         (IoError OtherKind ''could not absolutize target''))
        | Some logical_target \<Rightarrow>
            and_then (map_err (ResolveTarget (sr_target rule)) (resolve_path fs logical_target))
              (\<lambda>resolved_target.
                 Inr \<lparr>rr_logical_target = logical_target, rr_resolved_target = resolved_target,
                      rr_permission = sr_permission rule, rr_recursive = sr_recursive rule,
                      rr_symlink_policy = sr_symlink_policy rule\<rparr>))"

subsection \<open>Comparing rules\<close>

fun permission_covers :: "permission \<Rightarrow> permission \<Rightarrow> bool" where
  "permission_covers Write Write = True"
| "permission_covers Write Read = True"
| "permission_covers Read Read = True"
| "permission_covers Read Write = False"

fun permission_denies_requested :: "permission \<Rightarrow> permission \<Rightarrow> bool" where
  "permission_denies_requested Write Write = True"
| "permission_denies_requested Read Read = True"
| "permission_denies_requested Read Write = True"
| "permission_denies_requested Write Read = False"

datatype rule_identity = LogicalIdentity | ResolvedIdentity

fun rule_target :: "resolved_rule \<Rightarrow> rule_identity \<Rightarrow> path" where
  "rule_target rule LogicalIdentity = rr_logical_target rule"
| "rule_target rule ResolvedIdentity = rr_resolved_target rule"

definition rule_path_set_contains ::
  "rule_identity \<Rightarrow> resolved_rule \<Rightarrow> resolved_rule \<Rightarrow> bool" where
  "rule_path_set_contains identity available requested =
     (let available_target = rule_target available identity;
          requested_target = rule_target requested identity
      in if rr_recursive available then path_starts_with requested_target available_target
         else if rr_recursive requested then False
         else requested_target = available_target)"

definition direct_child :: "path \<Rightarrow> path \<Rightarrow> bool" where
  "direct_child child parent \<longleftrightarrow> path_parent child = Some parent"

definition recursive_and_non_recursive_sets_overlap :: "path \<Rightarrow> path \<Rightarrow> bool" where
  "recursive_and_non_recursive_sets_overlap recursive_target non_recursive_target \<longleftrightarrow>
     path_starts_with non_recursive_target recursive_target
     \<or> recursive_target = non_recursive_target
     \<or> direct_child recursive_target non_recursive_target"

definition rule_path_sets_overlap ::
  "rule_identity \<Rightarrow> resolved_rule \<Rightarrow> resolved_rule \<Rightarrow> bool" where
  "rule_path_sets_overlap identity left right =
     (let left_target = rule_target left identity;
          right_target = rule_target right identity
      in case (rr_recursive left, rr_recursive right) of
           (True, True) \<Rightarrow> path_starts_with left_target right_target
                           \<or> path_starts_with right_target left_target
         | (True, False) \<Rightarrow> recursive_and_non_recursive_sets_overlap left_target right_target
         | (False, True) \<Rightarrow> recursive_and_non_recursive_sets_overlap right_target left_target
         | (False, False) \<Rightarrow> left_target = right_target \<or> direct_child left_target right_target
                             \<or> direct_child right_target left_target)"

definition policy_identity :: "symlink_policy \<Rightarrow> rule_identity" where
  "policy_identity p = (case p of Resolved \<Rightarrow> ResolvedIdentity | Logical \<Rightarrow> LogicalIdentity)"

definition rule_covers :: "resolved_rule \<Rightarrow> resolved_rule \<Rightarrow> bool" where
  "rule_covers available requested \<longleftrightarrow>
     permission_covers (rr_permission available) (rr_permission requested)
     \<and> policy_le (rr_symlink_policy requested) (rr_symlink_policy available)
     \<and> rule_path_set_contains (policy_identity (rr_symlink_policy available)) available requested"

definition denial_overlaps_requested :: "resolved_rule \<Rightarrow> resolved_rule \<Rightarrow> bool" where
  "denial_overlaps_requested deny requested \<longleftrightarrow>
     permission_denies_requested (rr_permission deny) (rr_permission requested)
     \<and> (rule_path_sets_overlap LogicalIdentity deny requested
        \<or> rule_path_sets_overlap ResolvedIdentity deny requested)"

definition rule_matches :: "resolved_rule \<Rightarrow> path \<Rightarrow> symlink_policy \<Rightarrow> bool" where
  "rule_matches rule p identity =
     (let target = (case identity of Resolved \<Rightarrow> rr_resolved_target rule
                                   | Logical \<Rightarrow> rr_logical_target rule)
      in if rr_recursive rule then path_starts_with p target
         else p = target \<or> path_parent p = Some target)"

subsection \<open>Scopes\<close>

definition scope_empty :: scope where
  "scope_empty = \<lparr>s_allow = [], s_deny = []\<rparr>"

definition resolve_rules :: "file_system \<Rightarrow> scope_rule list \<Rightarrow> scope_error + resolved_rule list" where
  "resolve_rules fs rules = collect_results (resolve_rule fs) rules"

text \<open>\<open>DelegationScope::from_config\<close>; an empty allow list is accepted.\<close>

definition delegation_from_config :: "file_system \<Rightarrow> scope_config \<Rightarrow> scope_error + scope" where
  "delegation_from_config fs config =
     and_then (resolve_rules fs (sc_allow config)) (\<lambda>allow.
       and_then (resolve_rules fs (sc_deny config)) (\<lambda>deny.
         Inr \<lparr>s_allow = allow, s_deny = deny\<rparr>))"

definition delegation_is_empty :: "scope \<Rightarrow> bool" where
  "delegation_is_empty d \<longleftrightarrow> s_allow d = []"

text \<open>\<open>Scope::from_config\<close>\<close>

definition scope_from_config :: "file_system \<Rightarrow> scope_config \<Rightarrow> scope_error + scope" where
  "scope_from_config fs config =
     (if sc_allow config = [] then Inl EmptyAllow
      else
        and_then (resolve_rules fs (sc_allow config)) (\<lambda>allow.
          and_then (resolve_rules fs (sc_deny config)) (\<lambda>deny.
            Inr \<lparr>s_allow = allow, s_deny = deny\<rparr>)))"

definition scope_writable :: "file_system \<Rightarrow> path \<Rightarrow> io_error + scope" where
  "scope_writable fs root =
     (case normalize_path root of
        None \<Rightarrow> Inl (IoError InvalidInput
                       ''scope root must be an absolute path without root traversal'')
      | Some root \<Rightarrow>
          and_then (resolve_path fs root) (\<lambda>resolved_root.
            Inr \<lparr>s_allow = [\<lparr>rr_logical_target = root, rr_resolved_target = resolved_root,
                             rr_permission = Write, rr_recursive = True,
                             rr_symlink_policy = Resolved\<rparr>],
                 s_deny = []\<rparr>))"

definition scope_resolved_target :: "file_system \<Rightarrow> scope_rule \<Rightarrow> scope_error + path" where
  "scope_resolved_target fs rule =
     and_then (resolve_rule fs rule) (\<lambda>r.
       Inr (case rr_symlink_policy r of Resolved \<Rightarrow> rr_resolved_target r
                                      | Logical \<Rightarrow> rr_logical_target r))"

text \<open>\<open>allows_rule\<close>, of \<open>Scope\<close> and of \<open>DelegationScope\<close> alike.\<close>

definition allows_rule :: "file_system \<Rightarrow> scope \<Rightarrow> scope_rule \<Rightarrow> scope_error + bool" where
  "allows_rule fs sc rule =
     and_then (resolve_rule fs rule) (\<lambda>requested.
       if \<not> (\<exists>candidate \<in> set (s_allow sc). rule_covers candidate requested) then Inr False
       else Inr (\<not> (\<exists>deny \<in> set (s_deny sc). denial_overlaps_requested deny requested)))"

text \<open>The two folds of \<open>permission_at_paths\<close>.\<close>

definition allow_fold :: "path \<Rightarrow> path \<Rightarrow> resolved_rule list \<Rightarrow> permission option" where
  "allow_fold logical resolved rules =
     fold (\<lambda>rule effective.
        let candidate = (case rr_symlink_policy rule of Resolved \<Rightarrow> resolved | Logical \<Rightarrow> logical) in
        if rule_matches rule candidate (rr_symlink_policy rule)
        then Some (case effective of None \<Rightarrow> rr_permission rule
                                   | Some cur \<Rightarrow> max cur (rr_permission rule))
        else effective) rules None"

definition deny_fold :: "path \<Rightarrow> path \<Rightarrow> resolved_rule list \<Rightarrow> permission option" where
  "deny_fold logical resolved rules =
     fold (\<lambda>rule min_deny.
        if rule_matches rule logical Logical \<or> rule_matches rule resolved Resolved
        then Some (case min_deny of None \<Rightarrow> rr_permission rule
                                  | Some cur \<Rightarrow> min cur (rr_permission rule))
        else min_deny) rules None"

definition permission_at_paths :: "scope \<Rightarrow> path \<Rightarrow> path \<Rightarrow> permission option" where
  "permission_at_paths sc logical resolved =
     (case (normalize_path logical, normalize_path resolved) of
        (Some logical, Some resolved) \<Rightarrow>
          (case allow_fold logical resolved (s_allow sc) of
             None \<Rightarrow> None
           | Some effective \<Rightarrow>
               (case deny_fold logical resolved (s_deny sc) of
                  None \<Rightarrow> Some effective
                | Some Read \<Rightarrow> None
                | Some Write \<Rightarrow> Some (min effective Read)))
      | _ \<Rightarrow> None)"

definition permission_at :: "file_system \<Rightarrow> scope \<Rightarrow> path \<Rightarrow> permission option" where
  "permission_at fs sc p =
     (case normalize_path p of
        None \<Rightarrow> None
      | Some logical \<Rightarrow>
          (case resolve_path fs logical of
             Inl _ \<Rightarrow> None
           | Inr resolved \<Rightarrow> permission_at_paths sc logical resolved))"

definition is_readable :: "file_system \<Rightarrow> scope \<Rightarrow> path \<Rightarrow> bool" where
  "is_readable fs sc p \<longleftrightarrow> permission_at fs sc p \<in> {Some Read, Some Write}"

definition is_writable :: "file_system \<Rightarrow> scope \<Rightarrow> path \<Rightarrow> bool" where
  "is_writable fs sc p \<longleftrightarrow> permission_at fs sc p = Some Write"

definition readable_paths :: "scope \<Rightarrow> path list" where
  "readable_paths sc = map rr_logical_target (s_allow sc)"

definition writable_paths :: "scope \<Rightarrow> path list" where
  "writable_paths sc = map rr_logical_target (filter (\<lambda>r. rr_permission r = Write) (s_allow sc))"

definition export_rule :: "resolved_rule \<Rightarrow> scope_rule" where
  "export_rule r =
     \<lparr>sr_target = rr_logical_target r, sr_permission = rr_permission r,
      sr_recursive = rr_recursive r, sr_symlink_policy = rr_symlink_policy r\<rparr>"

definition allow_rules :: "scope \<Rightarrow> scope_rule list" where
  "allow_rules sc = map export_rule (s_allow sc)"

definition deny_rules :: "scope \<Rightarrow> scope_rule list" where
  "deny_rules sc = map export_rule (s_deny sc)"

definition with_added_allow_rules ::
  "file_system \<Rightarrow> scope_rule list \<Rightarrow> scope \<Rightarrow> scope_error + scope" where
  "with_added_allow_rules fs extra_allow sc =
     scope_from_config fs \<lparr>sc_allow = allow_rules sc @ extra_allow, sc_deny = deny_rules sc\<rparr>"

definition with_added_deny_rules ::
  "file_system \<Rightarrow> scope_rule list \<Rightarrow> scope \<Rightarrow> scope_error + scope" where
  "with_added_deny_rules fs extra_deny sc =
     scope_from_config fs \<lparr>sc_allow = allow_rules sc, sc_deny = deny_rules sc @ extra_deny\<rparr>"

fun remove_rules ::
  "file_system \<Rightarrow> resolved_rule list \<Rightarrow> scope_rule list \<Rightarrow> scope_error + resolved_rule list" where
  "remove_rules fs deny [] = Inr deny"
| "remove_rules fs deny (rule # rules) =
     and_then (resolve_rule fs rule) (\<lambda>resolved.
       remove_rules fs
         (case position (\<lambda>existing. existing = resolved) deny of
            Some idx \<Rightarrow> remove_at idx deny
          | None \<Rightarrow> deny) rules)"

definition with_removed_deny_rules ::
  "file_system \<Rightarrow> scope_rule list \<Rightarrow> scope \<Rightarrow> scope_error + scope" where
  "with_removed_deny_rules fs remove_deny sc =
     and_then (remove_rules fs (s_deny sc) remove_deny) (\<lambda>deny.
       Inr \<lparr>s_allow = s_allow sc, s_deny = deny\<rparr>)"

definition push_rule :: "string \<Rightarrow> resolved_rule \<Rightarrow> string" where
  "push_rule out rule =
     out @ ''  - '' @ join_components (rr_logical_target rule)
     @ (if rr_symlink_policy rule = Logical then '' [logical-symlinks]'' else [])
     @ (if \<not> rr_recursive rule then '' [non-recursive]'' else []) @ [CHR 0x0A]"

definition scope_summary :: "scope \<Rightarrow> string" where
  "scope_summary sc =
     (let out = (if s_allow sc \<noteq> []
                 then foldl push_rule (''Readable:'' @ [CHR 0x0A]) (s_allow sc) else []);
          writable = filter (\<lambda>r. rr_permission r = Write) (s_allow sc);
          out = (if writable \<noteq> []
                 then foldl push_rule (out @ ''Writable:'' @ [CHR 0x0A]) writable else out)
      in if out \<noteq> [] \<and> last out = CHR 0x0A then butlast out else out)"

subsection \<open>The shared scope\<close>

text \<open>
  \<open>SharedScope::update\<close> under its write lock: the derived scope replaces the current one, an
  error leaves it. The updates the system makes are \<open>scope_op\<close>.
\<close>

definition shared_update ::
  "(scope \<Rightarrow> scope_error + scope) \<Rightarrow> scope \<Rightarrow> (scope_error + unit) \<times> scope" where
  "shared_update f current =
     (case f current of Inl e \<Rightarrow> (Inl e, current) | Inr new \<Rightarrow> (Inr (), new))"

datatype scope_op =
    AddAllow "scope_rule list" | AddDeny "scope_rule list" | RemoveDeny "scope_rule list"

fun scope_step :: "file_system \<Rightarrow> scope \<Rightarrow> scope_op \<Rightarrow> scope" where
  "scope_step fs sc (AddAllow rules) = snd (shared_update (with_added_allow_rules fs rules) sc)"
| "scope_step fs sc (AddDeny rules) = snd (shared_update (with_added_deny_rules fs rules) sc)"
| "scope_step fs sc (RemoveDeny rules) = snd (shared_update (with_removed_deny_rules fs rules) sc)"

end
