(* ===== verification/Scope_Authority.thy ===== *)
theory Scope_Authority
  imports Manifest_Scope
begin

text \<open>
  Correctness of the path authority: rule comparison is exact on the paths rules claim, the
  effective permission is allow minus deny, delegation never grants more than the scope has,
  and dynamic changes to the deny layer are undone exactly.
\<close>

section \<open>Normalisation\<close>

lemma path_push_normal [simp]:
  "path_push p [RootDir] = [RootDir]" "path_push p [Normal n] = p @ [Normal n]"
  by (simp_all add: path_push_def is_absolute_def)

lemma path_pop_normal: "normal_path p \<Longrightarrow> path_pop p = (True, q) \<Longrightarrow> normal_path q"
  by (auto simp: path_pop_def path_parent_Some_iff split: option.splits)

lemma normalize_components_normal:
  "normal_path acc \<Longrightarrow> normalize_components acc cs = Some q \<Longrightarrow> normal_path q"
  by (induction acc cs rule: normalize_components.induct)
    (auto simp: path_pop_normal normal_path_nonempty split: if_splits prod.splits bool.splits)

lemma normalize_path_normal: "normalize_path p = Some q \<Longrightarrow> normal_path q"
  by (auto simp: normalize_path_def is_absolute_def split: if_splits list.splits component.splits
      intro: normalize_components_normal [OF normal_path_root])

lemma normalize_components_id:
  "is_absolute acc \<Longrightarrow> normalize_components acc (map Normal ns) = Some (acc @ map Normal ns)"
  by (induction ns arbitrary: acc) (auto simp: is_absolute_def split: list.splits)

lemma normalize_path_id: "normal_path p \<Longrightarrow> normalize_path p = Some p"
  by (auto simp: normal_path_def normalize_path_def is_absolute_def
      normalize_components_id [of "[RootDir]", unfolded is_absolute_def, simplified])

lemma resolve_path_from_normal:
  "resolve_path_from fs cursor missing = Inr q \<Longrightarrow> normal_path q"
proof (induction fs cursor missing rule: resolve_path_from.induct)
  case (1 fs cursor missing)
  from 1(2) show ?case
    by (subst (asm) resolve_path_from.simps)
      (auto split: sum.splits option.splits if_splits dest: normalize_path_normal 1(1))
qed

lemma resolve_path_normal: "resolve_path fs p = Inr q \<Longrightarrow> normal_path q"
  by (simp add: resolve_path_def resolve_path_from_normal)

section \<open>Resolved rules\<close>

text \<open>A rule that came from \<open>resolve_rule\<close>: exported and resolved again it is itself.\<close>

definition rule_wf :: "file_system \<Rightarrow> resolved_rule \<Rightarrow> bool" where
  "rule_wf fs r \<longleftrightarrow> resolve_rule fs (export_rule r) = Inr r"

definition scope_wf :: "file_system \<Rightarrow> scope \<Rightarrow> bool" where
  "scope_wf fs sc \<longleftrightarrow> s_allow sc \<noteq> [] \<and> (\<forall>r \<in> set (s_allow sc @ s_deny sc). rule_wf fs r)"

lemma resolve_rule_Inr_iff:
  "resolve_rule fs rule = Inr r \<longleftrightarrow>
     normalize_path (sr_target rule) = Some (rr_logical_target r)
     \<and> resolve_path fs (rr_logical_target r) = Inr (rr_resolved_target r)
     \<and> rr_permission r = sr_permission rule \<and> rr_recursive r = sr_recursive rule
     \<and> rr_symlink_policy r = sr_symlink_policy rule"
  by (cases r) (auto simp: resolve_rule_def and_then_Inr_iff normalize_path_def split: option.splits)

lemma resolve_rule_wf: "resolve_rule fs rule = Inr r \<Longrightarrow> rule_wf fs r"
  by (auto simp: rule_wf_def resolve_rule_Inr_iff export_rule_def dest: normalize_path_normal
      intro: normalize_path_id)

lemma rule_wf_normal:
  assumes "rule_wf fs r"
  shows "normal_path (rule_target r i)"
  using assms
  by (cases i) (auto simp: rule_wf_def resolve_rule_Inr_iff dest: normalize_path_normal resolve_path_normal)

lemma resolve_rules_wf:
  "resolve_rules fs rules = Inr rs \<Longrightarrow> \<forall>r \<in> set rs. rule_wf fs r"
  unfolding resolve_rules_def collect_results_Inr_iff
  by (induction rules rs rule: list_all2_induct) (auto intro: resolve_rule_wf)

lemma resolve_rules_export:
  "\<forall>r \<in> set rs. rule_wf fs r \<Longrightarrow> resolve_rules fs (map export_rule rs) = Inr rs"
  by (simp add: resolve_rules_def collect_results_Inr_iff list_all2_conv_all_nth rule_wf_def)

lemma resolve_rules_append:
  "resolve_rules fs (xs @ ys) =
     and_then (resolve_rules fs xs) (\<lambda>us. and_then (resolve_rules fs ys) (\<lambda>vs. Inr (us @ vs)))"
  by (simp add: resolve_rules_def collect_results_append and_then_def split: sum.split)

lemma scope_from_config_wf: "scope_from_config fs config = Inr sc \<Longrightarrow> scope_wf fs sc"
  using resolve_rules_wf
  by (fastforce simp: scope_from_config_def scope_wf_def and_then_Inr_iff resolve_rules_def
      collect_results_Inr_iff split: if_splits)

lemma added_allow_eq:
  assumes "scope_wf fs sc"
  shows "with_added_allow_rules fs extra sc =
    and_then (resolve_rules fs extra) (\<lambda>rs. Inr (sc\<lparr>s_allow := s_allow sc @ rs\<rparr>))"
  using assms
  by (simp add: with_added_allow_rules_def scope_from_config_def allow_rules_def deny_rules_def
      resolve_rules_append resolve_rules_export scope_wf_def and_then_def split: sum.split)

lemma added_deny_eq:
  assumes "scope_wf fs sc"
  shows "with_added_deny_rules fs extra sc =
    and_then (resolve_rules fs extra) (\<lambda>rs. Inr (sc\<lparr>s_deny := s_deny sc @ rs\<rparr>))"
  using assms
  by (simp add: with_added_deny_rules_def scope_from_config_def allow_rules_def deny_rules_def
      resolve_rules_append resolve_rules_export scope_wf_def and_then_def split: sum.split)

lemma remove_rules_eq:
  "remove_rules fs deny rules =
     and_then (resolve_rules fs rules) (\<lambda>rs. Inr (fold remove1 rs deny))"
proof (induction rules arbitrary: deny)
  case (Cons rule rules)
  then show ?case
    by (cases "resolve_rule fs rule")
      (simp_all add: resolve_rules_def remove_at_position_eq_remove1 [symmetric] and_then_def
        option.case_eq_if split: sum.split)
qed (simp add: resolve_rules_def)

lemma removed_deny_eq:
  "with_removed_deny_rules fs rules sc =
     and_then (resolve_rules fs rules) (\<lambda>rs. Inr (sc\<lparr>s_deny := fold remove1 rs (s_deny sc)\<rparr>))"
  by (cases "resolve_rules fs rules") (simp_all add: with_removed_deny_rules_def remove_rules_eq)

lemma set_fold_remove1: "set (fold remove1 rs xs) \<subseteq> set xs"
  by (induction rs arbitrary: xs) (auto dest: subsetD [OF set_remove1_subset])

lemma mset_fold_remove1: "mset (fold remove1 rs xs) = mset xs - mset rs"
  by (induction rs arbitrary: xs) (simp_all add: mset_remove1)

text \<open>Every change of a shared scope keeps it resolved.\<close>

lemma scope_step_wf:
  assumes wf: "scope_wf fs sc"
  shows "scope_wf fs (scope_step fs sc op)"
proof (cases op)
  case (AddAllow rules)
  show ?thesis
    using wf resolve_rules_wf [of fs rules]
    by (auto simp: AddAllow shared_update_def added_allow_eq [OF wf] and_then_def scope_wf_def
        split: sum.split)
next
  case (AddDeny rules)
  show ?thesis
    using wf resolve_rules_wf [of fs rules]
    by (auto simp: AddDeny shared_update_def added_deny_eq [OF wf] and_then_def scope_wf_def
        split: sum.split)
next
  case (RemoveDeny rules)
  show ?thesis
    using wf set_fold_remove1
    by (fastforce simp: RemoveDeny shared_update_def removed_deny_eq and_then_def scope_wf_def
        split: sum.split)
qed

interpretation shared_scope: step_system "scope_step fs" "scope_wf fs" for fs
  by unfold_locales (rule scope_step_wf)

section \<open>Rules and regions\<close>

definition claimed :: "rule_identity \<Rightarrow> resolved_rule \<Rightarrow> path set" where
  "claimed i r = region (rr_recursive r) (rule_target r i)"

interpretation rules: region_rules rr_recursive "\<lambda>r. rule_target r i" "rule_path_set_contains i"
  "rule_path_sets_overlap i" for i
proof unfold_locales
  fix a b :: resolved_rule
  assume n: "normal_path (rule_target a i)" "normal_path (rule_target b i)"
  show "rule_path_set_contains i a b \<longleftrightarrow>
      region (rr_recursive b) (rule_target b i) \<subseteq> region (rr_recursive a) (rule_target a i)"
    using n by (simp add: region_subset_iff rule_path_set_contains_def path_starts_with_def)
  show "rule_path_sets_overlap i a b \<longleftrightarrow>
      region (rr_recursive a) (rule_target a i) \<inter> region (rr_recursive b) (rule_target b i) \<noteq> {}"
    using n
    by (auto simp: region_meets_iff rule_path_sets_overlap_def path_starts_with_def direct_child_def
        recursive_and_non_recursive_sets_overlap_def Let_def split: bool.split)
qed

lemma rule_matches_iff:
  "normal_path p \<Longrightarrow> rule_matches rule p policy \<longleftrightarrow> p \<in> claimed (policy_identity policy) rule"
  by (cases policy) (simp_all add: rule_matches_def claimed_def region_def path_starts_with_def
      policy_identity_def Let_def)

section \<open>Effective permission\<close>

definition identity_path :: "rule_identity \<Rightarrow> path \<Rightarrow> path \<Rightarrow> path" where
  "identity_path i logical resolved = (case i of LogicalIdentity \<Rightarrow> logical | ResolvedIdentity \<Rightarrow> resolved)"

text \<open>Some allow rule reaches the level; some deny rule caps below it.\<close>

definition allowed_at :: "scope \<Rightarrow> path \<Rightarrow> path \<Rightarrow> permission \<Rightarrow> bool" where
  "allowed_at sc logical resolved p \<longleftrightarrow>
     (\<exists>r \<in> set (s_allow sc). p \<le> rr_permission r
        \<and> identity_path (policy_identity (rr_symlink_policy r)) logical resolved
            \<in> claimed (policy_identity (rr_symlink_policy r)) r)"

definition denied_at :: "scope \<Rightarrow> path \<Rightarrow> path \<Rightarrow> permission \<Rightarrow> bool" where
  "denied_at sc logical resolved p \<longleftrightarrow>
     (\<exists>r \<in> set (s_deny sc). rr_permission r \<le> p
        \<and> (logical \<in> claimed LogicalIdentity r \<or> resolved \<in> claimed ResolvedIdentity r))"

lemma allow_fold_iff:
  assumes "normal_path l" "normal_path r"
  shows "(\<exists>q. allow_fold l r rules = Some q \<and> p \<le> q) \<longleftrightarrow>
    (\<exists>x \<in> set rules. p \<le> rr_permission x
       \<and> identity_path (policy_identity (rr_symlink_policy x)) l r
           \<in> claimed (policy_identity (rr_symlink_policy x)) x)"
proof (induction rules rule: rev_induct)
  case (snoc x rules)
  let ?m = "rule_matches x (case rr_symlink_policy x of Resolved \<Rightarrow> r | Logical \<Rightarrow> l) (rr_symlink_policy x)"
  have m: "?m \<longleftrightarrow> identity_path (policy_identity (rr_symlink_policy x)) l r
      \<in> claimed (policy_identity (rr_symlink_policy x)) x"
    using assms
    by (cases "rr_symlink_policy x")
      (simp_all add: rule_matches_iff identity_path_def policy_identity_def)
  have "(\<exists>q. allow_fold l r (rules @ [x]) = Some q \<and> p \<le> q) \<longleftrightarrow>
      (\<exists>q. allow_fold l r rules = Some q \<and> p \<le> q) \<or> (?m \<and> p \<le> rr_permission x)"
    by (cases "allow_fold l r rules") (auto simp: allow_fold_def Let_def le_max_iff_disj)
  with snoc m show ?case by auto
qed (simp add: allow_fold_def)

lemma deny_fold_iff:
  assumes "normal_path l" "normal_path r"
  shows "(\<exists>q. deny_fold l r rules = Some q \<and> q \<le> p) \<longleftrightarrow>
    (\<exists>x \<in> set rules. rr_permission x \<le> p
       \<and> (l \<in> claimed LogicalIdentity x \<or> r \<in> claimed ResolvedIdentity x))"
proof (induction rules rule: rev_induct)
  case (snoc x rules)
  let ?m = "rule_matches x l Logical \<or> rule_matches x r Resolved"
  have m: "?m \<longleftrightarrow> l \<in> claimed LogicalIdentity x \<or> r \<in> claimed ResolvedIdentity x"
    using assms by (simp add: rule_matches_iff policy_identity_def)
  have "(\<exists>q. deny_fold l r (rules @ [x]) = Some q \<and> q \<le> p) \<longleftrightarrow>
      (\<exists>q. deny_fold l r rules = Some q \<and> q \<le> p) \<or> (?m \<and> rr_permission x \<le> p)"
    by (cases "deny_fold l r rules") (auto simp: deny_fold_def min_le_iff_disj)
  with snoc m show ?case by auto
qed (simp add: deny_fold_def)

definition at_least :: "permission option \<Rightarrow> permission \<Rightarrow> bool" where
  "at_least x p \<longleftrightarrow> (\<exists>q. x = Some q \<and> p \<le> q)"

lemma permission_at_paths_spec:
  assumes n: "normal_path l" "normal_path r"
  shows "at_least (permission_at_paths sc l r) p \<longleftrightarrow> allowed_at sc l r p \<and> \<not> denied_at sc l r p"
proof -
  have a: "allowed_at sc l r q \<longleftrightarrow> (\<exists>x. allow_fold l r (s_allow sc) = Some x \<and> q \<le> x)" for q
    using allow_fold_iff [OF n] by (simp add: allowed_at_def)
  have d: "denied_at sc l r q \<longleftrightarrow> (\<exists>x. deny_fold l r (s_deny sc) = Some x \<and> x \<le> q)" for q
    using deny_fold_iff [OF n] by (simp add: denied_at_def)
  show ?thesis
    unfolding a d at_least_def permission_at_paths_def
    by (cases "allow_fold l r (s_allow sc)"; cases "deny_fold l r (s_deny sc)"; cases p)
      (auto simp: normalize_path_id n split: permission.split)
qed

lemma permission_covers_iff: "permission_covers p q \<longleftrightarrow> q \<le> p"
  by (cases p; cases q) simp_all

lemma permission_denies_iff: "permission_denies_requested p q \<longleftrightarrow> p \<le> q"
  by (cases p; cases q) simp_all

lemma policy_of_claim:
  "policy_le q p \<Longrightarrow> l \<in> claimed LogicalIdentity x \<Longrightarrow> r \<in> claimed ResolvedIdentity x \<Longrightarrow>
     identity_path (policy_identity p) l r \<in> claimed (policy_identity p) x"
  by (cases p) (simp_all add: identity_path_def policy_identity_def)

lemma allows_rule_grants:
  assumes wf: "scope_wf fs sc" and ok: "allows_rule fs sc rule = Inr True"
    and req: "resolve_rule fs rule = Inr q"
    and l: "l \<in> claimed LogicalIdentity q" and r: "r \<in> claimed ResolvedIdentity q"
  shows "at_least (permission_at_paths sc l r) (sr_permission rule)"
proof -
  have perm: "rr_permission q = sr_permission rule" using req by (simp add: resolve_rule_Inr_iff)
  have nq: "normal_path (rule_target q i)" for i by (rule rule_wf_normal [OF resolve_rule_wf [OF req]])
  have nx: "normal_path (rule_target x i)" if "x \<in> set (s_allow sc @ s_deny sc)" for x i
    using that wf by (auto simp: scope_wf_def intro: rule_wf_normal)
  from ok req obtain c where c: "c \<in> set (s_allow sc)" "rule_covers c q"
    and nd: "\<And>d. d \<in> set (s_deny sc) \<Longrightarrow> \<not> denial_overlaps_requested d q"
    by (auto simp: allows_rule_def split: if_splits)
  let ?i = "policy_identity (rr_symlink_policy c)"
  have "claimed ?i q \<subseteq> claimed ?i c"
    using c nq nx rules.contains_iff [of c ?i q] by (auto simp: rule_covers_def claimed_def)
  moreover have "identity_path ?i l r \<in> claimed ?i q"
    using c(2) l r by (auto simp: rule_covers_def intro: policy_of_claim)
  ultimately have allow: "allowed_at sc l r (sr_permission rule)"
    using c perm by (auto simp: allowed_at_def rule_covers_def permission_covers_iff)
  have "\<not> (l \<in> claimed LogicalIdentity d \<or> r \<in> claimed ResolvedIdentity d)"
    if d: "d \<in> set (s_deny sc)" and le: "rr_permission d \<le> sr_permission rule" for d
  proof -
    have "\<not> rule_path_sets_overlap i d q" for i
      using nd [OF d] le perm by (cases i) (auto simp: denial_overlaps_requested_def permission_denies_iff)
    then have "claimed i d \<inter> claimed i q = {}" for i
      using nq nx d rules.overlaps_iff [of d i q] by (simp add: claimed_def)
    with l r show ?thesis by blast
  qed
  then have "\<not> denied_at sc l r (sr_permission rule)" by (auto simp: denied_at_def)
  moreover have "normal_path l" "normal_path r"
    using l r by (auto simp: claimed_def region_def split: if_splits)
  ultimately show ?thesis using allow by (simp add: permission_at_paths_spec)
qed

section \<open>Missing tails\<close>

definition missing_at :: "file_system \<Rightarrow> path \<Rightarrow> bool" where
  "missing_at fs p \<longleftrightarrow>
     (\<exists>e. fs_canonicalize fs p = Inl e \<and> io_kind e = NotFound) \<and> \<not> fs_is_symlink fs p"

text \<open>An existing ancestor, resolved, followed by the names that do not exist.\<close>

definition resolves_via :: "file_system \<Rightarrow> path \<Rightarrow> string list \<Rightarrow> path \<Rightarrow> path \<Rightarrow> bool" where
  "resolves_via fs p missing a q \<longleftrightarrow>
     (\<exists>ns r. a \<noteq> [] \<and> p = a @ map Normal ns \<and> fs_canonicalize fs a = Inr r
        \<and> (\<forall>k \<in> {1..length ns}. missing_at fs (a @ map Normal (take k ns)))
        \<and> normalize_path (r @ map Normal (ns @ rev missing)) = Some q)"

lemma fold_push: "fold (\<lambda>c buf. buf @ [Normal c]) cs r = r @ map Normal cs"
  by (induction cs arbitrary: r) simp_all

lemma resolves_via_here:
  assumes "p \<noteq> []" and "fs_canonicalize fs p = Inr r"
  shows "(\<exists>a. resolves_via fs p missing a q) \<longleftrightarrow> normalize_path (r @ map Normal (rev missing)) = Some q"
proof
  assume "\<exists>a. resolves_via fs p missing a q"
  then obtain a ns r' where ns: "p = a @ map Normal ns" "fs_canonicalize fs a = Inr r'"
    "\<forall>k \<in> {1..length ns}. missing_at fs (a @ map Normal (take k ns))"
    "normalize_path (r' @ map Normal (ns @ rev missing)) = Some q"
    by (auto simp: resolves_via_def)
  have "ns = []"
  proof (rule ccontr)
    assume "ns \<noteq> []"
    then have "missing_at fs p" using ns(1) bspec [OF ns(3), of "length ns"] by (cases ns) auto
    with assms show False by (simp add: missing_at_def)
  qed
  with ns assms show "normalize_path (r @ map Normal (rev missing)) = Some q" by simp
next
  assume "normalize_path (r @ map Normal (rev missing)) = Some q"
  with assms have "resolves_via fs p missing p q"
    unfolding resolves_via_def by (intro exI [of _ "[]"] exI [of _ r]) simp
  then show "\<exists>a. resolves_via fs p missing a q" ..
qed

lemma resolves_via_missing:
  assumes "p \<noteq> []" and "missing_at fs (p @ [Normal n])"
  shows "resolves_via fs (p @ [Normal n]) missing a q \<longleftrightarrow> resolves_via fs p (missing @ [n]) a q"
proof
  assume "resolves_via fs (p @ [Normal n]) missing a q"
  then obtain ns r where ns: "a \<noteq> []" "p @ [Normal n] = a @ map Normal ns" "fs_canonicalize fs a = Inr r"
    "\<forall>k \<in> {1..length ns}. missing_at fs (a @ map Normal (take k ns))"
    "normalize_path (r @ map Normal (ns @ rev missing)) = Some q"
    by (auto simp: resolves_via_def)
  from ns assms(2) obtain ms where ms: "ns = ms @ [n]" "p = a @ map Normal ms"
    by (cases ns rule: rev_cases) (auto simp: missing_at_def)
  have "\<forall>k \<in> {1..length ms}. missing_at fs (a @ map Normal (take k ms))"
  proof
    fix k assume "k \<in> {1..length ms}"
    with ns(4) ms show "missing_at fs (a @ map Normal (take k ms))"
      by (auto dest!: bspec [of _ _ k])
  qed
  with ns ms show "resolves_via fs p (missing @ [n]) a q"
    unfolding resolves_via_def by (intro exI [of _ ms] exI [of _ r]) simp
next
  assume "resolves_via fs p (missing @ [n]) a q"
  then obtain ns r where ns: "a \<noteq> []" "p = a @ map Normal ns" "fs_canonicalize fs a = Inr r"
    "\<forall>k \<in> {1..length ns}. missing_at fs (a @ map Normal (take k ns))"
    "normalize_path (r @ map Normal (ns @ rev (missing @ [n]))) = Some q"
    by (auto simp: resolves_via_def)
  have "\<forall>k \<in> {1..length (ns @ [n])}. missing_at fs (a @ map Normal (take k (ns @ [n])))"
    using ns(4) assms(2) by (auto simp: ns(2) le_Suc_eq take_Cons')
  with ns show "resolves_via fs (p @ [Normal n]) missing a q"
    unfolding resolves_via_def by (intro exI [of _ "ns @ [n]"] exI [of _ r]) simp
qed

lemma not_resolves_via:
  assumes "fs_canonicalize fs p = Inl e" and "\<not> missing_at fs p"
  shows "\<not> resolves_via fs p missing a q"
proof
  assume "resolves_via fs p missing a q"
  then obtain ns r where "p = a @ map Normal ns" "fs_canonicalize fs a = Inr r"
    and m: "\<forall>k \<in> {1..length ns}. missing_at fs (a @ map Normal (take k ns))"
    by (auto simp: resolves_via_def)
  with assms bspec [OF m, of "length ns"] show False by (cases ns) auto
qed

lemma resolve_path_from_iff:
  "normal_path p \<Longrightarrow> resolve_path_from fs p missing = Inr q \<longleftrightarrow> (\<exists>a. resolves_via fs p missing a q)"
proof (induction fs p missing rule: resolve_path_from.induct)
  case (1 fs p missing)
  note ne = normal_path_nonempty [OF 1(2)]
  show ?case
  proof (cases "fs_canonicalize fs p")
    case (Inr r)
    then show ?thesis
      by (simp add: resolves_via_here [OF ne Inr] fold_push resolve_path_from.simps [of fs p]
          split: option.split)
  next
    case (Inl e)
    show ?thesis
    proof (cases "missing_at fs p")
      case False
      then show ?thesis
        using not_resolves_via [OF Inl False] Inl
        by (auto simp: missing_at_def resolve_path_from.simps [of fs p] split: if_splits)
    next
      case True
      show ?thesis
      proof (cases "path_parent p")
        case None
        then have p: "p = [RootDir]"
          using 1(2) by (auto simp: path_parent_def normal_path_def last_map split: if_splits)
        have "\<not> resolves_via fs [RootDir] missing a q" for a
          using Inl by (auto simp: resolves_via_def p Cons_eq_append_conv)
        then show ?thesis
          using Inl True by (simp add: p file_name_def missing_at_def resolve_path_from.simps)
      next
        case (Some p')
        then obtain n where n: "p = p' @ [Normal n]" and p': "normal_path p'"
          using 1(2) by (auto simp: path_parent_Some_iff)
        have fn: "file_name p = Some n" by (simp add: file_name_def n)
        have "resolve_path_from fs p missing = resolve_path_from fs p' (missing @ [n])"
          using Inl True Some fn by (simp add: missing_at_def resolve_path_from.simps [of fs p])
        also have "\<dots> = Inr q \<longleftrightarrow> (\<exists>a. resolves_via fs p' (missing @ [n]) a q)"
          using 1(1) [OF Inl _ _ fn Some p'] True Inl by (simp add: missing_at_def)
        also have "\<dots> \<longleftrightarrow> (\<exists>a. resolves_via fs p missing a q)"
          using resolves_via_missing [OF normal_path_nonempty [OF p'], of fs n] True by (simp add: n)
        finally show ?thesis .
      qed
    qed
  qed
qed

section \<open>A concrete scope\<close>

text \<open>A filesystem with one directory and no links, and a scope on it, for the witnesses.\<close>

definition root_w :: path where "root_w = [RootDir, Normal ''w'']"

definition plain_fs :: file_system where
  "plain_fs =
     \<lparr>fs_canonicalize = (\<lambda>p. if p = [RootDir] \<or> p = root_w then Inr p else Inl (IoError NotFound [])),
      fs_is_symlink = (\<lambda>p. False)\<rparr>"

definition write_rule :: "path \<Rightarrow> scope_rule" where
  "write_rule p = \<lparr>sr_target = p, sr_permission = Write, sr_recursive = True, sr_symlink_policy = Resolved\<rparr>"

definition plain_rule :: "path \<Rightarrow> resolved_rule" where
  "plain_rule p = \<lparr>rr_logical_target = p, rr_resolved_target = p, rr_permission = Write,
     rr_recursive = True, rr_symlink_policy = Resolved\<rparr>"

definition plain_scope :: scope where
  "plain_scope = \<lparr>s_allow = [plain_rule root_w], s_deny = [plain_rule (root_w @ [Normal ''secret''])]\<rparr>"

lemma plain_from_config:
  "scope_from_config plain_fs
     \<lparr>sc_allow = [write_rule root_w], sc_deny = [write_rule (root_w @ [Normal ''secret''])]\<rparr> = Inr plain_scope"
  by code_simp

lemma plain_scope_wf: "scope_wf plain_fs plain_scope"
  by (rule scope_from_config_wf [OF plain_from_config])

lemma plain_rule_wf: "rule_wf plain_fs (plain_rule root_w)" "rule_wf plain_fs (plain_rule [RootDir])"
  by code_simp+

section \<open>Properties\<close>

text \<open>
  C19. Rule comparison is exact. For rules with normal targets, in either identity, one rule
  contains another exactly when every path the other claims is claimed by it, and two rules
  overlap exactly when some path is claimed by both.
\<close>

theorem rule_comparison_exact:
  assumes "rule_wf fs a" and "rule_wf fs b"
  shows "(rule_path_set_contains i a b \<longleftrightarrow> claimed i b \<subseteq> claimed i a)
    \<and> (rule_path_sets_overlap i a b \<longleftrightarrow> claimed i a \<inter> claimed i b \<noteq> {})"
  unfolding claimed_def
  using rules.contains_iff [of a i b] rules.overlaps_iff [of a i b] assms
  by (simp add: rule_wf_normal)

theorem rule_comparison_exact_witness:
  "claimed LogicalIdentity (plain_rule root_w) \<subseteq> claimed LogicalIdentity (plain_rule [RootDir])"
proof -
  have "rule_path_set_contains LogicalIdentity (plain_rule [RootDir]) (plain_rule root_w)" by code_simp
  with rule_comparison_exact [OF plain_rule_wf(2) plain_rule_wf(1)] show ?thesis by blast
qed

text \<open>
  C3. The effective permission at a path: at least the level \<open>p\<close> is granted exactly when an
  allow rule of at least that level claims the path in the identity of its symlink policy, and
  no deny rule of at most that level claims the path in either identity.
\<close>

theorem effective_permission:
  assumes "normalize_path logical = Some l" and "normalize_path resolved = Some r"
  shows "at_least (permission_at_paths sc logical resolved) p
    \<longleftrightarrow> allowed_at sc l r p \<and> \<not> denied_at sc l r p"
proof -
  have n: "normal_path l" "normal_path r" using assms by (auto dest: normalize_path_normal)
  then have "permission_at_paths sc logical resolved = permission_at_paths sc l r"
    using assms by (simp add: permission_at_paths_def normalize_path_id)
  then show ?thesis by (simp add: permission_at_paths_spec n)
qed

theorem effective_permission_witness:
  "allowed_at plain_scope (root_w @ [Normal ''a'']) (root_w @ [Normal ''a'']) Write
    \<and> denied_at plain_scope (root_w @ [Normal ''secret'']) (root_w @ [Normal ''secret'']) Write"
proof -
  have n: "normalize_path (root_w @ [Normal ''a'', CurDir]) = Some (root_w @ [Normal ''a''])"
    "normalize_path (root_w @ [Normal ''a'']) = Some (root_w @ [Normal ''a''])"
    "normalize_path (root_w @ [Normal ''secret'']) = Some (root_w @ [Normal ''secret''])"
    by code_simp+
  have "permission_at_paths plain_scope (root_w @ [Normal ''a'', CurDir]) (root_w @ [Normal ''a'']) = Some Write"
    "permission_at_paths plain_scope (root_w @ [Normal ''secret'']) (root_w @ [Normal ''secret'']) = Some Read"
    by code_simp+
  moreover have "allowed_at plain_scope (root_w @ [Normal ''secret'']) (root_w @ [Normal ''secret'']) Write"
    by (simp add: allowed_at_def plain_scope_def plain_rule_def claimed_def identity_path_def
        policy_identity_def region_def root_w_def normal_path_code)
  ultimately show ?thesis
    using effective_permission [OF n(1,2), of plain_scope Write]
      effective_permission [OF n(3,3), of plain_scope Write]
    by (simp add: at_least_def)
qed



text \<open>
  Returning a delegation restores the scope. Adding deny rules and later removing the same
  rules leaves the allow rules as they were and the same deny rules, counted with
  multiplicity, so a pre-existing deny rule in the same region stays in force.
\<close>

theorem deny_layer_roundtrip:
  assumes wf: "scope_wf fs sc" and added: "with_added_deny_rules fs rules sc = Inr sc'"
  shows "\<exists>sc''. with_removed_deny_rules fs rules sc' = Inr sc''
    \<and> s_allow sc'' = s_allow sc \<and> mset (s_deny sc'') = mset (s_deny sc)"
proof -
  from added obtain rs where rs: "resolve_rules fs rules = Inr rs" and sc': "sc' = sc\<lparr>s_deny := s_deny sc @ rs\<rparr>"
    by (auto simp: added_deny_eq [OF wf] and_then_Inr_iff)
  show ?thesis by (simp add: removed_deny_eq rs sc' mset_fold_remove1)
qed

theorem deny_layer_roundtrip_witness:
  "\<exists>sc''. with_removed_deny_rules plain_fs [write_rule (root_w @ [Normal ''a''])]
       (plain_scope\<lparr>s_deny := s_deny plain_scope @ [plain_rule (root_w @ [Normal ''a''])]\<rparr>) = Inr sc''
     \<and> mset (s_deny sc'') = mset (s_deny plain_scope)"
proof -
  have "with_added_deny_rules plain_fs [write_rule (root_w @ [Normal ''a''])] plain_scope
      = Inr (plain_scope\<lparr>s_deny := s_deny plain_scope @ [plain_rule (root_w @ [Normal ''a''])]\<rparr>)"
    by code_simp
  from deny_layer_roundtrip [OF plain_scope_wf this] show ?thesis by blast
qed

text \<open>
  Resolution of a path with a missing tail. For a normal path, \<open>resolve_path\<close> succeeds
  exactly when some existing ancestor resolves and no name below it exists or is a (dangling)
  symbolic link; the result is the resolved ancestor followed by the missing names.
\<close>

theorem resolve_path_iff:
  assumes "normal_path p"
  shows "resolve_path fs p = Inr q \<longleftrightarrow>
    (\<exists>a ns r. a \<noteq> [] \<and> p = a @ map Normal ns \<and> fs_canonicalize fs a = Inr r
       \<and> (\<forall>k \<in> {1..length ns}. missing_at fs (a @ map Normal (take k ns)))
       \<and> normalize_path (r @ map Normal ns) = Some q)"
  using resolve_path_from_iff [OF assms, of fs "[]" q]
  by (simp add: resolve_path_def resolves_via_def)

theorem resolve_path_iff_witness:
  "\<exists>a ns r. a @ map Normal ns = root_w @ [Normal ''x'', Normal ''y''] \<and> fs_canonicalize plain_fs a = Inr r"
proof -
  have "normal_path (root_w @ [Normal ''x'', Normal ''y''])"
    "resolve_path plain_fs (root_w @ [Normal ''x'', Normal ''y'']) = Inr (root_w @ [Normal ''x'', Normal ''y''])"
    by code_simp+
  with resolve_path_iff [of "root_w @ [Normal ''x'', Normal ''y'']" plain_fs] show ?thesis by metis
qed

text \<open>
  Direction of changes. On every pair of paths with a normal form, adding deny rules never
  raises the effective permission, and adding allow rules or removing deny rules never
  lowers it.
\<close>

theorem scope_changes_monotone:
  assumes wf: "scope_wf fs sc" and n: "normal_path l" "normal_path r"
  shows "(at_least (permission_at_paths (scope_step fs sc (AddDeny rules)) l r) p
            \<longrightarrow> at_least (permission_at_paths sc l r) p)
    \<and> (at_least (permission_at_paths sc l r) p
            \<longrightarrow> at_least (permission_at_paths (scope_step fs sc (AddAllow rules)) l r) p)
    \<and> (at_least (permission_at_paths sc l r) p
            \<longrightarrow> at_least (permission_at_paths (scope_step fs sc (RemoveDeny rules)) l r) p)"
  unfolding permission_at_paths_spec [OF n]
  by (auto simp: shared_update_def added_deny_eq [OF wf] added_allow_eq [OF wf] removed_deny_eq
      and_then_def allowed_at_def denied_at_def dest: subsetD [OF set_fold_remove1] split: sum.split)

theorem scope_changes_monotone_witness:
  "at_least (permission_at_paths
      (scope_step plain_fs plain_scope (RemoveDeny [write_rule (root_w @ [Normal ''secret''])]))
      (root_w @ [Normal ''b'']) (root_w @ [Normal ''b''])) Write"
proof -
  have n: "normal_path (root_w @ [Normal ''b''])" by code_simp
  have "permission_at_paths plain_scope (root_w @ [Normal ''b'']) (root_w @ [Normal ''b'']) = Some Write"
    by code_simp
  then have "at_least (permission_at_paths plain_scope (root_w @ [Normal ''b'']) (root_w @ [Normal ''b''])) Write"
    by (simp add: at_least_def)
  with scope_changes_monotone [OF plain_scope_wf n n] show ?thesis by blast
qed



end
