(* ===== verification/Worker_Allocation.thy ===== *)
theory Worker_Allocation
  imports Manifest_Scope
begin

text \<open>
  The machine-wide table of Worker scope allocations,
  \<open>crates/worker/src/runtime/worker_allocation/\<close>: conflict search (\<open>conflict.rs\<close>), the table and
  its guard (\<open>table.rs\<close>), the mutating operations (\<open>mutate.rs\<close>) and allocation ownership
  (\<open>lifecycle.rs\<close>). The table lock is held by every operation from opening to dropping the
  guard, so operations are steps on the published table. Process liveness and the outcome of
  a save are parameters.
\<close>

section \<open>Model\<close>

subsection \<open>The table\<close>

type_synonym segment_id = "128 word"

record allocation =
  al_worker_name :: string
  al_pid :: u32
  al_socket :: path
  al_scope_allow :: "scope_rule list"
  al_scope_deny :: "scope_rule list"
  al_delegated_from :: "string option"
  al_segment_id :: "segment_id option"

type_synonym lock_file = "allocation list"

definition lf_find :: "lock_file \<Rightarrow> string \<Rightarrow> allocation option" where
  "lf_find lock worker_name = find (\<lambda>a. al_worker_name a = worker_name) lock"

definition lf_find_by_segment :: "lock_file \<Rightarrow> segment_id \<Rightarrow> allocation option" where
  "lf_find_by_segment lock segment = find (\<lambda>a. al_segment_id a = Some segment) lock"

text \<open>A write through \<open>find_mut\<close>: the first entry of that name.\<close>

fun lf_update :: "string \<Rightarrow> (allocation \<Rightarrow> allocation) \<Rightarrow> lock_file \<Rightarrow> lock_file" where
  "lf_update worker_name f [] = []"
| "lf_update worker_name f (a # lock) =
     (if al_worker_name a = worker_name then f a # lock else a # lf_update worker_name f lock)"

text \<open>
  The guard: the table in memory and the published file. A save publishes by a rename; it can
  fail before or after it.
\<close>

record lock_guard =
  lg_data :: lock_file
  lg_disk :: lock_file

datatype save_outcome = SaveOk | FailBeforeRename io_error | FailAfterRename io_error

definition guard_open :: "lock_file \<Rightarrow> lock_guard" where
  "guard_open disk = \<lparr>lg_data = disk, lg_disk = disk\<rparr>"

definition save_with_publication ::
  "save_outcome \<Rightarrow> lock_guard \<Rightarrow> (io_error + unit) \<times> bool \<times> lock_guard" where
  "save_with_publication out g =
     (case out of
        SaveOk \<Rightarrow> (Inr (), True, g\<lparr>lg_disk := lg_data g\<rparr>)
      | FailBeforeRename e \<Rightarrow> (Inl e, False, g)
      | FailAfterRename e \<Rightarrow> (Inl e, True, g\<lparr>lg_disk := lg_data g\<rparr>))"

definition guard_save :: "save_outcome \<Rightarrow> lock_guard \<Rightarrow> (io_error + unit) \<times> lock_guard" where
  "guard_save out g = (case save_with_publication out g of (r, _, g') \<Rightarrow> (r, g'))"

datatype scope_lock_error =
    IoFailure io_error
  | AllocationGuardAttached string
  | AcquisitionSaveFailed io_error string
  | DuplicateWorkerName string
  | WriteConflict string scope_rule scope_rule
  | NotSubset string scope_rule
  | InvalidScope scope_error
  | UnknownWorker string
  | SegmentConflict segment_id string path
  | SegmentChanged string segment_id "segment_id option"

subsection \<open>Conflicts\<close>

definition rules_overlap :: "scope_rule \<Rightarrow> scope_rule \<Rightarrow> bool" where
  "rules_overlap a b =
     (case (sr_recursive a, sr_recursive b) of
        (True, True) \<Rightarrow> path_starts_with (sr_target a) (sr_target b)
                        \<or> path_starts_with (sr_target b) (sr_target a)
      | (True, False) \<Rightarrow> path_starts_with (sr_target b) (sr_target a)
                         \<or> path_parent (sr_target a) = Some (sr_target b)
      | (False, True) \<Rightarrow> path_starts_with (sr_target a) (sr_target b)
                         \<or> path_parent (sr_target b) = Some (sr_target a)
      | (False, False) \<Rightarrow> sr_target a = sr_target b
                          \<or> path_parent (sr_target a) = Some (sr_target b)
                          \<or> path_parent (sr_target b) = Some (sr_target a))"

definition covers_fully :: "scope_rule \<Rightarrow> scope_rule \<Rightarrow> bool" where
  "covers_fully cover inner =
     (if sr_permission cover < sr_permission inner then False
      else if sr_recursive cover then path_starts_with (sr_target inner) (sr_target cover)
      else sr_target inner = sr_target cover \<and> \<not> sr_recursive inner)"

definition write_rules :: "scope_rule list \<Rightarrow> scope_rule list" where
  "write_rules rules = filter (\<lambda>r. sr_permission r = Write) rules"

definition children_of :: "lock_file \<Rightarrow> string \<Rightarrow> lock_file" where
  "children_of lock parent = filter (\<lambda>a. al_delegated_from a = Some parent) lock"

definition is_within_effective_write :: "lock_file \<Rightarrow> string \<Rightarrow> scope_rule \<Rightarrow> bool" where
  "is_within_effective_write lock parent rule =
     (case lf_find lock parent of
        None \<Rightarrow> False
      | Some alloc \<Rightarrow>
          if sr_permission rule \<noteq> Write
          then \<exists>r \<in> set (al_scope_allow alloc). covers_fully r rule
          else (\<exists>r \<in> set (write_rules (al_scope_allow alloc)). covers_fully r rule)
               \<and> \<not> (\<exists>r \<in> set (write_rules (al_scope_deny alloc)). rules_overlap r rule)
               \<and> \<not> (\<exists>r \<in> set (write_rules (concat (map al_scope_allow (children_of lock parent)))).
                      rules_overlap r rule))"

record conflict_owner =
  co_worker_name :: string
  co_rule :: scope_rule

text \<open>The first hit of a search over a list; the outer option is a search that does not return.\<close>

fun first_hit :: "('a \<Rightarrow> 'b option option) \<Rightarrow> 'a list \<Rightarrow> 'b option option" where
  "first_hit f [] = Some None"
| "first_hit f (x # xs) =
     (case f x of None \<Rightarrow> None | Some (Some y) \<Rightarrow> Some (Some y) | Some None \<Rightarrow> first_hit f xs)"

text \<open>
  The recursion follows \<open>delegated_from\<close> downwards and ends only when that relation has no
  cycle; the first argument bounds its depth.
\<close>

fun find_conflict_in_subtree ::
  "nat \<Rightarrow> lock_file \<Rightarrow> scope_rule \<Rightarrow> allocation \<Rightarrow> conflict_owner option option" where
  "find_conflict_in_subtree 0 lock rule alloc = None"
| "find_conflict_in_subtree (Suc fuel) lock rule alloc =
     (case find (\<lambda>r. rules_overlap r rule) (write_rules (al_scope_allow alloc)) of
        None \<Rightarrow> Some None
      | Some overlapping_rule \<Rightarrow>
          if \<exists>r \<in> set (write_rules (al_scope_deny alloc)). covers_fully r rule then Some None
          else
            case first_hit (find_conflict_in_subtree fuel lock rule)
                   (children_of lock (al_worker_name alloc)) of
              None \<Rightarrow> None
            | Some (Some owner) \<Rightarrow> Some (Some owner)
            | Some None \<Rightarrow>
                Some (Some \<lparr>co_worker_name = al_worker_name alloc, co_rule = overlapping_rule\<rparr>))"

fun filter_map_roots ::
  "(allocation \<Rightarrow> conflict_owner option option) \<Rightarrow> string option \<Rightarrow> lock_file
     \<Rightarrow> conflict_owner list option" where
  "filter_map_roots f exempt [] = Some []"
| "filter_map_roots f exempt (a # as) =
     (if al_delegated_from a \<noteq> None then filter_map_roots f exempt as
      else
        case f a of
          None \<Rightarrow> None
        | Some hit \<Rightarrow>
            map_option (\<lambda>owners.
                (case hit of
                   None \<Rightarrow> owners
                 | Some owner \<Rightarrow> if Some (co_worker_name owner) \<noteq> exempt then owner # owners else owners))
              (filter_map_roots f exempt as))"

definition find_conflict_owners ::
  "lock_file \<Rightarrow> scope_rule \<Rightarrow> string option \<Rightarrow> conflict_owner list option" where
  "find_conflict_owners lock rule exempt =
     (if sr_permission rule \<noteq> Write then Some []
      else filter_map_roots (find_conflict_in_subtree (Suc (length lock)) lock rule) exempt lock)"

definition find_conflict_owner ::
  "lock_file \<Rightarrow> scope_rule \<Rightarrow> string option \<Rightarrow> conflict_owner option option" where
  "find_conflict_owner lock rule exempt =
     map_option (\<lambda>owners. case owners of [] \<Rightarrow> None | owner # _ \<Rightarrow> Some owner)
       (find_conflict_owners lock rule exempt)"

subsection \<open>Operations under the guard\<close>

text \<open>\<open>pid_alive\<close>: \<open>kill(pid, 0)\<close> is a parameter giving the errno on failure; 3 is \<open>ESRCH\<close>.\<close>

definition pid_alive :: "(u32 \<Rightarrow> int option) \<Rightarrow> u32 \<Rightarrow> bool" where
  "pid_alive kill pid =
     (if pid = 0 then False
      else case kill pid of None \<Rightarrow> True | Some errno \<Rightarrow> errno \<noteq> 3)"

text \<open>Children of a removed Worker go to the Worker that had delegated to it.\<close>

definition reparent :: "string \<Rightarrow> string option \<Rightarrow> allocation \<Rightarrow> allocation" where
  "reparent name parent a =
     (if al_delegated_from a = Some name then a\<lparr>al_delegated_from := parent\<rparr> else a)"

definition remove_entry :: "string \<Rightarrow> nat \<Rightarrow> lock_file \<Rightarrow> lock_file" where
  "remove_entry name idx lock =
     remove_at idx (map (reparent name (al_delegated_from (lock ! idx))) lock)"

fun remove_names :: "string list \<Rightarrow> lock_file \<Rightarrow> lock_file" where
  "remove_names [] lock = lock"
| "remove_names (name # names) lock =
     (case position (\<lambda>a. al_worker_name a = name) lock of
        None \<Rightarrow> remove_names names lock
      | Some idx \<Rightarrow> remove_names names (remove_entry name idx lock))"

definition reclaim_stale_with :: "(u32 \<Rightarrow> bool) \<Rightarrow> save_outcome \<Rightarrow> lock_guard \<Rightarrow> lock_guard" where
  "reclaim_stale_with is_alive out g =
     (let dead = map al_worker_name (filter (\<lambda>a. \<not> is_alive (al_pid a)) (lg_data g)) in
      if dead = [] then g
      else snd (guard_save out (g\<lparr>lg_data := remove_names dead (lg_data g)\<rparr>)))"

text \<open>The loop over the requested write rules of a registration.\<close>

fun admit_rules ::
  "lock_file \<Rightarrow> scope_rule list \<Rightarrow> scope_rule list \<Rightarrow> (scope_lock_error + unit) option" where
  "admit_rules lock scope_deny [] = Some (Inr ())"
| "admit_rules lock scope_deny (rule # rules) =
     (case find_conflict_owners lock rule None of
        None \<Rightarrow> None
      | Some conflicts \<Rightarrow>
          if conflicts \<noteq> []
             \<and> (\<forall>owner \<in> set conflicts. \<exists>deny \<in> set (write_rules scope_deny). covers_fully deny (co_rule owner))
          then admit_rules lock scope_deny rules
          else
            (case conflicts of
               competitor # _ \<Rightarrow>
                 Some (Inl (WriteConflict (co_worker_name competitor) rule (co_rule competitor)))
             | [] \<Rightarrow> admit_rules lock scope_deny rules))"

definition prepare_worker_with_deny ::
  "(u32 \<Rightarrow> bool) \<Rightarrow> save_outcome \<Rightarrow> lock_guard \<Rightarrow> string \<Rightarrow> u32 \<Rightarrow> path \<Rightarrow> scope_rule list
     \<Rightarrow> scope_rule list \<Rightarrow> segment_id \<Rightarrow> ((scope_lock_error + unit) \<times> lock_guard) option" where
  "prepare_worker_with_deny is_alive out1 g0 worker_name pid socket scope_allow scope_deny segment =
     (let g = reclaim_stale_with is_alive out1 g0 in
      if lf_find (lg_data g) worker_name \<noteq> None
      then Some (Inl (DuplicateWorkerName worker_name), g)
      else
        case lf_find_by_segment (lg_data g) segment of
          Some existing \<Rightarrow>
            Some (Inl (SegmentConflict segment (al_worker_name existing) (al_socket existing)), g)
        | None \<Rightarrow>
            (case admit_rules (lg_data g) scope_deny (write_rules scope_allow) of
               None \<Rightarrow> None
             | Some (Inl e) \<Rightarrow> Some (Inl e, g)
             | Some (Inr _) \<Rightarrow>
                 Some (Inr (), g\<lparr>lg_data := lg_data g
                   @ [\<lparr>al_worker_name = worker_name, al_pid = pid, al_socket = socket,
                       al_scope_allow = scope_allow, al_scope_deny = scope_deny,
                       al_delegated_from = None, al_segment_id = Some segment\<rparr>]\<rparr>)))"

text \<open>\<open>guard.save()?\<close> after a successful change of the table in memory.\<close>

definition save_result ::
  "save_outcome \<Rightarrow> lock_guard \<Rightarrow> (scope_lock_error + unit) \<times> lock_guard" where
  "save_result out g = (case guard_save out g of (r, g') \<Rightarrow> (map_err IoFailure r, g'))"

definition register_worker_with_deny ::
  "(u32 \<Rightarrow> bool) \<Rightarrow> save_outcome \<Rightarrow> save_outcome \<Rightarrow> lock_guard \<Rightarrow> string \<Rightarrow> u32 \<Rightarrow> path
     \<Rightarrow> scope_rule list \<Rightarrow> scope_rule list \<Rightarrow> segment_id
     \<Rightarrow> ((scope_lock_error + unit) \<times> lock_guard) option" where
  "register_worker_with_deny is_alive out1 out2 g worker_name pid socket scope_allow scope_deny segment =
     (case prepare_worker_with_deny is_alive out1 g worker_name pid socket scope_allow scope_deny segment of
        None \<Rightarrow> None
      | Some (Inl e, g') \<Rightarrow> Some (Inl e, g')
      | Some (Inr _, g') \<Rightarrow> Some (save_result out2 g'))"

definition register_worker ::
  "(u32 \<Rightarrow> bool) \<Rightarrow> save_outcome \<Rightarrow> save_outcome \<Rightarrow> lock_guard \<Rightarrow> string \<Rightarrow> u32 \<Rightarrow> path
     \<Rightarrow> scope_rule list \<Rightarrow> segment_id \<Rightarrow> ((scope_lock_error + unit) \<times> lock_guard) option" where
  "register_worker is_alive out1 out2 g worker_name pid socket scope_allow segment =
     register_worker_with_deny is_alive out1 out2 g worker_name pid socket scope_allow [] segment"

fun admit_delegated ::
  "file_system \<Rightarrow> scope \<Rightarrow> lock_file \<Rightarrow> string \<Rightarrow> scope_rule list \<Rightarrow> (scope_lock_error + unit) option" where
  "admit_delegated fs delegation lock spawner [] = Some (Inr ())"
| "admit_delegated fs delegation lock spawner (rule # rules) =
     (case allows_rule fs delegation rule of
        Inl source \<Rightarrow> Some (Inl (InvalidScope source))
      | Inr allowed \<Rightarrow>
          if \<not> allowed then Some (Inl (NotSubset spawner rule))
          else if sr_permission rule = Write then
            (case find_conflict_owner lock rule (Some spawner) of
               None \<Rightarrow> None
             | Some (Some competitor) \<Rightarrow>
                 Some (Inl (WriteConflict (co_worker_name competitor) rule (co_rule competitor)))
             | Some None \<Rightarrow> admit_delegated fs delegation lock spawner rules)
          else admit_delegated fs delegation lock spawner rules)"

definition delegate_scope ::
  "file_system \<Rightarrow> (u32 \<Rightarrow> bool) \<Rightarrow> save_outcome \<Rightarrow> save_outcome \<Rightarrow> lock_guard \<Rightarrow> string \<Rightarrow> string
     \<Rightarrow> u32 \<Rightarrow> path \<Rightarrow> scope_rule list \<Rightarrow> scope \<Rightarrow> ((scope_lock_error + unit) \<times> lock_guard) option" where
  "delegate_scope fs is_alive out1 out2 g0 spawner spawned pid socket scope_allow delegation =
     (let g = reclaim_stale_with is_alive out1 g0 in
      if lf_find (lg_data g) spawned \<noteq> None then Some (Inl (DuplicateWorkerName spawned), g)
      else if lf_find (lg_data g) spawner = None then Some (Inl (UnknownWorker spawner), g)
      else
        case admit_delegated fs delegation (lg_data g) spawner scope_allow of
          None \<Rightarrow> None
        | Some (Inl e) \<Rightarrow> Some (Inl e, g)
        | Some (Inr _) \<Rightarrow>
            Some (save_result out2 (g\<lparr>lg_data := lg_data g
              @ [\<lparr>al_worker_name = spawned, al_pid = pid, al_socket = socket,
                  al_scope_allow = scope_allow, al_scope_deny = [],
                  al_delegated_from = Some spawner, al_segment_id = None\<rparr>]\<rparr>)))"

definition release_worker ::
  "save_outcome \<Rightarrow> lock_guard \<Rightarrow> string \<Rightarrow> (scope_lock_error + unit) \<times> lock_guard" where
  "release_worker out g worker_name =
     (case position (\<lambda>a. al_worker_name a = worker_name) (lg_data g) of
        None \<Rightarrow> (Inl (UnknownWorker worker_name), g)
      | Some idx \<Rightarrow> save_result out (g\<lparr>lg_data := remove_entry worker_name idx (lg_data g)\<rparr>))"

text \<open>At most one exact match per returned write rule is removed from the parent's denies.\<close>

definition remove_denies :: "scope_rule list \<Rightarrow> scope_rule list \<Rightarrow> scope_rule list" where
  "remove_denies delegated deny =
     fold (\<lambda>rule deny. case position (\<lambda>d. d = rule) deny of
                          None \<Rightarrow> deny | Some idx \<Rightarrow> remove_at idx deny)
       (write_rules delegated) deny"

definition reclaim_delegated_scope ::
  "save_outcome \<Rightarrow> lock_guard \<Rightarrow> string \<Rightarrow> string \<Rightarrow> scope_rule list
     \<Rightarrow> (scope_lock_error + unit) \<times> lock_guard" where
  "reclaim_delegated_scope out g parent child delegated =
     (let child_idx = position (\<lambda>a. al_worker_name a = child) (lg_data g);
          data = lf_update parent
                   (\<lambda>a. a\<lparr>al_scope_deny := remove_denies delegated (al_scope_deny a)\<rparr>) (lg_data g);
          data = (case child_idx of None \<Rightarrow> data | Some idx \<Rightarrow> remove_entry child idx data)
      in save_result out (g\<lparr>lg_data := data\<rparr>))"

subsection \<open>Ownership of an allocation\<close>

text \<open>
  The owner state behind \<open>ScopeAllocationGuard\<close> and its cleanup handles. Operations that open
  the table take the error of locating or opening it, if there is one.
\<close>

record alloc_owner =
  ow_worker_name :: string
  ow_guard_attached :: bool
  ow_released :: bool

definition owner_release ::
  "io_error option \<Rightarrow> save_outcome \<Rightarrow> alloc_owner \<Rightarrow> lock_file
     \<Rightarrow> (scope_lock_error + unit) \<times> alloc_owner \<times> lock_file" where
  "owner_release open_error out ow disk =
     (if ow_guard_attached ow then (Inl (AllocationGuardAttached (ow_worker_name ow)), ow, disk)
      else if ow_released ow then (Inr (), ow, disk)
      else
        case open_error of
          Some e \<Rightarrow> (Inl (IoFailure e), ow, disk)
        | None \<Rightarrow>
            let g = guard_open disk;
                (r, g') = (if lf_find (lg_data g) (ow_worker_name ow) \<noteq> None
                           then release_worker out g (ow_worker_name ow)
                           else save_result out g)
            in case r of
                 Inl e \<Rightarrow> (Inl e, ow, lg_disk g')
               | Inr _ \<Rightarrow> (Inr (), ow\<lparr>ow_released := True\<rparr>, lg_disk g'))"

definition owner_new :: "string \<Rightarrow> alloc_owner" where
  "owner_new worker_name =
     \<lparr>ow_worker_name = worker_name, ow_guard_attached = True, ow_released = False\<rparr>"

text \<open>Dropping the guard detaches it; dropping the last handle releases best-effort.\<close>

definition guard_drop :: "alloc_owner \<Rightarrow> alloc_owner" where
  "guard_drop ow = ow\<lparr>ow_guard_attached := False\<rparr>"

definition owner_drop ::
  "io_error option \<Rightarrow> save_outcome \<Rightarrow> alloc_owner \<Rightarrow> lock_file \<Rightarrow> lock_file" where
  "owner_drop open_error out ow disk = snd (snd (owner_release open_error out ow disk))"

text \<open>
  \<open>commit_acquisition\<close>: the owner on success; on failure the cleanup authority if the entry
  was published, and otherwise a disarmed owner that is simply dropped.
\<close>

definition commit_acquisition ::
  "save_outcome \<Rightarrow> alloc_owner \<Rightarrow> lock_guard
     \<Rightarrow> (scope_lock_error + alloc_owner) \<times> alloc_owner option \<times> lock_guard" where
  "commit_acquisition out ow table =
     (case save_with_publication out table of
        (Inr _, _, table') \<Rightarrow> (Inr ow, None, table')
      | (Inl source, True, table') \<Rightarrow>
          (Inl (AcquisitionSaveFailed source (ow_worker_name ow)), Some (guard_drop ow), table')
      | (Inl source, False, table') \<Rightarrow> (Inl (IoFailure source), None, table'))"

definition install_top_level_with_deny ::
  "io_error option \<Rightarrow> (u32 \<Rightarrow> bool) \<Rightarrow> save_outcome \<Rightarrow> save_outcome \<Rightarrow> lock_file \<Rightarrow> string \<Rightarrow> u32
     \<Rightarrow> path \<Rightarrow> scope_rule list \<Rightarrow> scope_rule list \<Rightarrow> segment_id
     \<Rightarrow> ((scope_lock_error + alloc_owner) \<times> alloc_owner option \<times> lock_file) option" where
  "install_top_level_with_deny open_error is_alive out1 out2 disk worker_name pid socket
       scope_allow scope_deny segment =
     (case open_error of
        Some e \<Rightarrow> Some (Inl (IoFailure e), None, disk)
      | None \<Rightarrow>
          (case prepare_worker_with_deny is_alive out1 (guard_open disk) worker_name pid socket
                  scope_allow scope_deny segment of
             None \<Rightarrow> None
           | Some (Inl e, g) \<Rightarrow> Some (Inl e, None, lg_disk g)
           | Some (Inr _, g) \<Rightarrow>
               (case commit_acquisition out2 (owner_new worker_name) g of
                  (r, cleanup, g') \<Rightarrow> Some (r, cleanup, lg_disk g'))))"

definition install_top_level ::
  "io_error option \<Rightarrow> (u32 \<Rightarrow> bool) \<Rightarrow> save_outcome \<Rightarrow> save_outcome \<Rightarrow> lock_file \<Rightarrow> string \<Rightarrow> u32
     \<Rightarrow> path \<Rightarrow> scope_rule list \<Rightarrow> segment_id
     \<Rightarrow> ((scope_lock_error + alloc_owner) \<times> alloc_owner option \<times> lock_file) option" where
  "install_top_level open_error is_alive out1 out2 disk worker_name pid socket scope_allow segment =
     install_top_level_with_deny open_error is_alive out1 out2 disk worker_name pid socket
       scope_allow [] segment"

definition adopt_allocation_at ::
  "io_error option \<Rightarrow> save_outcome \<Rightarrow> lock_file \<Rightarrow> string \<Rightarrow> u32 \<Rightarrow> segment_id
     \<Rightarrow> (scope_lock_error + alloc_owner) \<times> alloc_owner option \<times> lock_file" where
  "adopt_allocation_at open_error out disk worker_name new_pid segment =
     (case open_error of
        Some e \<Rightarrow> (Inl (IoFailure e), None, disk)
      | None \<Rightarrow>
          let g = guard_open disk in
          if lf_find (lg_data g) worker_name = None
          then (Inl (UnknownWorker worker_name), None, disk)
          else
            let g = g\<lparr>lg_data := lf_update worker_name
                        (\<lambda>a. a\<lparr>al_pid := new_pid, al_segment_id := Some segment\<rparr>) (lg_data g)\<rparr>
            in case commit_acquisition out (owner_new worker_name) g of
                 (r, cleanup, g') \<Rightarrow> (r, cleanup, lg_disk g'))"

record segment_lock_info =
  sl_worker_name :: string
  sl_socket :: path
  sl_pid :: u32

definition lookup_segment ::
  "io_error option \<Rightarrow> (u32 \<Rightarrow> bool) \<Rightarrow> save_outcome \<Rightarrow> lock_file \<Rightarrow> segment_id
     \<Rightarrow> (scope_lock_error + segment_lock_info option) \<times> lock_file" where
  "lookup_segment open_error is_alive out disk segment =
     (case open_error of
        Some e \<Rightarrow> (Inl (IoFailure e), disk)
      | None \<Rightarrow>
          let g = reclaim_stale_with is_alive out (guard_open disk)
          in (Inr (map_option (\<lambda>a. \<lparr>sl_worker_name = al_worker_name a, sl_socket = al_socket a,
                                   sl_pid = al_pid a\<rparr>) (lf_find_by_segment (lg_data g) segment)),
              lg_disk g))"

subsection \<open>Replacing the segment of an allocated Worker\<close>

record activation_guard =
  ag_guard :: lock_guard
  ag_worker_name :: string
  ag_expected :: segment_id
  ag_replacement :: segment_id

definition segment_of :: "lock_file \<Rightarrow> string \<Rightarrow> segment_id option" where
  "segment_of lock worker_name = Option.bind (lf_find lock worker_name) al_segment_id"

definition begin_segment_activation ::
  "io_error option \<Rightarrow> lock_file \<Rightarrow> alloc_owner \<Rightarrow> segment_id \<Rightarrow> segment_id
     \<Rightarrow> scope_lock_error + activation_guard" where
  "begin_segment_activation open_error disk ow expected replacement =
     (case open_error of
        Some e \<Rightarrow> Inl (IoFailure e)
      | None \<Rightarrow>
          let g = guard_open disk;
              actual = segment_of (lg_data g) (ow_worker_name ow)
          in if actual \<noteq> Some expected
             then Inl (SegmentChanged (ow_worker_name ow) expected actual)
             else
               case find (\<lambda>a. al_segment_id a = Some replacement \<and> al_worker_name a \<noteq> ow_worker_name ow)
                      (lg_data g) of
                 Some existing \<Rightarrow>
                   Inl (SegmentConflict replacement (al_worker_name existing) (al_socket existing))
               | None \<Rightarrow>
                   Inr \<lparr>ag_guard = g, ag_worker_name = ow_worker_name ow, ag_expected = expected,
                        ag_replacement = replacement\<rparr>)"

definition activation_commit ::
  "save_outcome \<Rightarrow> activation_guard \<Rightarrow> (scope_lock_error + unit) \<times> activation_guard" where
  "activation_commit out ag =
     (let g = ag_guard ag in
      if lf_find (lg_data g) (ag_worker_name ag) = None
      then (Inl (SegmentChanged (ag_worker_name ag) (ag_expected ag)
                   (segment_of (lg_data g) (ag_worker_name ag))), ag)
      else
        case save_result out (g\<lparr>lg_data := lf_update (ag_worker_name ag)
               (\<lambda>a. a\<lparr>al_segment_id := Some (ag_replacement ag)\<rparr>) (lg_data g)\<rparr>) of
          (r, g') \<Rightarrow> (r, ag\<lparr>ag_guard := g'\<rparr>))"

end
