(* ===== verification/Allocation_Table.thy ===== *)
theory Allocation_Table
  imports Worker_Allocation Scope_Authority
begin

text \<open>
  Correctness of the allocation table: names are unique and the delegation relation is a
  forest in every reachable table, so the conflict search returns; releasing a Worker keeps
  its children attached; and when every delegated write rule lies in its spawner's own write
  scope, Workers that can write the same path are in one line of delegation.
\<close>

section \<open>The delegation forest\<close>

definition tree_of :: "lock_file \<Rightarrow> (string \<times> string option) list" where
  "tree_of lock = map (\<lambda>a. (al_worker_name a, al_delegated_from a)) lock"

text \<open>Every Worker comes after the one that delegated to it.\<close>

fun parents_first :: "string set \<Rightarrow> (string \<times> string option) list \<Rightarrow> bool" where
  "parents_first seen [] = True"
| "parents_first seen ((n, p) # rest) =
     ((case p of None \<Rightarrow> True | Some q \<Rightarrow> q \<in> seen) \<and> parents_first (insert n seen) rest)"

definition table_wf :: "lock_file \<Rightarrow> bool" where
  "table_wf lock \<longleftrightarrow> distinct (map al_worker_name lock) \<and> parents_first {} (tree_of lock)"

lemma parents_first_append:
  "parents_first S (xs @ ys) \<longleftrightarrow> parents_first S xs \<and> parents_first (S \<union> fst ` set xs) ys"
  by (induction S xs rule: parents_first.induct) auto

lemma parents_first_nth:
  "parents_first S xs \<Longrightarrow> j < length xs \<Longrightarrow> snd (xs ! j) = Some p \<Longrightarrow> p \<in> S \<or> (\<exists>i<j. fst (xs ! i) = p)"
proof (induction S xs arbitrary: j rule: parents_first.induct)
  case (2 S n q rest)
  show ?case
  proof (cases j)
    case 0
    with 2 show ?thesis by (auto split: option.splits)
  next
    case (Suc k)
    with 2 have "p \<in> insert n S \<or> (\<exists>i<k. fst (rest ! i) = p)" by simp
    with Suc show ?thesis by (auto intro: exI [of _ 0] exI [of _ "Suc _"])
  qed
qed simp

lemma tree_of_simps [simp]:
  "tree_of [] = []" "tree_of (xs @ ys) = tree_of xs @ tree_of ys"
  "tree_of (a # xs) = (al_worker_name a, al_delegated_from a) # tree_of xs"
  "fst ` set (tree_of xs) = al_worker_name ` set xs"
  by (auto simp: tree_of_def image_image)

lemma tree_of_update [simp]:
  "(\<And>a. al_worker_name (f a) = al_worker_name a) \<Longrightarrow> (\<And>a. al_delegated_from (f a) = al_delegated_from a) \<Longrightarrow>
     tree_of (lf_update n f lock) = tree_of lock"
  by (induction n f lock rule: lf_update.induct) simp_all

lemma names_of_tree: "map al_worker_name lock = map fst (tree_of lock)"
  by (simp add: tree_of_def)

lemma table_wf_tree: "tree_of lock = tree_of lock' \<Longrightarrow> table_wf lock = table_wf lock'"
  by (simp add: table_wf_def names_of_tree)

lemma parent_index:
  assumes "table_wf lock" and "j < length lock" and "al_delegated_from (lock ! j) = Some p"
  obtains i where "i < j" and "al_worker_name (lock ! i) = p"
  using assms parents_first_nth [of "{}" "tree_of lock" j p]
  by (auto simp: table_wf_def tree_of_def)

lemma name_index_unique:
  "table_wf lock \<Longrightarrow> i < length lock \<Longrightarrow> j < length lock \<Longrightarrow>
     al_worker_name (lock ! i) = al_worker_name (lock ! j) \<Longrightarrow> i = j"
  using nth_eq_iff_index_eq [of "map al_worker_name lock" i j] by (simp add: table_wf_def)

lemma child_index:
  assumes "table_wf lock" and "i < length lock"
    and "c \<in> set (children_of lock (al_worker_name (lock ! i)))"
  obtains j where "i < j" and "j < length lock" and "lock ! j = c"
proof -
  from assms(3) obtain j where j: "j < length lock" "lock ! j = c"
    "al_delegated_from (lock ! j) = Some (al_worker_name (lock ! i))"
    by (auto simp: children_of_def in_set_conv_nth)
  from parent_index [OF assms(1) j(1,3)] obtain k where k: "k < j" "al_worker_name (lock ! k) = al_worker_name (lock ! i)"
    by blast
  with name_index_unique [OF assms(1), of k i] assms(2) j have "k = i" by simp
  with k j that show thesis by blast
qed

section \<open>The operations keep the forest\<close>

lemma reparent_sel [simp]:
  "al_worker_name (reparent n q a) = al_worker_name a"
  "al_scope_allow (reparent n q a) = al_scope_allow a"
  "al_scope_deny (reparent n q a) = al_scope_deny a"
  "al_pid (reparent n q a) = al_pid a"
  "al_segment_id (reparent n q a) = al_segment_id a"
  "al_delegated_from (reparent n q a) = (if al_delegated_from a = Some n then q else al_delegated_from a)"
  by (simp_all add: reparent_def)

lemma remove_entry_split:
  assumes "position (\<lambda>a. al_worker_name a = n) lock = Some idx"
  obtains pre x post where "lock = pre @ x # post" "al_worker_name x = n" "n \<notin> al_worker_name ` set pre"
    "remove_entry n idx lock =
       map (reparent n (al_delegated_from x)) (pre @ post)"
proof -
  from assms have idx: "idx < length lock" "al_worker_name (lock ! idx) = n"
    and before: "\<And>j. j < idx \<Longrightarrow> al_worker_name (lock ! j) \<noteq> n"
    by (auto simp: position_Some_iff)
  have "lock = take idx lock @ lock ! idx # drop (Suc idx) lock"
    using idx(1) by (rule id_take_nth_drop)
  moreover have "n \<notin> al_worker_name ` set (take idx lock)"
    using before idx(1) by (force simp: in_set_conv_nth)
  moreover have "remove_entry n idx lock = map (reparent n (al_delegated_from (lock ! idx)))
      (take idx lock @ drop (Suc idx) lock)"
    using idx by (simp add: remove_entry_def remove_at_def take_map drop_map)
  ultimately show thesis using that idx(2) by blast
qed

lemma parents_first_reparent:
  assumes "parents_first (insert n S) (tree_of post)" and "\<And>q. p = Some q \<Longrightarrow> q \<in> S"
    and "n \<notin> al_worker_name ` set post"
  shows "parents_first S (tree_of (map (reparent n p) post))"
  using assms
proof (induction post arbitrary: S)
  case (Cons a post)
  have "parents_first (insert (al_worker_name a) S) (tree_of (map (reparent n p) post))"
    using Cons.prems by (intro Cons.IH) (auto simp: insert_commute)
  with Cons.prems show ?case by (auto split: option.splits)
qed simp

lemma reparent_id:
  "parents_first S (tree_of pre) \<Longrightarrow> n \<notin> S \<Longrightarrow> n \<notin> al_worker_name ` set pre \<Longrightarrow>
     map (reparent n p) pre = pre"
  by (induction pre arbitrary: S) (auto simp: reparent_def split: option.splits)

lemma remove_entry_wf:
  assumes wf: "table_wf lock" and pos: "position (\<lambda>a. al_worker_name a = n) lock = Some idx"
  shows "table_wf (remove_entry n idx lock)"
proof -
  obtain pre x post where s: "lock = pre @ x # post" "al_worker_name x = n" "n \<notin> al_worker_name ` set pre"
    "remove_entry n idx lock = map (reparent n (al_delegated_from x)) (pre @ post)"
    by (rule remove_entry_split [OF pos])
  from wf have d: "distinct (map al_worker_name (pre @ post))" "n \<notin> al_worker_name ` set post"
    and pre: "parents_first {} (tree_of pre)"
    and post: "parents_first (insert n (al_worker_name ` set pre)) (tree_of post)"
    and px: "\<And>q. al_delegated_from x = Some q \<Longrightarrow> q \<in> al_worker_name ` set pre"
    using s by (auto simp: table_wf_def parents_first_append insert_commute split: option.splits)
  have "parents_first (al_worker_name ` set pre) (tree_of (map (reparent n (al_delegated_from x)) post))"
    by (rule parents_first_reparent [OF post px d(2)])
  moreover have "map (reparent n (al_delegated_from x)) pre = pre"
    by (rule reparent_id [OF pre]) (use s in auto)
  moreover have "map al_worker_name (map (reparent n (al_delegated_from x)) (pre @ post))
      = map al_worker_name (pre @ post)"
    by simp
  ultimately show ?thesis
    using d pre by (simp add: table_wf_def s(4) parents_first_append comp_def)
qed

lemma remove_names_wf: "table_wf lock \<Longrightarrow> table_wf (remove_names names lock)"
  by (induction names lock rule: remove_names.induct) (auto simp: remove_entry_wf split: option.split)

lemma save_disk:
  "lg_disk (snd (guard_save out g)) \<in> {lg_disk g, lg_data g}" "lg_data (snd (guard_save out g)) = lg_data g"
  "snd (save_result out g) = snd (guard_save out g)"
  by (simp_all add: guard_save_def save_with_publication_def save_result_def split: save_outcome.split prod.split)

lemma save_result_ok: "save_result out g = (Inr u, g') \<Longrightarrow> g' = g\<lparr>lg_disk := lg_data g\<rparr>"
  by (auto simp: save_result_def guard_save_def save_with_publication_def split: save_outcome.splits)

text \<open>A guard whose tables, in memory and published, are both well formed.\<close>

definition guard_wf :: "lock_guard \<Rightarrow> bool" where
  "guard_wf g \<longleftrightarrow> table_wf (lg_data g) \<and> table_wf (lg_disk g)"

lemma guard_wf_save: "guard_wf g \<Longrightarrow> table_wf data \<Longrightarrow> guard_wf (snd (guard_save out (g\<lparr>lg_data := data\<rparr>)))"
  using save_disk(1,2) [of out "g\<lparr>lg_data := data\<rparr>"] by (auto simp: guard_wf_def)

lemma reclaim_stale_wf: "guard_wf g \<Longrightarrow> guard_wf (reclaim_stale_with is_alive out g)"
  by (simp add: reclaim_stale_with_def Let_def guard_wf_save remove_names_wf guard_wf_def [of g])

lemma lf_find_None_iff: "lf_find lock n = None \<longleftrightarrow> n \<notin> al_worker_name ` set lock"
  by (auto simp: lf_find_def find_None_iff)

lemma table_wf_push_root:
  "table_wf lock \<Longrightarrow> lf_find lock (al_worker_name a) = None \<Longrightarrow> al_delegated_from a = None \<Longrightarrow>
     table_wf (lock @ [a])"
  by (auto simp: table_wf_def parents_first_append lf_find_None_iff)

lemma table_wf_push_child:
  "table_wf lock \<Longrightarrow> lf_find lock (al_worker_name a) = None \<Longrightarrow> al_delegated_from a = Some p \<Longrightarrow>
     lf_find lock p \<noteq> None \<Longrightarrow> table_wf (lock @ [a])"
  by (auto simp: table_wf_def parents_first_append lf_find_None_iff)

lemma prepare_wf:
  assumes "guard_wf g"
    and "prepare_worker_with_deny is_alive out g n pid socket allow deny seg = Some (r, g')"
  shows "guard_wf g'"
  using reclaim_stale_wf [OF assms(1), of is_alive out] assms(2)
  by (auto simp: prepare_worker_with_deny_def Let_def guard_wf_def table_wf_push_root
      split: if_splits option.splits sum.splits)

lemma register_wf:
  assumes g: "guard_wf g"
    and r: "register_worker_with_deny is_alive out1 out2 g n pid socket allow deny seg = Some (r, g')"
  shows "guard_wf g'"
proof -
  obtain r1 g1 where p: "prepare_worker_with_deny is_alive out1 g n pid socket allow deny seg = Some (r1, g1)"
    using r by (auto simp: register_worker_with_deny_def split: option.splits)
  have "guard_wf g1" by (rule prepare_wf [OF g p])
  with r p save_disk [of out2 g1] show ?thesis
    by (cases r1) (auto simp: register_worker_with_deny_def guard_wf_def split: prod.splits)
qed

lemma delegate_wf:
  assumes g: "guard_wf g"
    and d: "delegate_scope fs is_alive out1 out2 g spawner spawned pid socket allow del = Some (r, g')"
  shows "guard_wf g'"
proof -
  define g1 where "g1 = reclaim_stale_with is_alive out1 g"
  have g1: "guard_wf g1" unfolding g1_def by (rule reclaim_stale_wf [OF g])
  define a where "a = \<lparr>al_worker_name = spawned, al_pid = pid, al_socket = socket,
    al_scope_allow = allow, al_scope_deny = [], al_delegated_from = Some spawner, al_segment_id = None\<rparr>"
  have "table_wf (lg_data g1 @ [a])" if "lf_find (lg_data g1) spawned = None" "lf_find (lg_data g1) spawner \<noteq> None"
    using g1 that by (intro table_wf_push_child [where p = spawner]) (auto simp: guard_wf_def a_def)
  then have "guard_wf (snd (guard_save out2 (g1\<lparr>lg_data := lg_data g1 @ [a]\<rparr>)))"
    if "lf_find (lg_data g1) spawned = None" "lf_find (lg_data g1) spawner \<noteq> None"
    using that guard_wf_save [OF g1] by blast
  with d g1 show ?thesis
    by (auto simp: delegate_scope_def Let_def g1_def [symmetric] a_def [symmetric] save_disk(3) [symmetric]
        split: if_splits option.splits sum.splits)
qed

lemma release_wf: "guard_wf g \<Longrightarrow> guard_wf (snd (release_worker out g n))"
  by (auto simp: release_worker_def save_disk(3) guard_wf_def [of g] split: option.split
      intro!: guard_wf_save remove_entry_wf)

lemma position_tree:
  "tree_of lock = tree_of lock' \<Longrightarrow>
     position (\<lambda>a. al_worker_name a = n) lock = position (\<lambda>a. al_worker_name a = n) lock'"
proof -
  have "position (\<lambda>a. al_worker_name a = n) l = position (\<lambda>x. fst x = n) (tree_of l)" for l
    by (induction l) simp_all
  then show "tree_of lock = tree_of lock' \<Longrightarrow> ?thesis" by simp
qed

lemma reclaim_wf:
  assumes g: "guard_wf g"
  shows "guard_wf (snd (reclaim_delegated_scope out g parent child delegated))"
proof -
  define data where "data = lf_update parent
    (\<lambda>a. a\<lparr>al_scope_deny := remove_denies delegated (al_scope_deny a)\<rparr>) (lg_data g)"
  have t: "tree_of data = tree_of (lg_data g)" by (simp add: data_def)
  then have "table_wf data" using g table_wf_tree [of data "lg_data g"] by (simp add: guard_wf_def)
  moreover have "table_wf (remove_entry child idx data)"
    if "position (\<lambda>a. al_worker_name a = child) (lg_data g) = Some idx" for idx
    by (rule remove_entry_wf) (use that calculation position_tree [OF t, of child] in auto)
  ultimately show ?thesis
    using guard_wf_save [OF g]
    by (simp add: reclaim_delegated_scope_def Let_def data_def [symmetric] save_disk(3) split: option.split)
qed

text \<open>
  A transaction opens the published table under the lock, runs one operation and leaves what
  it published. The environment of a transaction is the liveness of processes and how its
  saves end. A search that does not return publishes nothing.
\<close>

record alloc_env =
  ae_alive :: "u32 \<Rightarrow> bool"
  ae_save1 :: save_outcome
  ae_save2 :: save_outcome

datatype alloc_op =
    Register string u32 path "scope_rule list" "scope_rule list" segment_id
  | Delegate string string u32 path "scope_rule list" scope
  | Release string
  | ReclaimDelegated string string "scope_rule list"
  | ReclaimStale
  | Adopt string u32 segment_id
  | Activate alloc_owner segment_id segment_id

fun alloc_step :: "file_system \<Rightarrow> lock_file \<Rightarrow> alloc_env \<times> alloc_op \<Rightarrow> lock_file" where
  "alloc_step fs disk (env, Register n pid socket allow deny seg) =
     (case register_worker_with_deny (ae_alive env) (ae_save1 env) (ae_save2 env) (guard_open disk)
             n pid socket allow deny seg of
        None \<Rightarrow> disk | Some (_, g) \<Rightarrow> lg_disk g)"
| "alloc_step fs disk (env, Delegate spawner spawned pid socket allow del) =
     (case delegate_scope fs (ae_alive env) (ae_save1 env) (ae_save2 env) (guard_open disk)
             spawner spawned pid socket allow del of
        None \<Rightarrow> disk | Some (_, g) \<Rightarrow> lg_disk g)"
| "alloc_step fs disk (env, Release n) = lg_disk (snd (release_worker (ae_save1 env) (guard_open disk) n))"
| "alloc_step fs disk (env, ReclaimDelegated parent child rules) =
     lg_disk (snd (reclaim_delegated_scope (ae_save1 env) (guard_open disk) parent child rules))"
| "alloc_step fs disk (env, ReclaimStale) =
     lg_disk (reclaim_stale_with (ae_alive env) (ae_save1 env) (guard_open disk))"
| "alloc_step fs disk (env, Adopt n pid seg) =
     snd (snd (adopt_allocation_at None (ae_save1 env) disk n pid seg))"
| "alloc_step fs disk (env, Activate ow expected replacement) =
     (case begin_segment_activation None disk ow expected replacement of
        Inl _ \<Rightarrow> disk
      | Inr ag \<Rightarrow> lg_disk (ag_guard (snd (activation_commit (ae_save1 env) ag))))"

lemma guard_open_wf: "table_wf disk \<Longrightarrow> guard_wf (guard_open disk)"
  by (simp add: guard_wf_def guard_open_def)

lemma adopt_disk:
  "snd (snd (adopt_allocation_at None out disk n pid seg))
     \<in> {disk, lf_update n (\<lambda>a. a\<lparr>al_pid := pid, al_segment_id := Some seg\<rparr>) disk}"
  by (auto simp: adopt_allocation_at_def guard_open_def commit_acquisition_def save_with_publication_def
      Let_def split: save_outcome.split)

lemma activate_disk:
  assumes "begin_segment_activation None disk ow e r = Inr ag"
  shows "lg_disk (ag_guard (snd (activation_commit out ag)))
    \<in> {disk, lf_update (ow_worker_name ow) (\<lambda>a. a\<lparr>al_segment_id := Some r\<rparr>) disk}"
  using assms
  by (auto simp: begin_segment_activation_def activation_commit_def guard_open_def save_result_def
      guard_save_def save_with_publication_def Let_def split: if_splits option.splits save_outcome.splits)

lemma update_wf:
  "table_wf disk \<Longrightarrow> (\<And>a. al_worker_name (f a) = al_worker_name a) \<Longrightarrow>
     (\<And>a. al_delegated_from (f a) = al_delegated_from a) \<Longrightarrow> table_wf (lf_update n f disk)"
  using table_wf_tree [of "lf_update n f disk" disk] by simp

lemma alloc_step_wf: "table_wf disk \<Longrightarrow> table_wf (alloc_step fs disk x)"
proof -
  assume wf: "table_wf disk"
  then have g: "guard_wf (guard_open disk)" by (rule guard_open_wf)
  have disk: "guard_wf g' \<Longrightarrow> table_wf (lg_disk g')" for g' by (simp add: guard_wf_def)
  obtain env op where x: "x = (env, op)" by force
  show ?thesis
  proof (cases op)
    case (Adopt n pid seg)
    have "table_wf (lf_update n (\<lambda>a. a\<lparr>al_pid := pid, al_segment_id := Some seg\<rparr>) disk)"
      by (rule update_wf [OF wf]) simp_all
    with Adopt adopt_disk [of "ae_save1 env" disk n pid seg] wf show ?thesis by (auto simp: x)
  next
    case (Activate ow e r)
    with activate_disk [of disk ow e r _ "ae_save1 env"] wf show ?thesis
      by (fastforce simp: x intro: update_wf split: sum.split)
  qed (auto simp: x wf split: option.split intro!: disk reclaim_stale_wf release_wf reclaim_wf g
      dest!: register_wf [OF g] delegate_wf [OF g])
qed

interpretation table: step_system "alloc_step fs" table_wf for fs
  by unfold_locales (rule alloc_step_wf)

section \<open>The conflict search returns\<close>

lemma first_hit_None_iff: "first_hit f xs \<noteq> None" if "\<And>x. x \<in> set xs \<Longrightarrow> f x \<noteq> None"
  using that by (induction xs) (auto split: option.splits)

lemma subtree_search_returns:
  assumes wf: "table_wf lock" and "i < length lock" and "length lock - i \<le> fuel"
  shows "find_conflict_in_subtree fuel lock rule (lock ! i) \<noteq> None"
  using assms(2,3)
proof (induction fuel arbitrary: i)
  case (Suc fuel)
  have "find_conflict_in_subtree fuel lock rule c \<noteq> None"
    if c: "c \<in> set (children_of lock (al_worker_name (lock ! i)))" for c
  proof -
    obtain j where "i < j" "j < length lock" "lock ! j = c"
      by (rule child_index [OF wf Suc.prems(1) c])
    with Suc.IH [of j] Suc.prems show ?thesis by auto
  qed
  then have "first_hit (find_conflict_in_subtree fuel lock rule)
      (children_of lock (al_worker_name (lock ! i))) \<noteq> None"
    by (rule first_hit_None_iff)
  then show ?case by (auto split: option.split)
qed simp

lemma roots_search_returns:
  "(\<And>a. a \<in> set as \<Longrightarrow> f a \<noteq> None) \<Longrightarrow> filter_map_roots f exempt as \<noteq> None"
  by (induction as) (force split: option.split)+

lemma conflict_search_returns:
  assumes "table_wf lock"
  shows "find_conflict_owners lock rule exempt \<noteq> None"
proof -
  have "find_conflict_in_subtree (Suc (length lock)) lock rule a \<noteq> None" if "a \<in> set lock" for a
    using that subtree_search_returns [OF assms, of _ "Suc (length lock)" rule]
    by (force simp: in_set_conv_nth simp del: find_conflict_in_subtree.simps)
  from roots_search_returns [OF this] show ?thesis
    by (simp add: find_conflict_owners_def del: find_conflict_in_subtree.simps)
qed

lemma admit_rules_returns: "table_wf lock \<Longrightarrow> admit_rules lock deny rules \<noteq> None"
  using conflict_search_returns [of lock]
  by (induction rules) (auto split: option.split list.split)

lemma admit_delegated_returns: "table_wf lock \<Longrightarrow> admit_delegated fs del lock spawner rules \<noteq> None"
proof (induction rules)
  case (Cons rule rules)
  then show ?case
    using conflict_search_returns [OF Cons.prems, of rule "Some spawner"]
    by (auto simp: find_conflict_owner_def split: option.split sum.split list.split)
qed simp

lemma register_returns:
  assumes "table_wf disk"
  shows "register_worker_with_deny is_alive out1 out2 (guard_open disk) n pid socket allow deny seg \<noteq> None"
proof -
  have "table_wf (lg_data (reclaim_stale_with is_alive out1 (guard_open disk)))"
    using reclaim_stale_wf [OF guard_open_wf [OF assms]] by (simp add: guard_wf_def)
  from admit_rules_returns [OF this, of deny "write_rules allow"] show ?thesis
    by (auto simp: register_worker_with_deny_def prepare_worker_with_deny_def Let_def
        split: option.split sum.split)
qed

lemma delegate_returns:
  assumes "table_wf disk"
  shows "delegate_scope fs is_alive out1 out2 (guard_open disk) spawner spawned pid socket allow del \<noteq> None"
proof -
  have "table_wf (lg_data (reclaim_stale_with is_alive out1 (guard_open disk)))"
    using reclaim_stale_wf [OF guard_open_wf [OF assms]] by (simp add: guard_wf_def)
  from admit_delegated_returns [OF this, of fs del spawner allow] show ?thesis
    by (auto simp: delegate_scope_def Let_def split: option.split sum.split)
qed

section \<open>Removal\<close>

text \<open>Removing an entry of a well-formed table, without positions.\<close>

lemma remove_entry_eq:
  assumes wf: "table_wf lock" and x: "x \<in> set lock" "al_worker_name x = n"
  obtains idx where "position (\<lambda>a. al_worker_name a = n) lock = Some idx"
    "remove_entry n idx lock =
       map (reparent n (al_delegated_from x)) (filter (\<lambda>a. al_worker_name a \<noteq> n) lock)"
proof -
  obtain idx where pos: "position (\<lambda>a. al_worker_name a = n) lock = Some idx"
    using x position_None_iff [of "\<lambda>a. al_worker_name a = n" lock] by fastforce
  obtain pre y post where s: "lock = pre @ y # post" "al_worker_name y = n" "n \<notin> al_worker_name ` set pre"
    "remove_entry n idx lock = map (reparent n (al_delegated_from y)) (pre @ post)"
    by (rule remove_entry_split [OF pos])
  have d: "distinct (map al_worker_name (pre @ y # post))" using wf s(1) by (simp add: table_wf_def)
  then have post: "n \<notin> al_worker_name ` set post" using s(2) by auto
  have "filter (\<lambda>a. al_worker_name a \<noteq> n) pre = pre" "filter (\<lambda>a. al_worker_name a \<noteq> n) post = post"
    using s(3) post by (auto simp: filter_id_conv)
  then have "filter (\<lambda>a. al_worker_name a \<noteq> n) (pre @ y # post) = pre @ post"
    using s(2) by simp
  moreover have "y = x" using x s(1) post s(3) by (metis Un_iff image_eqI set_ConsD set_append)
  ultimately show thesis using that [OF pos] s(1,4) by simp
qed

lemma names_remove_names:
  "table_wf lock \<Longrightarrow>
     al_worker_name ` set (remove_names names lock) = al_worker_name ` set lock - set names"
proof (induction names lock rule: remove_names.induct)
  case (2 name names lock)
  show ?case
  proof (cases "position (\<lambda>a. al_worker_name a = name) lock")
    case None
    then have "name \<notin> al_worker_name ` set lock" by (auto simp: position_None_iff)
    with 2(1) [OF None 2(3)] None show ?thesis by auto
  next
    case (Some idx)
    then have "idx < length lock" "al_worker_name (lock ! idx) = name" by (auto simp: position_Some_iff)
    then obtain idx' where "position (\<lambda>a. al_worker_name a = name) lock = Some idx'"
      and r: "remove_entry name idx' lock = map (reparent name (al_delegated_from (lock ! idx)))
          (filter (\<lambda>a. al_worker_name a \<noteq> name) lock)"
      using remove_entry_eq [OF 2(3) nth_mem, of idx name] by metis
    with Some have "al_worker_name ` set (remove_entry name idx lock) = al_worker_name ` set lock - {name}"
      by (auto simp: image_image)
    with 2(2) [OF Some remove_entry_wf [OF 2(3) Some]] Some show ?thesis by auto
  qed
qed simp

text \<open>What is left of an allocation differs from it in \<open>delegated_from\<close> at most.\<close>

definition same_grant :: "allocation \<Rightarrow> allocation \<Rightarrow> bool" where
  "same_grant b a \<longleftrightarrow> a\<lparr>al_delegated_from := al_delegated_from b\<rparr> = b"

lemma same_grant_refl: "same_grant a a"
  by (simp add: same_grant_def)

lemma same_grant_reparent: "same_grant b (reparent n q a) \<longleftrightarrow> same_grant b a"
  by (simp add: same_grant_def reparent_def)

lemma same_grant_trans: "same_grant c b \<Longrightarrow> same_grant b a \<Longrightarrow> same_grant c a"
  by (cases a; cases b; cases c) (simp add: same_grant_def)

lemma same_grantD:
  "same_grant b a \<Longrightarrow> al_worker_name b = al_worker_name a \<and> al_pid b = al_pid a
     \<and> al_scope_allow b = al_scope_allow a \<and> al_scope_deny b = al_scope_deny a
     \<and> al_segment_id b = al_segment_id a \<and> al_socket b = al_socket a"
  by (cases a; cases b) (simp add: same_grant_def)

lemma remove_names_entry:
  "a \<in> set (remove_names names lock) \<Longrightarrow> \<exists>b \<in> set lock. same_grant b a"
proof (induction names lock rule: remove_names.induct)
  case (2 name names lock)
  show ?case
  proof (cases "position (\<lambda>a. al_worker_name a = name) lock")
    case None
    with 2 show ?thesis by simp
  next
    case (Some idx)
    obtain pre x post where s: "lock = pre @ x # post"
      "remove_entry name idx lock = map (reparent name (al_delegated_from x)) (pre @ post)"
      by (rule remove_entry_split [OF Some])
    from 2 Some obtain b where b: "b \<in> set (remove_entry name idx lock)" "same_grant b a" by auto
    then obtain c where "c \<in> set lock" "b = reparent name (al_delegated_from x) c"
      unfolding s(2) by (auto simp: s(1))
    moreover have "same_grant c (reparent name (al_delegated_from x) c)"
      by (simp add: same_grant_reparent same_grant_refl)
    ultimately show ?thesis using b(2) by (auto intro: same_grant_trans)
  qed
qed (auto intro: same_grant_refl)

lemma reclaim_stale_entry:
  "a \<in> set (lg_data (reclaim_stale_with is_alive out g)) \<Longrightarrow> \<exists>b \<in> set (lg_data g). same_grant b a"
  by (auto simp: reclaim_stale_with_def Let_def save_disk(2) split: if_splits
      intro: remove_names_entry same_grant_refl)

text \<open>A session segment has at most one writer.\<close>

definition segments_distinct :: "lock_file \<Rightarrow> bool" where
  "segments_distinct lock \<longleftrightarrow>
     (\<forall>a \<in> set lock. \<forall>b \<in> set lock. al_segment_id a \<noteq> None \<longrightarrow> al_segment_id a = al_segment_id b \<longrightarrow>
        al_worker_name a = al_worker_name b)"

lemma segments_distinctD:
  assumes "segments_distinct lock" and "a \<in> set lock" "b \<in> set lock"
    and s: "al_segment_id a = Some s" "al_segment_id b = Some s"
  shows "al_worker_name a = al_worker_name b"
proof -
  have "al_segment_id a \<noteq> None \<longrightarrow> al_segment_id a = al_segment_id b \<longrightarrow> al_worker_name a = al_worker_name b"
    using assms(1-3) unfolding segments_distinct_def by blast
  with s show ?thesis by simp
qed

lemma segments_distinctI:
  assumes "\<And>a b s. a \<in> set lock \<Longrightarrow> b \<in> set lock \<Longrightarrow> al_segment_id a = Some s \<Longrightarrow> al_segment_id b = Some s \<Longrightarrow>
    al_worker_name a = al_worker_name b"
  shows "segments_distinct lock"
  unfolding segments_distinct_def
proof (intro ballI impI)
  fix a b assume ab: "a \<in> set lock" "b \<in> set lock" and ne: "al_segment_id a \<noteq> None" and eq: "al_segment_id a = al_segment_id b"
  from ne obtain s where s: "al_segment_id a = Some s" by blast
  show "al_worker_name a = al_worker_name b" by (rule assms [OF ab s]) (use s eq in simp)
qed

definition same_writer :: "allocation \<Rightarrow> allocation \<Rightarrow> bool" where
  "same_writer b a \<longleftrightarrow> al_worker_name b = al_worker_name a \<and> al_segment_id b = al_segment_id a"

lemma same_grant_writer: "same_grant b a \<Longrightarrow> same_writer b a"
  using same_grantD [of b a] by (simp add: same_writer_def)

lemma segments_distinct_sub:
  assumes d: "segments_distinct lock" and sub: "\<And>a. a \<in> set lock' \<Longrightarrow> \<exists>b \<in> set lock. same_writer b a"
  shows "segments_distinct lock'"
proof (rule segments_distinctI)
  fix a b s
  assume "a \<in> set lock'" "b \<in> set lock'" and s: "al_segment_id a = Some s" "al_segment_id b = Some s"
  then obtain a' b' where a': "a' \<in> set lock" "same_writer a' a" and b': "b' \<in> set lock" "same_writer b' b"
    using sub by meson
  have "al_worker_name a' = al_worker_name b'"
    by (rule segments_distinctD [OF d a'(1) b'(1), of s]) (use a' b' s in \<open>simp_all add: same_writer_def\<close>)
  then show "al_worker_name a = al_worker_name b" using a'(2) b'(2) by (simp add: same_writer_def)
qed

lemma segments_distinct_push:
  assumes d: "segments_distinct lock" and fresh: "\<And>b s. b \<in> set lock \<Longrightarrow> al_segment_id a = Some s \<Longrightarrow> al_segment_id b \<noteq> Some s"
  shows "segments_distinct (lock @ [a])"
proof (rule segments_distinctI)
  fix x y s
  assume "x \<in> set (lock @ [a])" "y \<in> set (lock @ [a])" and s: "al_segment_id x = Some s" "al_segment_id y = Some s"
  then consider "x \<in> set lock" "y \<in> set lock" | "x \<in> set lock" "y = a" | "x = a" "y \<in> set lock" | "x = a" "y = a"
    by auto
  then show "al_worker_name x = al_worker_name y"
    using segments_distinctD [OF d _ _ s] fresh [of x s] fresh [of y s] s by cases simp_all
qed

lemma remove_entry_entry:
  assumes "position (\<lambda>a. al_worker_name a = n) lock = Some idx" and "a \<in> set (remove_entry n idx lock)"
  shows "\<exists>b \<in> set lock. same_grant b a"
  using remove_names_entry [of a "[n]" lock] assms by simp

lemma lf_update_nth_name:
  "b \<in> set (lf_update n f lock) \<Longrightarrow> b \<in> set lock \<or> (\<exists>a \<in> set lock. al_worker_name a = n \<and> b = f a)"
  by (induction n f lock rule: lf_update.induct) (auto split: if_splits)

definition survivors :: "lock_file \<Rightarrow> lock_file \<Rightarrow> bool" where
  "survivors disk lock \<longleftrightarrow> (\<forall>a \<in> set lock. \<exists>b \<in> set disk. same_grant b a)"

lemma survivors_refl: "survivors disk disk"
  by (auto simp: survivors_def intro: same_grant_refl)

lemma reclaim_stale_survivors:
  "survivors disk (lg_data (reclaim_stale_with is_alive out (guard_open disk)))"
  "survivors disk (lg_disk (reclaim_stale_with is_alive out (guard_open disk)))"
proof -
  show data: "survivors disk (lg_data (reclaim_stale_with is_alive out (guard_open disk)))"
    using reclaim_stale_entry [of _ is_alive out "guard_open disk"] by (auto simp: survivors_def guard_open_def)
  have "lg_disk (reclaim_stale_with is_alive out (guard_open disk))
      \<in> {disk, lg_data (reclaim_stale_with is_alive out (guard_open disk))}"
    using save_disk(1,2) [of out "(guard_open disk)\<lparr>lg_data := remove_names
        (map al_worker_name (filter (\<lambda>a. \<not> is_alive (al_pid a)) disk)) disk\<rparr>"]
    by (auto simp: reclaim_stale_with_def Let_def guard_open_def)
  with data survivors_refl show "survivors disk (lg_disk (reclaim_stale_with is_alive out (guard_open disk)))" by auto
qed

definition new_root :: "string \<Rightarrow> u32 \<Rightarrow> path \<Rightarrow> scope_rule list \<Rightarrow> scope_rule list \<Rightarrow> segment_id \<Rightarrow> allocation" where
  "new_root n pid socket allow deny seg =
     \<lparr>al_worker_name = n, al_pid = pid, al_socket = socket, al_scope_allow = allow,
      al_scope_deny = deny, al_delegated_from = None, al_segment_id = Some seg\<rparr>"

lemma prepare_shape:
  assumes "prepare_worker_with_deny is_alive out1 g n pid socket allow deny seg = Some (r, g')"
  defines "g1 \<equiv> reclaim_stale_with is_alive out1 g"
  shows "(\<exists>e. r = Inl e) \<and> g' = g1
    \<or> r = Inr () \<and> lf_find_by_segment (lg_data g1) seg = None
      \<and> g' = g1\<lparr>lg_data := lg_data g1 @ [new_root n pid socket allow deny seg]\<rparr>"
  using assms
  by (auto simp: prepare_worker_with_deny_def new_root_def Let_def split: if_splits option.splits sum.splits)

lemma register_shape:
  assumes "register_worker_with_deny is_alive out1 out2 (guard_open disk) n pid socket allow deny seg = Some (r, g')"
  shows "survivors disk (lg_disk g')
    \<or> (\<exists>lock a. lg_disk g' = lock @ [a] \<and> survivors disk lock \<and> al_segment_id a = Some seg
         \<and> lf_find_by_segment lock seg = None)"
proof -
  define g1 where "g1 = reclaim_stale_with is_alive out1 (guard_open disk)"
  define a where "a = new_root n pid socket allow deny seg"
  have s: "survivors disk (lg_data g1)" "survivors disk (lg_disk g1)"
    unfolding g1_def by (rule reclaim_stale_survivors)+
  obtain r1 g2 where p: "prepare_worker_with_deny is_alive out1 (guard_open disk) n pid socket allow deny seg = Some (r1, g2)"
    using assms by (auto simp: register_worker_with_deny_def split: option.splits)
  from prepare_shape [OF p] assms p have "g' = g1 \<or> lf_find_by_segment (lg_data g1) seg = None
      \<and> g' = snd (guard_save out2 (g1\<lparr>lg_data := lg_data g1 @ [a]\<rparr>))"
    by (auto simp: register_worker_with_deny_def g1_def a_def save_disk(3) [symmetric])
  with s save_disk(1) [of out2 "g1\<lparr>lg_data := lg_data g1 @ [a]\<rparr>"] show ?thesis
    by (auto simp: a_def new_root_def)
qed

lemma delegate_shape:
  assumes "delegate_scope fs is_alive out1 out2 (guard_open disk) spawner spawned pid socket allow del = Some (r, g')"
  shows "survivors disk (lg_disk g')
    \<or> (\<exists>lock a. lg_disk g' = lock @ [a] \<and> survivors disk lock \<and> al_segment_id a = None)"
proof -
  define g1 where "g1 = reclaim_stale_with is_alive out1 (guard_open disk)"
  define a where "a = \<lparr>al_worker_name = spawned, al_pid = pid, al_socket = socket,
    al_scope_allow = allow, al_scope_deny = [], al_delegated_from = Some spawner, al_segment_id = None\<rparr>"
  have s: "survivors disk (lg_data g1)" "survivors disk (lg_disk g1)"
    unfolding g1_def by (rule reclaim_stale_survivors)+
  from assms have "g' = g1 \<or> g' = snd (guard_save out2 (g1\<lparr>lg_data := lg_data g1 @ [a]\<rparr>))"
    by (auto simp: delegate_scope_def Let_def g1_def [symmetric] a_def [symmetric] save_disk(3) [symmetric]
        split: if_splits option.splits sum.splits)
  with s save_disk(1) [of out2 "g1\<lparr>lg_data := lg_data g1 @ [a]\<rparr>"] show ?thesis
    by (auto simp: a_def)
qed

lemma find_by_segment_None: "lf_find_by_segment lock seg = None \<Longrightarrow> b \<in> set lock \<Longrightarrow> al_segment_id b \<noteq> Some seg"
  by (auto simp: lf_find_by_segment_def find_None_iff)

lemma segments_distinct_survivors: "segments_distinct disk \<Longrightarrow> survivors disk lock \<Longrightarrow> segments_distinct lock"
  by (rule segments_distinct_sub) (auto simp: survivors_def intro: same_grant_writer)

lemma segments_distinct_push_survivors:
  assumes d: "segments_distinct disk" and s: "survivors disk lock"
    and a: "al_segment_id a = None \<or> (al_segment_id a = Some seg \<and> lf_find_by_segment lock seg = None)"
  shows "segments_distinct (lock @ [a])"
proof (rule segments_distinct_push [OF segments_distinct_survivors [OF d s]])
  fix b t assume "b \<in> set lock" "al_segment_id a = Some t"
  with a find_by_segment_None [of lock seg b] show "al_segment_id b \<noteq> Some t" by auto
qed

lemma release_survivors: "survivors disk (lg_disk (snd (release_worker out (guard_open disk) n)))"
proof (cases "position (\<lambda>a. al_worker_name a = n) disk")
  case (Some idx)
  have "survivors disk (remove_entry n idx disk)"
    using remove_entry_entry [OF Some] by (auto simp: survivors_def)
  with save_disk(1) [of out "(guard_open disk)\<lparr>lg_data := remove_entry n idx disk\<rparr>"] survivors_refl [of disk]
  show ?thesis by (auto simp: release_worker_def guard_open_def Some save_disk(3))
qed (simp add: release_worker_def guard_open_def survivors_refl)

lemma reclaim_same_writer:
  assumes "a \<in> set (lg_disk (snd (reclaim_delegated_scope out (guard_open disk) parent child delegated)))"
  shows "\<exists>b \<in> set disk. same_writer b a"
proof -
  define f :: "allocation \<Rightarrow> allocation" where "f = (\<lambda>a. a\<lparr>al_scope_deny := remove_denies delegated (al_scope_deny a)\<rparr>)"
  define data where "data = lf_update parent f disk"
  define data' where "data' = (case position (\<lambda>a. al_worker_name a = child) disk of
    None \<Rightarrow> data | Some idx \<Rightarrow> remove_entry child idx data)"
  have upd: "\<exists>b \<in> set disk. same_writer b x" if "x \<in> set data" for x
    using lf_update_nth_name [OF that [unfolded data_def]] by (auto simp: f_def same_writer_def)
  have "tree_of data = tree_of disk" by (simp add: data_def f_def)
  note pos = position_tree [OF this, of child]
  have "\<exists>b \<in> set disk. same_writer b x" if x: "x \<in> set data'" for x
  proof (cases "position (\<lambda>a. al_worker_name a = child) disk")
    case None
    with x upd show ?thesis by (simp add: data'_def)
  next
    case (Some idx)
    with x pos remove_entry_entry [of child data idx x] obtain y where "y \<in> set data" "same_grant y x"
      by (auto simp: data'_def)
    with upd [of y] same_grantD [of y x] show ?thesis by (auto simp: same_writer_def)
  qed
  moreover have "lg_disk (snd (reclaim_delegated_scope out (guard_open disk) parent child delegated)) \<in> {disk, data'}"
    using save_disk(1) [of out "(guard_open disk)\<lparr>lg_data := data'\<rparr>"]
    unfolding data'_def data_def f_def
    by (simp add: reclaim_delegated_scope_def Let_def guard_open_def save_disk(3))
  ultimately show ?thesis using assms by (auto simp: same_writer_def)
qed

lemma segments_distinct_update:
  assumes d: "segments_distinct lock" and f: "\<And>a. al_worker_name (f a) = al_worker_name a"
      "\<And>a. al_segment_id (f a) = Some seg"
    and free: "\<And>b. b \<in> set lock \<Longrightarrow> al_segment_id b = Some seg \<Longrightarrow> al_worker_name b = n"
  shows "segments_distinct (lf_update n f lock)"
proof (rule segments_distinctI)
  fix a b s
  assume "a \<in> set (lf_update n f lock)" "b \<in> set (lf_update n f lock)"
    and s: "al_segment_id a = Some s" "al_segment_id b = Some s"
  then consider "a \<in> set lock" "b \<in> set lock" | "a \<in> set lock" "al_worker_name b = n" "s = seg"
    | "b \<in> set lock" "al_worker_name a = n" "s = seg" | "al_worker_name a = n" "al_worker_name b = n"
    using f by (auto dest!: lf_update_nth_name)
  then show "al_worker_name a = al_worker_name b"
    using segments_distinctD [OF d _ _ s] free [of a] free [of b] s by cases auto
qed

section \<open>A concrete table\<close>

text \<open>A line of three Workers for the witnesses.\<close>

definition entry :: "string \<Rightarrow> u32 \<Rightarrow> string option \<Rightarrow> segment_id option \<Rightarrow> allocation" where
  "entry n pid from seg = \<lparr>al_worker_name = n, al_pid = pid, al_socket = [], al_scope_allow = [],
     al_scope_deny = [], al_delegated_from = from, al_segment_id = seg\<rparr>"

definition line_table :: lock_file where
  "line_table = [entry ''top'' 1 None (Some 7), entry ''mid'' 2 (Some ''top'') (Some 8),
     entry ''low'' 3 (Some ''mid'') None]"

lemma line_table_wf: "table_wf line_table"
  by code_simp

lemma line_table_segments: "segments_distinct line_table"
  by code_simp

section \<open>Properties\<close>

text \<open>
  C8. The table is a forest. After any sequence of transactions on an initially empty table,
  with any process deaths and any save failures, Worker names are unique and every
  \<open>delegated_from\<close> names an earlier entry of the table; in particular the delegation relation
  has no cycle and no dangling parent.
\<close>

theorem allocation_table_forest: "table_wf (run_ops (alloc_step fs) [] ops)"
  by (rule table.run_inv) (simp add: table_wf_def)

text \<open>
  C18. Admission terminates. On every table that transactions can produce, the recursive
  conflict search returns, so a registration and a delegation always produce a result.
\<close>

theorem admission_returns:
  defines "disk \<equiv> \<lambda>fs ops. run_ops (alloc_step fs) [] ops"
  shows "register_worker_with_deny is_alive out1 out2 (guard_open (disk fs ops)) n pid socket allow deny seg \<noteq> None
    \<and> delegate_scope fs is_alive out1 out2 (guard_open (disk fs ops)) spawner n pid socket allow del \<noteq> None"
proof -
  have "table_wf (disk fs ops)"
    unfolding disk_def by (rule table.run_inv) (simp add: table_wf_def)
  then show ?thesis by (intro conjI register_returns delegate_returns)
qed

text \<open>
  Releasing a Worker. On a well-formed table, releasing an allocated Worker removes exactly
  its entry and hands its children to the Worker that had delegated to it; nothing else
  changes.
\<close>

theorem release_reparents:
  assumes wf: "table_wf disk" and x: "x \<in> set disk" "al_worker_name x = n"
  shows "release_worker SaveOk (guard_open disk) n =
    (let disk' = map (\<lambda>a. if al_delegated_from a = Some n then a\<lparr>al_delegated_from := al_delegated_from x\<rparr> else a)
                   (filter (\<lambda>a. al_worker_name a \<noteq> n) disk)
     in (Inr (), \<lparr>lg_data = disk', lg_disk = disk'\<rparr>))"
proof -
  obtain idx where "position (\<lambda>a. al_worker_name a = n) disk = Some idx"
    "remove_entry n idx disk = map (reparent n (al_delegated_from x)) (filter (\<lambda>a. al_worker_name a \<noteq> n) disk)"
    by (rule remove_entry_eq [OF wf x])
  then show ?thesis
    by (simp add: release_worker_def guard_open_def save_result_def guard_save_def
        save_with_publication_def Let_def reparent_def)
qed

theorem release_reparents_witness:
  "release_worker SaveOk (guard_open line_table) ''mid'' =
     (let disk' = [entry ''top'' 1 None (Some 7), entry ''low'' 3 (Some ''top'') None]
      in (Inr (), \<lparr>lg_data = disk', lg_disk = disk'\<rparr>))"
proof -
  have "entry ''mid'' 2 (Some ''top'') (Some 8) \<in> set line_table"
    "al_worker_name (entry ''mid'' 2 (Some ''top'') (Some 8)) = ''mid''"
    by (simp_all add: line_table_def entry_def)
  from release_reparents [OF line_table_wf this] show ?thesis by (simp add: line_table_def entry_def)
qed

text \<open>
  Stale reclaim. On a well-formed table, reclaiming removes exactly the Workers whose
  process is dead, and every Worker left keeps everything but possibly the Worker it was
  delegated from.
\<close>

theorem reclaim_stale_exact:
  assumes wf: "table_wf disk"
  shows "let g = reclaim_stale_with is_alive SaveOk (guard_open disk) in
    al_worker_name ` set (lg_disk g) = al_worker_name ` {a \<in> set disk. is_alive (al_pid a)}
    \<and> (\<forall>a \<in> set (lg_disk g). \<exists>b \<in> set disk. same_grant b a)"
proof -
  let ?dead = "map al_worker_name (filter (\<lambda>a. \<not> is_alive (al_pid a)) disk)"
  define lock where "lock = remove_names ?dead disk"
  have disk: "lg_disk (reclaim_stale_with is_alive SaveOk (guard_open disk)) = lock"
    by (cases "?dead = []")
      (simp_all add: lock_def reclaim_stale_with_def Let_def guard_open_def guard_save_def
        save_with_publication_def del: map_is_Nil_conv)
  have inj: "a = b" if "a \<in> set disk" "b \<in> set disk" "al_worker_name a = al_worker_name b" for a b
    using wf that by (auto simp: table_wf_def distinct_map inj_on_def)
  have "al_worker_name ` set lock = al_worker_name ` set disk - set ?dead"
    unfolding lock_def by (rule names_remove_names [OF wf])
  also have "\<dots> = al_worker_name ` {a \<in> set disk. is_alive (al_pid a)}"
  proof (intro set_eqI iffI)
    fix n assume "n \<in> al_worker_name ` set disk - set ?dead"
    then show "n \<in> al_worker_name ` {a \<in> set disk. is_alive (al_pid a)}" by auto
  next
    fix n assume "n \<in> al_worker_name ` {a \<in> set disk. is_alive (al_pid a)}"
    then obtain a where a: "a \<in> set disk" "is_alive (al_pid a)" "n = al_worker_name a" by auto
    then have "n \<notin> set ?dead" using inj [OF a(1)] by auto
    with a show "n \<in> al_worker_name ` set disk - set ?dead" by auto
  qed
  finally show ?thesis using remove_names_entry [of _ ?dead disk] by (simp add: disk lock_def)
qed

theorem reclaim_stale_exact_witness:
  "al_worker_name ` set (lg_disk (reclaim_stale_with (\<lambda>pid. pid \<noteq> 2) SaveOk (guard_open line_table)))
     = {''top'', ''low''}"
proof -
  have "{a \<in> set line_table. al_pid a \<noteq> 2} = {entry ''top'' 1 None (Some 7), entry ''low'' 3 (Some ''mid'') None}"
    by (auto simp: line_table_def entry_def)
  with reclaim_stale_exact [OF line_table_wf, of "\<lambda>pid. pid \<noteq> 2"] show ?thesis
    by (simp add: Let_def entry_def)
qed

text \<open>
  One writer per session segment. A transaction keeps every segment with at most one
  Worker; for the adoption of a pre-registered allocation this needs the adopted segment not
  to be held by another Worker, which that operation does not check itself.
\<close>

theorem segment_single_writer:
  assumes d: "segments_distinct disk"
    and adopt: "\<forall>n pid seg. op = Adopt n pid seg \<longrightarrow>
      (\<forall>b \<in> set disk. al_segment_id b = Some seg \<longrightarrow> al_worker_name b = n)"
  shows "segments_distinct (alloc_step fs disk (env, op))"
proof (cases op)
  case (Register n pid socket allow deny seg)
  note shape = register_shape [of "ae_alive env" "ae_save1 env" "ae_save2 env" disk n pid socket allow deny seg]
  show ?thesis
    by (auto simp: Register d split: option.split dest!: shape
        intro: segments_distinct_survivors [OF d] segments_distinct_push_survivors [OF d])
next
  case (Delegate spawner spawned pid socket allow del)
  note shape = delegate_shape [of fs "ae_alive env" "ae_save1 env" "ae_save2 env" disk spawner spawned pid socket allow del]
  show ?thesis
    by (auto simp: Delegate d split: option.split dest!: shape
        intro: segments_distinct_survivors [OF d] segments_distinct_push_survivors [OF d])
next
  case (Adopt n pid seg)
  have "segments_distinct (lf_update n (\<lambda>a. a\<lparr>al_pid := pid, al_segment_id := Some seg\<rparr>) disk)"
    by (rule segments_distinct_update [OF d, where seg = seg]) (use adopt Adopt in auto)
  with adopt_disk [of "ae_save1 env" disk n pid seg] d show ?thesis by (auto simp: Adopt)
next
  case (Activate ow e r)
  show ?thesis
  proof (cases "begin_segment_activation None disk ow e r")
    case (Inr ag)
    then have "segments_distinct (lf_update (ow_worker_name ow) (\<lambda>a. a\<lparr>al_segment_id := Some r\<rparr>) disk)"
      by (intro segments_distinct_update [OF d, where seg = r])
        (auto simp: begin_segment_activation_def Let_def guard_open_def find_None_iff split: if_splits option.splits)
    with activate_disk [OF Inr, of "ae_save1 env"] d show ?thesis by (auto simp: Activate Inr)
  qed (simp add: Activate d)
next
  case (ReclaimDelegated parent child rules)
  show ?thesis
    unfolding ReclaimDelegated alloc_step.simps by (rule segments_distinct_sub [OF d]) (rule reclaim_same_writer)
qed (auto intro: segments_distinct_survivors [OF d] reclaim_stale_survivors release_survivors)

theorem segment_single_writer_witness:
  "segments_distinct (alloc_step plain_fs line_table
     (\<lparr>ae_alive = (\<lambda>pid. True), ae_save1 = SaveOk, ae_save2 = SaveOk\<rparr>, Adopt ''low'' 9 5))"
  by (rule segment_single_writer [OF line_table_segments]) (simp add: line_table_def entry_def)

text \<open>
  Ownership follows publication. Installing a top-level Worker yields a live guard when the
  table was saved, a detached cleanup authority when the save failed after the entry was
  published, and neither when nothing was published; in the last case the published table
  gained no entry.
\<close>

theorem acquisition_matches_publication:
  assumes "install_top_level_with_deny None is_alive out1 out2 disk n pid socket allow deny seg
    = Some (r, cleanup, disk')"
  shows "case (r, cleanup) of
      (Inr ow, None) \<Rightarrow> ow = owner_new n
         \<and> (\<exists>a \<in> set disk'. al_worker_name a = n \<and> al_segment_id a = Some seg)
    | (Inl _, Some ow) \<Rightarrow> ow = guard_drop (owner_new n)
         \<and> (\<exists>a \<in> set disk'. al_worker_name a = n \<and> al_segment_id a = Some seg)
    | (Inl _, None) \<Rightarrow> survivors disk disk'
    | (Inr _, Some _) \<Rightarrow> False"
proof -
  let ?g = "reclaim_stale_with is_alive out1 (guard_open disk)"
  obtain r1 g1 where p: "prepare_worker_with_deny is_alive out1 (guard_open disk) n pid socket allow deny seg = Some (r1, g1)"
    using assms by (auto simp: install_top_level_with_deny_def split: option.splits)
  from prepare_shape [OF p] consider e where "r1 = Inl e" "g1 = ?g"
    | "r1 = Inr ()" "g1 = ?g\<lparr>lg_data := lg_data ?g @ [new_root n pid socket allow deny seg]\<rparr>" by blast
  then show ?thesis
  proof cases
    case 1
    with assms p reclaim_stale_survivors(2) [of disk is_alive out1] show ?thesis
      by (simp add: install_top_level_with_deny_def) (auto split: sum.split option.split)
  next
    case 2
    with assms p reclaim_stale_survivors(2) [of disk is_alive out1] show ?thesis
      by (cases out2)
        (auto simp: install_top_level_with_deny_def commit_acquisition_def save_with_publication_def new_root_def)
  qed
qed

theorem acquisition_matches_publication_witness:
  "\<exists>disk'. install_top_level_with_deny None (\<lambda>pid. True) SaveOk (FailAfterRename (IoError OtherKind [])) line_table
       ''new'' 4 [] [] [] 9
     = Some (Inl (AcquisitionSaveFailed (IoError OtherKind []) ''new''), Some (guard_drop (owner_new ''new'')), disk')
   \<and> (\<exists>a \<in> set disk'. al_worker_name a = ''new'' \<and> al_segment_id a = Some 9)"
proof -
  have "install_top_level_with_deny None (\<lambda>pid. True) SaveOk (FailAfterRename (IoError OtherKind [])) line_table
       ''new'' 4 [] [] [] 9
     = Some (Inl (AcquisitionSaveFailed (IoError OtherKind []) ''new''), Some (guard_drop (owner_new ''new'')),
         line_table @ [entry ''new'' 4 None (Some 9)])"
    by code_simp
  from acquisition_matches_publication [OF this] this show ?thesis by auto
qed

text \<open>
  Release is guarded and happens once. While the guard is attached a release is refused
  and changes nothing. Afterwards a release that reports success has removed the Worker's
  entry, and from then on releasing again, by any handle and on any table, does nothing.
\<close>

theorem release_once:
  assumes wf: "table_wf disk" and free: "\<not> ow_guard_attached ow" "\<not> ow_released ow"
    and ok: "owner_release open_error out ow disk = (Inr (), ow', disk')"
  shows "ow_worker_name ow \<notin> al_worker_name ` set disk'
    \<and> owner_release e2 out2 ow' disk2 = (Inr (), ow', disk2)
    \<and> owner_release e2 out2 (ow'\<lparr>ow_guard_attached := True\<rparr>) disk2
        = (Inl (AllocationGuardAttached (ow_worker_name ow)), ow'\<lparr>ow_guard_attached := True\<rparr>, disk2)"
proof -
  let ?n = "ow_worker_name ow"
  have none: "open_error = None" using ok free by (auto simp: owner_release_def split: option.splits)
  obtain g' where g': "ow' = ow\<lparr>ow_released := True\<rparr>" "disk' = lg_disk g'"
    "(if lf_find disk ?n \<noteq> None then release_worker out (guard_open disk) ?n
      else save_result out (guard_open disk)) = (Inr (), g')"
    using ok free none
    by (auto simp: owner_release_def guard_open_def Let_def split: prod.splits sum.splits if_splits)
  have "?n \<notin> al_worker_name ` set disk'"
  proof (cases "lf_find disk ?n")
    case None
    with g'(3) have "save_result out (guard_open disk) = (Inr (), g')" by simp
    from save_result_ok [OF this] have "disk' = disk" by (simp add: g'(2) guard_open_def)
    with None show ?thesis by (simp add: lf_find_None_iff)
  next
    case (Some x)
    then have x: "x \<in> set disk" "al_worker_name x = ?n" by (auto simp: lf_find_def find_Some_iff)
    obtain idx where idx: "position (\<lambda>a. al_worker_name a = ?n) disk = Some idx"
      "remove_entry ?n idx disk = map (reparent ?n (al_delegated_from x)) (filter (\<lambda>a. al_worker_name a \<noteq> ?n) disk)"
      by (rule remove_entry_eq [OF wf x])
    have "save_result out ((guard_open disk)\<lparr>lg_data := remove_entry ?n idx disk\<rparr>) = (Inr (), g')"
      using g'(3) Some idx(1) by (simp add: release_worker_def guard_open_def)
    from save_result_ok [OF this] have "disk' = remove_entry ?n idx disk" by (simp add: g'(2))
    then show ?thesis using idx(2) by auto
  qed
  with free g'(1) show ?thesis by (simp add: owner_release_def)
qed

theorem release_once_witness:
  "\<exists>ow' disk'. owner_release None SaveOk (guard_drop (owner_new ''mid'')) line_table = (Inr (), ow', disk')
     \<and> ''mid'' \<notin> al_worker_name ` set disk'"
proof -
  have eq: "owner_release None SaveOk (guard_drop (owner_new ''mid'')) line_table
      = (Inr (), (guard_drop (owner_new ''mid''))\<lparr>ow_released := True\<rparr>,
         [entry ''top'' 1 None (Some 7), entry ''low'' 3 (Some ''top'') None])"
    by code_simp
  from release_once [OF line_table_wf _ _ eq]
  have "''mid'' \<notin> al_worker_name ` set [entry ''top'' 1 None (Some 7), entry ''low'' 3 (Some ''top'') None]"
    by (simp add: guard_drop_def owner_new_def)
  with eq show ?thesis by blast
qed

end
