(* ===== verification/Write_Exclusivity.thy ===== *)
theory Write_Exclusivity
  imports Allocation_Table
begin

text \<open>
  Exclusive write scopes. As long as every delegated write rule lies within a write rule of
  its spawner and no allocation carries write denies, two Workers whose write rules share a
  path are in one line of delegation.
\<close>

section \<open>Write rules\<close>

abbreviation wr :: "allocation \<Rightarrow> scope_rule list" where
  "wr a \<equiv> write_rules (al_scope_allow a)"

definition write_covers :: "scope_rule \<Rightarrow> scope_rule \<Rightarrow> bool" where
  "write_covers a b \<longleftrightarrow> covers_fully (a\<lparr>sr_permission := Write\<rparr>) b"

lemma Write_less [simp]: "\<not> Write < p"
  by (simp add: less_permission_def)

interpretation claims: region_rules sr_recursive sr_target write_covers rules_overlap
proof unfold_locales
  fix a b :: scope_rule
  assume n: "normal_path (sr_target a)" "normal_path (sr_target b)"
  show "write_covers a b \<longleftrightarrow>
      region (sr_recursive b) (sr_target b) \<subseteq> region (sr_recursive a) (sr_target a)"
    using n by (auto simp: region_subset_iff write_covers_def covers_fully_def path_starts_with_def)
  show "rules_overlap a b \<longleftrightarrow>
      region (sr_recursive a) (sr_target a) \<inter> region (sr_recursive b) (sr_target b) \<noteq> {}"
    using n by (auto simp: region_meets_iff rules_overlap_def path_starts_with_def split: bool.split)
qed

lemma write_covers_iff: "sr_permission a = Write \<Longrightarrow> covers_fully a b \<longleftrightarrow> write_covers a b"
  by (simp add: write_covers_def covers_fully_def)

section \<open>The invariant\<close>

definition nested_wf :: "lock_file \<Rightarrow> bool" where
  "nested_wf lock \<longleftrightarrow>
     table_wf lock
     \<and> (\<forall>a \<in> set lock. write_rules (al_scope_deny a) = [] \<and> (\<forall>r \<in> set (wr a). normal_path (sr_target r)))
     \<and> (\<forall>a \<in> set lock. \<forall>b \<in> set lock. al_delegated_from a = Some (al_worker_name b) \<longrightarrow>
          (\<forall>r \<in> set (wr a). \<exists>s \<in> set (wr b). write_covers s r))
     \<and> (\<forall>a \<in> set lock. \<forall>b \<in> set lock. al_worker_name a \<noteq> al_worker_name b \<longrightarrow>
          al_delegated_from a = al_delegated_from b \<longrightarrow>
          (\<forall>r \<in> set (wr a). \<forall>s \<in> set (wr b). \<not> rules_overlap r s))"

lemma nested_table: "nested_wf lock \<Longrightarrow> table_wf lock"
  by (simp add: nested_wf_def)

lemma nested_normal: "nested_wf lock \<Longrightarrow> a \<in> set lock \<Longrightarrow> r \<in> set (wr a) \<Longrightarrow> normal_path (sr_target r)"
  by (auto simp: nested_wf_def)

lemma nested_deny: "nested_wf lock \<Longrightarrow> a \<in> set lock \<Longrightarrow> write_rules (al_scope_deny a) = []"
  by (auto simp: nested_wf_def)

lemma nested_child:
  "nested_wf lock \<Longrightarrow> a \<in> set lock \<Longrightarrow> b \<in> set lock \<Longrightarrow> al_delegated_from a = Some (al_worker_name b) \<Longrightarrow>
     r \<in> set (wr a) \<Longrightarrow> \<exists>s \<in> set (wr b). write_covers s r"
  by (auto simp: nested_wf_def)

lemma nested_siblings:
  "nested_wf lock \<Longrightarrow> a \<in> set lock \<Longrightarrow> b \<in> set lock \<Longrightarrow> al_worker_name a \<noteq> al_worker_name b \<Longrightarrow>
     al_delegated_from a = al_delegated_from b \<Longrightarrow> r \<in> set (wr a) \<Longrightarrow> s \<in> set (wr b) \<Longrightarrow> \<not> rules_overlap r s"
  by (auto simp: nested_wf_def)

lemma entry_unique:
  "table_wf lock \<Longrightarrow> a \<in> set lock \<Longrightarrow> b \<in> set lock \<Longrightarrow> al_worker_name a = al_worker_name b \<Longrightarrow> a = b"
  by (auto simp: table_wf_def distinct_map inj_on_def)

definition delegation :: "lock_file \<Rightarrow> (string \<times> string) set" where
  "delegation lock = {(p, c). \<exists>a \<in> set lock. al_worker_name a = c \<and> al_delegated_from a = Some p}"

lemma delegation_entry:
  assumes "table_wf lock" and "(p, c) \<in> delegation lock"
  obtains a b where "a \<in> set lock" "al_worker_name a = c" "al_delegated_from a = Some p"
    "b \<in> set lock" "al_worker_name b = p"
proof -
  from assms(2) obtain j where j: "j < length lock" "al_worker_name (lock ! j) = c"
    "al_delegated_from (lock ! j) = Some p"
    by (auto simp: delegation_def in_set_conv_nth)
  from parent_index [OF assms(1) j(1,3)] obtain i where "i < j" "al_worker_name (lock ! i) = p" by blast
  with j that [of "lock ! j" "lock ! i"] show thesis by simp
qed

text \<open>A rule of a Worker is covered by a rule of every Worker above it.\<close>

lemma covered_upwards:
  assumes wf: "nested_wf lock" and "(p, c) \<in> (delegation lock)\<^sup>*"
    and "a \<in> set lock" "al_worker_name a = c" and r: "\<exists>u \<in> set (wr a). write_covers u r"
    and n: "normal_path (sr_target r)" and "b \<in> set lock" "al_worker_name b = p"
  shows "\<exists>u \<in> set (wr b). write_covers u r"
  using assms(2,7,8)
proof (induction p arbitrary: b rule: converse_rtrancl_induct)
  case base
  then have "b = a" using entry_unique [OF nested_table [OF wf], of b a] assms(3,4) by simp
  with r show ?case by simp
next
  case (step p q)
  obtain d where d: "d \<in> set lock" "al_worker_name d = q" "al_delegated_from d = Some p"
    by (rule delegation_entry [OF nested_table [OF wf] step.hyps(1)])
  from step.IH [OF d(1,2)] obtain u where u: "u \<in> set (wr d)" "write_covers u r" by blast
  have dp: "al_delegated_from d = Some (al_worker_name b)" using d(3) step.prems(2) by simp
  from nested_child [OF wf d(1) step.prems(1) dp u(1)] obtain s where s: "s \<in> set (wr b)" "write_covers s u"
    by blast
  have "write_covers s r"
    using claims.contains_trans [OF nested_normal [OF wf step.prems(1) s(1)]
        nested_normal [OF wf d(1) u(1)] n s(2) u(2)] .
  with s(1) show ?case by blast
qed

text \<open>Below a Worker, the line of delegation starts at one of its children.\<close>

lemma first_child_on_path:
  assumes wf: "nested_wf lock" and p: "(p, c) \<in> (delegation lock)\<^sup>+"
    and a: "a \<in> set lock" "al_worker_name a = c" and r: "r \<in> set (wr a)"
  obtains d u where "d \<in> set lock" "al_delegated_from d = Some p" "(al_worker_name d, c) \<in> (delegation lock)\<^sup>*"
    "u \<in> set (wr d)" "write_covers u r"
proof -
  from p obtain q where q: "(p, q) \<in> delegation lock" "(q, c) \<in> (delegation lock)\<^sup>*"
    by (blast dest: tranclD)
  obtain d where d: "d \<in> set lock" "al_worker_name d = q" "al_delegated_from d = Some p"
    by (rule delegation_entry [OF nested_table [OF wf] q(1)])
  have n: "normal_path (sr_target r)" by (rule nested_normal [OF wf a(1) r])
  then have "\<exists>u \<in> set (wr a). write_covers u r" using r claims.contains_refl by blast
  from covered_upwards [OF wf q(2) a this n d(1,2)] d q(2) that show thesis by blast
qed

section \<open>Overlapping Workers are in one line\<close>

definition in_line :: "lock_file \<Rightarrow> allocation \<Rightarrow> allocation \<Rightarrow> bool" where
  "in_line lock a b \<longleftrightarrow>
     (al_worker_name a, al_worker_name b) \<in> (delegation lock)\<^sup>*
     \<or> (al_worker_name b, al_worker_name a) \<in> (delegation lock)\<^sup>*"

lemma in_line_sym: "in_line lock a b \<longleftrightarrow> in_line lock b a"
  by (auto simp: in_line_def)

text \<open>If a Worker is in line with the parent of an overlapping Worker, it is with that Worker.\<close>

lemma in_line_below:
  assumes wf: "nested_wf lock" and a: "a \<in> set lock" and b: "b \<in> set lock" and q: "q \<in> set lock"
    and bq: "al_delegated_from b = Some (al_worker_name q)"
    and r: "r \<in> set (wr a)" and s: "s \<in> set (wr b)" and ov: "rules_overlap r s"
    and line: "in_line lock a q"
  shows "in_line lock a b"
proof -
  have qb: "(al_worker_name q, al_worker_name b) \<in> delegation lock" using b bq by (auto simp: delegation_def)
  from line consider "(al_worker_name a, al_worker_name q) \<in> (delegation lock)\<^sup>*"
    | "(al_worker_name q, al_worker_name a) \<in> (delegation lock)\<^sup>+"
    by (auto simp: in_line_def rtrancl_eq_or_trancl)
  then show ?thesis
  proof cases
    case 1
    with qb show ?thesis by (auto simp: in_line_def)
  next
    case 2
    obtain d u where d: "d \<in> set lock" "al_delegated_from d = Some (al_worker_name q)"
      "(al_worker_name d, al_worker_name a) \<in> (delegation lock)\<^sup>*" "u \<in> set (wr d)" "write_covers u r"
      by (rule first_child_on_path [OF wf 2 a refl r])
    have "rules_overlap u s"
      by (rule claims.contains_overlaps [OF nested_normal [OF wf d(1,4)] nested_normal [OF wf a r]
            nested_normal [OF wf b s] d(5) ov])
    then have "al_worker_name d = al_worker_name b"
      using nested_siblings [OF wf d(1) b _ _ d(4) s] d(2) bq by auto
    with d(3) show ?thesis by (auto simp: in_line_def)
  qed
qed

lemma overlap_in_line_index:
  assumes wf: "nested_wf lock"
  shows "i < length lock \<Longrightarrow> j < length lock \<Longrightarrow> r \<in> set (wr (lock ! i)) \<Longrightarrow> s \<in> set (wr (lock ! j)) \<Longrightarrow>
    rules_overlap r s \<Longrightarrow> in_line lock (lock ! i) (lock ! j)"
proof (induction "i + j" arbitrary: i j r s rule: less_induct)
  case less
  note t = nested_table [OF wf]
  have mem: "lock ! i \<in> set lock" "lock ! j \<in> set lock" using less.prems by simp_all
  note nr = nested_normal [OF wf mem(1) less.prems(3)] and ns = nested_normal [OF wf mem(2) less.prems(4)]
  show ?case
  proof (cases "al_delegated_from (lock ! j)")
    case (Some p)
    from parent_index [OF t less.prems(2) Some] obtain k where k: "k < j" "al_worker_name (lock ! k) = p" by blast
    have kmem: "lock ! k \<in> set lock" and dj: "al_delegated_from (lock ! j) = Some (al_worker_name (lock ! k))"
      using k less.prems(2) Some by simp_all
    from nested_child [OF wf mem(2) kmem dj less.prems(4)] obtain u
      where u: "u \<in> set (wr (lock ! k))" "write_covers u s" by blast
    have nu: "normal_path (sr_target u)" by (rule nested_normal [OF wf kmem u(1)])
    have "rules_overlap r u"
      using claims.contains_overlaps [OF nu ns nr u(2)] less.prems(5) claims.overlaps_sym [OF nr ns]
        claims.overlaps_sym [OF nr nu] by blast
    then have "in_line lock (lock ! i) (lock ! k)"
      using less.hyps [of i k r u] k less.prems u by simp
    then show ?thesis by (rule in_line_below [OF wf mem kmem dj less.prems(3-5)])
  next
    case j: None
    show ?thesis
    proof (cases "al_delegated_from (lock ! i)")
      case None
      with j nested_siblings [OF wf mem _ _ less.prems(3,4)] less.prems(5)
      have "al_worker_name (lock ! i) = al_worker_name (lock ! j)" by auto
      then show ?thesis by (simp add: in_line_def)
    next
      case (Some p)
      from parent_index [OF t less.prems(1) Some] obtain k where k: "k < i" "al_worker_name (lock ! k) = p" by blast
      have kmem: "lock ! k \<in> set lock" and di: "al_delegated_from (lock ! i) = Some (al_worker_name (lock ! k))"
        using k less.prems(1) Some by simp_all
      from nested_child [OF wf mem(1) kmem di less.prems(3)] obtain u
        where u: "u \<in> set (wr (lock ! k))" "write_covers u r" by blast
      have nu: "normal_path (sr_target u)" by (rule nested_normal [OF wf kmem u(1)])
      have "rules_overlap u s" by (rule claims.contains_overlaps [OF nu nr ns u(2) less.prems(5)])
      then have "in_line lock (lock ! k) (lock ! j)"
        using less.hyps [of k j u s] k less.prems u by simp
      moreover have "rules_overlap s r" using less.prems(5) claims.overlaps_sym [OF nr ns] by blast
      ultimately have "in_line lock (lock ! j) (lock ! i)"
        using in_line_below [OF wf mem(2,1) kmem di less.prems(4,3)] in_line_sym by blast
      then show ?thesis by (simp add: in_line_sym)
    qed
  qed
qed

lemma overlap_in_line:
  assumes "nested_wf lock" and "a \<in> set lock" "b \<in> set lock"
    and "r \<in> set (wr a)" "s \<in> set (wr b)" "rules_overlap r s"
  shows "in_line lock a b"
  using assms overlap_in_line_index [OF assms(1)] by (auto simp: in_set_conv_nth [of _ lock])

section \<open>What the conflict search finds\<close>

lemma first_hit_Some:
  "(\<And>x. x \<in> set xs \<Longrightarrow> f x \<noteq> None) \<Longrightarrow> t \<in> set xs \<Longrightarrow> f t = Some (Some y) \<Longrightarrow>
     \<exists>x z. x \<in> set xs \<and> f x = Some (Some z) \<and> first_hit f xs = Some (Some z)"
proof (induction xs)
  case (Cons x xs)
  show ?case
  proof (cases "f x")
    case None
    with Cons.prems(1) [of x] show ?thesis by simp
  next
    case (Some hit)
    show ?thesis
    proof (cases hit)
      case None
      with Some Cons.prems have "t \<in> set xs" by auto
      with Cons Some None show ?thesis by auto
    next
      case (Some z)
      with \<open>f x = Some hit\<close> show ?thesis by auto
    qed
  qed
qed simp

lemma first_hit_only:
  "b \<in> set xs \<Longrightarrow> f b = Some (Some y) \<Longrightarrow> (\<And>c. c \<in> set xs \<Longrightarrow> c \<noteq> b \<Longrightarrow> f c = Some None) \<Longrightarrow>
     first_hit f xs = Some (Some y)"
proof (induction xs)
  case (Cons x xs)
  show ?case
  proof (cases "x = b")
    case True
    with Cons.prems show ?thesis by simp
  next
    case False
    with Cons.prems have "f x = Some None" "b \<in> set xs" by auto
    with Cons show ?thesis by simp
  qed
qed simp

lemma find_overlap_None_iff:
  "find (\<lambda>r. rules_overlap r rule) (wr a) = None \<longleftrightarrow> (\<forall>r \<in> set (wr a). \<not> rules_overlap r rule)"
  by (auto simp: find_None_iff)

lemma search_miss:
  "\<forall>r \<in> set (wr a). \<not> rules_overlap r rule \<Longrightarrow>
     find_conflict_in_subtree (Suc fuel) lock rule a = Some None"
  by (simp add: find_overlap_None_iff [THEN iffD2])

lemma search_hit_iff:
  assumes "write_rules (al_scope_deny a) = []" and "find_conflict_in_subtree fuel lock rule a \<noteq> None"
  shows "find_conflict_in_subtree fuel lock rule a = Some None \<longleftrightarrow>
    (\<forall>r \<in> set (wr a). \<not> rules_overlap r rule)"
  using assms find_overlap_None_iff [of rule a]
  by (cases fuel) (auto split: option.splits)

lemma owner_index:
  assumes wf: "table_wf lock"
  shows "i < length lock \<Longrightarrow> find_conflict_in_subtree fuel lock rule (lock ! i) = Some (Some ow) \<Longrightarrow>
    \<exists>j. i \<le> j \<and> j < length lock \<and> al_worker_name (lock ! j) = co_worker_name ow"
proof (induction fuel arbitrary: i)
  case (Suc fuel)
  let ?f = "find_conflict_in_subtree fuel lock rule" and ?cs = "children_of lock (al_worker_name (lock ! i))"
  have hit: "\<exists>c \<in> set cs. ?f c = Some (Some w)" if "first_hit ?f cs = Some (Some w)" for cs w
    using that by (induction cs) (auto split: option.splits)
  from Suc.prems(2) consider "co_worker_name ow = al_worker_name (lock ! i)"
    | "first_hit ?f ?cs = Some (Some ow)"
    by (auto split: option.splits if_splits)
  then show ?case
  proof cases
    case 1
    with Suc.prems(1) show ?thesis by auto
  next
    case 2
    from hit [OF 2] obtain c where c: "c \<in> set ?cs" "?f c = Some (Some ow)" by blast
    obtain k where k: "i < k" "k < length lock" "lock ! k = c" by (rule child_index [OF wf Suc.prems(1) c(1)])
    with Suc.IH [of k] c(2) obtain j where "k \<le> j" "j < length lock" "al_worker_name (lock ! j) = co_worker_name ow"
      by auto
    with k(1) show ?thesis by (meson less_imp_le_nat order.trans)
  qed
qed simp

lemma covered_found:
  assumes wf: "nested_wf lock" and a: "a \<in> set lock" and u: "u \<in> set (wr a)" "write_covers u rule"
    and n: "normal_path (sr_target rule)"
  shows "find (\<lambda>r. rules_overlap r rule) (wr a) \<noteq> None"
proof -
  have "rules_overlap u rule"
    by (rule claims.contains_overlaps [OF nested_normal [OF wf a u(1)] n n u(2) claims.overlaps_refl [OF n]])
  with u(1) show ?thesis by (auto simp: find_None_iff)
qed

text \<open>A sibling of a Worker that covers the rule does not overlap it.\<close>

lemma sibling_misses:
  assumes wf: "nested_wf lock" and b: "b \<in> set lock" "v \<in> set (wr b)" "write_covers v rule"
    and n: "normal_path (sr_target rule)" and c: "c \<in> set lock" "c \<noteq> b"
    and same: "al_delegated_from c = al_delegated_from b"
  shows "\<forall>r \<in> set (wr c). \<not> rules_overlap r rule"
proof (intro ballI notI)
  fix r assume r: "r \<in> set (wr c)" and ov: "rules_overlap r rule"
  note nr = nested_normal [OF wf c(1) r] and nv = nested_normal [OF wf b(1,2)]
  have "rules_overlap rule r" using ov claims.overlaps_sym [OF nr n] by blast
  then have "rules_overlap v r" by (rule claims.contains_overlaps [OF nv n nr b(3)])
  moreover have "al_worker_name c \<noteq> al_worker_name b"
    using entry_unique [OF nested_table [OF wf] c(1) b(1)] c(2) by blast
  ultimately show False using nested_siblings [OF wf b(1) c(1) _ _ b(2) r] same by auto
qed

text \<open>At the spawner the search descends into a child that overlaps the rule.\<close>

lemma search_at_spawner:
  assumes wf: "nested_wf lock" and i: "i < length lock" "length lock - i \<le> fuel"
    and u: "u \<in> set (wr (lock ! i))" "write_covers u rule" and n: "normal_path (sr_target rule)"
    and t: "t \<in> set (children_of lock (al_worker_name (lock ! i)))" "s \<in> set (wr t)" "rules_overlap s rule"
  shows "\<exists>ow. find_conflict_in_subtree fuel lock rule (lock ! i) = Some (Some ow)
    \<and> co_worker_name ow \<noteq> al_worker_name (lock ! i)"
proof -
  note tw = nested_table [OF wf]
  obtain f where f: "fuel = Suc f" using i by (cases fuel) auto
  let ?s = "find_conflict_in_subtree f lock rule" and ?cs = "children_of lock (al_worker_name (lock ! i))"
  have index: "\<exists>k. i < k \<and> k < length lock \<and> lock ! k = c" if "c \<in> set ?cs" for c
    using child_index [OF tw i(1), of c] that by metis
  have ret: "?s c \<noteq> None" if "c \<in> set ?cs" for c
    using index [OF that] subtree_search_returns [OF tw, of _ f rule] i(2) f by fastforce
  have tl: "t \<in> set lock" using t(1) by (simp add: children_of_def)
  have "?s t \<noteq> Some None"
    using search_hit_iff [OF nested_deny [OF wf tl] ret [OF t(1)]] t(2,3) by blast
  then obtain y where "?s t = Some (Some y)" using ret [OF t(1)] by fastforce
  from first_hit_Some [of ?cs ?s, OF ret t(1) this] obtain c ow
    where c: "c \<in> set ?cs" "?s c = Some (Some ow)" "first_hit ?s ?cs = Some (Some ow)" by blast
  from index [OF c(1)] obtain k where k: "i < k" "k < length lock" "lock ! k = c" by blast
  from owner_index [OF tw k(2), of f rule ow] c(2) k(3) obtain j
    where j: "k \<le> j" "j < length lock" "al_worker_name (lock ! j) = co_worker_name ow" by auto
  have "co_worker_name ow \<noteq> al_worker_name (lock ! i)"
    using name_index_unique [OF tw i(1) j(2)] j k(1) by auto
  moreover have "find_conflict_in_subtree fuel lock rule (lock ! i) = Some (Some ow)"
    using covered_found [OF wf nth_mem [OF i(1)] u n] c(3) nested_deny [OF wf nth_mem [OF i(1)]]
    by (auto simp: f)
  ultimately show ?thesis by blast
qed

text \<open>
  The search from a Worker above the spawner: if a child of the spawner overlaps the rule, it
  reports an owner other than the spawner.
\<close>

lemma search_from_above:
  assumes wf: "nested_wf lock" and sp: "sp \<in> set lock" and cov: "\<exists>u \<in> set (wr sp). write_covers u rule"
    and n: "normal_path (sr_target rule)"
    and t: "t \<in> set (children_of lock (al_worker_name sp))" "s \<in> set (wr t)" "rules_overlap s rule"
    and path: "(m, al_worker_name sp) \<in> (delegation lock)\<^sup>*"
  shows "i < length lock \<Longrightarrow> al_worker_name (lock ! i) = m \<Longrightarrow> length lock - i \<le> fuel \<Longrightarrow>
    \<exists>ow. find_conflict_in_subtree fuel lock rule (lock ! i) = Some (Some ow)
      \<and> co_worker_name ow \<noteq> al_worker_name sp"
  using path
proof (induction m arbitrary: i fuel rule: converse_rtrancl_induct)
  case base
  have "lock ! i = sp" using entry_unique [OF nested_table [OF wf] _ sp, of "lock ! i"] base by simp
  with search_at_spawner [OF wf base(1,3) _ _ n] cov t show ?case by metis
next
  case (step m q)
  note tw = nested_table [OF wf]
  have a: "lock ! i \<in> set lock" using step.prems by simp
  obtain f where f: "fuel = Suc f" using step.prems by (cases fuel) auto
  let ?s = "find_conflict_in_subtree f lock rule" and ?cs = "children_of lock m"
  obtain b where b: "b \<in> set lock" "al_worker_name b = q" "al_delegated_from b = Some m"
    by (rule delegation_entry [OF tw step.hyps(1)])
  then have bc: "b \<in> set ?cs" by (simp add: children_of_def)
  obtain k where k: "i < k" "k < length lock" "lock ! k = b"
    using child_index [OF tw step.prems(1), of b] bc step.prems(2) by metis
  have fk: "length lock - k \<le> f" using k step.prems(3) f by simp
  from step.IH [OF k(2) _ fk] k(3) b(2) obtain ow where ow: "?s b = Some (Some ow)"
    "co_worker_name ow \<noteq> al_worker_name sp" by auto
  from covered_upwards [OF wf step.hyps(2) sp refl cov n b(1,2)] obtain v
    where v: "v \<in> set (wr b)" "write_covers v rule" by blast
  obtain f' where f': "f = Suc f'" using fk k(2) by (cases f) auto
  have others: "?s c = Some None" if c: "c \<in> set ?cs" "c \<noteq> b" for c
    using sibling_misses [OF wf b(1) v n _ c(2)] c(1) b(3)
    by (simp add: f' children_of_def search_miss del: find_conflict_in_subtree.simps)
  have hit: "first_hit ?s ?cs = Some (Some ow)" by (rule first_hit_only [of b ?cs ?s, OF bc ow(1) others])
  have path: "(m, al_worker_name sp) \<in> (delegation lock)\<^sup>*" using step.hyps by (rule converse_rtrancl_into_rtrancl)
  from covered_upwards [OF wf path sp refl cov n a step.prems(2)] obtain u
    where u: "u \<in> set (wr (lock ! i))" "write_covers u rule" by blast
  have "find_conflict_in_subtree fuel lock rule (lock ! i) = Some (Some ow)"
    using covered_found [OF wf a u n] hit nested_deny [OF wf a] step.prems(2) by (auto simp: f)
  with ow(2) show ?case by blast
qed

lemma root_above:
  assumes wf: "table_wf lock"
  shows "i < length lock \<Longrightarrow> \<exists>k \<le> i. al_delegated_from (lock ! k) = None
    \<and> (al_worker_name (lock ! k), al_worker_name (lock ! i)) \<in> (delegation lock)\<^sup>*"
proof (induction i rule: less_induct)
  case (less i)
  show ?case
  proof (cases "al_delegated_from (lock ! i)")
    case None
    then show ?thesis by blast
  next
    case (Some p)
    from parent_index [OF wf less.prems Some] obtain j where j: "j < i" "al_worker_name (lock ! j) = p" by blast
    have "(p, al_worker_name (lock ! i)) \<in> delegation lock"
      using Some less.prems by (auto simp: delegation_def)
    moreover obtain k where "k \<le> j" "al_delegated_from (lock ! k) = None"
      "(al_worker_name (lock ! k), p) \<in> (delegation lock)\<^sup>*"
      using less.IH [OF j(1)] j less.prems by auto
    ultimately show ?thesis using j(1) by (meson le_trans less_imp_le_nat rtrancl.rtrancl_into_rtrancl)
  qed
qed

lemma roots_found:
  "filter_map_roots f exempt as = Some owners \<Longrightarrow> a \<in> set as \<Longrightarrow> al_delegated_from a = None \<Longrightarrow>
     f a = Some (Some ow) \<Longrightarrow> Some (co_worker_name ow) \<noteq> exempt \<Longrightarrow> owners \<noteq> []"
  by (induction as arbitrary: owners) (auto split: if_splits option.splits)

lemma roots_silent:
  "filter_map_roots f None as = Some [] \<Longrightarrow> a \<in> set as \<Longrightarrow> al_delegated_from a = None \<Longrightarrow> f a = Some None"
  by (induction as) (auto split: if_splits option.splits)

lemma find_conflict_owner_None_iff:
  "find_conflict_owner lock rule exempt = Some None \<longleftrightarrow> find_conflict_owners lock rule exempt = Some []"
proof (cases "find_conflict_owners lock rule exempt")
  case (Some owners)
  then show ?thesis by (cases owners) (simp_all add: find_conflict_owner_def)
qed (simp add: find_conflict_owner_def)

text \<open>What a silent search says about a registration and about a delegation.\<close>

lemma no_owner_no_root_overlap:
  assumes wf: "nested_wf lock" and w: "sr_permission rule = Write"
    and none: "find_conflict_owners lock rule None = Some []"
    and a: "a \<in> set lock" "al_delegated_from a = None" "r \<in> set (wr a)"
  shows "\<not> rules_overlap r rule"
proof -
  have "find_conflict_in_subtree (Suc (length lock)) lock rule a = Some None"
    using roots_silent [OF _ a(1,2)] none w
    by (simp add: find_conflict_owners_def del: find_conflict_in_subtree.simps)
  with search_hit_iff [OF nested_deny [OF wf a(1)], of "Suc (length lock)" lock rule] a(3)
  show ?thesis by (auto simp del: find_conflict_in_subtree.simps)
qed

lemma no_owner_no_child_overlap:
  assumes wf: "nested_wf lock" and w: "sr_permission rule = Write" and n: "normal_path (sr_target rule)"
    and sp: "sp \<in> set lock" and cov: "\<exists>u \<in> set (wr sp). write_covers u rule"
    and none: "find_conflict_owner lock rule (Some (al_worker_name sp)) = Some None"
    and t: "t \<in> set (children_of lock (al_worker_name sp))" "s \<in> set (wr t)"
  shows "\<not> rules_overlap s rule"
proof
  assume ov: "rules_overlap s rule"
  note tw = nested_table [OF wf]
  obtain i where i: "i < length lock" "lock ! i = sp" using sp by (auto simp: in_set_conv_nth)
  from root_above [OF tw i(1)] obtain k where k: "k \<le> i" "al_delegated_from (lock ! k) = None"
    "(al_worker_name (lock ! k), al_worker_name sp) \<in> (delegation lock)\<^sup>*"
    using i(2) by auto
  have kl: "k < length lock" using k(1) i(1) by simp
  have "length lock - k \<le> Suc (length lock)" by simp
  from search_from_above [OF wf sp cov n t ov k(3) kl refl this] obtain ow
    where "find_conflict_in_subtree (Suc (length lock)) lock rule (lock ! k) = Some (Some ow)"
      "co_worker_name ow \<noteq> al_worker_name sp"
    by blast
  moreover have "find_conflict_owners lock rule (Some (al_worker_name sp)) = Some []"
    using none by (simp add: find_conflict_owner_None_iff)
  ultimately show False
    using roots_found [OF _ nth_mem [OF kl] k(2), of "find_conflict_in_subtree (Suc (length lock)) lock rule"] w
    by (auto simp: find_conflict_owners_def simp del: find_conflict_in_subtree.simps)
qed

lemma admit_rules_silent:
  "admit_rules lock [] rules = Some (Inr ()) \<Longrightarrow> rule \<in> set rules \<Longrightarrow>
     find_conflict_owners lock rule None = Some []"
  by (induction rules) (auto simp: write_rules_def split: option.splits list.splits if_splits)

lemma admit_rules_deny:
  "write_rules deny = [] \<Longrightarrow> admit_rules lock deny rules = admit_rules lock [] rules"
  by (induction rules) (auto simp: write_rules_def split: option.split list.split)

lemma admit_delegated_silent:
  "admit_delegated fs del lock spawner rules = Some (Inr ()) \<Longrightarrow> rule \<in> set rules \<Longrightarrow>
     sr_permission rule = Write \<Longrightarrow> find_conflict_owner lock rule (Some spawner) = Some None"
  by (induction rules) (auto split: option.splits sum.splits if_splits)

section \<open>The operations keep write scopes nested\<close>

lemma parent_present:
  "table_wf lock \<Longrightarrow> a \<in> set lock \<Longrightarrow> al_delegated_from a = Some p \<Longrightarrow> p \<in> al_worker_name ` set lock"
proof -
  assume wf: "table_wf lock" and a: "a \<in> set lock" "al_delegated_from a = Some p"
  then have "(p, al_worker_name a) \<in> delegation lock" by (auto simp: delegation_def)
  from delegation_entry [OF wf this] show "p \<in> al_worker_name ` set lock" by blast
qed

lemma nested_push:
  assumes wf: "nested_wf lock" and t: "table_wf (lock @ [a])"
    and deny: "write_rules (al_scope_deny a) = []" and n: "\<forall>r \<in> set (wr a). normal_path (sr_target r)"
    and cover: "\<And>b r. b \<in> set lock \<Longrightarrow> al_delegated_from a = Some (al_worker_name b) \<Longrightarrow> r \<in> set (wr a) \<Longrightarrow>
                  \<exists>s \<in> set (wr b). write_covers s r"
    and disjoint: "\<And>b r s. b \<in> set lock \<Longrightarrow> al_delegated_from b = al_delegated_from a \<Longrightarrow> r \<in> set (wr a) \<Longrightarrow>
                  s \<in> set (wr b) \<Longrightarrow> \<not> rules_overlap s r"
  shows "nested_wf (lock @ [a])"
proof -
  have fresh: "al_worker_name a \<notin> al_worker_name ` set lock" using t by (auto simp: table_wf_def)
  have no_child: "al_delegated_from b \<noteq> Some (al_worker_name a)" if "b \<in> set lock" for b
    using parent_present [OF nested_table [OF wf] that] fresh by auto
  have no_self: "al_delegated_from a \<noteq> Some (al_worker_name a)"
    using t fresh by (force simp: table_wf_def parents_first_append split: option.splits)
  have sym: "rules_overlap r s \<longleftrightarrow> rules_overlap s r" if "b \<in> set lock" "r \<in> set (wr a)" "s \<in> set (wr b)" for b r s
    using claims.overlaps_sym [OF bspec [OF n that(2)] nested_normal [OF wf that(1,3)]] .
  have siblings: "\<not> rules_overlap r s" if "b \<in> set lock" "al_delegated_from b = al_delegated_from a"
      "r \<in> set (wr a)" "s \<in> set (wr b)" for b r s
    using disjoint [OF that] sym [OF that(1,3,4)] by simp
  show ?thesis
    using wf t deny n no_child no_self cover disjoint siblings
    unfolding nested_wf_def set_append list.set(2) list.set(1) ball_Un ball_simps(7) ball_simps(5)
    by (auto 0 3)
qed

text \<open>Removing an entry: its children join its siblings.\<close>

lemma nested_grandchild:
  assumes wf: "nested_wf lock" and mem: "a \<in> set lock" "x \<in> set lock" "b \<in> set lock"
    and d: "al_delegated_from a = Some (al_worker_name x)" "al_delegated_from x = Some (al_worker_name b)"
    and r: "r \<in> set (wr a)"
  shows "\<exists>v \<in> set (wr b). write_covers v r"
proof -
  from nested_child [OF wf mem(1,2) d(1) r] obtain u where u: "u \<in> set (wr x)" "write_covers u r" by blast
  from nested_child [OF wf mem(2,3) d(2) u(1)] obtain v where v: "v \<in> set (wr b)" "write_covers v u" by blast
  with claims.contains_trans [OF nested_normal [OF wf mem(3) v(1)] nested_normal [OF wf mem(2) u(1)]
      nested_normal [OF wf mem(1) r] v(2) u(2)] show ?thesis by blast
qed

lemma nested_nephew:
  assumes wf: "nested_wf lock" and mem: "a \<in> set lock" "x \<in> set lock" "b \<in> set lock"
    and d: "al_delegated_from a = Some (al_worker_name x)" "al_delegated_from b = al_delegated_from x"
    and ne: "al_worker_name b \<noteq> al_worker_name x" and r: "r \<in> set (wr a)" and t: "t \<in> set (wr b)"
  shows "\<not> rules_overlap r t"
proof -
  from nested_child [OF wf mem(1,2) d(1) r] obtain u where u: "u \<in> set (wr x)" "write_covers u r" by blast
  have "\<not> rules_overlap u t" using nested_siblings [OF wf mem(2,3) _ _ u(1) t] ne d(2) by auto
  with claims.contained_disjoint [OF nested_normal [OF wf mem(2) u(1)] nested_normal [OF wf mem(1) r]
      nested_normal [OF wf mem(3) t] nested_normal [OF wf mem(3) t] u(2)
      claims.contains_refl [OF nested_normal [OF wf mem(3) t]]] show ?thesis by blast
qed

lemma nested_remove_entry:
  assumes wf: "nested_wf lock" and pos: "position (\<lambda>a. al_worker_name a = n) lock = Some idx"
  shows "nested_wf (remove_entry n idx lock)"
proof -
  obtain pre x post where s: "lock = pre @ x # post" "al_worker_name x = n" "n \<notin> al_worker_name ` set pre"
    "remove_entry n idx lock = map (reparent n (al_delegated_from x)) (pre @ post)"
    by (rule remove_entry_split [OF pos])
  let ?new = "\<lambda>a. if al_delegated_from a = Some n then al_delegated_from x else al_delegated_from a"
  have x: "x \<in> set lock" and sub: "set (pre @ post) \<subseteq> set lock" using s(1) by auto
  have "distinct (map al_worker_name (pre @ x # post))"
    using nested_table [OF wf] s(1) by (simp add: table_wf_def)
  then have "al_worker_name x \<notin> al_worker_name ` set (pre @ post)" by auto
  then have ne: "al_worker_name a \<noteq> al_worker_name x" if "a \<in> set (pre @ post)" for a
    using that by (metis image_eqI)
  have child: "\<exists>v \<in> set (wr b). write_covers v r"
    if "a \<in> set (pre @ post)" "b \<in> set (pre @ post)" "r \<in> set (wr a)" "?new a = Some (al_worker_name b)" for a b r
  proof -
    have al: "a \<in> set lock" and bl: "b \<in> set lock" using that(1,2) sub by auto
    show ?thesis
    proof (cases "al_delegated_from a = Some n")
      case True
      with that(4) s(2) show ?thesis by (intro nested_grandchild [OF wf al x bl _ _ that(3)]) simp_all
    next
      case False
      with that(4) show ?thesis by (intro nested_child [OF wf al bl _ that(3)]) simp
    qed
  qed
  have siblings: "\<not> rules_overlap r t"
    if "a \<in> set (pre @ post)" "b \<in> set (pre @ post)" "al_worker_name a \<noteq> al_worker_name b"
      "r \<in> set (wr a)" "t \<in> set (wr b)" "?new a = ?new b" for a b r t
  proof -
    have al: "a \<in> set lock" and bl: "b \<in> set lock" using that(1,2) sub by auto
    have sym: "rules_overlap r t \<longleftrightarrow> rules_overlap t r"
      by (rule claims.overlaps_sym [OF nested_normal [OF wf al that(4)] nested_normal [OF wf bl that(5)]])
    note new = that(6)
    consider "al_delegated_from a = al_delegated_from b"
      | "al_delegated_from a = Some n" "al_delegated_from b = al_delegated_from x"
      | "al_delegated_from b = Some n" "al_delegated_from a = al_delegated_from x"
      using new by (auto split: if_splits)
    then show ?thesis
    proof cases
      case 1
      then show ?thesis by (rule nested_siblings [OF wf al bl that(3) _ that(4,5)])
    next
      case 2
      then show ?thesis
        using s(2) by (intro nested_nephew [OF wf al x bl _ _ ne [OF that(2)] that(4,5)]) simp_all
    next
      case 3
      then have "\<not> rules_overlap t r"
        using s(2) by (intro nested_nephew [OF wf bl x al _ _ ne [OF that(1)] that(5,4)]) simp_all
      then show ?thesis using sym by simp
    qed
  qed
  have t: "table_wf (remove_entry n idx lock)" by (rule remove_entry_wf [OF nested_table [OF wf] pos])
  show ?thesis
    unfolding nested_wf_def
  proof (intro conjI t, unfold s(4) set_map ball_simps(9) reparent_sel, goal_cases)
    case 1
    then show ?case using nested_deny [OF wf] nested_normal [OF wf] sub by blast
  next
    case 2
    show ?case by (intro ballI impI child)
  next
    case 3
    show ?case by (intro ballI impI siblings)
  qed
qed

lemma nested_remove_names: "nested_wf lock \<Longrightarrow> nested_wf (remove_names names lock)"
  by (induction names lock rule: remove_names.induct) (auto simp: nested_remove_entry split: option.split)

text \<open>Changes of an entry that keep its name, its origin and its allow rules.\<close>

lemma set_lf_update: "b \<in> set (lf_update n f lock) \<Longrightarrow> b \<in> set lock \<or> (\<exists>a \<in> set lock. b = f a)"
  by (induction n f lock rule: lf_update.induct) (auto split: if_splits)

lemma nested_update:
  assumes wf: "nested_wf lock"
    and f: "\<And>a. al_worker_name (f a) = al_worker_name a" "\<And>a. al_delegated_from (f a) = al_delegated_from a"
      "\<And>a. al_scope_allow (f a) = al_scope_allow a"
      "\<And>a. write_rules (al_scope_deny a) = [] \<Longrightarrow> write_rules (al_scope_deny (f a)) = []"
  shows "nested_wf (lf_update n f lock)"
proof -
  have same: "\<exists>a \<in> set lock. al_worker_name b = al_worker_name a \<and> al_delegated_from b = al_delegated_from a
      \<and> al_scope_allow b = al_scope_allow a \<and> write_rules (al_scope_deny b) = []"
    if "b \<in> set (lf_update n f lock)" for b
    using set_lf_update [OF that] nested_deny [OF wf] f by metis
  have t: "table_wf (lf_update n f lock)" using update_wf [OF nested_table [OF wf]] f by blast
  show ?thesis
    unfolding nested_wf_def
  proof (intro conjI ballI impI t)
    fix a b r
    assume a: "a \<in> set (lf_update n f lock)" and b: "b \<in> set (lf_update n f lock)"
      and d: "al_delegated_from a = Some (al_worker_name b)" and r: "r \<in> set (wr a)"
    from same [OF a] same [OF b] d r show "\<exists>s \<in> set (wr b). write_covers s r"
      using nested_child [OF wf] by metis
  next
    fix a b r s
    assume a: "a \<in> set (lf_update n f lock)" and b: "b \<in> set (lf_update n f lock)"
      and ne: "al_worker_name a \<noteq> al_worker_name b" and d: "al_delegated_from a = al_delegated_from b"
      and r: "r \<in> set (wr a)" and s: "s \<in> set (wr b)"
    from same [OF a] same [OF b] ne d r s show "\<not> rules_overlap r s"
      using nested_siblings [OF wf] by metis
  qed (use same nested_normal [OF wf] in \<open>metis+\<close>)
qed

section \<open>Reachable tables\<close>

text \<open>
  The calls the invariant is about: registrations with normal write targets and no write
  denies, and delegations whose write rules lie in a write rule of the spawner. Every other
  operation is unrestricted.
\<close>

fun nested_op :: "lock_file \<Rightarrow> alloc_op \<Rightarrow> bool" where
  "nested_op lock (Register n pid socket allow deny seg) \<longleftrightarrow>
     write_rules deny = [] \<and> (\<forall>r \<in> set (write_rules allow). normal_path (sr_target r))"
| "nested_op lock (Delegate spawner spawned pid socket allow del) \<longleftrightarrow>
     (\<forall>r \<in> set (write_rules allow). normal_path (sr_target r)
        \<and> (\<forall>sp \<in> set lock. al_worker_name sp = spawner \<longrightarrow> (\<exists>u \<in> set (wr sp). write_covers u r)))"
| "nested_op lock _ \<longleftrightarrow> True"

inductive reachable :: "file_system \<Rightarrow> lock_file \<Rightarrow> bool" for fs where
  empty: "reachable fs []"
| step: "reachable fs lock \<Longrightarrow> nested_op lock op \<Longrightarrow> reachable fs (alloc_step fs lock (env, op))"

definition guard_nested :: "lock_guard \<Rightarrow> bool" where
  "guard_nested g \<longleftrightarrow> nested_wf (lg_data g) \<and> nested_wf (lg_disk g)"

lemma guard_nested_save:
  "guard_nested g \<Longrightarrow> nested_wf data \<Longrightarrow> guard_nested (snd (guard_save out (g\<lparr>lg_data := data\<rparr>)))"
  using save_disk(1,2) [of out "g\<lparr>lg_data := data\<rparr>"] by (auto simp: guard_nested_def)

lemma reclaim_stale_nested: "guard_nested g \<Longrightarrow> guard_nested (reclaim_stale_with is_alive out g)"
  by (simp add: reclaim_stale_with_def Let_def guard_nested_save nested_remove_names guard_nested_def [of g])

lemma register_nested:
  assumes g: "guard_nested g" and d: "write_rules deny = []" and n: "\<forall>r \<in> set (write_rules allow). normal_path (sr_target r)"
    and r: "register_worker_with_deny is_alive out1 out2 g name pid socket allow deny seg = Some (r, g')"
  shows "guard_nested g'"
proof -
  define g1 where "g1 = reclaim_stale_with is_alive out1 g"
  define a where "a = \<lparr>al_worker_name = name, al_pid = pid, al_socket = socket, al_scope_allow = allow,
    al_scope_deny = deny, al_delegated_from = None, al_segment_id = Some seg\<rparr>"
  have g1: "guard_nested g1" unfolding g1_def by (rule reclaim_stale_nested [OF g])
  then have wf: "nested_wf (lg_data g1)" by (simp add: guard_nested_def)
  have push: "nested_wf (lg_data g1 @ [a])"
    if free: "lf_find (lg_data g1) name = None" and admit: "admit_rules (lg_data g1) deny (write_rules allow) = Some (Inr ())"
  proof (rule nested_push [OF wf])
    show "table_wf (lg_data g1 @ [a])"
      using free by (intro table_wf_push_root nested_table [OF wf]) (simp_all add: a_def)
    fix b u t
    assume b: "b \<in> set (lg_data g1)" "al_delegated_from b = al_delegated_from a" "u \<in> set (wr a)" "t \<in> set (wr b)"
    have u: "u \<in> set (write_rules allow)" using b(3) by (simp add: a_def)
    from admit_rules_silent [OF admit [unfolded admit_rules_deny [OF d]] u]
    show "\<not> rules_overlap t u"
      using no_owner_no_root_overlap [OF wf _ _ b(1) _ b(4)] u b(2) by (simp add: a_def write_rules_def)
  qed (use d n in \<open>simp_all add: a_def\<close>)
  have saved: "guard_nested (snd (guard_save out2 (g1\<lparr>lg_data := lg_data g1 @ [a]\<rparr>)))"
    if "lf_find (lg_data g1) name = None" "admit_rules (lg_data g1) deny (write_rules allow) = Some (Inr ())"
    by (rule guard_nested_save [OF g1 push [OF that]])
  show ?thesis
    using r g1 saved
    by (auto simp: register_worker_with_deny_def prepare_worker_with_deny_def Let_def g1_def [symmetric]
        a_def [symmetric] save_disk(3) [symmetric] split: if_splits option.splits sum.splits)
qed

lemma delegate_nested:
  assumes g: "guard_nested g" and op: "nested_op (lg_data g) (Delegate spawner spawned pid socket allow del)"
    and r: "delegate_scope fs is_alive out1 out2 g spawner spawned pid socket allow del = Some (r, g')"
  shows "guard_nested g'"
proof -
  define g1 where "g1 = reclaim_stale_with is_alive out1 g"
  define a where "a = \<lparr>al_worker_name = spawned, al_pid = pid, al_socket = socket,
    al_scope_allow = allow, al_scope_deny = [], al_delegated_from = Some spawner, al_segment_id = None\<rparr>"
  have g1: "guard_nested g1" unfolding g1_def by (rule reclaim_stale_nested [OF g])
  then have wf: "nested_wf (lg_data g1)" by (simp add: guard_nested_def)
  have cov: "\<exists>u \<in> set (wr sp). write_covers u x" if sp: "sp \<in> set (lg_data g1)" "al_worker_name sp = spawner"
    and x: "x \<in> set (write_rules allow)" for sp x
    using reclaim_stale_entry [OF sp(1) [unfolded g1_def]] op x sp(2) by (fastforce dest: same_grantD)
  have push: "nested_wf (lg_data g1 @ [a])"
    if free: "lf_find (lg_data g1) spawned = None" and some: "lf_find (lg_data g1) spawner \<noteq> None"
      and admit: "admit_delegated fs del (lg_data g1) spawner allow = Some (Inr ())"
  proof (rule nested_push [OF wf])
    show "table_wf (lg_data g1 @ [a])"
      using free some by (intro table_wf_push_child [where p = spawner] nested_table [OF wf]) (simp_all add: a_def)
    fix b u t
    assume b: "b \<in> set (lg_data g1)" "al_delegated_from b = al_delegated_from a" "u \<in> set (wr a)" "t \<in> set (wr b)"
    have u: "u \<in> set (write_rules allow)" "u \<in> set allow" "sr_permission u = Write" "normal_path (sr_target u)"
      using b(3) op by (auto simp: a_def write_rules_def)
    obtain sp where sp: "sp \<in> set (lg_data g1)" "al_worker_name sp = spawner"
      using some by (auto simp: lf_find_None_iff)
    show "\<not> rules_overlap t u"
      using no_owner_no_child_overlap [OF wf u(3,4) sp(1) cov [OF sp u(1)] _ _ b(4)]
        admit_delegated_silent [OF admit u(2,3)] b(1,2) sp(2) by (simp add: a_def children_of_def)
  qed (use cov op in \<open>auto simp: a_def write_rules_def\<close>)
  have saved: "guard_nested (snd (guard_save out2 (g1\<lparr>lg_data := lg_data g1 @ [a]\<rparr>)))"
    if "lf_find (lg_data g1) spawned = None" "lf_find (lg_data g1) spawner \<noteq> None"
      "admit_delegated fs del (lg_data g1) spawner allow = Some (Inr ())"
    by (rule guard_nested_save [OF g1 push [OF that]])
  show ?thesis
    using r g1 saved
    by (auto simp: delegate_scope_def Let_def g1_def [symmetric] a_def [symmetric] save_disk(3) [symmetric]
        split: if_splits option.splits sum.splits)
qed

lemma release_nested: "guard_nested g \<Longrightarrow> guard_nested (snd (release_worker out g n))"
  by (auto simp: release_worker_def save_disk(3) guard_nested_def [of g] split: option.split
      intro!: guard_nested_save nested_remove_entry)

lemma write_rules_remove_denies:
  "write_rules deny = [] \<Longrightarrow> write_rules (remove_denies delegated deny) = []"
proof -
  have "set (fold (\<lambda>rule deny. case position (\<lambda>d. d = rule) deny of None \<Rightarrow> deny | Some idx \<Rightarrow> remove_at idx deny)
      rules deny) \<subseteq> set deny" for rules
    by (induction rules arbitrary: deny)
      (auto simp: remove_at_position_eq_remove1 dest: subsetD [OF set_remove1_subset])
  then show "write_rules deny = [] \<Longrightarrow> ?thesis"
    by (auto simp: remove_denies_def write_rules_def filter_empty_conv)
qed

lemma reclaim_nested:
  assumes g: "guard_nested g"
  shows "guard_nested (snd (reclaim_delegated_scope out g parent child delegated))"
proof -
  define data where "data = lf_update parent
    (\<lambda>a. a\<lparr>al_scope_deny := remove_denies delegated (al_scope_deny a)\<rparr>) (lg_data g)"
  have "nested_wf data"
    unfolding data_def by (rule nested_update) (use g in \<open>simp_all add: guard_nested_def write_rules_remove_denies\<close>)
  moreover have "tree_of data = tree_of (lg_data g)" by (simp add: data_def)
  note position_tree [OF this, of child]
  ultimately have "nested_wf (case position (\<lambda>a. al_worker_name a = child) (lg_data g) of
      None \<Rightarrow> data | Some idx \<Rightarrow> remove_entry child idx data)"
    by (auto split: option.split intro: nested_remove_entry)
  from guard_nested_save [OF g this] show ?thesis
    by (simp add: reclaim_delegated_scope_def Let_def data_def [symmetric] save_disk(3))
qed

lemma alloc_step_nested:
  assumes wf: "nested_wf disk" and op: "nested_op disk op"
  shows "nested_wf (alloc_step fs disk (env, op))"
proof -
  have g: "guard_nested (guard_open disk)" using wf by (simp add: guard_nested_def guard_open_def)
  have data: "lg_data (guard_open disk) = disk" by (simp add: guard_open_def)
  have disk: "guard_nested g' \<Longrightarrow> nested_wf (lg_disk g')" for g' by (simp add: guard_nested_def)
  show ?thesis
  proof (cases op)
    case (Register n pid socket allow deny seg)
    with op wf show ?thesis by (auto split: option.split dest!: register_nested [OF g] disk)
  next
    case (Delegate spawner spawned pid socket allow del)
    with op wf delegate_nested [OF g, of spawner spawned pid socket allow del] show ?thesis
      by (auto simp: data split: option.split intro: disk simp del: nested_op.simps)
  next
    case (Adopt n pid seg)
    have "nested_wf (lf_update n (\<lambda>a. a\<lparr>al_pid := pid, al_segment_id := Some seg\<rparr>) disk)"
      by (rule nested_update [OF wf]) simp_all
    with Adopt adopt_disk [of "ae_save1 env" disk n pid seg] wf show ?thesis by auto
  next
    case (Activate ow e r)
    have "nested_wf (lf_update (ow_worker_name ow) (\<lambda>a. a\<lparr>al_segment_id := Some r\<rparr>) disk)"
      by (rule nested_update [OF wf]) simp_all
    with Activate activate_disk [of disk ow e r _ "ae_save1 env"] wf show ?thesis
      by (auto split: sum.split)
  qed (auto intro!: disk release_nested reclaim_nested reclaim_stale_nested g)
qed

lemma nested_empty: "nested_wf []"
  by (simp add: nested_wf_def table_wf_def)

lemma reachable_nested: "reachable fs lock \<Longrightarrow> nested_wf lock"
  by (induction rule: reachable.induct) (auto intro: nested_empty alloc_step_nested)

section \<open>A concrete table\<close>

definition quiet_env :: alloc_env where
  "quiet_env = \<lparr>ae_alive = (\<lambda>pid. True), ae_save1 = SaveOk, ae_save2 = SaveOk\<rparr>"

definition path_a :: path where "path_a = [RootDir, Normal ''w'', Normal ''a'']"

definition read_rule :: "path \<Rightarrow> scope_rule" where
  "read_rule p = \<lparr>sr_target = p, sr_permission = Read, sr_recursive = True, sr_symlink_policy = Resolved\<rparr>"

definition delegation_w :: scope where
  "delegation_w = \<lparr>s_allow = [plain_rule root_w], s_deny = []\<rparr>"

definition parent_op :: alloc_op where
  "parent_op = Register ''parent'' 1 [] [write_rule root_w] [] 7"

definition child_op :: alloc_op where
  "child_op = Delegate ''parent'' ''child'' 1 [] [write_rule path_a] delegation_w"

lemma example_reachable:
  "reachable plain_fs (run_ops (alloc_step plain_fs) [] [(quiet_env, parent_op), (quiet_env, child_op)])"
proof -
  have "reachable plain_fs (alloc_step plain_fs [] (quiet_env, parent_op))"
    by (rule reachable.step [OF reachable.empty]) code_simp
  moreover have "nested_op (alloc_step plain_fs [] (quiet_env, parent_op)) child_op" by code_simp
  ultimately show ?thesis using reachable.step by simp
qed

section \<open>Properties\<close>

text \<open>
  C1. Exclusive write scopes. In every table reached by transactions whose delegations stay
  within a write rule of the spawner and that carry no write denies, whatever the order of
  registrations, delegations, releases, reclaims, process deaths and save failures: two
  Workers whose write rules claim a common path are in one line of delegation.
\<close>

theorem write_scopes_exclusive:
  assumes "reachable fs lock" and "a \<in> set lock" "b \<in> set lock"
    and "r \<in> set (write_rules (al_scope_allow a))" "s \<in> set (write_rules (al_scope_allow b))"
    and "p \<in> region (sr_recursive r) (sr_target r)" "p \<in> region (sr_recursive s) (sr_target s)"
  shows "(al_worker_name a, al_worker_name b) \<in> (delegation lock)\<^sup>*
    \<or> (al_worker_name b, al_worker_name a) \<in> (delegation lock)\<^sup>*"
proof -
  note wf = reachable_nested [OF assms(1)]
  have "rules_overlap r s"
    using claims.overlaps_iff [OF nested_normal [OF wf assms(2,4)] nested_normal [OF wf assms(3,5)]]
      assms(6,7) by blast
  from overlap_in_line [OF wf assms(2-5) this] show ?thesis by (simp add: in_line_def)
qed

theorem write_scopes_exclusive_witness:
  "let lock = run_ops (alloc_step plain_fs) [] [(quiet_env, parent_op), (quiet_env, child_op)] in
     (''parent'', ''child'') \<in> (delegation lock)\<^sup>* \<or> (''child'', ''parent'') \<in> (delegation lock)\<^sup>*"
proof -
  define lock where "lock = run_ops (alloc_step plain_fs) [] [(quiet_env, parent_op), (quiet_env, child_op)]"
  have eq: "lock = [\<lparr>al_worker_name = ''parent'', al_pid = 1, al_socket = [], al_scope_allow = [write_rule root_w],
      al_scope_deny = [], al_delegated_from = None, al_segment_id = Some 7\<rparr>,
     \<lparr>al_worker_name = ''child'', al_pid = 1, al_socket = [], al_scope_allow = [write_rule path_a],
      al_scope_deny = [], al_delegated_from = Some ''parent'', al_segment_id = None\<rparr>]"
    unfolding lock_def by code_simp
  have "path_a \<in> region True root_w" "path_a \<in> region True path_a"
    by (simp_all add: region_def path_a_def root_w_def normal_path_code)
  with write_scopes_exclusive [OF example_reachable [folded lock_def], of "lock ! 0" "lock ! 1"
      "write_rule root_w" "write_rule path_a" path_a]
  show ?thesis unfolding lock_def [symmetric] Let_def by (simp add: eq write_rules_def write_rule_def)
qed


end
