(* ===== verification/Request_Items.thy ===== *)
theory Request_Items
  imports Rust_Std
begin

text \<open>
  The conversation items of crate \<open>agen\<close>: the data of \<open>llm_client/types.rs\<close> with its
  constructors, builders and accessors, the tool-result data and output limits of \<open>tool.rs\<close>,
  the client errors of \<open>llm_client/error.rs\<close>, and the execution-attempt fence of
  \<open>engine.rs\<close>.  The fields of each enum variant with named fields form a record.
\<close>

named_theorems item_defs \<open>constructors and accessors of conversation items\<close>

section \<open>Tool-result data\<close>

record image_attachment =
  ia_mime_type :: string
  ia_data :: "u8 list"

definition image_new :: "string \<Rightarrow> u8 list \<Rightarrow> image_attachment" where
  "image_new mime_type bytes = \<lparr>ia_mime_type = mime_type, ia_data = bytes\<rparr>"

datatype attachment = Image image_attachment

datatype tool_result_disposition =
  DispSuccess | DispError | DispInterrupted | DispCancelled | DispOutcomeUnknown

definition disposition_is_success :: "tool_result_disposition \<Rightarrow> bool" where
  "disposition_is_success d \<longleftrightarrow> d = DispSuccess"

record tool_call =
  tcl_id :: string
  tcl_name :: string
  tcl_input :: json

section \<open>Items\<close>

datatype role = User | Assistant | System

datatype item_status = InProgress | Completed | Incomplete

datatype content_part = Text string | Refusal string

fun content_part_as_text :: "content_part \<Rightarrow> string" where
  "content_part_as_text (Text t) = t"
| "content_part_as_text (Refusal r) = r"

record message_item =
  msg_id :: "string option"
  msg_role :: role
  msg_content :: "content_part list"
  msg_status :: "item_status option"

record tool_call_item =
  tc_id :: "string option"
  tc_call_id :: string
  tc_name :: string
  tc_arguments :: string
  tc_call_index :: "nat option"
  tc_execution_id :: "string option"
  tc_status :: "item_status option"

record tool_result_item =
  tr_id :: "string option"
  tr_call_id :: string
  tr_summary :: string
  tr_content :: "string option"
  tr_disposition :: tool_result_disposition
  tr_is_error :: bool
  tr_attachments :: "attachment list"

record reasoning_item =
  rs_id :: "string option"
  rs_text :: string
  rs_summary :: "string list"
  rs_encrypted_content :: "string option"
  rs_signature :: "string option"
  rs_status :: "item_status option"

datatype item =
    Message message_item
  | AssistantResponseBoundary string
  | ToolCall tool_call_item
  | ToolResult tool_result_item
  | Reasoning reasoning_item

subsection \<open>Constructors\<close>

definition message_parts :: "role \<Rightarrow> content_part list \<Rightarrow> item" where
  "message_parts r parts = Message \<lparr>msg_id = None, msg_role = r, msg_content = parts, msg_status = None\<rparr>"

definition system_message :: "string \<Rightarrow> item" where
  "system_message txt = message_parts System [Text txt]"

definition user_message :: "string \<Rightarrow> item" where
  "user_message txt = message_parts User [Text txt]"

definition user_message_parts :: "content_part list \<Rightarrow> item" where
  "user_message_parts parts = message_parts User parts"

definition assistant_message :: "string \<Rightarrow> item" where
  "assistant_message txt = message_parts Assistant [Text txt]"

definition assistant_message_parts :: "content_part list \<Rightarrow> item" where
  "assistant_message_parts parts = message_parts Assistant parts"

definition item_tool_call :: "string \<Rightarrow> string \<Rightarrow> string \<Rightarrow> item" where
  "item_tool_call call_id name arguments =
     ToolCall \<lparr>tc_id = None, tc_call_id = call_id, tc_name = name, tc_arguments = arguments,
       tc_call_index = None, tc_execution_id = None, tc_status = None\<rparr>"

fun with_tool_execution_metadata :: "nat \<Rightarrow> string option \<Rightarrow> item \<Rightarrow> item" where
  "with_tool_execution_metadata call_index execution_id (ToolCall c) =
     ToolCall (c\<lparr>tc_call_index := Some call_index, tc_execution_id := execution_id\<rparr>)"
| "with_tool_execution_metadata call_index execution_id it = it"

definition tool_result_item_with_disposition_and_attachments ::
  "string \<Rightarrow> string \<Rightarrow> string option \<Rightarrow> tool_result_disposition \<Rightarrow> attachment list \<Rightarrow> item"
where
  "tool_result_item_with_disposition_and_attachments call_id summary content disposition attachments =
     ToolResult \<lparr>tr_id = None, tr_call_id = call_id, tr_summary = summary, tr_content = content,
       tr_disposition = disposition, tr_is_error = (\<not> disposition_is_success disposition),
       tr_attachments = attachments\<rparr>"

definition tool_result_item_with_attachments ::
  "string \<Rightarrow> string \<Rightarrow> string option \<Rightarrow> bool \<Rightarrow> attachment list \<Rightarrow> item"
where
  "tool_result_item_with_attachments call_id summary content is_error attachments =
     tool_result_item_with_disposition_and_attachments call_id summary content
       (if is_error then DispError else DispSuccess) attachments"

definition item_tool_result :: "string \<Rightarrow> string \<Rightarrow> string option \<Rightarrow> bool \<Rightarrow> item" where
  "item_tool_result call_id summary content is_error =
     tool_result_item_with_disposition_and_attachments call_id summary content
       (if is_error then DispError else DispSuccess) []"

definition tool_result :: "string \<Rightarrow> string \<Rightarrow> item" where
  "tool_result call_id summary = item_tool_result call_id summary None False"

definition tool_result_error :: "string \<Rightarrow> string \<Rightarrow> item" where
  "tool_result_error call_id summary = item_tool_result call_id summary None True"

definition tool_result_with_content :: "string \<Rightarrow> string \<Rightarrow> string \<Rightarrow> item" where
  "tool_result_with_content call_id summary content =
     item_tool_result call_id summary (Some content) False"

definition reasoning :: "string \<Rightarrow> item" where
  "reasoning txt = Reasoning \<lparr>rs_id = None, rs_text = txt, rs_summary = [],
     rs_encrypted_content = None, rs_signature = None, rs_status = None\<rparr>"

fun with_reasoning_summary :: "string list \<Rightarrow> item \<Rightarrow> item" where
  "with_reasoning_summary new_summary (Reasoning r) = Reasoning (r\<lparr>rs_summary := new_summary\<rparr>)"
| "with_reasoning_summary new_summary it = it"

fun with_encrypted_content :: "string \<Rightarrow> item \<Rightarrow> item" where
  "with_encrypted_content content (Reasoning r) =
     Reasoning (r\<lparr>rs_encrypted_content := Some content\<rparr>)"
| "with_encrypted_content content it = it"

fun with_signature :: "string \<Rightarrow> item \<Rightarrow> item" where
  "with_signature sig (Reasoning r) = Reasoning (r\<lparr>rs_signature := Some sig\<rparr>)"
| "with_signature sig it = it"

subsection \<open>Builders and accessors\<close>

fun with_id :: "string \<Rightarrow> item \<Rightarrow> item" where
  "with_id i (Message m) = Message (m\<lparr>msg_id := Some i\<rparr>)"
| "with_id i (AssistantResponseBoundary r) = AssistantResponseBoundary r"
| "with_id i (ToolCall c) = ToolCall (c\<lparr>tc_id := Some i\<rparr>)"
| "with_id i (ToolResult t) = ToolResult (t\<lparr>tr_id := Some i\<rparr>)"
| "with_id i (Reasoning r) = Reasoning (r\<lparr>rs_id := Some i\<rparr>)"

fun with_status :: "item_status \<Rightarrow> item \<Rightarrow> item" where
  "with_status st (Message m) = Message (m\<lparr>msg_status := Some st\<rparr>)"
| "with_status st (AssistantResponseBoundary r) = AssistantResponseBoundary r"
| "with_status st (ToolCall c) = ToolCall (c\<lparr>tc_status := Some st\<rparr>)"
| "with_status st (ToolResult t) = ToolResult t"
| "with_status st (Reasoning r) = Reasoning (r\<lparr>rs_status := Some st\<rparr>)"

fun item_id :: "item \<Rightarrow> string option" where
  "item_id (Message m) = msg_id m"
| "item_id (AssistantResponseBoundary _) = None"
| "item_id (ToolCall c) = tc_id c"
| "item_id (ToolResult t) = tr_id t"
| "item_id (Reasoning r) = rs_id r"

fun item_type :: "item \<Rightarrow> string" where
  "item_type (Message _) = ''message''"
| "item_type (AssistantResponseBoundary _) = ''assistant_response_boundary''"
| "item_type (ToolCall _) = ''tool_call''"
| "item_type (ToolResult _) = ''tool_result''"
| "item_type (Reasoning _) = ''reasoning''"

fun is_user_message :: "item \<Rightarrow> bool" where
  "is_user_message (Message m) \<longleftrightarrow> msg_role m = User"
| "is_user_message _ \<longleftrightarrow> False"

fun is_assistant_message :: "item \<Rightarrow> bool" where
  "is_assistant_message (Message m) \<longleftrightarrow> msg_role m = Assistant"
| "is_assistant_message _ \<longleftrightarrow> False"

fun is_tool_call :: "item \<Rightarrow> bool" where
  "is_tool_call (ToolCall _) \<longleftrightarrow> True"
| "is_tool_call _ \<longleftrightarrow> False"

fun is_tool_result :: "item \<Rightarrow> bool" where
  "is_tool_result (ToolResult _) \<longleftrightarrow> True"
| "is_tool_result _ \<longleftrightarrow> False"

fun is_reasoning :: "item \<Rightarrow> bool" where
  "is_reasoning (Reasoning _) \<longleftrightarrow> True"
| "is_reasoning _ \<longleftrightarrow> False"

fun item_as_text :: "item \<Rightarrow> string option" where
  "item_as_text (Message m) =
     (case msg_content m of [Text t] \<Rightarrow> Some t | _ \<Rightarrow> None)"
| "item_as_text _ = None"

text \<open>\<open>serde_json::from_str\<close> is the parameter \<open>from_str\<close>.\<close>

definition parse_tool_arguments :: "(string \<Rightarrow> json option) \<Rightarrow> string \<Rightarrow> json" where
  "parse_tool_arguments from_str arguments =
     (case from_str arguments of
        Some (JObject members) \<Rightarrow> JObject members
      | _ \<Rightarrow> JObject [])"

lemmas item_constructors [item_defs] =
  message_parts_def system_message_def user_message_def user_message_parts_def
  assistant_message_def assistant_message_parts_def item_tool_call_def
  tool_result_item_with_disposition_and_attachments_def tool_result_item_with_attachments_def
  item_tool_result_def tool_result_def tool_result_error_def tool_result_with_content_def
  reasoning_def disposition_is_success_def image_new_def

section \<open>Requests\<close>

record tool_definition =
  td_name :: string
  td_description :: "string option"
  td_input_schema :: json

definition tool_definition_new :: "string \<Rightarrow> tool_definition" where
  "tool_definition_new name = \<lparr>td_name = name, td_description = None,
     td_input_schema = JObject [(''properties'', JObject []), (''type'', JString ''object'')]\<rparr>"

datatype reasoning_effort = Minimal | Low | Medium | High | XHigh | OtherEffort string

datatype reasoning_control = Effort reasoning_effort | BudgetTokens "32 word"

text \<open>An \<open>f32\<close> is its bit pattern.\<close>

record request_config =
  rc_max_tokens :: "u32 option"
  rc_temperature :: "u32 option"
  rc_top_p :: "u32 option"
  rc_top_k :: "u32 option"
  rc_stop_sequences :: "string list"
  rc_reasoning :: "reasoning_control option"

definition request_config_default :: request_config where
  "request_config_default = \<lparr>rc_max_tokens = None, rc_temperature = None, rc_top_p = None,
     rc_top_k = None, rc_stop_sequences = [], rc_reasoning = None\<rparr>"

text \<open>The request-local trace callback is not part of the model.\<close>

record request =
  rq_system_prompt :: "string option"
  rq_items :: "item list"
  rq_tools :: "tool_definition list"
  rq_config :: request_config
  rq_cache_anchor :: "nat option"
  rq_cache_key :: "string option"

definition request_new :: request where
  "request_new = \<lparr>rq_system_prompt = None, rq_items = [], rq_tools = [],
     rq_config = request_config_default, rq_cache_anchor = None, rq_cache_key = None\<rparr>"

subsection \<open>Builders of requests and configurations\<close>

definition request_system :: "string \<Rightarrow> request \<Rightarrow> request" where
  "request_system prompt rq = rq\<lparr>rq_system_prompt := Some prompt\<rparr>"

definition request_user :: "string \<Rightarrow> request \<Rightarrow> request" where
  "request_user content rq = rq\<lparr>rq_items := rq_items rq @ [user_message content]\<rparr>"

definition request_assistant :: "string \<Rightarrow> request \<Rightarrow> request" where
  "request_assistant content rq = rq\<lparr>rq_items := rq_items rq @ [assistant_message content]\<rparr>"

definition request_item :: "item \<Rightarrow> request \<Rightarrow> request" where
  "request_item it rq = rq\<lparr>rq_items := rq_items rq @ [it]\<rparr>"

definition request_items :: "item list \<Rightarrow> request \<Rightarrow> request" where
  "request_items items rq = rq\<lparr>rq_items := rq_items rq @ items\<rparr>"

definition request_tool :: "tool_definition \<Rightarrow> request \<Rightarrow> request" where
  "request_tool tool rq = rq\<lparr>rq_tools := rq_tools rq @ [tool]\<rparr>"

definition request_set_config :: "request_config \<Rightarrow> request \<Rightarrow> request" where
  "request_set_config config rq = rq\<lparr>rq_config := config\<rparr>"

definition with_max_tokens :: "u32 \<Rightarrow> request_config \<Rightarrow> request_config" where
  "with_max_tokens n c = c\<lparr>rc_max_tokens := Some n\<rparr>"

definition with_temperature :: "u32 \<Rightarrow> request_config \<Rightarrow> request_config" where
  "with_temperature x c = c\<lparr>rc_temperature := Some x\<rparr>"

definition with_top_p :: "u32 \<Rightarrow> request_config \<Rightarrow> request_config" where
  "with_top_p x c = c\<lparr>rc_top_p := Some x\<rparr>"

definition with_top_k :: "u32 \<Rightarrow> request_config \<Rightarrow> request_config" where
  "with_top_k n c = c\<lparr>rc_top_k := Some n\<rparr>"

definition with_stop_sequence :: "string \<Rightarrow> request_config \<Rightarrow> request_config" where
  "with_stop_sequence s c = c\<lparr>rc_stop_sequences := rc_stop_sequences c @ [s]\<rparr>"

definition request_max_tokens :: "u32 \<Rightarrow> request \<Rightarrow> request" where
  "request_max_tokens n rq = rq\<lparr>rq_config := (rq_config rq)\<lparr>rc_max_tokens := Some n\<rparr>\<rparr>"

definition request_temperature :: "u32 \<Rightarrow> request \<Rightarrow> request" where
  "request_temperature x rq = rq\<lparr>rq_config := (rq_config rq)\<lparr>rc_temperature := Some x\<rparr>\<rparr>"

definition request_top_p :: "u32 \<Rightarrow> request \<Rightarrow> request" where
  "request_top_p x rq = rq\<lparr>rq_config := (rq_config rq)\<lparr>rc_top_p := Some x\<rparr>\<rparr>"

definition request_top_k :: "u32 \<Rightarrow> request \<Rightarrow> request" where
  "request_top_k n rq = rq\<lparr>rq_config := (rq_config rq)\<lparr>rc_top_k := Some n\<rparr>\<rparr>"

definition request_stop_sequence :: "string \<Rightarrow> request \<Rightarrow> request" where
  "request_stop_sequence s rq =
     rq\<lparr>rq_config := (rq_config rq)\<lparr>rc_stop_sequences := rc_stop_sequences (rq_config rq) @ [s]\<rparr>\<rparr>"

definition request_cache_key :: "string \<Rightarrow> request \<Rightarrow> request" where
  "request_cache_key key rq = rq\<lparr>rq_cache_key := Some key\<rparr>"

definition tool_description :: "string \<Rightarrow> tool_definition \<Rightarrow> tool_definition" where
  "tool_description desc td = td\<lparr>td_description := Some desc\<rparr>"

definition tool_input_schema :: "json \<Rightarrow> tool_definition \<Rightarrow> tool_definition" where
  "tool_input_schema schema td = td\<lparr>td_input_schema := schema\<rparr>"

lemmas request_builders [item_defs] =
  request_system_def request_user_def request_assistant_def request_item_def request_items_def
  request_tool_def request_set_config_def request_max_tokens_def request_temperature_def
  request_top_p_def request_top_k_def request_stop_sequence_def request_cache_key_def
  with_max_tokens_def with_temperature_def with_top_p_def with_top_k_def with_stop_sequence_def
  tool_description_def tool_input_schema_def

section \<open>Client errors\<close>

text \<open>
  The payload of \<open>Http\<close> is what \<open>is_connect\<close> and \<open>is_timeout\<close> of \<open>reqwest::Error\<close> say of
  it; the payload of \<open>Json\<close> is its rendering.  Durations are in milliseconds.
\<close>

record http_error =
  he_is_connect :: bool
  he_is_timeout :: bool

datatype client_error =
    Http http_error
  | Json string
  | Sse string
  | Api (api_status: "u16 option") (api_code: "string option") (api_message: string)
      (api_retry_after: "nat option")
  | ContextWindowExceeded
  | Timeout string nat
  | Config string

fun client_error_status :: "client_error \<Rightarrow> u16 option" where
  "client_error_status (Api status _ _ _) = status"
| "client_error_status _ = None"

fun client_error_retry_after :: "client_error \<Rightarrow> nat option" where
  "client_error_retry_after (Api _ _ _ retry_after) = retry_after"
| "client_error_retry_after _ = None"

definition is_image_size_diagnostic :: "string option \<Rightarrow> string \<Rightarrow> bool" where
  "is_image_size_diagnostic code message \<longleftrightarrow>
     (if code = Some ''image_too_large'' \<or> code = Some ''image_size_exceeded'' then True
      else
        let m = to_ascii_lowercase (split_next '' | diagnostic='' message)
        in str_contains ''image'' m \<and>
           ((str_contains ''patches'' m \<and> str_contains ''exceed'' m \<and> str_contains ''limit'' m)
            \<or> str_contains ''image is too large'' m
            \<or> str_contains ''image too large'' m
            \<or> (str_contains ''image dimensions'' m \<and> str_contains ''exceed'' m)))"

fun is_image_size_rejection :: "client_error \<Rightarrow> bool" where
  "is_image_size_rejection (Api (Some status) code message _) \<longleftrightarrow>
     status \<in> {400, 413, 422} \<and> is_image_size_diagnostic code message"
| "is_image_size_rejection _ \<longleftrightarrow> False"

fun is_retryable :: "client_error \<Rightarrow> bool" where
  "is_retryable (Api (Some code) _ _ _) \<longleftrightarrow>
     code \<in> {408, 425, 429, 500, 502, 503, 504, 529}"
| "is_retryable (Api None _ _ _) \<longleftrightarrow> False"
| "is_retryable (Timeout _ _) \<longleftrightarrow> True"
| "is_retryable (Http e) \<longleftrightarrow> he_is_connect e \<or> he_is_timeout e"
| "is_retryable ContextWindowExceeded \<longleftrightarrow> False"
| "is_retryable (Json _) \<longleftrightarrow> False"
| "is_retryable (Sse _) \<longleftrightarrow> False"
| "is_retryable (Config _) \<longleftrightarrow> False"

section \<open>Tool output limits\<close>

record tool_output_limits =
  tol_default_max_bytes :: nat
  tol_per_tool :: "string \<rightharpoonup> nat"

definition limit_for :: "tool_output_limits \<Rightarrow> string \<Rightarrow> nat" where
  "limit_for limits tool_name =
     (case tol_per_tool limits tool_name of
        Some m \<Rightarrow> m
      | None \<Rightarrow> tol_default_max_bytes limits)"

text \<open>The marker with \<open>%BYTES%\<close> replaced, and the headroom reserved for it.\<close>

definition truncation_suffix :: "nat \<Rightarrow> string" where
  "truncation_suffix dropped =
     [CHR 10, CHR 10] @ ''[truncated: '' @ dec dropped @ '' bytes dropped, refine your query]''"

definition truncation_reserved :: nat where
  "truncation_reserved =
     length ([CHR 10, CHR 10] @ ''[truncated: %BYTES% bytes dropped, refine your query]'')
     + 20 - length ''%BYTES%''"

definition truncate_content :: "nat \<Rightarrow> string \<Rightarrow> string" where
  "truncate_content limit content =
     (let original_len = length content in
      if original_len \<le> limit then content
      else
        let body_budget = limit - truncation_reserved;
            cut = floor_boundary content (min body_budget original_len);
            dropped = original_len - cut
        in take cut content @ truncation_suffix dropped)"

section \<open>The execution-attempt fence\<close>

record tool_execution_attempt =
  ta_attempt_id :: string
  ta_terminal :: bool

type_synonym attempt_fence = "string \<rightharpoonup> tool_execution_attempt"

definition fence_register :: "string \<Rightarrow> string \<Rightarrow> attempt_fence \<Rightarrow> attempt_fence" where
  "fence_register call_id attempt_id f =
     f(call_id \<mapsto> \<lparr>ta_attempt_id = attempt_id, ta_terminal = False\<rparr>)"

definition can_commit :: "string \<Rightarrow> string \<Rightarrow> attempt_fence \<Rightarrow> bool" where
  "can_commit call_id attempt_id f \<longleftrightarrow>
     (case f call_id of
        Some attempt \<Rightarrow> ta_attempt_id attempt = attempt_id \<and> \<not> ta_terminal attempt
      | None \<Rightarrow> False)"

definition commit_terminal :: "string \<Rightarrow> string \<Rightarrow> attempt_fence \<Rightarrow> bool \<times> attempt_fence" where
  "commit_terminal call_id attempt_id f =
     (case f call_id of
        None \<Rightarrow> (False, f)
      | Some attempt \<Rightarrow>
          if ta_attempt_id attempt \<noteq> attempt_id \<or> ta_terminal attempt then (False, f)
          else (True, f(call_id \<mapsto> attempt\<lparr>ta_terminal := True\<rparr>)))"

definition fence_is_terminal :: "string \<Rightarrow> attempt_fence \<Rightarrow> bool" where
  "fence_is_terminal call_id f \<longleftrightarrow>
     (case f call_id of Some attempt \<Rightarrow> ta_terminal attempt | None \<Rightarrow> False)"

end
