(* ===== verification/Request_History.thy ===== *)
theory Request_History
  imports Request_Items
begin

text \<open>
  The caller-owned conversation history of crate \<open>agen\<close> (\<open>history.rs\<close>) and the
  engine operations of \<open>engine.rs\<close> that append to it.  Callbacks (annotation, persistence,
  observers) are parameters that read and change a world \<open>'w\<close> of their own; an operation
  that mutates and may fail returns its \<open>Result\<close> together with the state it leaves.
\<close>

section \<open>History\<close>

record 'a history_entry =
  he_item :: item
  he_annotation :: 'a

type_synonym 'a history = "'a history_entry list"

type_synonym ('w, 'a) annotator = "'w \<Rightarrow> item \<Rightarrow> (string + 'a) \<times> 'w"

definition entry_new :: "item \<Rightarrow> 'a \<Rightarrow> 'a history_entry" where
  "entry_new it annotation = \<lparr>he_item = it, he_annotation = annotation\<rparr>"

definition entry_into_parts :: "'a history_entry \<Rightarrow> item \<times> 'a" where
  "entry_into_parts e = (he_item e, he_annotation e)"

definition entry_from_item :: "item \<Rightarrow> unit history_entry" where
  "entry_from_item it = entry_new it ()"

definition replace_entries :: "'a history \<Rightarrow> 'a history \<Rightarrow> 'a history_entry list \<times> 'a history" where
  "replace_entries entries h = (h, entries)"

definition history_items :: "'a history \<Rightarrow> item list" where
  "history_items h = map he_item h"

definition push_entry :: "'a history_entry \<Rightarrow> 'a history \<Rightarrow> 'a history" where
  "push_entry e h = h @ [e]"

definition extend_entries :: "'a history_entry list \<Rightarrow> 'a history \<Rightarrow> 'a history" where
  "extend_entries es h = h @ es"

definition append_with ::
  "('w, 'a) annotator \<Rightarrow> item \<Rightarrow> 'a history \<times> 'w \<Rightarrow> (string + unit) \<times> 'a history \<times> 'w"
where
  "append_with annotate it = (\<lambda>(h, w).
     (case annotate w it of
        (Inl e, w') \<Rightarrow> (Inl e, h, w')
      | (Inr annotation, w') \<Rightarrow> (Inr (), push_entry (entry_new it annotation) h, w')))"

fun extend_with ::
  "('w, 'a) annotator \<Rightarrow> item list \<Rightarrow> 'a history \<times> 'w \<Rightarrow> (string + unit) \<times> 'a history \<times> 'w"
where
  "extend_with annotate [] s = (Inr (), s)"
| "extend_with annotate (it # items) s =
     (case append_with annotate it s of
        (Inl e, s') \<Rightarrow> (Inl e, s')
      | (Inr _, s') \<Rightarrow> extend_with annotate items s')"

definition history_truncate :: "nat \<Rightarrow> 'a history \<Rightarrow> 'a history" where
  "history_truncate n h = take n h"

definition history_from_items :: "item list \<Rightarrow> unit history" where
  "history_from_items items = map entry_from_item items"

definition replace_items ::
  "item list \<Rightarrow> unit history \<Rightarrow> unit history_entry list \<times> unit history" where
  "replace_items items h = replace_entries (map entry_from_item items) h"

definition history_push :: "item \<Rightarrow> unit history \<Rightarrow> unit history" where
  "history_push it h = h @ [entry_from_item it]"

definition extend_items :: "item list \<Rightarrow> unit history \<Rightarrow> unit history" where
  "extend_items items h = h @ map entry_from_item items"

section \<open>Appends by the engine\<close>

text \<open>The variants of \<open>EngineError\<close> the modelled operations produce; every other one, raised
  by the parts that are parameters here, is \<open>OtherEngineError\<close> with its rendering.\<close>

datatype engine_error =
    Client client_error
  | HistoryAppend string
  | ToolAttemptFence string
  | OtherEngineError string

type_synonym 'w append_callback = "'w \<Rightarrow> item \<Rightarrow> (string + unit) \<times> 'w"

fun emit_history_append ::
  "'w append_callback list \<Rightarrow> item \<Rightarrow> 'w \<Rightarrow> (engine_error + unit) \<times> 'w"
where
  "emit_history_append [] it w = (Inr (), w)"
| "emit_history_append (cb # cbs) it w =
     (case cb w it of
        (Inl e, w') \<Rightarrow> (Inl (HistoryAppend e), w')
      | (Inr _, w') \<Rightarrow> emit_history_append cbs it w')"

fun append_history_items ::
  "'w append_callback list \<Rightarrow> ('w, 'a) annotator \<Rightarrow> item list \<Rightarrow> 'a history \<times> 'w
    \<Rightarrow> (engine_error + unit) \<times> 'a history \<times> 'w"
where
  "append_history_items cbs annotate [] s = (Inr (), s)"
| "append_history_items cbs annotate (it # items) (h, w) =
     (case emit_history_append cbs it w of
        (Inl e, w') \<Rightarrow> (Inl e, h, w')
      | (Inr _, w') \<Rightarrow>
          (case append_with annotate it (h, w') of
             (Inl e, s') \<Rightarrow> (Inl (HistoryAppend e), s')
           | (Inr _, s') \<Rightarrow> append_history_items cbs annotate items s'))"

section \<open>Committing a tool result\<close>

record tool_execution_result =
  ter_tool_use_id :: string
  ter_disposition :: tool_result_disposition
  ter_summary :: string
  ter_content :: "string option"
  ter_is_error :: bool
  ter_attachments :: "attachment list"

text \<open>The disposition and the error flag are reconciled before the payload is bounded.\<close>

definition normalize_tool_result :: "tool_execution_result \<Rightarrow> tool_execution_result" where
  "normalize_tool_result r =
     (let d = (if ter_is_error r \<and> disposition_is_success (ter_disposition r) then DispError
               else ter_disposition r)
      in r\<lparr>ter_disposition := d, ter_is_error := \<not> disposition_is_success d\<rparr>)"

text \<open>\<open>call_names\<close> is the tool name of each call of \<open>call_info_map\<close>.\<close>

definition bound_tool_result ::
  "tool_output_limits option \<Rightarrow> (string \<rightharpoonup> string) \<Rightarrow> tool_execution_result \<Rightarrow> tool_execution_result"
where
  "bound_tool_result limits call_names r =
     (case (limits, call_names (ter_tool_use_id r), ter_content r) of
        (Some l, Some name, Some content) \<Rightarrow>
          r\<lparr>ter_content := Some (truncate_content (limit_for l name) content)\<rparr>
      | _ \<Rightarrow> r)"

definition terminal_item :: "tool_execution_result \<Rightarrow> item" where
  "terminal_item r =
     tool_result_item_with_disposition_and_attachments (ter_tool_use_id r) (ter_summary r)
       (ter_content r) (ter_disposition r) (ter_attachments r)"

record ('a, 'w) commit_state =
  cs_history :: "'a history"
  cs_world :: 'w
  cs_fence :: attempt_fence
  cs_terminal_ids :: "string set"

definition may_commit :: "string option \<Rightarrow> string \<Rightarrow> ('a, 'w) commit_state \<Rightarrow> bool" where
  "may_commit attempt call_id s \<longleftrightarrow>
     (case attempt of
        Some attempt_id \<Rightarrow> can_commit call_id attempt_id (cs_fence s)
      | None \<Rightarrow> call_id \<notin> cs_terminal_ids s)"

text \<open>The post-execution policy, which reads the result and may end the run with an error, is the
  parameter \<open>post_policy\<close>; it is awaited after the commit.\<close>

definition finalize_and_commit_tool_result ::
  "'w append_callback list \<Rightarrow> ('w, 'a) annotator \<Rightarrow> tool_output_limits option
    \<Rightarrow> (string \<rightharpoonup> string) \<Rightarrow> (tool_execution_result \<Rightarrow> engine_error option)
    \<Rightarrow> tool_execution_result \<Rightarrow> string option \<Rightarrow> ('a, 'w) commit_state
    \<Rightarrow> (engine_error + bool) \<times> ('a, 'w) commit_state"
where
  "finalize_and_commit_tool_result cbs annotate limits call_names post_policy res attempt s =
     (let call_id = ter_tool_use_id res in
      if \<not> may_commit attempt call_id s then (Inr False, s)
      else
        let r = bound_tool_result limits call_names (normalize_tool_result res) in
        (case append_history_items cbs annotate [terminal_item r] (cs_history s, cs_world s) of
           (Inl e, h, w) \<Rightarrow> (Inl e, s\<lparr>cs_history := h, cs_world := w\<rparr>)
         | (Inr _, h, w) \<Rightarrow>
             let s1 = s\<lparr>cs_history := h, cs_world := w\<rparr>;
                 (fenced, fence) = (case attempt of
                    Some attempt_id \<Rightarrow> commit_terminal call_id attempt_id (cs_fence s1)
                  | None \<Rightarrow> (True, cs_fence s1));
                 s2 = s1\<lparr>cs_fence := fence\<rparr>
             in if \<not> fenced
                then (Inl (ToolAttemptFence
                       ''tool execution attempt fence changed during terminal commit''), s2)
                else
                  let s3 = s2\<lparr>cs_terminal_ids := insert call_id (cs_terminal_ids s2)\<rparr>
                  in (case post_policy r of
                        Some e \<Rightarrow> (Inl e, s3)
                      | None \<Rightarrow> (Inr True, s3))))"

end
