(* ===== verification/Request_Projection.thy ===== *)
theory Request_Projection
  imports Request_History
begin

text \<open>
  What one model request sees of the history: token estimates (\<open>token_counter.rs\<close>), omission
  of old details (\<open>prune.rs\<close> and its use in \<open>engine.rs\<close>), and the recovery from an image
  the provider rejected (\<open>image_recovery.rs\<close> and its use in \<open>engine.rs\<close>).  An index out of
  bounds is \<open>None\<close>.
\<close>

definition get_index :: "'b list \<Rightarrow> nat \<Rightarrow> 'b option" where
  "get_index xs i = (if i < length xs then Some (xs ! i) else None)"

section \<open>Token estimates\<close>

record usage_record =
  ur_history_len :: nat
  ur_input_total_tokens :: u64
  ur_cache_read_tokens :: u64
  ur_cache_write_tokens :: u64
  ur_output_tokens :: u64

datatype estimate_source = Measured | Interpolated | Extrapolated | NoData

record token_estimate =
  te_tokens :: u64
  te_source :: estimate_source

text \<open>\<open>to_string\<close> is \<open>serde_json::to_string\<close>, which may fail.\<close>

fun clear_attachments :: "item \<Rightarrow> item" where
  "clear_attachments (ToolResult t) = ToolResult (t\<lparr>tr_attachments := []\<rparr>)"
| "clear_attachments it = it"

definition item_bytes :: "(item \<Rightarrow> string option) \<Rightarrow> item \<Rightarrow> u64" where
  "item_bytes to_string it =
     (case to_string (clear_attachments it) of
        Some s \<Rightarrow> word_of_nat (length s)
      | None \<Rightarrow> 0)"

fun prefix_from :: "(item \<Rightarrow> string option) \<Rightarrow> u64 \<Rightarrow> item list \<Rightarrow> u64 list" where
  "prefix_from to_string acc [] = [acc]"
| "prefix_from to_string acc (it # items) =
     acc # prefix_from to_string (saturating_add acc (item_bytes to_string it)) items"

definition prefix_bytes :: "(item \<Rightarrow> string option) \<Rightarrow> item list \<Rightarrow> u64 list" where
  "prefix_bytes to_string items = prefix_from to_string 0 items"

definition estimate :: "u64 \<Rightarrow> estimate_source \<Rightarrow> token_estimate" where
  "estimate t src = \<lparr>te_tokens = t, te_source = src\<rparr>"

text \<open>\<open>(a as u128 * b as u128 / c as u128) as u64\<close>\<close>

definition mul_div_u128 :: "u64 \<Rightarrow> u64 \<Rightarrow> u64 \<Rightarrow> u64" where
  "mul_div_u128 a b c = ucast ((ucast a * ucast b :: 128 word) div ucast c)"

definition interpolate_between :: "usage_record \<Rightarrow> usage_record \<Rightarrow> u64 \<Rightarrow> u64 \<Rightarrow> u64 \<Rightarrow> u64" where
  "interpolate_between lo up lo_bytes up_bytes at_bytes =
     (let span_bytes = saturating_sub up_bytes lo_bytes;
          span_tokens = saturating_sub (ur_input_total_tokens up) (ur_input_total_tokens lo)
      in if span_bytes = 0 \<or> span_tokens = 0 then ur_input_total_tokens lo
         else
           let delta_bytes = saturating_sub at_bytes lo_bytes;
               delta_tokens = mul_div_u128 delta_bytes span_tokens span_bytes
           in ur_input_total_tokens lo + delta_tokens)"

definition extrapolate_after :: "usage_record \<Rightarrow> u64 \<Rightarrow> u64 \<Rightarrow> u64" where
  "extrapolate_after lo lo_bytes at_bytes =
     saturating_add (ur_input_total_tokens lo) (saturating_sub at_bytes lo_bytes div 4)"

definition interpolate_before :: "usage_record \<Rightarrow> u64 \<Rightarrow> u64 \<Rightarrow> u64" where
  "interpolate_before up up_bytes at_bytes =
     (if up_bytes = 0 then 0 else mul_div_u128 at_bytes (ur_input_total_tokens up) up_bytes)"

definition lower_record :: "usage_record list \<Rightarrow> nat \<Rightarrow> usage_record option" where
  "lower_record records index = List.find (\<lambda>r. ur_history_len r < index) (rev records)"

definition upper_record :: "usage_record list \<Rightarrow> nat \<Rightarrow> usage_record option" where
  "upper_record records index = List.find (\<lambda>r. index < ur_history_len r) records"

definition exact_record :: "usage_record list \<Rightarrow> nat \<Rightarrow> usage_record option" where
  "exact_record records index = List.find (\<lambda>r. ur_history_len r = index) (rev records)"

definition tokens_at ::
  "item list \<Rightarrow> usage_record list \<Rightarrow> nat \<Rightarrow> u64 list \<Rightarrow> token_estimate option"
where
  "tokens_at history records index pre =
     (if index = 0 then Some (estimate 0 Measured)
      else if records = [] then
        map_option (\<lambda>b. estimate (b div 4) NoData) (get_index pre index)
      else (case exact_record records index of
        Some r \<Rightarrow> Some (estimate (ur_input_total_tokens r) Measured)
      | None \<Rightarrow>
          let cap = length history;
              bytes_of = (\<lambda>r. get_index pre (min (ur_history_len r) cap))
          in (case (lower_record records index, upper_record records index) of
                (Some lo, Some up) \<Rightarrow>
                  (case (bytes_of lo, bytes_of up, get_index pre index) of
                     (Some lo_bytes, Some up_bytes, Some at_bytes) \<Rightarrow>
                       Some (estimate (interpolate_between lo up lo_bytes up_bytes at_bytes)
                         Interpolated)
                   | _ \<Rightarrow> None)
              | (Some lo, None) \<Rightarrow>
                  (case (bytes_of lo, get_index pre index) of
                     (Some lo_bytes, Some at_bytes) \<Rightarrow>
                       Some (estimate (extrapolate_after lo lo_bytes at_bytes) Extrapolated)
                   | _ \<Rightarrow> None)
              | (None, Some up) \<Rightarrow>
                  (case (bytes_of up, get_index pre index) of
                     (Some up_bytes, Some at_bytes) \<Rightarrow>
                       Some (estimate (interpolate_before up up_bytes at_bytes) Interpolated)
                   | _ \<Rightarrow> None)
              | (None, None) \<Rightarrow> None)))"

definition total_tokens ::
  "(item \<Rightarrow> string option) \<Rightarrow> item list \<Rightarrow> usage_record list \<Rightarrow> token_estimate option" where
  "total_tokens to_string history records =
     tokens_at history records (length history) (prefix_bytes to_string history)"

definition total_tokens_at ::
  "(item \<Rightarrow> string option) \<Rightarrow> item list \<Rightarrow> usage_record list \<Rightarrow> nat \<Rightarrow> token_estimate option"
where
  "total_tokens_at to_string history records history_len =
     tokens_at history records (min history_len (length history)) (prefix_bytes to_string history)"


section \<open>Model output and accepted input\<close>

fun accepted_scan :: "nat \<Rightarrow> nat option \<Rightarrow> nat option \<Rightarrow> item list \<Rightarrow> nat option" where
  "accepted_scan index response_start accepted_prefix [] = accepted_prefix"
| "accepted_scan index response_start accepted_prefix (it # items) =
     (let model_output = Some (case response_start of None \<Rightarrow> index | Some b \<Rightarrow> b) in
      (case it of
         AssistantResponseBoundary _ \<Rightarrow>
           accepted_scan (Suc index) (Some index) accepted_prefix items
       | Message m \<Rightarrow>
           (case msg_role m of
              Assistant \<Rightarrow> accepted_scan (Suc index) response_start model_output items
            | User \<Rightarrow> accepted_scan (Suc index) None accepted_prefix items
            | System \<Rightarrow> accepted_scan (Suc index) response_start accepted_prefix items)
       | ToolCall _ \<Rightarrow> accepted_scan (Suc index) response_start model_output items
       | Reasoning _ \<Rightarrow> accepted_scan (Suc index) response_start model_output items
       | ToolResult _ \<Rightarrow> accepted_scan (Suc index) response_start accepted_prefix items))"

definition accepted_input_end :: "item list \<Rightarrow> nat option" where
  "accepted_input_end items = accepted_scan 0 None None items"

section \<open>Omission of old details\<close>

datatype prune_decision = SkippedNoCandidates | SkippedBelowMinSavings | Fired nat

record prune_evaluation =
  pe_candidate_count :: nat
  pe_estimated_savings :: u64
  pe_protected_start_index :: "nat option"
  pe_decision :: prune_decision

record prune_config =
  pc_protected_tokens :: u64
  pc_min_savings :: u64

definition prune_config_default :: prune_config where
  "prune_config_default = \<lparr>pc_protected_tokens = 8000, pc_min_savings = 4096\<rparr>"

fun has_details :: "item \<Rightarrow> bool" where
  "has_details (ToolResult t) \<longleftrightarrow> tr_content t \<noteq> None \<or> tr_attachments t \<noteq> []"
| "has_details _ \<longleftrightarrow> False"

fun drop_details :: "item \<Rightarrow> item" where
  "drop_details (ToolResult t) = ToolResult (t\<lparr>tr_content := None, tr_attachments := []\<rparr>)"
| "drop_details it = it"

fun project :: "item list \<Rightarrow> nat list \<Rightarrow> (nat \<times> item list) option" where
  "project items [] = Some (0, items)"
| "project items (i # indices) =
     (case get_index items i of
        None \<Rightarrow> None
      | Some it \<Rightarrow>
          if has_details it
          then map_option (\<lambda>(n, items'). (Suc n, items')) (project (items[i := drop_details it]) indices)
          else project items indices)"

fun has_attachments :: "item \<Rightarrow> bool" where
  "has_attachments (ToolResult t) \<longleftrightarrow> tr_attachments t \<noteq> []"
| "has_attachments _ \<longleftrightarrow> False"

definition project_consumed_attachments :: "item list \<Rightarrow> nat \<times> item list" where
  "project_consumed_attachments items =
     (let latest = accepted_input_end items;
          is_fresh = (\<lambda>index. (case latest of None \<Rightarrow> False | Some boundary \<Rightarrow> boundary < index));
          cleared = (\<lambda>(index, it). \<not> is_fresh index \<and> has_attachments it);
          indexed = enumerate 0 items
      in (length (filter cleared indexed),
          map (\<lambda>p. if cleared p then clear_attachments (snd p) else snd p) indexed))"

text \<open>The scan of \<open>protected_start_index\<close> from the tail, its counter the number of boundaries
  still ahead of it.\<close>

fun protected_scan :: "token_estimate list \<Rightarrow> u64 \<Rightarrow> u64 \<Rightarrow> nat \<Rightarrow> nat option" where
  "protected_scan estimates tail_end protected 0 = Some 0"
| "protected_scan estimates tail_end protected (Suc idx) =
     (let pre = estimates ! idx in
      if te_source pre = NoData then None
      else if protected \<le> saturating_sub tail_end (te_tokens pre) then Some idx
      else protected_scan estimates tail_end protected idx)"

definition protected_start_index ::
  "item list \<Rightarrow> u64 \<Rightarrow> token_estimate list \<Rightarrow> nat option" where
  "protected_start_index items protected_tokens token_estimates =
     (if length token_estimates \<noteq> length items + 1 then None
      else
        let total = token_estimates ! length items in
        if te_source total = NoData then None
        else if protected_tokens = 0 then Some (length items)
        else protected_scan token_estimates (te_tokens total) protected_tokens (length items))"

definition evaluate_candidates ::
  "item list \<Rightarrow> u64 \<Rightarrow> token_estimate list \<Rightarrow> nat list \<times> nat option" where
  "evaluate_candidates items protected_tokens token_estimates =
     (case protected_start_index items protected_tokens token_estimates of
        None \<Rightarrow> ([], None)
      | Some protected_start \<Rightarrow>
          (map fst (filter (\<lambda>(i, it). has_details it) (enumerate 0 (take protected_start items))),
           Some protected_start))"

definition prunable_indices :: "item list \<Rightarrow> u64 \<Rightarrow> token_estimate list \<Rightarrow> nat list" where
  "prunable_indices items protected_tokens token_estimates =
     fst (evaluate_candidates items protected_tokens token_estimates)"

text \<open>
  The request context of \<open>run_turn_loop\<close>: the projection of consumed attachments, then the
  pruning pass when it is configured.  The estimators are the callbacks the host installs.
\<close>

definition prune_pass ::
  "prune_config \<Rightarrow> (item list \<Rightarrow> token_estimate list) \<Rightarrow> (item list \<Rightarrow> nat list \<Rightarrow> u64)
    \<Rightarrow> item list \<Rightarrow> (item list \<times> prune_evaluation) option"
where
  "prune_pass config token_estimator savings_estimator context =
     (let (candidates, protected_start) =
            evaluate_candidates context (pc_protected_tokens config) (token_estimator context) in
      if candidates = [] then
        Some (context, \<lparr>pe_candidate_count = 0, pe_estimated_savings = 0,
          pe_protected_start_index = protected_start, pe_decision = SkippedNoCandidates\<rparr>)
      else
        let savings = savings_estimator context candidates in
        if pc_min_savings config \<le> savings then
          map_option (\<lambda>(pruned, context').
            (context', \<lparr>pe_candidate_count = length candidates, pe_estimated_savings = savings,
               pe_protected_start_index = protected_start, pe_decision = Fired pruned\<rparr>))
            (project context candidates)
        else
          Some (context, \<lparr>pe_candidate_count = length candidates, pe_estimated_savings = savings,
            pe_protected_start_index = protected_start, pe_decision = SkippedBelowMinSavings\<rparr>))"

definition request_context ::
  "prune_config option \<Rightarrow> (item list \<Rightarrow> token_estimate list) option
    \<Rightarrow> (item list \<Rightarrow> nat list \<Rightarrow> u64) option \<Rightarrow> 'a history
    \<Rightarrow> (item list \<times> prune_evaluation option) option"
where
  "request_context config token_estimator savings_estimator history =
     (let context = snd (project_consumed_attachments (history_items history)) in
      (case (config, token_estimator, savings_estimator) of
         (Some c, Some t, Some s) \<Rightarrow>
           map_option (\<lambda>(context', evaluation). (context', Some evaluation)) (prune_pass c t s context)
       | _ \<Rightarrow> Some (context, None)))"


section \<open>Recovery from rejected images\<close>

definition REJECTION_MESSAGE :: string where
  "REJECTION_MESSAGE =
     ''ViewImage image omitted from model input after the provider rejected image size. This is a recovery candidate, not proof that this particular image caused the rejection. Resize or crop the image and retry ViewImage; do not read the unchanged image again.''"

fun rejected_result :: "item \<Rightarrow> item" where
  "rejected_result (ToolResult t) =
     ToolResult (t\<lparr>tr_summary := REJECTION_MESSAGE, tr_content := None, tr_attachments := [],
       tr_disposition := DispError, tr_is_error := True\<rparr>)"
| "rejected_result it = it"

definition saturating_mul :: "u64 \<Rightarrow> u64 \<Rightarrow> u64" where
  "saturating_mul a b = (if unat a * unat b < 2 ^ 64 then a * b else - 1)"

text \<open>Tuples compare lexicographically: pixels, then bytes, then position.\<close>

type_synonym image_rank = "u64 \<times> nat \<times> nat"

definition rank_greater :: "image_rank \<Rightarrow> image_rank \<Rightarrow> bool" where
  "rank_greater = (\<lambda>(p, b, i) (p', b', i').
     p > p' \<or> (p = p' \<and> (b > b' \<or> (b = b' \<and> i > i'))))"

text \<open>\<open>blob_size\<close> of crate \<open>imagesize\<close> is a parameter: the width and height of an image
  whose header it can read.\<close>

definition image_pixels :: "(u8 list \<Rightarrow> (u64 \<times> u64) option) \<Rightarrow> image_attachment \<Rightarrow> u64" where
  "image_pixels blob_size img =
     (case blob_size (ia_data img) of
        Some (width, height) \<Rightarrow> saturating_mul width height
      | None \<Rightarrow> 0)"

fun calls_view_image :: "string \<Rightarrow> item \<Rightarrow> bool" where
  "calls_view_image call_id (ToolCall c) \<longleftrightarrow> tc_call_id c = call_id \<and> tc_name c = ''ViewImage''"
| "calls_view_image call_id _ \<longleftrightarrow> False"

fun carries_attachments :: "string \<Rightarrow> attachment list \<Rightarrow> item \<Rightarrow> bool" where
  "carries_attachments call_id attachments (ToolResult t) \<longleftrightarrow>
     tr_call_id t = call_id \<and> tr_attachments t = attachments"
| "carries_attachments call_id attachments _ \<longleftrightarrow> False"

text \<open>One entry of the scan: its rank and its index in the request, when it is a candidate.\<close>

fun candidate_at ::
  "(u8 list \<Rightarrow> (u64 \<times> u64) option) \<Rightarrow> item list \<Rightarrow> item list \<Rightarrow> nat \<times> item
    \<Rightarrow> (image_rank \<times> nat \<times> nat) option"
where
  "candidate_at blob_size items sent (index, ToolResult t) =
     (case tr_attachments t of
        [Image img] \<Rightarrow>
          if \<not> list_ex (calls_view_image (tr_call_id t)) items then None
          else
            map_option
              (\<lambda>request_index.
                 ((image_pixels blob_size img, length (ia_data img), index),
                  (index, request_index)))
              (position (carries_attachments (tr_call_id t) (tr_attachments t)) sent)
      | _ \<Rightarrow> None)"
| "candidate_at blob_size items sent (index, _) = None"

definition keep_larger ::
  "(image_rank \<times> nat \<times> nat) option \<Rightarrow> (image_rank \<times> nat \<times> nat) option
    \<Rightarrow> (image_rank \<times> nat \<times> nat) option"
where
  "keep_larger candidate largest =
     (case candidate of
        None \<Rightarrow> largest
      | Some (rank, indices) \<Rightarrow>
          (case largest of
             None \<Rightarrow> Some (rank, indices)
           | Some (previous, _) \<Rightarrow>
               if rank_greater rank previous then Some (rank, indices) else largest))"

definition largest_candidate ::
  "(u8 list \<Rightarrow> (u64 \<times> u64) option) \<Rightarrow> 'a history \<Rightarrow> request \<Rightarrow> (nat \<times> nat) option"
where
  "largest_candidate blob_size history req =
     (let items = history_items history;
          start = (case accepted_input_end items of None \<Rightarrow> 0 | Some b \<Rightarrow> b)
      in map_option snd
           (fold (\<lambda>p. keep_larger (candidate_at blob_size items (rq_items req) p))
             (drop start (enumerate 0 items)) None))"

text \<open>\<open>image_rejection_handler\<close>: the durable commit of a correction, when one is installed.\<close>

type_synonym ('w, 'a) rejection_handler =
  "'w \<Rightarrow> 'a history_entry \<Rightarrow> item \<Rightarrow> (string + unit) \<times> 'w"

definition recover_rejected_image ::
  "(u8 list \<Rightarrow> (u64 \<times> u64) option) \<Rightarrow> ('w, 'a) rejection_handler option
    \<Rightarrow> 'a history \<times> request \<times> 'w \<Rightarrow> (engine_error + bool) \<times> 'a history \<times> request \<times> 'w"
where
  "recover_rejected_image blob_size handler = (\<lambda>(history, req, w).
     (case largest_candidate blob_size history req of
        None \<Rightarrow> (Inr False, history, req, w)
      | Some (history_index, request_index) \<Rightarrow>
          let entry = history ! history_index;
              replacement = rejected_result (he_item entry);
              (committed, w') = (case handler of
                 Some commit \<Rightarrow> commit w entry replacement
               | None \<Rightarrow> (Inr (), w))
          in (case committed of
                Inl e \<Rightarrow> (Inl (HistoryAppend e), history, req, w')
              | Inr _ \<Rightarrow>
                  (Inr True, history[history_index := entry\<lparr>he_item := replacement\<rparr>],
                   req\<lparr>rq_items := (rq_items req)[request_index := replacement]\<rparr>, w'))))"

end
