(* ===== verification/Request_Estimates.thy ===== *)
theory Request_Estimates
  imports Request_Projection
begin

text \<open>
  Properties of the token estimates and of the projection of the history into a model request:
  the estimates are total, never wrap and grow with the history; the protected suffix is the one
  the budget asks for; the projection removes details of tool results and nothing else.
\<close>

section \<open>Arithmetic\<close>

lemma unat_u64_less: "unat (a :: u64) < 2 ^ 64"
  using unsigned_less [of a] by simp

lemma unat_to_u128: "unat (ucast (a :: u64) :: 128 word) = unat a"
  using unat_u64_less [of a] by (simp add: unsigned_ucast_eq take_bit_nat_eq_self)

lemma unat_mul_u128:
  fixes a b :: u64
  shows "unat (ucast a * ucast b :: 128 word) = unat a * unat b"
proof -
  have "unat a * unat b < 2 ^ 64 * 2 ^ 64"
    using unat_u64_less by (intro mult_strict_mono) auto
  then show ?thesis by (simp add: unat_word_ariths unat_to_u128)
qed

lemma mul_div_nat_le: "a \<le> c \<Longrightarrow> a * b div c \<le> (b :: nat)"
  by (cases "c = 0") (auto intro: order_trans [OF div_le_mono [OF mult_le_mono1]])

lemma unat_mul_div_u128:
  assumes "a \<le> c"
  shows "unat (mul_div_u128 a b c) = unat a * unat b div unat c"
proof -
  have "unat a * unat b div unat c < 2 ^ 64"
    using assms mul_div_nat_le [of "unat a" "unat c" "unat b"] unat_u64_less [of b]
    by (simp add: word_le_nat_alt)
  moreover have "unat ((ucast a * ucast b :: 128 word) div ucast c) = unat a * unat b div unat c"
    by (simp add: unat_div unat_mul_u128 unat_to_u128)
  ultimately show ?thesis
    by (simp add: mul_div_u128_def unsigned_ucast_eq [of "_ div _"] take_bit_nat_eq_self)
qed

lemma mul_div_le: "a \<le> c \<Longrightarrow> mul_div_u128 a b c \<le> b"
  using mul_div_nat_le [of "unat a" "unat c" "unat b"]
  by (simp add: word_le_nat_alt unat_mul_div_u128)

lemma mul_div_mono:
  assumes "a \<le> a'" and "a' \<le> c"
  shows "mul_div_u128 a b c \<le> mul_div_u128 a' b c"
  using assms by (simp add: word_le_nat_alt unat_mul_div_u128 div_le_mono order_trans [of _ "unat a'"])

lemma saturating_sub_mono: "a \<le> b \<Longrightarrow> saturating_sub a c \<le> saturating_sub b c"
  by (simp add: word_le_nat_alt unat_saturating_sub diff_le_mono)

lemma saturating_add_mono: "b \<le> b' \<Longrightarrow> saturating_add a b \<le> saturating_add a b'"
  by (auto simp: word_le_nat_alt unat_saturating_add)

lemma u64_add_le:
  fixes a d c :: u64
  assumes "a \<le> c" and "unat d \<le> unat c - unat a"
  shows "unat (a + d) = unat a + unat d" and "a \<le> a + d" and "a + d \<le> c"
proof -
  have "unat a + unat d < 2 ^ 64"
    using assms unat_u64_less [of c] by (simp add: word_le_nat_alt)
  then show sum: "unat (a + d) = unat a + unat d" by (simp add: unat_word_ariths)
  show "a \<le> a + d" and "a + d \<le> c" using assms by (simp_all add: word_le_nat_alt sum)
qed

lemma interpolate_between_bounds:
  assumes "at_bytes \<le> up_bytes"
    and "ur_input_total_tokens lo \<le> ur_input_total_tokens up"
  shows "ur_input_total_tokens lo \<le> interpolate_between lo up lo_bytes up_bytes at_bytes"
    and "interpolate_between lo up lo_bytes up_bytes at_bytes \<le> ur_input_total_tokens up"
proof -
  have "mul_div_u128 (saturating_sub at_bytes lo_bytes)
      (saturating_sub (ur_input_total_tokens up) (ur_input_total_tokens lo))
      (saturating_sub up_bytes lo_bytes)
      \<le> saturating_sub (ur_input_total_tokens up) (ur_input_total_tokens lo)"
    using assms by (intro mul_div_le saturating_sub_mono)
  then have "unat (mul_div_u128 (saturating_sub at_bytes lo_bytes)
      (saturating_sub (ur_input_total_tokens up) (ur_input_total_tokens lo))
      (saturating_sub up_bytes lo_bytes))
      \<le> unat (ur_input_total_tokens up) - unat (ur_input_total_tokens lo)"
    by (simp add: word_le_nat_alt unat_saturating_sub)
  note this = u64_add_le [OF assms(2) this]
  then show "ur_input_total_tokens lo \<le> interpolate_between lo up lo_bytes up_bytes at_bytes"
    and "interpolate_between lo up lo_bytes up_bytes at_bytes \<le> ur_input_total_tokens up"
    using assms by (simp_all add: interpolate_between_def Let_def)
qed

lemma interpolate_between_mono:
  assumes "at1 \<le> at2" and "at2 \<le> up_bytes"
    and "ur_input_total_tokens lo \<le> ur_input_total_tokens up"
  shows "interpolate_between lo up lo_bytes up_bytes at1
     \<le> interpolate_between lo up lo_bytes up_bytes at2"
proof -
  let ?st = "saturating_sub (ur_input_total_tokens up) (ur_input_total_tokens lo)"
  let ?sb = "saturating_sub up_bytes lo_bytes"
  let ?d = "\<lambda>b. mul_div_u128 (saturating_sub b lo_bytes) ?st ?sb"
  have mono: "?d at1 \<le> ?d at2"
    using assms by (intro mul_div_mono saturating_sub_mono)
  have le: "unat (?d b) \<le> unat (ur_input_total_tokens up) - unat (ur_input_total_tokens lo)"
    if "b \<le> up_bytes" for b
    using mul_div_le [OF saturating_sub_mono [OF that], of lo_bytes ?st]
    by (simp add: word_le_nat_alt unat_saturating_sub)
  have "ur_input_total_tokens lo + ?d at1 \<le> ur_input_total_tokens lo + ?d at2"
    using mono assms u64_add_le(1) [OF assms(3) le] by (simp add: word_le_nat_alt)
  then show ?thesis by (simp add: interpolate_between_def Let_def)
qed

lemma extrapolate_after_ge: "ur_input_total_tokens lo \<le> extrapolate_after lo lo_bytes at_bytes"
  by (simp add: extrapolate_after_def saturating_add_ge)

lemma div4_mono: "(a :: u64) \<le> b \<Longrightarrow> a div 4 \<le> b div 4"
  by (simp add: word_le_nat_alt unat_div div_le_mono)

lemma extrapolate_after_mono:
  "at1 \<le> at2 \<Longrightarrow> extrapolate_after lo lo_bytes at1 \<le> extrapolate_after lo lo_bytes at2"
  unfolding extrapolate_after_def
  by (intro saturating_add_mono div4_mono saturating_sub_mono)

lemma interpolate_before_bounds:
  assumes "at_bytes \<le> up_bytes"
  shows "interpolate_before up up_bytes at_bytes \<le> ur_input_total_tokens up"
    and "at1 \<le> at_bytes \<Longrightarrow> interpolate_before up up_bytes at1
      \<le> interpolate_before up up_bytes at_bytes"
  using assms by (simp_all add: interpolate_before_def mul_div_le mul_div_mono)

section \<open>Cumulative bytes\<close>

lemma length_prefix_from [simp]: "length (prefix_from to_string acc items) = Suc (length items)"
  by (induction items arbitrary: acc) auto

lemma prefix_from_ge: "b \<in> set (prefix_from to_string acc items) \<Longrightarrow> acc \<le> b"
proof (induction items arbitrary: acc)
  case (Cons it items)
  then show ?case using saturating_add_ge [of acc] order_trans by fastforce
qed simp

lemma sorted_prefix_from: "sorted (prefix_from to_string acc items)"
proof (induction items arbitrary: acc)
  case (Cons it items)
  have "acc \<le> b" if "b \<in> set (prefix_from to_string (saturating_add acc (item_bytes to_string it)) items)" for b
    using prefix_from_ge [OF that] saturating_add_ge order_trans by blast
  with Cons show ?case by auto
qed simp

lemma length_prefix_bytes [simp]: "length (prefix_bytes to_string items) = Suc (length items)"
  by (simp add: prefix_bytes_def)

lemma prefix_bytes_mono:
  "i \<le> j \<Longrightarrow> j \<le> length items \<Longrightarrow>
    prefix_bytes to_string items ! i \<le> prefix_bytes to_string items ! j"
  unfolding prefix_bytes_def by (rule sorted_nth_mono [OF sorted_prefix_from]) auto


section \<open>Selection of measurements\<close>

text \<open>Records in ascending order of \<open>history_len\<close>, with measurements that do not shrink.\<close>

definition records_ascending :: "usage_record list \<Rightarrow> bool" where
  "records_ascending records \<longleftrightarrow>
     sorted (map ur_history_len records) \<and> sorted (map ur_input_total_tokens records)"

lemma find_rev_SomeD:
  assumes "List.find P (rev xs) = Some x"
  shows "\<exists>k<length xs. xs ! k = x \<and> P x \<and> (\<forall>j<length xs. P (xs ! j) \<longrightarrow> j \<le> k)"
proof -
  from assms obtain i where i: "i < length xs" "P (rev xs ! i)" "x = rev xs ! i"
    and before: "\<forall>j<i. \<not> P (rev xs ! j)"
    by (auto simp: find_Some_iff)
  let ?k = "length xs - Suc i"
  have "j \<le> ?k" if "j < length xs" and "P (xs ! j)" for j
  proof (rule ccontr)
    assume "\<not> j \<le> ?k"
    then have "length xs - Suc j < i" using that i by simp
    with before have "\<not> P (rev xs ! (length xs - Suc j))" by blast
    then show False using that by (simp add: rev_nth Suc_diff_Suc)
  qed
  then show ?thesis using i by (intro exI [of _ ?k]) (auto simp: rev_nth)
qed

lemma records_tokens_mono:
  assumes "records_ascending records" and "r \<in> set records" and "r' \<in> set records"
    and "ur_history_len r < ur_history_len r'"
  shows "ur_input_total_tokens r \<le> ur_input_total_tokens r'"
proof -
  obtain a b where a: "a < length records" "records ! a = r"
    and b: "b < length records" "records ! b = r'"
    using assms by (auto simp: in_set_conv_nth)
  have "\<not> b \<le> a"
    using assms a b sorted_nth_mono [of "map ur_history_len records" b a]
    by (auto simp: records_ascending_def)
  then show ?thesis
    using assms a b sorted_nth_mono [of "map ur_input_total_tokens records" a b]
    by (auto simp: records_ascending_def)
qed

text \<open>The record a backward search selects is the latest one, hence the largest measurement, of
  those up to its own position.\<close>

lemma latest_record_max:
  assumes asc: "records_ascending records"
    and found: "List.find P (rev records) = Some lo"
    and r: "r \<in> set records" and le: "ur_history_len r < ur_history_len lo \<or> P r"
  shows "ur_input_total_tokens r \<le> ur_input_total_tokens lo"
proof -
  obtain k where k: "k < length records" "records ! k = lo"
    and last: "\<And>j. j < length records \<Longrightarrow> P (records ! j) \<Longrightarrow> j \<le> k"
    using find_rev_SomeD [OF found] by blast
  obtain a where a: "a < length records" "records ! a = r"
    using r by (auto simp: in_set_conv_nth)
  have "a \<le> k"
    using le last [OF a(1)] a k sorted_nth_mono [of "map ur_history_len records" k a] asc
    by (cases "P r") (auto simp: records_ascending_def intro: leI ccontr)
  then show ?thesis
    using a k asc sorted_nth_mono [of "map ur_input_total_tokens records" a k]
    by (auto simp: records_ascending_def)
qed

lemma lower_recordD:
  assumes "lower_record records i = Some lo"
  shows "lo \<in> set records" and "ur_history_len lo < i"
  using find_rev_SomeD [OF assms [unfolded lower_record_def]] by auto

lemma upper_recordD:
  assumes "upper_record records i = Some up"
  shows "up \<in> set records" and "i < ur_history_len up"
  using assms by (auto simp: upper_record_def find_Some_iff in_set_conv_nth)

lemma exact_recordD:
  assumes "exact_record records i = Some r"
  shows "r \<in> set records" and "ur_history_len r = i"
  using find_rev_SomeD [OF assms [unfolded exact_record_def]] by auto

lemma record_None_iff:
  "lower_record records i = None \<longleftrightarrow> (\<forall>r\<in>set records. \<not> ur_history_len r < i)"
  "upper_record records i = None \<longleftrightarrow> (\<forall>r\<in>set records. \<not> i < ur_history_len r)"
  "exact_record records i = None \<longleftrightarrow> (\<forall>r\<in>set records. ur_history_len r \<noteq> i)"
  by (auto simp: lower_record_def upper_record_def exact_record_def find_None_iff)


section \<open>Totality, bounds and growth of the estimates\<close>

lemma tokens_at_cases:
  assumes idx: "0 < i" "i \<le> length history" and recs: "records \<noteq> []"
    and pre: "pre = prefix_bytes to_string history"
  obtains
    (exact) r where "exact_record records i = Some r"
      "tokens_at history records i pre = Some (estimate (ur_input_total_tokens r) Measured)"
  | (between) lo up where "exact_record records i = None"
      "lower_record records i = Some lo" "upper_record records i = Some up"
      "tokens_at history records i pre = Some (estimate
         (interpolate_between lo up (pre ! ur_history_len lo)
           (pre ! min (ur_history_len up) (length history)) (pre ! i)) Interpolated)"
  | (after) lo where "exact_record records i = None"
      "lower_record records i = Some lo" "upper_record records i = None"
      "tokens_at history records i pre = Some (estimate
         (extrapolate_after lo (pre ! ur_history_len lo) (pre ! i)) Extrapolated)"
  | (before) up where "exact_record records i = None"
      "lower_record records i = None" "upper_record records i = Some up"
      "tokens_at history records i pre = Some (estimate
         (interpolate_before up (pre ! min (ur_history_len up) (length history)) (pre ! i))
         Interpolated)"
proof (cases "exact_record records i")
  case (Some r)
  then show ?thesis using exact idx recs by (simp add: tokens_at_def)
next
  case None
  note unf = tokens_at_def get_index_def Let_def
  show ?thesis
  proof (cases "lower_record records i")
    case lower: None
    obtain r where "r \<in> set records" using recs by (cases records) auto
    then obtain up where up: "upper_record records i = Some up"
      using None lower by (cases "upper_record records i")
        (force simp: record_None_iff not_less_iff_gr_or_eq)+
    show ?thesis
      by (rule before [OF None lower up]) (use None lower up idx recs in \<open>simp add: unf pre\<close>)
  next
    case lower: (Some lo)
    have cap: "min (ur_history_len lo) (length history) = ur_history_len lo"
      using lower_recordD [OF lower] idx by simp
    show ?thesis
    proof (cases "upper_record records i")
      case upper: None
      show ?thesis
        by (rule after [OF None lower upper])
          (use None lower upper idx recs cap lower_recordD [OF lower] in \<open>simp add: unf pre\<close>)
    next
      case upper: (Some up)
      show ?thesis
        by (rule between [OF None lower upper])
          (use None lower upper idx recs cap lower_recordD [OF lower] in \<open>simp add: unf pre\<close>)
    qed
  qed
qed


lemma tokens_at_ge_earlier:
  assumes asc: "records_ascending records" and idx: "0 < i" "i \<le> length history"
    and r: "r \<in> set records" "ur_history_len r \<le> i"
    and e: "tokens_at history records i (prefix_bytes to_string history) = Some e"
  shows "ur_input_total_tokens r \<le> te_tokens e"
proof -
  have recs: "records \<noteq> []" using r by auto
  have lower_le: "ur_input_total_tokens r \<le> ur_input_total_tokens lo"
    if "exact_record records i = None" "lower_record records i = Some lo" for lo
    using latest_record_max [OF asc that(2) [unfolded lower_record_def] r(1)] that(1) r
    by (auto simp: record_None_iff le_less)
  show ?thesis
  proof (cases rule: tokens_at_cases [OF idx recs refl, of to_string, case_names exact between after before])
    case (exact r')
    have "ur_history_len r < ur_history_len r' \<or> ur_history_len r = i"
      using exact_recordD [OF exact(1)] r by (simp add: le_less)
    from latest_record_max [OF asc exact(1) [unfolded exact_record_def] r(1) this] show ?thesis
      using exact(2) e by (auto simp: estimate_def)
  next
    case (between lo up)
    note lo = lower_recordD [OF between(2)] and up = upper_recordD [OF between(3)]
    have "ur_input_total_tokens lo \<le> ur_input_total_tokens up"
      using lo up by (intro records_tokens_mono [OF asc]) auto
    moreover have "prefix_bytes to_string history ! i
        \<le> prefix_bytes to_string history ! min (ur_history_len up) (length history)"
      using up idx by (intro prefix_bytes_mono) auto
    ultimately have "ur_input_total_tokens lo \<le> te_tokens e"
      using between(4) e interpolate_between_bounds(1) by (auto simp: estimate_def)
    with lower_le [OF between(1,2)] show ?thesis by (rule order_trans)
  next
    case (after lo)
    then have "ur_input_total_tokens lo \<le> te_tokens e"
      using e by (auto simp: estimate_def extrapolate_after_ge)
    with lower_le [OF after(1,2)] show ?thesis by (rule order_trans)
  next
    case (before up)
    then show ?thesis using r by (auto simp: record_None_iff le_less)
  qed
qed

lemma tokens_at_le_later:
  assumes asc: "records_ascending records" and idx: "0 < i" "i \<le> length history"
    and r: "r \<in> set records" "i < ur_history_len r"
    and e: "tokens_at history records i (prefix_bytes to_string history) = Some e"
  shows "te_tokens e \<le> ur_input_total_tokens r"
proof -
  have recs: "records \<noteq> []" using r by auto
  have upper_le: "ur_input_total_tokens up \<le> ur_input_total_tokens r"
    if up: "upper_record records i = Some up" for up
  proof -
    obtain k where k: "k < length records" "records ! k = up"
      and first: "\<forall>j<k. \<not> i < ur_history_len (records ! j)"
      using up by (auto simp: upper_record_def find_Some_iff)
    obtain a where a: "a < length records" "records ! a = r" using r by (auto simp: in_set_conv_nth)
    have "k \<le> a" using first a r by (auto intro: leI)
    then show ?thesis
      using a k asc sorted_nth_mono [of "map ur_input_total_tokens records" k a]
      by (auto simp: records_ascending_def)
  qed
  have bytes: "prefix_bytes to_string history ! i
      \<le> prefix_bytes to_string history ! min (ur_history_len up) (length history)"
    if "upper_record records i = Some up" for up
    using upper_recordD [OF that] idx by (intro prefix_bytes_mono) auto
  show ?thesis
  proof (cases rule: tokens_at_cases [OF idx recs refl, of to_string, case_names exact between after before])
    case (exact r')
    note r' = exact_recordD [OF exact(1)]
    have "ur_input_total_tokens r' \<le> ur_input_total_tokens r"
      using r r' by (intro records_tokens_mono [OF asc]) auto
    then show ?thesis using exact(2) e by (auto simp: estimate_def)
  next
    case (between lo up)
    note lo = lower_recordD [OF between(2)] and up = upper_recordD [OF between(3)]
    have "ur_input_total_tokens lo \<le> ur_input_total_tokens up"
      using lo up by (intro records_tokens_mono [OF asc]) auto
    from interpolate_between_bounds(2) [OF bytes [OF between(3)] this]
    have "te_tokens e \<le> ur_input_total_tokens up" using between(4) e by (auto simp: estimate_def)
    then show ?thesis using upper_le [OF between(3)] by (rule order_trans)
  next
    case (after lo)
    then show ?thesis using r by (auto simp: record_None_iff)
  next
    case (before up)
    have "te_tokens e \<le> ur_input_total_tokens up"
      using interpolate_before_bounds(1) [OF bytes [OF before(3)], of up] before(4) e
      by (auto simp: estimate_def)
    then show ?thesis using upper_le [OF before(3)] by (rule order_trans)
  qed
qed

text \<open>Between two boundaries with no measurement in between, the same records are selected.\<close>

lemma find_cong_set: "(\<And>x. x \<in> set xs \<Longrightarrow> P x \<longleftrightarrow> Q x) \<Longrightarrow> List.find P xs = List.find Q xs"
  by (induction xs) auto

lemma same_records:
  assumes "exact_record records i = None" and "i \<le> j"
    and "\<forall>r\<in>set records. \<not> (i < ur_history_len r \<and> ur_history_len r \<le> j)"
  shows "lower_record records j = lower_record records i"
    and "upper_record records j = upper_record records i"
proof -
  have "(ur_history_len r < j \<longleftrightarrow> ur_history_len r < i) \<and> (j < ur_history_len r \<longleftrightarrow> i < ur_history_len r)"
    if "r \<in> set records" for r
  proof -
    have "ur_history_len r \<noteq> i" using assms(1) that by (simp add: record_None_iff)
    moreover have "\<not> (i < ur_history_len r \<and> ur_history_len r \<le> j)" using assms(3) that by blast
    ultimately show ?thesis using assms(2) by linarith
  qed
  then show "lower_record records j = lower_record records i"
    and "upper_record records j = upper_record records i"
    unfolding lower_record_def upper_record_def by (auto intro: find_cong_set)
qed

lemma tokens_at_mono:
  assumes asc: "records_ascending records" and ij: "i \<le> j" "j \<le> length history"
    and ei: "tokens_at history records i (prefix_bytes to_string history) = Some ei"
    and ej: "tokens_at history records j (prefix_bytes to_string history) = Some ej"
  shows "te_tokens ei \<le> te_tokens ej"
proof -
  let ?pre = "prefix_bytes to_string history"
  have est [simp]: "te_tokens (estimate t src) = t" for t src by (simp add: estimate_def)
  consider "i = j" | "i = 0" | "i < j" "0 < i" "records = []"
    | r where "i < j" "0 < i" "r \<in> set records" "i < ur_history_len r" "ur_history_len r \<le> j"
    | r where "i < j" "0 < i" "exact_record records i = Some r"
    | "i < j" "0 < i" "records \<noteq> []" "exact_record records i = None"
      "\<forall>r\<in>set records. \<not> (i < ur_history_len r \<and> ur_history_len r \<le> j)"
  proof -
    have "i = j \<or> i < j" and "i = 0 \<or> 0 < i" using ij by auto
    moreover have "exact_record records i = None \<or> (\<exists>r. exact_record records i = Some r)"
      by (cases "exact_record records i") auto
    ultimately show thesis using that by blast
  qed
  then show ?thesis
  proof cases
    case 1
    then show ?thesis using ei ej by simp
  next
    case 2
    then show ?thesis using ei by (auto simp: tokens_at_def)
  next
    case 3
    then show ?thesis
      using ei ej ij div4_mono [OF prefix_bytes_mono [OF ij, of to_string]]
      by (auto simp: tokens_at_def get_index_def)
  next
    case (4 r)
    have i: "i \<le> length history" and j: "0 < j" using 4 ij by linarith+
    from tokens_at_le_later [OF asc 4(2) i 4(3,4) ei] tokens_at_ge_earlier [OF asc j ij(2) 4(3,5) ej]
    show ?thesis by (rule order_trans)
  next
    case (5 r)
    note r = exact_recordD [OF 5(3)]
    have recs: "records \<noteq> []" using r(1) by auto
    have j: "0 < j" and le: "ur_history_len r \<le> j" using 5 r by simp_all
    have "te_tokens ei = ur_input_total_tokens r"
      using ei 5 recs by (auto simp: tokens_at_def)
    then show ?thesis using tokens_at_ge_earlier [OF asc j ij(2) r(1) le ej] by simp
  next
    case 6
    have j: "0 < j" "j \<le> length history" and i: "0 < i" "i \<le> length history" using 6 ij by auto
    note same = same_records [OF 6(4) ij(1) 6(5)]
    have exj: "exact_record records j = None" using 6 by (auto simp: record_None_iff)
    have at_le: "?pre ! i \<le> ?pre ! j" by (rule prefix_bytes_mono [OF ij])
    have up_ge: "?pre ! j \<le> ?pre ! min (ur_history_len up) (length history)"
      if "upper_record records i = Some up" for up
      using upper_recordD [of records j up] that same j by (intro prefix_bytes_mono) auto
    show ?thesis
    proof (cases rule: tokens_at_cases [OF i 6(3) refl, of to_string, case_names exact between after before])
      case (exact r)
      then show ?thesis using 6 by simp
    next
      case (between lo up)
      have "ur_input_total_tokens lo \<le> ur_input_total_tokens up"
        using lower_recordD [OF between(2)] upper_recordD [OF between(3)]
        by (intro records_tokens_mono [OF asc]) auto
      from interpolate_between_mono [OF at_le up_ge [OF between(3)] this, of "?pre ! ur_history_len lo"] show ?thesis
        using ei ej between same
        by (cases rule: tokens_at_cases [OF j 6(3) refl, of to_string]) (auto simp: exj)
    next
      case (after lo)
      from extrapolate_after_mono [OF at_le, of lo "?pre ! ur_history_len lo"] show ?thesis
        using ei ej after same
        by (cases rule: tokens_at_cases [OF j 6(3) refl, of to_string]) (auto simp: exj)
    next
      case (before up)
      from interpolate_before_bounds(2) [OF up_ge [OF before(3)] at_le, of up] show ?thesis
        using ei ej before same
        by (cases rule: tokens_at_cases [OF j 6(3) refl, of to_string]) (auto simp: exj)
    qed
  qed
qed


lemma tokens_at_total:
  assumes "i \<le> length history"
  shows "\<exists>e. tokens_at history records i (prefix_bytes to_string history) = Some e"
proof (cases "i = 0 \<or> records = []")
  case True
  then show ?thesis using assms by (auto simp: tokens_at_def get_index_def)
next
  case False
  then show ?thesis
    using assms by (cases rule: tokens_at_cases [OF _ assms _ refl, of records to_string]) auto
qed

section \<open>The protected suffix\<close>

lemma protected_scan_exact:
  assumes "protected_scan estimates tail_end protected n = Some k"
  shows "k \<le> n"
    and "k = 0 \<or> (k < n \<and> protected \<le> saturating_sub tail_end (te_tokens (estimates ! k)))"
    and "k < i \<Longrightarrow> i < n \<Longrightarrow> saturating_sub tail_end (te_tokens (estimates ! i)) < protected"
  using assms
proof (induction n)
  case 0
  { case 1 then show ?case using 0 by simp }
  { case 2 then show ?case using 0 by simp }
  { case 3 then show ?case by simp }
next
  case (Suc n)
  note split = Let_def not_le [symmetric]
  { case 1 then show ?case using Suc(1) by (auto simp: split split: if_splits) }
  { case 2 then show ?case using Suc(2) by (auto simp: split split: if_splits) }
  { case 3
    then show ?case using Suc(3) by (cases "i = n") (auto simp: split split: if_splits) }
qed

lemma protected_start_le:
  "protected_start_index items protected_tokens estimates = Some k \<Longrightarrow> k \<le> length items"
  by (auto simp: protected_start_index_def Let_def split: if_splits dest: protected_scan_exact(1))

section \<open>The projection\<close>

lemma length_project: "project items indices = Some (n, items') \<Longrightarrow> length items' = length items"
  by (induction indices arbitrary: items n items') (auto split: option.splits if_splits)

lemma project_details:
  assumes "distinct indices" and "\<forall>i\<in>set indices. i < length items \<and> has_details (items ! i)"
  shows "project items indices =
    Some (length indices, map (\<lambda>i. if i \<in> set indices then drop_details (items ! i) else items ! i) [0..<length items])"
  using assms
proof (induction indices arbitrary: items)
  case Nil
  then show ?case by (simp add: map_nth)
next
  case (Cons i indices)
  let ?items = "items[i := drop_details (items ! i)]"
  have "\<forall>j\<in>set indices. j < length ?items \<and> has_details (?items ! j)"
    using Cons.prems by (auto simp: nth_list_update)
  then have "project ?items indices = Some (length indices,
      map (\<lambda>j. if j \<in> set indices then drop_details (?items ! j) else ?items ! j) [0..<length items])"
    using Cons by simp
  moreover have "map (\<lambda>j. if j \<in> set indices then drop_details (?items ! j) else ?items ! j) [0..<length items]
      = map (\<lambda>j. if j \<in> set (i # indices) then drop_details (items ! j) else items ! j) [0..<length items]"
    using Cons.prems by (intro map_cong) (auto simp: nth_list_update)
  ultimately show ?case using Cons.prems by (simp add: get_index_def)
qed

lemma candidates_exact:
  assumes "evaluate_candidates items protected_tokens estimates = (candidates, start)"
  shows "distinct candidates"
    and "i \<in> set candidates \<longleftrightarrow>
      (\<exists>k. start = Some k \<and> i < k \<and> i < length items \<and> has_details (items ! i))"
proof -
  have idx: "i \<in> fst ` {p \<in> set (enumerate 0 (take k items)). has_details (snd p)} \<longleftrightarrow>
      i < k \<and> i < length items \<and> has_details (items ! i)" for k
    by (force simp: in_set_enumerate_eq image_iff)
  have dist: "distinct (map fst (filter f (enumerate 0 xs)))" for f and xs :: "item list"
    by (rule distinct_map_filter) (simp add: enumerate_eq_zip)
  show "distinct candidates"
    using assms dist by (auto simp: evaluate_candidates_def split: option.splits)
  show "i \<in> set candidates \<longleftrightarrow>
      (\<exists>k. start = Some k \<and> i < k \<and> i < length items \<and> has_details (items ! i))"
  proof (cases "protected_start_index items protected_tokens estimates")
    case None
    then show ?thesis using assms by (auto simp: evaluate_candidates_def)
  next
    case (Some k)
    then have "candidates = map fst (filter (\<lambda>p. has_details (snd p)) (enumerate 0 (take k items)))"
      and "start = Some k"
      using assms by (auto simp: evaluate_candidates_def split_def)
    then show ?thesis using idx [of k] by simp
  qed
qed


text \<open>What a projection may do to an item: drop the details of a tool result.\<close>

fun omits_details :: "item \<Rightarrow> item \<Rightarrow> bool" where
  "omits_details (ToolResult t) (ToolResult t') \<longleftrightarrow>
     tr_id t' = tr_id t \<and> tr_call_id t' = tr_call_id t \<and> tr_summary t' = tr_summary t
     \<and> tr_disposition t' = tr_disposition t \<and> tr_is_error t' = tr_is_error t
     \<and> (tr_content t' = tr_content t \<or> tr_content t' = None)
     \<and> (tr_attachments t' = tr_attachments t \<or> tr_attachments t' = [])"
| "omits_details it it' \<longleftrightarrow> it' = it"

lemma omits_details_refl [simp]: "omits_details it it"
  by (cases it) simp_all

lemma omits_details_clear [simp]: "omits_details it (clear_attachments it)"
  by (cases it) simp_all

lemma omits_details_drop: "omits_details it it' \<Longrightarrow> omits_details it (drop_details it')"
proof (cases it)
  case (ToolResult t)
  moreover assume "omits_details it it'"
  ultimately show ?thesis by (cases it') auto
qed auto

text \<open>The attachments a request no longer sends.\<close>

definition consumed :: "item list \<Rightarrow> nat \<Rightarrow> bool" where
  "consumed items i \<longleftrightarrow> has_attachments (items ! i) \<and>
     (case accepted_input_end items of None \<Rightarrow> True | Some b \<Rightarrow> i \<le> b)"

lemma length_consumed_attachments [simp]:
  "length (snd (project_consumed_attachments items)) = length items"
  by (simp add: project_consumed_attachments_def Let_def)

lemma nth_consumed_attachments:
  "i < length items \<Longrightarrow> snd (project_consumed_attachments items) ! i =
     (if consumed items i then clear_attachments (items ! i) else items ! i)"
  by (auto simp: project_consumed_attachments_def consumed_def Let_def nth_enumerate_eq
      split: option.splits)

lemma prune_pass_total:
  obtains context' ev where "prune_pass c te se context = Some (context', ev)"
    and "length context' = length context"
    and "\<And>i. i < length context \<Longrightarrow> context' ! i =
      (if \<exists>n k. pe_decision ev = Fired n \<and> pe_protected_start_index ev = Some k \<and> i < k
          \<and> has_details (context ! i)
       then drop_details (context ! i) else context ! i)"
    and "pe_protected_start_index ev =
      protected_start_index context (pc_protected_tokens c) (te context)"
    and "\<And>n. pe_decision ev = Fired n \<Longrightarrow> n = pe_candidate_count ev \<and> n > 0
      \<and> pc_min_savings c \<le> pe_estimated_savings ev"
proof -
  obtain candidates start where
    eval: "evaluate_candidates context (pc_protected_tokens c) (te context) = (candidates, start)"
    by force
  have start: "start = protected_start_index context (pc_protected_tokens c) (te context)"
    using eval by (auto simp: evaluate_candidates_def split: option.splits)
  note cand = candidates_exact [OF eval]
  have proj: "project context candidates = Some (length candidates,
      map (\<lambda>i. if i \<in> set candidates then drop_details (context ! i) else context ! i) [0..<length context])"
    using cand by (intro project_details) auto
  consider "candidates = []"
    | "candidates \<noteq> []" "\<not> pc_min_savings c \<le> se context candidates"
    | "candidates \<noteq> []" "pc_min_savings c \<le> se context candidates" by blast
  then show thesis
  proof cases
    case 1
    show thesis
      by (rule that, use 1 in \<open>simp add: prune_pass_def eval\<close>) (simp_all add: start)
  next
    case 2
    show thesis
      by (rule that, use 2 in \<open>simp add: prune_pass_def eval Let_def\<close>) (simp_all add: start)
  next
    case 3
    show thesis
      by (rule that, use 3 in \<open>simp add: prune_pass_def eval Let_def proj\<close>)
        (use 3 in \<open>auto simp: start cand(2) [unfolded start]\<close>)
  qed
qed


lemma prune_passD:
  assumes "prune_pass c te se context = Some (context', ev)"
  shows "length context' = length context"
    and "i < length context \<Longrightarrow> context' ! i =
      (if \<exists>n k. pe_decision ev = Fired n \<and> pe_protected_start_index ev = Some k \<and> i < k
          \<and> has_details (context ! i)
       then drop_details (context ! i) else context ! i)"
    and "pe_protected_start_index ev =
      protected_start_index context (pc_protected_tokens c) (te context)"
    and "pe_decision ev = Fired n \<Longrightarrow> n = pe_candidate_count ev \<and> n > 0
      \<and> pc_min_savings c \<le> pe_estimated_savings ev"
  by (rule prune_pass_total [of c te se "context"]; use assms in simp)+

lemma request_context_total:
  obtains ctx ev where "request_context c te se history = Some (ctx, ev)"
    and "length ctx = length history"
    and "\<And>i. i < length history \<Longrightarrow> ctx ! i = history_items history ! i
      \<or> (consumed (history_items history) i \<and> ctx ! i = clear_attachments (history_items history ! i))
      \<or> (\<exists>e n k. ev = Some e \<and> pe_decision e = Fired n \<and> pe_protected_start_index e = Some k \<and> i < k
          \<and> omits_details (history_items history ! i) (ctx ! i))"
proof -
  let ?items = "history_items history"
  let ?ctx = "snd (project_consumed_attachments ?items)"
  have len: "length ?items = length history" by (simp add: history_items_def)
  have base: "?ctx ! i = ?items ! i \<or> (consumed ?items i \<and> ?ctx ! i = clear_attachments (?items ! i))"
    if "i < length history" for i
    using that len by (simp add: nth_consumed_attachments)
  show thesis
  proof (cases "c = None \<or> te = None \<or> se = None")
    case True
    then show thesis
      by (intro that [of ?ctx None]) (use base len in \<open>auto simp: request_context_def Let_def split: option.split\<close>)
  next
    case False
    then obtain c' te' se' where some: "c = Some c'" "te = Some te'" "se = Some se'" by auto
    obtain ctx ev where pass: "prune_pass c' te' se' ?ctx = Some (ctx, ev)" "length ctx = length ?ctx"
      and nth: "\<And>i. i < length ?ctx \<Longrightarrow> ctx ! i =
        (if \<exists>n k. pe_decision ev = Fired n \<and> pe_protected_start_index ev = Some k \<and> i < k
            \<and> has_details (?ctx ! i)
         then drop_details (?ctx ! i) else ?ctx ! i)"
      by (rule prune_pass_total [of c' te' se' ?ctx]) (rule that, assumption+)
    show thesis
    proof (rule that [of ctx "Some ev"])
      show "request_context c te se history = Some (ctx, Some ev)"
        by (simp add: request_context_def some pass)
      show "length ctx = length history" using pass(2) len by simp
      fix i assume i: "i < length history"
      have "omits_details (?items ! i) (?ctx ! i)" using base [OF i] by auto
      then show "ctx ! i = ?items ! i
        \<or> (consumed ?items i \<and> ctx ! i = clear_attachments (?items ! i))
        \<or> (\<exists>e n k. Some ev = Some e \<and> pe_decision e = Fired n \<and> pe_protected_start_index e = Some k \<and> i < k
            \<and> omits_details (?items ! i) (ctx ! i))"
        using nth [of i] base [OF i] i len omits_details_drop by auto
    qed
  qed
qed


lemma protected_start_exact:
  assumes "protected_start_index items budget estimates = Some k"
  shows "k = 0 \<or> budget \<le> saturating_sub (te_tokens (estimates ! length items)) (te_tokens (estimates ! k))"
    and "k < i \<Longrightarrow> i < length items \<Longrightarrow>
      saturating_sub (te_tokens (estimates ! length items)) (te_tokens (estimates ! i)) < budget"
proof -
  let ?final = "te_tokens (estimates ! length items)"
  have cases: "(budget = 0 \<and> k = length items) \<or> protected_scan estimates ?final budget (length items) = Some k"
    using assms by (simp add: protected_start_index_def Let_def split: if_splits)
  then show "k = 0 \<or> budget \<le> saturating_sub ?final (te_tokens (estimates ! k))"
  proof
    assume "protected_scan estimates ?final budget (length items) = Some k"
    from protected_scan_exact(2) [OF this] show ?thesis by blast
  qed simp
  show "saturating_sub ?final (te_tokens (estimates ! i)) < budget" if i: "k < i" "i < length items"
    using cases
  proof
    assume "protected_scan estimates ?final budget (length items) = Some k"
    from protected_scan_exact(3) [OF this i] show ?thesis .
  qed (use i in simp)
qed

lemma no_details_dropped [simp]: "\<not> has_details (drop_details it)"
  by (cases it) auto

section \<open>Properties\<close>


definition sample_history :: "item list" where
  "sample_history = [user_message ''hi'', item_tool_call ''c1'' ''Read'' ''{}'',
     tool_result_with_content ''c1'' ''read'' ''long text'', assistant_message ''done'']"

definition sample_records :: "usage_record list" where
  "sample_records =
     [\<lparr>ur_history_len = 1, ur_input_total_tokens = 100, ur_cache_read_tokens = 0,
       ur_cache_write_tokens = 0, ur_output_tokens = 5\<rparr>,
      \<lparr>ur_history_len = 3, ur_input_total_tokens = 160, ur_cache_read_tokens = 0,
       ur_cache_write_tokens = 0, ur_output_tokens = 5\<rparr>]"


text \<open>
  C15. What a model request sees (\<open>run_turn_loop\<close>, \<open>project_consumed_attachments\<close>,
  \<open>prune::project\<close>).  Whatever the configuration and the estimators, building the request
  context never panics and keeps one item per history entry.  An item differs from the stored one
  only as a tool result that lost its detailed text or its attachments: identifiers, summary,
  disposition and error flag are untouched.  It differs only if its attachments were already
  consumed by a model response, or if pruning fired and the item lies before the protected suffix.
\<close>

theorem request_projection_safe:
  "\<exists>ctx ev. request_context c te se history = Some (ctx, ev)
    \<and> list_all2 omits_details (history_items history) ctx
    \<and> (\<forall>i<length history. ctx ! i \<noteq> history_items history ! i \<longrightarrow>
         consumed (history_items history) i
         \<or> (\<exists>e n k. ev = Some e \<and> pe_decision e = Fired n
              \<and> pe_protected_start_index e = Some k \<and> i < k))"
proof -
  let ?items = "history_items history"
  obtain ctx ev where ctx: "request_context c te se history = Some (ctx, ev)"
    "length ctx = length history"
    and nth: "\<And>i. i < length history \<Longrightarrow> ctx ! i = ?items ! i
      \<or> (consumed ?items i \<and> ctx ! i = clear_attachments (?items ! i))
      \<or> (\<exists>e n k. ev = Some e \<and> pe_decision e = Fired n \<and> pe_protected_start_index e = Some k \<and> i < k
          \<and> omits_details (?items ! i) (ctx ! i))"
    by (rule request_context_total [of c te se history]) (rule that, assumption+)
  have "omits_details (?items ! i) (ctx ! i)" if "i < length history" for i
    using nth [OF that] by (elim disjE) auto
  then have "list_all2 omits_details ?items ctx"
    using ctx(2) by (simp add: list_all2_conv_all_nth history_items_def)
  moreover have "consumed ?items i \<or> (\<exists>e n k. ev = Some e \<and> pe_decision e = Fired n
              \<and> pe_protected_start_index e = Some k \<and> i < k)"
    if "i < length history" "ctx ! i \<noteq> ?items ! i" for i
    using nth [OF that(1)] that(2) by blast
  ultimately show ?thesis using ctx(1) by blast
qed

text \<open>A history whose tool result is old enough to be pruned, with one token per item.\<close>

definition sample_estimator :: "item list \<Rightarrow> token_estimate list" where
  "sample_estimator items = map (\<lambda>t. estimate t Measured) [0, 1, 2, 3, 4]"

definition sample_config :: prune_config where
  "sample_config = \<lparr>pc_protected_tokens = 1, pc_min_savings = 2\<rparr>"

lemmas sample_eval =
  sample_history_def sample_estimator_def sample_config_def request_context_def prune_pass_def
  history_from_items_def history_items_def entry_from_item_def entry_new_def
  project_consumed_attachments_def evaluate_candidates_def protected_start_index_def
  accepted_input_end_def item_constructors get_index_def estimate_def saturating_sub_def

lemma sample_context:
  "request_context (Some sample_config) (Some sample_estimator) (Some (\<lambda>_ _. 5))
     (history_from_items sample_history) =
   Some ([user_message ''hi'', item_tool_call ''c1'' ''Read'' ''{}'',
       tool_result ''c1'' ''read'', assistant_message ''done''],
     Some \<lparr>pe_candidate_count = 1, pe_estimated_savings = 5, pe_protected_start_index = Some (Suc (Suc (Suc 0))),
       pe_decision = Fired 1\<rparr>)"
  by (simp add: sample_eval Let_def)

theorem request_projection_safe_witness:
  "\<exists>ctx ev. request_context (Some sample_config) (Some sample_estimator) (Some (\<lambda>_ _. 5))
       (history_from_items sample_history) = Some (ctx, ev)
    \<and> ctx \<noteq> sample_history
    \<and> list_all2 omits_details sample_history ctx"
proof -
  have items: "history_items (history_from_items sample_history) = sample_history"
    by (simp add: history_items_def history_from_items_def entry_from_item_def entry_new_def comp_def)
  have "[user_message ''hi'', item_tool_call ''c1'' ''Read'' ''{}'',
      tool_result ''c1'' ''read'', assistant_message ''done''] \<noteq> sample_history"
    by (simp add: sample_history_def item_constructors)
  then show ?thesis
    using request_projection_safe [of "Some sample_config" "Some sample_estimator"
        "Some (\<lambda>_ _. 5)" "history_from_items sample_history"]
    by (simp add: sample_context items)
qed

text \<open>
  The pruning decision (\<open>prune.rs\<close>, \<open>engine.rs\<close>).  When a pruning pass fires on a
  request context, the estimated savings reach the configured minimum and every candidate is
  changed.  The pass leaves some suffix exactly as it was, and removes the details of every tool
  result before it.  That suffix holds at least the protected number of tokens or is the whole
  context, and any proper suffix of it, shorter by at least one item, holds fewer.
\<close>

theorem prune_protects_budget:
  assumes "prune_pass c te se context = Some (context', ev)" and "pe_decision ev = Fired n"
  shows "\<exists>k\<le>length context. drop k context' = drop k context
    \<and> list_all (\<lambda>it. \<not> has_details it) (take k context')
    \<and> (k = 0 \<or> pc_protected_tokens c
         \<le> saturating_sub (te_tokens (te context ! length context)) (te_tokens (te context ! k)))
    \<and> (\<forall>i. k < i \<and> i < length context \<longrightarrow>
         saturating_sub (te_tokens (te context ! length context)) (te_tokens (te context ! i))
           < pc_protected_tokens c)
    \<and> n = pe_candidate_count ev \<and> 0 < n \<and> pc_min_savings c \<le> pe_estimated_savings ev"
proof -
  note pass = prune_passD [OF assms(1)]
  note len = pass(1) and nth = pass(2) and start = pass(3) and fired = pass(4)
  have "pe_protected_start_index ev \<noteq> None"
    using fired [OF assms(2)] assms start
    by (auto simp: prune_pass_def evaluate_candidates_def Let_def split: if_splits option.splits)
  then obtain k where k: "pe_protected_start_index ev = Some k" by blast
  note psi = start [unfolded k, symmetric]
  have "k \<le> length context" using psi by (rule protected_start_le)
  moreover have "drop k context' = drop k context"
    using len nth k by (intro nth_equalityI) auto
  moreover have "list_all (\<lambda>it. \<not> has_details it) (take k context')"
    using len nth k assms(2) by (auto simp: list_all_length)
  moreover note protected_start_exact [OF psi]
  ultimately show ?thesis using fired [OF assms(2)] by blast
qed

theorem prune_protects_budget_witness:
  "\<exists>context' ev. prune_pass sample_config sample_estimator (\<lambda>_ _. 5) sample_history = Some (context', ev)
    \<and> pe_decision ev = Fired 1
    \<and> (\<exists>k\<le>length sample_history. drop k context' = drop k sample_history
         \<and> list_all (\<lambda>it. \<not> has_details it) (take k context'))"
proof -
  obtain context' ev where pass:
    "prune_pass sample_config sample_estimator (\<lambda>_ _. 5) sample_history = Some (context', ev)"
    and fired: "pe_decision ev = Fired 1"
    by (simp add: sample_eval Let_def)
  from prune_protects_budget [OF pass fired] pass fired show ?thesis by blast
qed

end
