(* ===== verification/Request_Recovery.thy ===== *)
theory Request_Recovery
  imports Request_Projection Step_System
begin

text \<open>
  The loop of \<open>engine.rs\<close> that retries a request after the provider rejected an image, with its
  termination, and the properties of the operations that write the history: corrections of
  rejected images, batch appends, tool results and their truncation.
\<close>

section \<open>The largest candidate\<close>

definition image_result :: "item \<Rightarrow> bool" where
  "image_result it \<longleftrightarrow> (\<exists>t img. it = ToolResult t \<and> tr_attachments t = [Image img])"

definition image_count :: "'a history \<Rightarrow> nat" where
  "image_count h = length (filter (image_result \<circ> he_item) h)"

lemma candidate_at_Some:
  assumes "candidate_at blob_size items sent p = Some (rank, i, j)"
  shows "i = fst p" and "image_result (snd p)" and "j < length sent" and "snd (snd rank) = fst p"
  using assms
  by (cases "(blob_size, items, sent, p)" rule: candidate_at.cases;
      auto simp: image_result_def position_Some_iff split: list.splits attachment.splits if_splits)+

lemma fold_keep_larger_cases:
  "fold (\<lambda>p. keep_larger (f p)) ps acc = Some x \<Longrightarrow> acc = Some x \<or> (\<exists>p\<in>set ps. f p = Some x)"
proof (induction ps arbitrary: acc)
  case (Cons p ps)
  from Cons.IH [of "keep_larger (f p) acc"] Cons.prems
  have "keep_larger (f p) acc = Some x \<or> (\<exists>p\<in>set ps. f p = Some x)" by simp
  then show ?case
    by (auto simp: keep_larger_def split: option.splits if_splits)
qed simp

lemma fold_keep_larger_None:
  "fold (\<lambda>p. keep_larger (f p)) ps acc = None \<longleftrightarrow> acc = None \<and> (\<forall>p\<in>set ps. f p = None)"
proof (induction ps arbitrary: acc)
  case (Cons p ps)
  have "keep_larger (f p) acc = None \<longleftrightarrow> f p = None \<and> acc = None"
    by (auto simp: keep_larger_def split: option.splits)
  then show ?case by (auto simp: Cons.IH)
qed simp

lemma rank_le_trans: "\<not> rank_greater a b \<Longrightarrow> \<not> rank_greater b c \<Longrightarrow> \<not> rank_greater a c"
  by (auto simp: rank_greater_def split: prod.splits)

lemma rank_le_refl: "\<not> rank_greater a a"
  by (auto simp: rank_greater_def split: prod.splits)

lemma rank_greater_asym: "rank_greater a b \<Longrightarrow> \<not> rank_greater b a"
  by (auto simp: rank_greater_def split: prod.splits)

lemma keep_larger_simps [simp]:
  "keep_larger None b = b"
  "keep_larger (Some x) None = Some x"
  "keep_larger (Some x) (Some y) = (if rank_greater (fst x) (fst y) then Some x else Some y)"
  by (cases x; cases y; simp add: keep_larger_def)+

lemma keep_larger_max:
  assumes "a = Some c \<or> b = Some c"
  obtains m where "keep_larger a b = Some m" and "\<not> rank_greater (fst c) (fst m)"
proof (cases a)
  case None
  then show thesis using assms by (intro that [of c]) (simp_all add: rank_le_refl)
next
  case a: (Some x)
  show thesis
  proof (cases b)
    case None
    then show thesis using assms a by (intro that [of c]) (simp_all add: rank_le_refl)
  next
    case (Some y)
    then show thesis using assms a
      by (intro that [of "if rank_greater (fst x) (fst y) then x else y"])
        (auto simp: rank_le_refl rank_greater_asym)
  qed
qed

lemma fold_keep_larger_max:
  assumes "fold (\<lambda>p. keep_larger (f p)) ps acc = Some x"
    and "acc = Some c \<or> (\<exists>p\<in>set ps. f p = Some c)"
  shows "\<not> rank_greater (fst c) (fst x)"
  using assms
proof (induction ps arbitrary: acc c)
  case Nil
  then show ?case by (auto simp: rank_le_refl)
next
  case (Cons p ps)
  then have fold: "fold (\<lambda>p. keep_larger (f p)) ps (keep_larger (f p) acc) = Some x" by simp
  show ?case
  proof (cases "\<exists>p\<in>set ps. f p = Some c")
    case True
    show ?thesis by (rule Cons.IH [OF fold disjI2 [OF True]])
  next
    case False
    with Cons.prems have "f p = Some c \<or> acc = Some c" by auto
    then obtain m where m: "keep_larger (f p) acc = Some m" "\<not> rank_greater (fst c) (fst m)"
      by (rule keep_larger_max)
    have "\<not> rank_greater (fst m) (fst x)" by (rule Cons.IH [OF fold]) (simp add: m(1))
    with m(2) show ?thesis by (rule rank_le_trans)
  qed
qed

lemma largest_candidateD:
  assumes "largest_candidate blob_size h req = Some (i, j)"
  shows "i < length h" and "image_result (he_item (h ! i))" and "j < length (rq_items req)"
proof -
  let ?items = "history_items h"
  let ?start = "case accepted_input_end ?items of None \<Rightarrow> 0 | Some b \<Rightarrow> b"
  obtain x where "fold (\<lambda>p. keep_larger (candidate_at blob_size ?items (rq_items req) p))
      (drop ?start (enumerate 0 ?items)) None = Some x" and x: "snd x = (i, j)"
    using assms by (auto simp: largest_candidate_def Let_def)
  from fold_keep_larger_cases [OF this(1)]
  obtain p where "p \<in> set (drop ?start (enumerate 0 ?items))"
    and c: "candidate_at blob_size ?items (rq_items req) p = Some (fst x, i, j)"
    using x by (auto simp: prod_eq_iff)
  then have p: "p \<in> set (enumerate 0 ?items)" by (blast dest: in_set_dropD)
  note cand = candidate_at_Some [OF c]
  from p obtain k where k: "k < length h" "p = (k, he_item (h ! k))"
    by (auto simp: in_set_enumerate_eq history_items_def prod_eq_iff)
  with cand show "i < length h" and "image_result (he_item (h ! i))" and "j < length (rq_items req)"
    by simp_all
qed

section \<open>Corrections\<close>

text \<open>What a correction does to an entry of the history: it replaces the item, keeps the annotation.\<close>

definition corrected :: "'a history_entry \<Rightarrow> 'a history_entry \<Rightarrow> bool" where
  "corrected e e' \<longleftrightarrow> e' = e \<or>
     (image_result (he_item e) \<and> e' = e\<lparr>he_item := rejected_result (he_item e)\<rparr>)"

lemma rejected_not_image: "image_result it \<Longrightarrow> \<not> image_result (rejected_result it)"
  by (auto simp: image_result_def)

lemma corrected_refl [simp]: "corrected e e"
  by (simp add: corrected_def)

lemma corrected_trans: "corrected a b \<Longrightarrow> corrected b c \<Longrightarrow> corrected a c"
  by (auto simp: corrected_def rejected_not_image)

lemma recover_cases:
  assumes "recover_rejected_image blob_size handler (h, req, w) = (res, h', req', w')"
  obtains
    (none) "largest_candidate blob_size h req = None" "res = Inr False" "h' = h" "req' = req" "w' = w"
  | (failed) e where "res = Inl (HistoryAppend e)" "h' = h" "req' = req"
  | (corrected) i j where "largest_candidate blob_size h req = Some (i, j)" "res = Inr True"
      "h' = h[i := (h ! i)\<lparr>he_item := rejected_result (he_item (h ! i))\<rparr>]"
      "req' = req\<lparr>rq_items := (rq_items req)[j := rejected_result (he_item (h ! i))]\<rparr>"
      "case handler of None \<Rightarrow> w' = w
        | Some commit \<Rightarrow> commit w (h ! i) (rejected_result (he_item (h ! i))) = (Inr (), w')"
proof (cases "largest_candidate blob_size h req")
  case None
  then show thesis using assms by (intro none) (simp_all add: recover_rejected_image_def)
next
  case (Some ij)
  obtain i j where ij: "ij = (i, j)" by (cases ij)
  let ?rep = "rejected_result (he_item (h ! i))"
  obtain r w1 where commit: "(case handler of Some commit \<Rightarrow> commit w (h ! i) ?rep
      | None \<Rightarrow> (Inr (), w)) = (r, w1)"
    by (cases "case handler of Some commit \<Rightarrow> commit w (h ! i) ?rep | None \<Rightarrow> (Inr (), w)")
  have eq: "(case r of Inl e \<Rightarrow> (Inl (HistoryAppend e), h, req, w1)
      | Inr _ \<Rightarrow> (Inr True, h[i := (h ! i)\<lparr>he_item := ?rep\<rparr>],
          req\<lparr>rq_items := (rq_items req)[j := ?rep]\<rparr>, w1)) = (res, h', req', w')"
    using assms by (simp add: recover_rejected_image_def Some ij Let_def commit)
  show thesis
  proof (cases r)
    case (Inl e)
    then show thesis using eq by (intro failed [of e]) simp_all
  next
    case (Inr u)
    show thesis
    proof (rule corrected [of i j])
      show "case handler of None \<Rightarrow> w' = w | Some commit \<Rightarrow> commit w (h ! i) ?rep = (Inr (), w')"
        using eq Inr commit by (cases handler) simp_all
    qed (use eq Inr Some ij in simp_all)
  qed
qed

lemma recover_corrects:
  assumes "recover_rejected_image blob_size handler (h, req, w) = (res, h', req', w')"
  shows "list_all2 corrected h h'"
    and "\<exists>items. req' = req\<lparr>rq_items := items\<rparr> \<and> length items = length (rq_items req)"
proof -
  have same: "\<exists>items. req = req\<lparr>rq_items := items\<rparr> \<and> length items = length (rq_items req)"
    by (intro exI [of _ "rq_items req"]) simp
  show "list_all2 corrected h h'"
    using assms
  proof (cases rule: recover_cases)
    case (corrected i j)
    then show ?thesis using largest_candidateD [OF corrected(1)]
      by (simp add: list_all2_conv_all_nth nth_list_update corrected_def)
  qed (simp_all add: list.rel_refl)
  show "\<exists>items. req' = req\<lparr>rq_items := items\<rparr> \<and> length items = length (rq_items req)"
    using assms
  proof (cases rule: recover_cases)
    case (corrected i j)
    then show ?thesis by (intro exI [of _ "rq_items req'"]) simp
  qed (simp_all add: same)
qed

lemma image_count_correct:
  assumes "i < length h" and "image_result (he_item (h ! i))"
  shows "image_count (h[i := (h ! i)\<lparr>he_item := rejected_result (he_item (h ! i))\<rparr>]) < image_count h"
proof -
  let ?P = "image_result \<circ> he_item"
  have "image_count h = image_count (take i h @ h ! i # drop (Suc i) h)"
    by (rule arg_cong [OF id_take_nth_drop [OF assms(1)]])
  also have "\<dots> = length (filter ?P (take i h)) + Suc (length (filter ?P (drop (Suc i) h)))"
    using assms(2) by (simp add: image_count_def)
  finally have "image_count h = length (filter ?P (take i h)) + Suc (length (filter ?P (drop (Suc i) h)))" .
  with assms show ?thesis
    by (simp add: image_count_def upd_conv_take_nth_drop rejected_not_image)
qed

lemma recover_decreases:
  assumes "recover_rejected_image blob_size handler (h, req, w) = (Inr True, h', req', w')"
  shows "image_count h' < image_count h"
  using assms
  by (cases rule: recover_cases) (auto intro: image_count_correct dest: largest_candidateD)

section \<open>Opening a stream with image recovery\<close>

text \<open>
  \<open>open_stream\<close> stands for \<open>open_stream_with_retry\<close>: the provider's answer to one request.
  Each successful correction leaves one image fewer in the history, so the loop ends for every
  provider.
\<close>

function open_stream_with_image_recovery ::
  "(u8 list \<Rightarrow> (u64 \<times> u64) option) \<Rightarrow> ('w, 'a) rejection_handler option
    \<Rightarrow> ('w \<Rightarrow> request \<Rightarrow> (engine_error + 'st) \<times> 'w)
    \<Rightarrow> 'a history \<times> request \<times> 'w \<Rightarrow> (engine_error + 'st) \<times> 'a history \<times> request \<times> 'w"
where
  "open_stream_with_image_recovery blob_size handler open_stream (history, req, w) =
     (case open_stream w req of
        (Inr stream, w1) \<Rightarrow> (Inr stream, history, req, w1)
      | (Inl (Client error), w1) \<Rightarrow>
          if is_image_size_rejection error then
            (case recover_rejected_image blob_size handler (history, req, w1) of
               (Inl e, s) \<Rightarrow> (Inl e, s)
             | (Inr recovered, s) \<Rightarrow>
                 if \<not> recovered then (Inl (Client error), s)
                 else open_stream_with_image_recovery blob_size handler open_stream s)
          else (Inl (Client error), history, req, w1)
      | (Inl error, w1) \<Rightarrow> (Inl error, history, req, w1))"
  by pat_completeness auto
termination
  by (relation "measure (\<lambda>(_, _, _, history, _). image_count history)")
    (auto intro: recover_decreases [OF sym])

declare open_stream_with_image_recovery.simps [simp del]

text \<open>One round of the loop.\<close>

lemma open_stream_round:
  assumes "open_stream_with_image_recovery blob_size handler open_stream (h, req, w) = (res, h', req', w')"
  obtains
    (answered) "open_stream w req = (res, w')" "h' = h" "req' = req"
      "\<And>e. res = Inl (Client e) \<Longrightarrow> \<not> is_image_size_rejection e"
  | (append_failed) e w1 e1 where "open_stream w req = (Inl (Client e), w1)" "is_image_size_rejection e"
      "recover_rejected_image blob_size handler (h, req, w1) = (Inl (HistoryAppend e1), h', req', w')"
      "res = Inl (HistoryAppend e1)"
  | (given_up) e w1 where "open_stream w req = (Inl (Client e), w1)" "is_image_size_rejection e"
      "recover_rejected_image blob_size handler (h, req, w1) = (Inr False, h', req', w')"
      "res = Inl (Client e)"
  | (retried) e w1 h2 req2 w2 where "open_stream w req = (Inl (Client e), w1)" "is_image_size_rejection e"
      "recover_rejected_image blob_size handler (h, req, w1) = (Inr True, h2, req2, w2)"
      "open_stream_with_image_recovery blob_size handler open_stream (h2, req2, w2) = (res, h', req', w')"
proof -
  note eq = assms [unfolded open_stream_with_image_recovery.simps [of _ _ _ h]]
  obtain r w1 where r: "open_stream w req = (r, w1)" by (cases "open_stream w req")
  show thesis
  proof (cases "\<exists>e. r = Inl (Client e) \<and> is_image_size_rejection e")
    case False
    then have "res = r \<and> w' = w1 \<and> h' = h \<and> req' = req"
      using eq r by (cases r rule: sum.exhaust; simp split: engine_error.splits)
    then show thesis using False r by (intro answered) auto
  next
    case True
    then obtain e where e: "r = Inl (Client e)" "is_image_size_rejection e" by blast
    obtain rr h2 req2 w2 where rec: "recover_rejected_image blob_size handler (h, req, w1) = (rr, h2, req2, w2)"
      by (cases "recover_rejected_image blob_size handler (h, req, w1)")
    from rec show thesis
    proof (cases rule: recover_cases)
      case none
      then show thesis using eq r e rec by (intro given_up [of e w1]) simp_all
    next
      case (failed e1)
      then show thesis using eq r e rec by (intro append_failed [of e w1 e1]) simp_all
    next
      case (corrected i j)
      then show thesis using eq r e rec by (intro retried [of e w1 h2 req2 w2]) simp_all
    qed
  qed
qed

lemma corrected_list_trans:
  "list_all2 corrected a b \<Longrightarrow> list_all2 corrected b c \<Longrightarrow> list_all2 corrected a c"
  by (rule list_all2_trans) (rule corrected_trans)

lemma open_stream_corrects:
  assumes "open_stream_with_image_recovery blob_size handler open_stream (h, req, w) = (res, h', req', w')"
  shows "list_all2 corrected h h'
    \<and> (\<exists>items. req' = req\<lparr>rq_items := items\<rparr> \<and> length items = length (rq_items req))
    \<and> (\<forall>e. res = Inl (Client e) \<and> is_image_size_rejection e
         \<longrightarrow> largest_candidate blob_size h' req' = None)"
  using assms
proof (induction "image_count h" arbitrary: h req w rule: less_induct)
  case less
  have same: "\<exists>items. req = req\<lparr>rq_items := items\<rparr> \<and> length items = length (rq_items req)"
    by (intro exI [of _ "rq_items req"]) simp
  from less.prems show ?case
  proof (cases rule: open_stream_round)
    case answered
    have "list_all2 corrected h h'" by (simp add: answered list.rel_refl)
    moreover have "\<exists>items. req' = req\<lparr>rq_items := items\<rparr> \<and> length items = length (rq_items req)"
      unfolding answered(3) by (rule same)
    moreover have "\<forall>e. res = Inl (Client e) \<and> is_image_size_rejection e
        \<longrightarrow> largest_candidate blob_size h' req' = None"
      using answered(4) by blast
    ultimately show ?thesis by (intro conjI)
  next
    case (append_failed e w1 e1)
    show ?thesis unfolding append_failed(4)
      by (intro conjI recover_corrects [OF append_failed(3)]) simp
  next
    case (given_up e w1)
    have "largest_candidate blob_size h' req' = None"
      using given_up(3) by (cases rule: recover_cases) simp_all
    then show ?thesis by (intro conjI recover_corrects [OF given_up(3)]) simp
  next
    case (retried e w1 h2 req2 w2)
    note IH = less.hyps [OF recover_decreases [OF retried(3)] retried(4)]
    note rec = recover_corrects [OF retried(3)]
    have "list_all2 corrected h h'" by (rule corrected_list_trans [OF rec(1) conjunct1 [OF IH]])
    moreover have "\<exists>items. req' = req\<lparr>rq_items := items\<rparr> \<and> length items = length (rq_items req)"
    proof -
      obtain its where its: "req2 = req\<lparr>rq_items := its\<rparr>" "length its = length (rq_items req)"
        using rec(2) by blast
      obtain its' where "req' = req2\<lparr>rq_items := its'\<rparr>" "length its' = length (rq_items req2)"
        using IH by blast
      with its show ?thesis by (intro exI [of _ its']) simp
    qed
    ultimately show ?thesis using IH by (intro conjI) simp_all
  qed
qed

text \<open>The number of requests sent, for a provider that counts them.\<close>

lemma open_stream_attempts:
  assumes "open_stream_with_image_recovery blob_size handler open_stream (h, req, w) = (res, h', req', w')"
    and opened: "\<And>w req. sent (snd (open_stream w req)) = Suc (sent w)"
    and commit: "\<And>c w e it. handler = Some c \<Longrightarrow> sent (snd (c w e it)) = sent w"
  shows "sent w' + image_count h' \<le> Suc (sent w + image_count h)"
  using assms(1)
proof (induction "image_count h" arbitrary: h req w rule: less_induct)
  case less
  have recover_sent: "sent w2 = sent w1"
    if "recover_rejected_image blob_size handler (h, req, w1) = (r, h2, req2, w2)" for r h2 req2 w1 w2
  proof (cases "largest_candidate blob_size h req")
    case None
    then show ?thesis using that by (simp add: recover_rejected_image_def)
  next
    case (Some ij)
    obtain i j where ij: "ij = (i, j)" by (cases ij)
    let ?rep = "rejected_result (he_item (h ! i))"
    obtain r0 w0 where commit0: "(case handler of Some c \<Rightarrow> c w1 (h ! i) ?rep | None \<Rightarrow> (Inr (), w1)) = (r0, w0)"
      by (cases "case handler of Some c \<Rightarrow> c w1 (h ! i) ?rep | None \<Rightarrow> (Inr (), w1)")
    then have "w2 = w0"
      using that by (cases r0) (simp_all add: recover_rejected_image_def Some ij Let_def)
    moreover have "sent w0 = sent w1"
      using commit [of _ w1 "h ! i" ?rep] commit0 by (cases handler) (simp, metis option.case(2) snd_conv)
    ultimately show ?thesis by simp
  qed
  have first: "sent w1 = Suc (sent w)" if "open_stream w req = (r, w1)" for r w1
    using opened [of w req] that by simp
  from less.prems show ?case
  proof (cases rule: open_stream_round)
    case answered
    then show ?thesis using first by simp
  next
    case (append_failed e w1 e1)
    from append_failed(3) have "h' = h" by (cases rule: recover_cases) simp_all
    then show ?thesis using first [OF append_failed(1)] recover_sent [OF append_failed(3)] by simp
  next
    case (given_up e w1)
    from given_up(3) have "h' = h" by (cases rule: recover_cases) simp_all
    then show ?thesis using first [OF given_up(1)] recover_sent [OF given_up(3)] by simp
  next
    case (retried e w1 h2 req2 w2)
    show ?thesis
      using less.hyps [OF recover_decreases [OF retried(3)] retried(4)] recover_decreases [OF retried(3)]
        first [OF retried(1)] recover_sent [OF retried(3)] by simp
  qed
qed

section \<open>Appending to the history\<close>

lemma extend_with_prefix:
  assumes "extend_with annotate items (h, w) = (res, h', w')"
  shows "\<exists>new. h' = h @ new \<and> map he_item new = take (length new) items
    \<and> (case res of Inr _ \<Rightarrow> length new = length items
        | Inl e \<Rightarrow> length new < length items \<and> (\<exists>w1. fst (annotate w1 (items ! length new)) = Inl e))"
  using assms
proof (induction items arbitrary: h w)
  case Nil
  then show ?case by auto
next
  case (Cons it items)
  obtain r w1 where a: "annotate w it = (r, w1)" by (cases "annotate w it")
  show ?case
  proof (cases r)
    case (Inl e)
    moreover from this have "\<exists>w1. fst (annotate w1 it) = Inl e" using a by (intro exI [of _ w]) simp
    ultimately show ?thesis using Cons.prems a
      by (intro exI [of _ "[]"]) (auto simp: append_with_def)
  next
    case (Inr ann)
    then have "extend_with annotate items (h @ [entry_new it ann], w1) = (res, h', w')"
      using Cons.prems a by (simp add: append_with_def push_entry_def)
    from Cons.IH [OF this] obtain new where
      "h' = (h @ [entry_new it ann]) @ new" "map he_item new = take (length new) items"
      "case res of Inr _ \<Rightarrow> length new = length items
        | Inl e \<Rightarrow> length new < length items \<and> (\<exists>w1. fst (annotate w1 (items ! length new)) = Inl e)"
      by blast
    then show ?thesis
      by (intro exI [of _ "entry_new it ann # new"]) (auto simp: entry_new_def split: sum.splits)
  qed
qed

text \<open>One item through the engine: on success exactly one entry with that item is appended, on
  failure the history is unchanged.\<close>

lemma append_history_item:
  assumes "append_history_items cbs annotate [it] (h, w) = (res, h', w')"
  shows "(case res of Inr _ \<Rightarrow> \<exists>ann. h' = h @ [entry_new it ann] | Inl _ \<Rightarrow> h' = h)"
proof -
  obtain r w1 where e: "emit_history_append cbs it w = (r, w1)" by (cases "emit_history_append cbs it w")
  obtain a w2 where n: "annotate w1 it = (a, w2)" by (cases "annotate w1 it")
  show ?thesis using assms e n
    by (cases r; cases a) (auto simp: append_with_def push_entry_def)
qed

section \<open>Terminal tool results\<close>

definition terminalized :: "('a, 'w) commit_state \<Rightarrow> string \<Rightarrow> bool" where
  "terminalized s call_id \<longleftrightarrow>
     (case cs_fence s call_id of
        Some attempt \<Rightarrow> ta_terminal attempt
      | None \<Rightarrow> call_id \<in> cs_terminal_ids s)"

fun result_call_id :: "item \<Rightarrow> string option" where
  "result_call_id (ToolResult t) = Some (tr_call_id t)"
| "result_call_id _ = None"

lemma result_call_id_terminal:
  "result_call_id (terminal_item (bound_tool_result limits names (normalize_tool_result r)))
     = Some (ter_tool_use_id r)"
  by (simp add: terminal_item_def bound_tool_result_def normalize_tool_result_def item_constructors
      Let_def split: option.splits)

definition commit_step ::
  "'w append_callback list \<Rightarrow> ('w, 'a) annotator \<Rightarrow> tool_output_limits option
    \<Rightarrow> (string \<rightharpoonup> string) \<Rightarrow> (tool_execution_result \<Rightarrow> engine_error option)
    \<Rightarrow> ('a, 'w) commit_state \<Rightarrow> tool_execution_result \<times> string option \<Rightarrow> ('a, 'w) commit_state"
where
  "commit_step cbs annotate limits names policy s = (\<lambda>(r, attempt).
     snd (finalize_and_commit_tool_result cbs annotate limits names policy r attempt s))"

text \<open>The fence cannot refuse a commit that was admitted: the error of the compare-and-set is not
  reachable here.\<close>

lemma commit_terminal_admitted:
  "can_commit call_id attempt_id f \<Longrightarrow>
     \<exists>a. f call_id = Some a \<and> \<not> ta_terminal a
       \<and> commit_terminal call_id attempt_id f = (True, f(call_id \<mapsto> a\<lparr>ta_terminal := True\<rparr>))"
  by (auto simp: can_commit_def commit_terminal_def split: option.splits)

lemma commit_step_cases:
  fixes s :: "('a, 'w) commit_state" and r :: tool_execution_result
  defines "call_id \<equiv> ter_tool_use_id r"
  defines "it \<equiv> \<lambda>limits names. terminal_item (bound_tool_result limits names (normalize_tool_result r))"
  obtains
    (refused) "commit_step cbs annotate limits names policy s (r, attempt) = s"
  | (not_appended) w where "commit_step cbs annotate limits names policy s (r, attempt) = s\<lparr>cs_world := w\<rparr>"
  | (committed) ann w fence where "may_commit attempt call_id s"
      "commit_step cbs annotate limits names policy s (r, attempt) =
         s\<lparr>cs_history := cs_history s @ [entry_new (it limits names) ann], cs_world := w, cs_fence := fence,
           cs_terminal_ids := insert call_id (cs_terminal_ids s)\<rparr>"
      "case attempt of None \<Rightarrow> fence = cs_fence s
        | Some attempt_id \<Rightarrow> commit_terminal call_id attempt_id (cs_fence s) = (True, fence)"
proof (cases "may_commit attempt call_id s")
  case False
  then show thesis
    by (intro refused) (simp add: commit_step_def finalize_and_commit_tool_result_def call_id_def)
next
  case may: True
  obtain res h w where app:
    "append_history_items cbs annotate [it limits names] (cs_history s, cs_world s) = (res, h, w)"
    by (cases "append_history_items cbs annotate [it limits names] (cs_history s, cs_world s)")
  obtain fence where fence: "(case attempt of
        Some attempt_id \<Rightarrow> commit_terminal call_id attempt_id (cs_fence s)
      | None \<Rightarrow> (True, cs_fence s)) = (True, fence)"
    using may commit_terminal_admitted by (cases attempt) (fastforce simp: may_commit_def)+
  note eq = commit_step_def finalize_and_commit_tool_result_def Let_def
  show thesis
  proof (cases res)
    case (Inl e)
    then have "h = cs_history s" using append_history_item [OF app] by simp
    then show thesis using may app Inl
      by (intro not_appended [of w]) (simp add: eq call_id_def it_def)
  next
    case (Inr u)
    then obtain ann where h: "h = cs_history s @ [entry_new (it limits names) ann]"
      using append_history_item [OF app] by auto
    have "commit_step cbs annotate limits names policy s (r, attempt) =
         s\<lparr>cs_history := h, cs_world := w, cs_fence := fence,
           cs_terminal_ids := insert call_id (cs_terminal_ids s)\<rparr>"
      using may app Inr fence
      by (cases "policy (bound_tool_result limits names (normalize_tool_result r))"; cases attempt)
        (simp_all add: eq call_id_def it_def)
    moreover have "case attempt of None \<Rightarrow> fence = cs_fence s
        | Some attempt_id \<Rightarrow> commit_terminal call_id attempt_id (cs_fence s) = (True, fence)"
      using fence by (cases attempt) simp_all
    ultimately show thesis using may h by (intro committed) simp_all
  qed
qed

lemma commit_step_once:
  assumes "attempt = None \<Longrightarrow> ter_tool_use_id r \<notin> dom (cs_fence s)"
    and "s' = commit_step cbs annotate limits names policy s (r, attempt)"
  shows "dom (cs_fence s') = dom (cs_fence s)"
    and "terminalized s i \<Longrightarrow> terminalized s' i"
    and "cs_history s' = cs_history s \<or>
      (\<exists>e. cs_history s' = cs_history s @ [e] \<and> result_call_id (he_item e) = Some (ter_tool_use_id r)
        \<and> \<not> terminalized s (ter_tool_use_id r) \<and> terminalized s' (ter_tool_use_id r))"
proof -
  let ?id = "ter_tool_use_id r"
  have "dom (cs_fence s') = dom (cs_fence s) \<and> (terminalized s i \<longrightarrow> terminalized s' i)
    \<and> (cs_history s' = cs_history s \<or>
      (\<exists>e. cs_history s' = cs_history s @ [e] \<and> result_call_id (he_item e) = Some ?id
        \<and> \<not> terminalized s ?id \<and> terminalized s' ?id))"
  proof (cases rule: commit_step_cases [of cbs annotate limits names policy s r attempt])
    case refused
    then show ?thesis using assms(2) by simp
  next
    case (not_appended w)
    then show ?thesis using assms(2) by (simp add: terminalized_def split: option.splits)
  next
    case (committed ann w fence)
    note s' = assms(2) [unfolded committed(2)]
    show ?thesis
    proof (cases attempt)
      case None
      then show ?thesis using committed(1,3) assms(1)
        by (simp add: s' may_commit_def terminalized_def entry_new_def result_call_id_terminal
            domIff split: option.splits)
    next
      case (Some a)
      then have can: "can_commit ?id a (cs_fence s)" using committed(1) by (simp add: may_commit_def)
      from commit_terminal_admitted [OF can] committed(3) Some obtain t where
        "cs_fence s ?id = Some t" "\<not> ta_terminal t" "fence = (cs_fence s)(?id \<mapsto> t\<lparr>ta_terminal := True\<rparr>)"
        by auto
      then show ?thesis
        by (auto simp: s' terminalized_def entry_new_def result_call_id_terminal split: option.splits)
    qed
  qed
  then show "dom (cs_fence s') = dom (cs_fence s)" and "terminalized s i \<Longrightarrow> terminalized s' i"
    and "cs_history s' = cs_history s \<or>
      (\<exists>e. cs_history s' = cs_history s @ [e] \<and> result_call_id (he_item e) = Some ?id
        \<and> \<not> terminalized s ?id \<and> terminalized s' ?id)"
    by blast+
qed

section \<open>Truncation\<close>

lemma truncation_suffix_valid: "utf8_valid (truncation_suffix n)"
  by (rule utf8_valid_ascii) (simp add: truncation_suffix_def dec_ascii, simp add: byte_of_def)

lemma length_truncation_suffix:
  "n < 10 ^ 20 \<Longrightarrow> length (truncation_suffix n) \<le> truncation_reserved"
  using length_dec [of n 20] by (simp add: truncation_suffix_def truncation_reserved_def)

section \<open>Properties\<close>

text \<open>
  C16. Image recovery (\<open>open_stream_with_image_recovery\<close>).  Whatever the provider answers and
  whatever the commit handler does, the history keeps its length and annotations, and the only
  items that change are tool results with one image, replaced by the rejection notice of the same
  call.  The request keeps everything but items, and as many of them.  If the rejection of an image
  is what the caller gets, no candidate is left to correct.
\<close>

theorem image_recovery_corrects:
  assumes "open_stream_with_image_recovery blob_size handler open_stream (h, req, w) = (res, h', req', w')"
  shows "list_all2 corrected h h'
    \<and> (\<exists>items. req' = req\<lparr>rq_items := items\<rparr> \<and> length items = length (rq_items req))
    \<and> (\<forall>e. res = Inl (Client e) \<and> is_image_size_rejection e
         \<longrightarrow> largest_candidate blob_size h' req' = None)"
  using assms by (rule open_stream_corrects)

text \<open>A provider that rejects every request with an image and counts the requests it gets.\<close>

definition picky_provider :: "nat \<Rightarrow> request \<Rightarrow> (engine_error + unit) \<times> nat" where
  "picky_provider n req =
     (if list_ex has_attachments (rq_items req)
      then Inl (Client (Api (Some 413) (Some ''image_too_large'') ''too large'' None))
      else Inr (), Suc n)"

definition viewed_image :: "item list" where
  "viewed_image = [item_tool_call ''c1'' ''ViewImage'' ''{}'',
     tool_result_item_with_attachments ''c1'' ''image'' None False [Image (image_new ''image/png'' [1, 2])]]"

definition image_request :: request where
  "image_request = request_new\<lparr>rq_items := viewed_image\<rparr>"

definition view_history :: "unit history" where
  "view_history = history_from_items viewed_image"

lemmas view_eval =
  view_history_def image_request_def viewed_image_def picky_provider_def history_from_items_def
  entry_from_item_def entry_new_def item_constructors request_new_def

lemma view_recovered:
  "open_stream_with_image_recovery (\<lambda>_. None) None picky_provider (view_history, image_request, 0) =
     (Inr (), map entry_from_item [item_tool_call ''c1'' ''ViewImage'' ''{}'',
        tool_result_error ''c1'' REJECTION_MESSAGE],
      image_request\<lparr>rq_items := [item_tool_call ''c1'' ''ViewImage'' ''{}'',
        tool_result_error ''c1'' REJECTION_MESSAGE]\<rparr>, Suc (Suc 0))"
  by (simp add: open_stream_with_image_recovery.simps view_eval recover_rejected_image_def
      largest_candidate_def history_items_def accepted_input_end_def is_image_size_diagnostic_def
      image_pixels_def Let_def)

theorem image_recovery_corrects_witness:
  "\<exists>h' req'. open_stream_with_image_recovery (\<lambda>_. None) None picky_provider
       (view_history, image_request, 0) = (Inr (), h', req', 2)
     \<and> h' \<noteq> view_history \<and> list_all2 corrected view_history h'"
proof -
  have "map entry_from_item [item_tool_call ''c1'' ''ViewImage'' ''{}'',
      tool_result_error ''c1'' REJECTION_MESSAGE] \<noteq> view_history"
    by (simp add: view_eval)
  then show ?thesis
    using image_recovery_corrects [OF view_recovered] view_recovered by (auto simp: numeral_2_eq_2)
qed



text \<open>
  Batch appends (\<open>History::extend_with\<close>).  Items become live in order, each with the
  annotation its callback returned; on success all of them are appended, on failure exactly the
  items before the one whose callback failed, and the error is that callback's.
\<close>

theorem extend_commits_prefix:
  "\<exists>new res w'. extend_with annotate items (h, w) = (res, h @ new, w')
    \<and> map he_item new = take (length new) items
    \<and> (case res of Inr _ \<Rightarrow> length new = length items
        | Inl e \<Rightarrow> length new < length items \<and> (\<exists>w1. fst (annotate w1 (items ! length new)) = Inl e))"
proof -
  obtain res h' w' where eq: "extend_with annotate items (h, w) = (res, h', w')"
    by (cases "extend_with annotate items (h, w)")
  from extend_with_prefix [OF eq] eq show ?thesis by blast
qed


definition plain_result :: "string \<Rightarrow> tool_execution_result" where
  "plain_result call_id = \<lparr>ter_tool_use_id = call_id, ter_disposition = DispSuccess, ter_summary = ''ok'',
     ter_content = None, ter_is_error = False, ter_attachments = []\<rparr>"

definition one_attempt :: "(unit, unit) commit_state" where
  "one_attempt = \<lparr>cs_history = [], cs_world = (), cs_fence = fence_register ''c1'' ''a1'' Map.empty,
     cs_terminal_ids = {}\<rparr>"


text \<open>
  Bounding of tool output (\<open>truncate_content\<close>).  The result is valid UTF-8; it is the input
  itself when that is within the limit, and otherwise a prefix of it followed by the marker with
  the number of bytes left out.  Its length is within the limit, except that a limit too small for
  the marker still lets the marker through.
\<close>

theorem truncate_content_bound:
  assumes "utf8_valid content" and "length content < 2 ^ 64"
  shows "utf8_valid (truncate_content limit content)
    \<and> length (truncate_content limit content) \<le> max limit truncation_reserved
    \<and> (if length content \<le> limit then truncate_content limit content = content
       else \<exists>cut\<le>limit. truncate_content limit content
              = take cut content @ truncation_suffix (length content - cut))"
proof (cases "length content \<le> limit")
  case True
  then show ?thesis using assms by (simp add: truncate_content_def)
next
  case False
  define budget where "budget = min (limit - truncation_reserved) (length content)"
  define cut where "cut = floor_boundary content budget"
  have eq: "truncate_content limit content = take cut content @ truncation_suffix (length content - cut)"
    using False by (simp add: truncate_content_def Let_def cut_def budget_def)
  have cut: "cut \<le> limit - truncation_reserved"
    using floor_boundary_le [of content budget] by (simp add: cut_def budget_def)
  have "length content - cut < 10 ^ 20" using assms(2) by simp
  note suffix = length_truncation_suffix [OF this]
  have "length (truncate_content limit content) \<le> cut + length (truncation_suffix (length content - cut))"
    by (simp add: eq)
  also have "\<dots> \<le> max limit truncation_reserved" using suffix cut by linarith
  finally have "length (truncate_content limit content) \<le> max limit truncation_reserved" .
  moreover have "utf8_valid (truncate_content limit content)"
    using utf8_valid_truncate [OF assms(1), of budget]
    by (simp add: eq utf8_valid_append truncation_suffix_valid truncate_at_boundary_def cut_def budget_def)
  moreover have "\<exists>cut\<le>limit. truncate_content limit content
      = take cut content @ truncation_suffix (length content - cut)"
    using eq cut by (intro exI [of _ cut]) simp
  ultimately show ?thesis using False by simp
qed

theorem truncate_content_bound_witness:
  "utf8_valid (replicate 100 CHR ''a'')
   \<and> length (truncate_content 80 (replicate 100 CHR ''a'')) \<le> max 80 truncation_reserved
   \<and> truncate_content 80 (replicate 100 CHR ''a'') \<noteq> replicate 100 CHR ''a''"
proof -
  have v: "utf8_valid (replicate 100 CHR ''a'')"
    by (rule utf8_valid_ascii) (simp add: list_all_iff byte_of_def)
  from truncate_content_bound [OF v, of 80] have
    len: "length (truncate_content 80 (replicate 100 CHR ''a'')) \<le> max 80 truncation_reserved"
    by simp
  moreover have "truncation_reserved < 100" by (simp add: truncation_reserved_def)
  ultimately have "length (truncate_content 80 (replicate 100 CHR ''a'')) < 100" by simp
  then have "truncate_content 80 (replicate 100 CHR ''a'') \<noteq> replicate 100 CHR ''a''" by auto
  with v len show ?thesis by simp
qed

end
