(* ===== verification/Provider_Projection.thy ===== *)
theory Provider_Projection
  imports Request_History "HOL-Library.Product_Lexorder" "HOL-Library.Multiset"
begin

text \<open>
  The projection of the conversation history that is sent to a provider (\<open>engine.rs\<close>:
  \<open>normalize_tool_run\<close>, \<open>normalize_legacy_history\<close>, \<open>normalize_response_history\<close>,
  \<open>materialize_provider_history\<close>, \<open>build_request\<close>).  History keeps terminal tool outputs in
  completion order; the projection moves them behind the assistant output of their response and
  maps every history index to its projected index.  The functions that can panic return an
  option; \<open>usize\<close> is \<open>nat\<close>.
\<close>

section \<open>Keys\<close>

type_synonym order_map = "string \<rightharpoonup> nat"

fun is_tool_item :: "item \<Rightarrow> bool" where
  "is_tool_item (ToolCall _) \<longleftrightarrow> True"
| "is_tool_item (ToolResult _) \<longleftrightarrow> True"
| "is_tool_item _ \<longleftrightarrow> False"

fun is_boundary :: "item \<Rightarrow> bool" where
  "is_boundary (AssistantResponseBoundary _) \<longleftrightarrow> True"
| "is_boundary _ \<longleftrightarrow> False"

fun is_turn_boundary :: "item \<Rightarrow> bool" where
  "is_turn_boundary (Message m) \<longleftrightarrow> msg_role m = User \<or> msg_role m = System"
| "is_turn_boundary _ \<longleftrightarrow> False"

definition order_of :: "order_map \<Rightarrow> string \<Rightarrow> nat" where
  "order_of ord call_id = (case ord call_id of Some k \<Rightarrow> k | None \<Rightarrow> usize_max)"

definition call_key :: "order_map \<Rightarrow> tool_call_item \<Rightarrow> nat" where
  "call_key ord c =
     (case tc_call_index c of Some i \<Rightarrow> i | None \<Rightarrow> order_of ord (tc_call_id c))"

fun tool_run_key :: "order_map \<Rightarrow> item \<Rightarrow> (nat \<times> nat) option" where
  "tool_run_key ord (ToolCall c) = Some (0, call_key ord c)"
| "tool_run_key ord (ToolResult t) = Some (1, order_of ord (tr_call_id t))"
| "tool_run_key ord _ = None"

fun response_call_key :: "order_map \<Rightarrow> item \<Rightarrow> nat option" where
  "response_call_key ord (ToolCall c) = Some (call_key ord c)"
| "response_call_key ord _ = None"

fun result_key :: "order_map \<Rightarrow> item \<Rightarrow> nat \<times> nat" where
  "result_key ord (ToolResult t) = (1, order_of ord (tr_call_id t))"
| "result_key ord _ = (0, 0)"

section \<open>Normalisation\<close>

text \<open>\<open>sort_by_key\<close> is stable; a key function that reaches \<open>unreachable!\<close> panics.\<close>

definition sort_by_key :: "('a \<Rightarrow> 'k::linorder option) \<Rightarrow> 'a list \<Rightarrow> 'a list option" where
  "sort_by_key f xs =
     (if \<forall>x \<in> set xs. f x \<noteq> None then Some (sort_key (\<lambda>x. the (f x)) xs) else None)"

definition normalize_tool_run ::
  "order_map \<Rightarrow> (nat \<times> item) list \<Rightarrow> (nat \<times> item) list option" where
  "normalize_tool_run ord run = sort_by_key (\<lambda>(_, it). tool_run_key ord it) run"

function normalize_legacy_history ::
  "order_map \<Rightarrow> (nat \<times> item) list \<Rightarrow> (nat \<times> item) list option" where
  "normalize_legacy_history ord [] = Some []"
| "normalize_legacy_history ord (e # es) =
     (if \<not> is_tool_item (snd e)
      then map_option ((#) e) (normalize_legacy_history ord es)
      else
        case normalize_tool_run ord (e # takeWhile (\<lambda>e. is_tool_item (snd e)) es) of
          None \<Rightarrow> None
        | Some run \<Rightarrow>
            map_option ((@) run)
              (normalize_legacy_history ord (dropWhile (\<lambda>e. is_tool_item (snd e)) es)))"
  by pat_completeness auto
termination
  by (relation "measure (\<lambda>(_, es). length es)") (auto simp: le_imp_less_Suc length_dropWhile_le)

fun fill_call_slots :: "item list \<Rightarrow> (nat \<times> item) list \<Rightarrow> (nat \<times> item) list option" where
  "fill_call_slots calls [] = Some []"
| "fill_call_slots calls ((i, it) # es) =
     (if is_tool_call it
      then (case calls of
              [] \<Rightarrow> None
            | c # cs \<Rightarrow> map_option ((#) (i, c)) (fill_call_slots cs es))
      else map_option ((#) (i, it)) (fill_call_slots calls es))"

function sort_regions :: "order_map \<Rightarrow> (nat \<times> item) list \<Rightarrow> (nat \<times> item) list" where
  "sort_regions ord es =
     (let region = takeWhile (\<lambda>e. \<not> is_turn_boundary (snd e)) es
      in sort_key (\<lambda>e. result_key ord (snd e)) region @
         (case dropWhile (\<lambda>e. \<not> is_turn_boundary (snd e)) es of
            [] \<Rightarrow> []
          | b # rest \<Rightarrow> b # sort_regions ord rest))"
  by pat_completeness auto
termination
  by (relation "measure (\<lambda>(_, es). length es)")
    (auto dest!: arg_cong [where f = length] simp: less_Suc_eq_le,
      metis Suc_le_lessD length_dropWhile_le)

declare sort_regions.simps [simp del]

definition normalize_response_history ::
  "order_map \<Rightarrow> (nat \<times> item) list \<Rightarrow> (nat \<times> item) list option" where
  "normalize_response_history ord response =
     (case sort_by_key (response_call_key ord) (filter is_tool_call (map snd response)) of
        None \<Rightarrow> None
      | Some calls \<Rightarrow> map_option (sort_regions ord) (fill_call_slots calls response))"

section \<open>Materialisation\<close>

record provider_history_projection =
  pp_items :: "item list"
  pp_index :: "nat list"

fun call_order_from :: "nat \<Rightarrow> item list \<Rightarrow> order_map \<Rightarrow> order_map" where
  "call_order_from next_order [] ord = ord"
| "call_order_from next_order (ToolCall c # items) ord =
     call_order_from (next_order + 1) items
       (ord(tc_call_id c \<mapsto> (case tc_call_index c of Some i \<Rightarrow> i | None \<Rightarrow> next_order)))"
| "call_order_from next_order (_ # items) ord = call_order_from next_order items ord"

definition call_order :: "item list \<Rightarrow> order_map" where
  "call_order items = call_order_from 0 items Map.empty"

text \<open>The loop over the responses; the \<open>debug_assert\<close> of the source counts as a panic.\<close>

function materialize_responses ::
  "order_map \<Rightarrow> item list \<Rightarrow> nat \<Rightarrow> (nat \<times> item) list \<Rightarrow> nat list
    \<Rightarrow> ((nat \<times> item) list \<times> nat list) option"
where
  "materialize_responses ord items index materialized boundaries =
     (if index < length items then
        if \<not> is_boundary (items ! index) then None
        else
          let start = index + 1;
              stop = (case position is_boundary (drop start items) of
                        Some offset \<Rightarrow> start + offset
                      | None \<Rightarrow> length items);
              response = enumerate start (take (stop - start) (drop start items))
          in case normalize_response_history ord response of
               None \<Rightarrow> None
             | Some r \<Rightarrow>
                 materialize_responses ord items stop (materialized @ r) (boundaries @ [index])
      else Some (materialized, boundaries))"
  by pat_completeness auto
termination
  by (relation "measure (\<lambda>(_, items, index, _, _). length items - index)")
    (auto split: option.splits)

declare materialize_responses.simps [simp del]

definition index_set :: "nat \<Rightarrow> nat \<Rightarrow> nat list \<Rightarrow> nat list option" where
  "index_set i v xs = (if i < length xs then Some (xs[i := v]) else None)"

fun record_indices :: "nat \<Rightarrow> (nat \<times> item) list \<Rightarrow> nat list \<Rightarrow> nat list option" where
  "record_indices p [] index = Some index"
| "record_indices p ((original, _) # es) index =
     Option.bind (index_set original p index) (record_indices (p + 1) es)"

fun record_boundaries ::
  "(nat \<times> item) list \<Rightarrow> nat list \<Rightarrow> nat list \<Rightarrow> nat list option" where
  "record_boundaries materialized [] index = Some index"
| "record_boundaries materialized (b # bs) index =
     Option.bind
       (index_set b (length (takeWhile (\<lambda>(original, _). original < b) materialized) - 1) index)
       (record_boundaries materialized bs)"

definition materialize_provider_history :: "item list \<Rightarrow> provider_history_projection option" where
  "materialize_provider_history items =
     (let ord = call_order items;
          legacy_end = (case position is_boundary items of Some b \<Rightarrow> b | None \<Rightarrow> length items)
      in Option.bind (normalize_legacy_history ord (enumerate 0 (take legacy_end items)))
        (\<lambda>legacy. Option.bind (materialize_responses ord items legacy_end legacy [])
          (\<lambda>(materialized, boundaries).
             Option.bind (record_indices 0 materialized (replicate (length items) 0))
               (\<lambda>index. map_option
                  (\<lambda>index. \<lparr>pp_items = map snd materialized, pp_index = index\<rparr>)
                  (record_boundaries materialized boundaries index)))))"

section \<open>Building a request\<close>

text \<open>The fields of \<open>Engine\<close> that a request carries.\<close>

record request_settings =
  st_system_prompt :: "string option"
  st_request_config :: request_config
  st_cache_anchor :: "nat option"
  st_cache_key :: "string option"

definition build_request ::
  "request_settings \<Rightarrow> tool_definition list \<Rightarrow> item list \<Rightarrow> request option"
where
  "build_request st tools ctxt =
     map_option
       (\<lambda>projection.
          let request = (case st_system_prompt st of
                Some system \<Rightarrow> request_system system request_new
              | None \<Rightarrow> request_new);
              projected_cache_anchor = Option.bind (st_cache_anchor st)
                (\<lambda>anchor. if anchor < length (pp_index projection)
                           then Some (pp_index projection ! anchor) else None);
              request = request_items (pp_items projection) request;
              request = fold request_tool tools request;
              request = request_set_config (st_request_config st) request
          in request\<lparr>rq_cache_anchor := projected_cache_anchor, rq_cache_key := st_cache_key st\<rparr>)
       (materialize_provider_history ctxt)"

end
