(* ===== verification/Provider_Order.thy ===== *)
theory Provider_Order
  imports Provider_Projection
begin

text \<open>
  The order in which \<open>materialize_provider_history\<close> presents the history: a reference
  arrangement of indexed items into regions that are sorted separately, the proof that the loops
  of the legacy part and of the responses compute it, and the exact description of the projected
  order and index map.
\<close>

section \<open>Arrangement by regions\<close>

text \<open>Items at barriers stay; the items between two barriers are sorted by their key.\<close>

function arrange :: "('a \<Rightarrow> bool) \<Rightarrow> ('a \<Rightarrow> 'k::linorder) \<Rightarrow> 'a list \<Rightarrow> 'a list" where
  "arrange B f es =
     sort_key f (takeWhile (\<lambda>e. \<not> B e) es) @
       (case dropWhile (\<lambda>e. \<not> B e) es of [] \<Rightarrow> [] | b # rest \<Rightarrow> b # arrange B f rest)"
  by pat_completeness auto
termination
  by (relation "measure (\<lambda>(_, _, es). length es)")
    (auto dest!: arg_cong [where f = length] simp: less_Suc_eq_le,
      metis Suc_le_lessD length_dropWhile_le)

declare arrange.simps [simp del]

lemma arrange_Nil [simp]: "arrange B f [] = []"
  by (subst arrange.simps) simp

lemma arrange_region_Cons:
  assumes "\<forall>e \<in> set region. \<not> B e" "B b"
  shows "arrange B f (region @ b # rest) = sort_key f region @ b # arrange B f rest"
  using assms by (subst arrange.simps) (simp add: takeWhile_append2 dropWhile_append2)

lemma arrange_region:
  assumes "\<forall>e \<in> set region. \<not> B e"
  shows "arrange B f region = sort_key f region"
proof -
  from assms have tw: "takeWhile (\<lambda>e. \<not> B e) region = region"
    and dw: "dropWhile (\<lambda>e. \<not> B e) region = []"
    by simp_all
  show ?thesis unfolding arrange.simps [of B f region] tw dw by simp
qed

lemma arrange_barrier: "B b \<Longrightarrow> arrange B f (b # rest) = b # arrange B f rest"
  using arrange_region_Cons [of "[]" B b f rest] by simp

lemma region_induct [case_names region barrier]:
  assumes "\<And>region. \<forall>e \<in> set region. \<not> B e \<Longrightarrow> P region"
    and "\<And>region b rest. \<lbrakk>\<forall>e \<in> set region. \<not> B e; B b; P rest\<rbrakk> \<Longrightarrow> P (region @ b # rest)"
  shows "P es"
proof (induction es rule: length_induct)
  case (1 es)
  let ?region = "takeWhile (\<lambda>e. \<not> B e) es"
  have region: "\<forall>e \<in> set ?region. \<not> B e" by (auto dest: set_takeWhileD)
  show ?case
  proof (cases "dropWhile (\<lambda>e. \<not> B e) es")
    case Nil
    then have "?region = es" by (simp add: takeWhile_eq_all_conv dropWhile_eq_Nil_conv)
    with region show ?thesis using assms(1) by metis
  next
    case (Cons b rest)
    then have es: "es = ?region @ b # rest" by (metis takeWhile_dropWhile_id)
    then have "length rest < length es" by (metis length_append add_Suc_right le_add2 length_Cons less_Suc_eq_le)
    with 1 have "P rest" by blast
    moreover have "B b" using Cons by (metis dropWhile_eq_Cons_conv)
    ultimately show ?thesis using assms(2) [OF region] es by metis
  qed
qed

lemma mset_arrange [simp]: "mset (arrange B f es) = mset es"
  by (induction es rule: region_induct [where B = B])
    (simp_all add: arrange_region arrange_region_Cons)

lemma set_arrange [simp]: "set (arrange B f es) = set es"
  by (metis mset_arrange set_mset_mset)

lemma length_arrange [simp]: "length (arrange B f es) = length es"
  by (metis mset_arrange size_mset)

subsection \<open>The order of an arrangement\<close>

text \<open>\<open>at\<close> is the position of an element in the original list.\<close>

definition fenced :: "('a \<Rightarrow> bool) \<Rightarrow> ('a \<Rightarrow> nat) \<Rightarrow> 'a set \<Rightarrow> 'a \<Rightarrow> 'a \<Rightarrow> bool" where
  "fenced B at E a b \<longleftrightarrow>
     (\<exists>c \<in> E. B c \<and> min (at a) (at b) \<le> at c \<and> at c \<le> max (at a) (at b))"

definition arranged_before ::
  "('a \<Rightarrow> bool) \<Rightarrow> ('a \<Rightarrow> 'k::linorder) \<Rightarrow> ('a \<Rightarrow> nat) \<Rightarrow> 'a set \<Rightarrow> 'a \<Rightarrow> 'a \<Rightarrow> bool" where
  "arranged_before B f at E a b \<longleftrightarrow>
     (if fenced B at E a b then at a < at b else f a < f b \<or> f a = f b \<and> at a < at b)"

lemma fenced_mono: "fenced B at E a b \<Longrightarrow> E \<subseteq> E' \<Longrightarrow> fenced B at E' a b"
  by (auto simp: fenced_def)

lemma sorted_wrt_insort_key:
  assumes "sorted_wrt (\<lambda>a b. f a < f b \<or> f a = f b \<and> at a < at b) xs"
    and "\<forall>y \<in> set xs. at x < at y"
  shows "sorted_wrt (\<lambda>a b. f a < f b \<or> f a = f b \<and> at a < at b) (insort_key f x xs)"
  using assms
  by (induction xs) (auto simp: set_insort_key)

lemma sorted_wrt_sort_key:
  assumes "sorted_wrt (\<lambda>a b. at a < at b) xs"
  shows "sorted_wrt (\<lambda>a b. f a < f b \<or> f a = f b \<and> at a < at b) (sort_key f xs)"
  using assms by (induction xs) (simp_all add: sorted_wrt_insort_key)

lemma fenced_before_barrier:
  assumes "\<forall>e \<in> set region. \<not> B e" "sorted_wrt (\<lambda>a b. at a < at b) (region @ b # rest)"
    and xy: "x \<in> set region" "y \<in> set region"
  shows "\<not> fenced B at (set (region @ b # rest)) x y"
proof
  assume "fenced B at (set (region @ b # rest)) x y"
  then obtain c where c: "c \<in> set (region @ b # rest)" "B c" "at c \<le> max (at x) (at y)"
    by (auto simp: fenced_def)
  with assms(1) have "c \<in> insert b (set rest)" by auto
  with assms(2) xy have "at x < at c" "at y < at c" by (auto simp: sorted_wrt_append)
  with c(3) show False by simp
qed

lemma fenced_after_barrier:
  assumes "sorted_wrt (\<lambda>a b. at a < at b) (region @ b # rest)"
    and xy: "x \<in> set rest" "y \<in> set rest"
  shows "fenced B at (set (region @ b # rest)) x y = fenced B at (set rest) x y"
proof
  assume "fenced B at (set (region @ b # rest)) x y"
  then obtain c where c: "c \<in> set (region @ b # rest)" "B c" "min (at x) (at y) \<le> at c"
    "at c \<le> max (at x) (at y)"
    by (auto simp: fenced_def)
  have "c \<notin> insert b (set region)"
  proof
    assume "c \<in> insert b (set region)"
    with assms(1) xy have "at c < at x" "at c < at y" by (auto simp: sorted_wrt_append)
    with c(3) show False by simp
  qed
  with c show "fenced B at (set rest) x y" by (auto simp: fenced_def)
qed (auto intro: fenced_mono)

lemma sorted_wrt_arrange:
  assumes "sorted_wrt (\<lambda>a b. at a < (at b :: nat)) es"
  shows "sorted_wrt (arranged_before B f at (set es)) (arrange B f es)"
  using assms
proof (induction es rule: region_induct [where B = B])
  case (region es)
  then have "\<not> fenced B at (set es) a b" for a b by (auto simp: fenced_def)
  with sorted_wrt_sort_key [OF region(2), of f] region(1) show ?case
    by (simp add: arrange_region arranged_before_def)
next
  case (barrier region b rest)
  let ?E = "set (region @ b # rest)"
  from barrier.prems have order: "sorted_wrt (\<lambda>a b. at a < at b) region"
    "sorted_wrt (\<lambda>a b. at a < at b) rest"
    and lt: "\<And>x. x \<in> set region \<Longrightarrow> at x < at b" "\<And>y. y \<in> set rest \<Longrightarrow> at b < at y"
    "\<And>x y. x \<in> set region \<Longrightarrow> y \<in> set rest \<Longrightarrow> at x < at y"
    by (auto simp: sorted_wrt_append)
  have 1: "sorted_wrt (arranged_before B f at ?E) (sort_key f region)"
    by (rule sorted_wrt_mono_rel [OF _ sorted_wrt_sort_key [OF order(1), of f]])
      (use fenced_before_barrier [OF barrier.hyps(1) barrier.prems] in
        \<open>simp add: arranged_before_def\<close>)
  have 2: "sorted_wrt (arranged_before B f at ?E) (arrange B f rest)"
    by (rule sorted_wrt_mono_rel [OF _ barrier.IH [OF order(2)]])
      (use fenced_after_barrier [OF barrier.prems] in \<open>simp add: arranged_before_def\<close>)
  have 3: "arranged_before B f at ?E x y"
    if "x \<in> set region \<union> {b}" "y \<in> {b} \<union> set rest" "x \<noteq> y" for x y
  proof -
    from that lt have "at x \<le> at b" "at b \<le> at y" "at x < at y" by fastforce+
    moreover from this have "fenced B at ?E x y"
      using barrier.hyps(2) by (auto simp: fenced_def)
    ultimately show ?thesis by (simp add: arranged_before_def)
  qed
  have "b \<notin> set region" "b \<notin> set rest" "set region \<inter> set rest = {}"
    using lt less_irrefl by blast+
  with 1 2 3 barrier.hyps show ?case
    by (auto simp: arrange_region_Cons sorted_wrt_append)
qed

lemma arranged_before_index:
  assumes "\<And>e. e \<in> E \<Longrightarrow> B e = B' (at e)" "\<And>e. e \<in> E \<Longrightarrow> f e = f' (at e)"
    and "a \<in> E" "b \<in> E" "arranged_before B f at E a b"
  shows "arranged_before B' f' id (at ` E) (at a) (at b)"
proof -
  have "fenced B at E a b = fenced B' id (at ` E) (at a) (at b)"
    using assms(1) by (auto simp: fenced_def)
  with assms(2) [OF assms(3)] assms(2) [OF assms(4)] assms(5) show ?thesis
    by (simp add: arranged_before_def split: if_splits)
qed

lemma arranged_before_cong:
  assumes "\<And>k. min i j \<le> k \<Longrightarrow> k \<le> max i j \<Longrightarrow> k \<in> E \<longleftrightarrow> k \<in> E'"
    and "\<And>k. min i j \<le> k \<Longrightarrow> k \<le> max i j \<Longrightarrow> B k = B' k"
    and "f i = f' i" "f j = f' j"
  shows "arranged_before B f id E i j = arranged_before B' f' id E' i j"
proof -
  have "fenced B id E i j = fenced B' id E' i j" using assms(1,2) by (auto simp: fenced_def)
  with assms(3,4) show ?thesis by (simp add: arranged_before_def)
qed

lemma fenced_commute: "fenced B at E a b = fenced B at E b a"
  by (simp add: fenced_def min.commute max.commute)

lemma arranged_before_asym:
  "arranged_before B f at E a b \<Longrightarrow> \<not> arranged_before B f at E b a"
  by (auto simp: arranged_before_def fenced_commute [of B at E b a] split: if_splits)

section \<open>The loops compute arrangements\<close>

definition legacy_key :: "order_map \<Rightarrow> item \<Rightarrow> nat \<times> nat" where
  "legacy_key ord it = the (tool_run_key ord it)"

lemma normalize_tool_run_total:
  assumes "\<forall>e \<in> set run. is_tool_item (snd e)"
  shows "normalize_tool_run ord run = Some (sort_key (\<lambda>e. legacy_key ord (snd e)) run)"
proof -
  have "tool_run_key ord it \<noteq> None" if "is_tool_item it" for it using that by (cases it) auto
  with assms show ?thesis
    by (auto simp: normalize_tool_run_def sort_by_key_def legacy_key_def case_prod_unfold)
qed

lemma normalize_legacy_arrange:
  "normalize_legacy_history ord es =
     Some (arrange (\<lambda>e. \<not> is_tool_item (snd e)) (\<lambda>e. legacy_key ord (snd e)) es)"
proof (induction ord es rule: normalize_legacy_history.induct)
  case (1 ord)
  then show ?case by simp
next
  case (2 ord e es)
  let ?B = "\<lambda>e. \<not> is_tool_item (snd e)"
  let ?run = "e # takeWhile (\<lambda>e. is_tool_item (snd e)) es"
  let ?rest = "dropWhile (\<lambda>e. is_tool_item (snd e)) es"
  show ?case
  proof (cases "is_tool_item (snd e)")
    case False
    with 2(1) show ?thesis by (simp add: arrange_barrier)
  next
    case True
    then have run: "\<forall>e \<in> set ?run. is_tool_item (snd e)" by (auto dest: set_takeWhileD)
    have split: "e # es = ?run @ ?rest" by simp
    have "arrange ?B (\<lambda>e. legacy_key ord (snd e)) (?run @ ?rest) =
        sort_key (\<lambda>e. legacy_key ord (snd e)) ?run @ arrange ?B (\<lambda>e. legacy_key ord (snd e)) ?rest"
    proof (cases ?rest)
      case Nil
      with run show ?thesis by (simp only: append_Nil2 arrange_region arrange_Nil not_not simp_thms)
    next
      case (Cons b rest)
      then have "?B b" by (metis dropWhile_eq_Cons_conv)
      with run show ?thesis
        unfolding Cons by (subst arrange_region_Cons) (simp_all add: arrange_barrier)
    qed
    moreover have "normalize_legacy_history ord ?rest =
        Some (arrange ?B (\<lambda>e. legacy_key ord (snd e)) ?rest)"
      by (rule 2(2) [OF _ normalize_tool_run_total [OF run]]) (simp add: True)
    moreover have "normalize_legacy_history ord (e # es) =
        map_option ((@) (sort_key (\<lambda>e. legacy_key ord (snd e)) ?run)) (normalize_legacy_history ord ?rest)"
      unfolding normalize_legacy_history.simps normalize_tool_run_total [OF run] using True by simp
    ultimately show ?thesis unfolding split by (simp only: option.map)
  qed
qed

lemma sort_regions_arrange:
  "sort_regions ord es =
     arrange (\<lambda>e. is_turn_boundary (snd e)) (\<lambda>e. result_key ord (snd e)) es"
proof (induction ord es rule: sort_regions.induct)
  case (1 ord es)
  show ?case
  proof (cases "dropWhile (\<lambda>e. \<not> is_turn_boundary (snd e)) es")
    case Nil
    then show ?thesis by (simp only: sort_regions.simps [of ord es] arrange.simps [of _ _ es] Let_def list.case)
  next
    case (Cons b rest)
    from 1 [OF refl Cons] show ?thesis
      by (simp only: sort_regions.simps [of ord es] arrange.simps [of _ _ es] Let_def Cons list.case)
  qed
qed

subsection \<open>Call slots of a response\<close>

definition slot_match :: "nat \<times> item \<Rightarrow> nat \<times> item \<Rightarrow> bool" where
  "slot_match e e' \<longleftrightarrow> fst e' = fst e \<and>
     (if is_tool_call (snd e) then is_tool_call (snd e') else snd e' = snd e)"

lemma slot_match_Pair [simp]:
  "slot_match (i, it) (j, it') \<longleftrightarrow> j = i \<and> (if is_tool_call it then is_tool_call it' else it' = it)"
  by (simp add: slot_match_def)

lemma slot_match_keys:
  assumes "slot_match e e'"
  shows "fst e' = fst e" "is_turn_boundary (snd e') = is_turn_boundary (snd e)"
    "result_key ord (snd e') = result_key ord (snd e)"
proof -
  obtain i it where e: "e = (i, it)" by (cases e)
  obtain j it' where e': "e' = (j, it')" by (cases e')
  show "fst e' = fst e" "is_turn_boundary (snd e') = is_turn_boundary (snd e)"
    "result_key ord (snd e') = result_key ord (snd e)"
    using assms unfolding e e' by (cases it; cases it'; simp)+
qed

lemma fill_call_slots_total:
  assumes "length calls = length (filter is_tool_call (map snd es))"
    and "\<forall>c \<in> set calls. is_tool_call c"
  shows "\<exists>r. fill_call_slots calls es = Some r \<and> list_all2 slot_match es r \<and>
    filter is_tool_call (map snd r) = calls"
  using assms
proof (induction calls es rule: fill_call_slots.induct)
  case (2 calls i it es)
  show ?case
  proof (cases "is_tool_call it")
    case False
    with 2(3) have "length calls = length (filter is_tool_call (map snd es))" by simp
    from 2(2) [OF False this 2(4)] obtain r where "fill_call_slots calls es = Some r"
      "list_all2 slot_match es r" "filter is_tool_call (map snd r) = calls" by blast
    with False show ?thesis by (intro exI [of _ "(i, it) # r"]) simp
  next
    case True
    with 2(3) obtain c cs where calls: "calls = c # cs"
      and len: "length cs = length (filter is_tool_call (map snd es))" by (cases calls) auto
    from 2(4) calls have c: "is_tool_call c" and cs: "\<forall>c \<in> set cs. is_tool_call c" by auto
    from 2(1) [OF True calls len cs] obtain r where "fill_call_slots cs es = Some r"
      "list_all2 slot_match es r" "filter is_tool_call (map snd r) = cs" by blast
    with True c calls show ?thesis by (intro exI [of _ "(i, c) # r"]) simp
  qed
qed simp

definition sorted_calls :: "order_map \<Rightarrow> item list \<Rightarrow> item list" where
  "sorted_calls ord items =
     sort_key (\<lambda>it. the (response_call_key ord it)) (filter is_tool_call items)"

lemma normalize_response_arrange:
  obtains filled where
    "normalize_response_history ord es =
       Some (arrange (\<lambda>e. is_turn_boundary (snd e)) (\<lambda>e. result_key ord (snd e)) filled)"
    "list_all2 slot_match es filled"
    "filter is_tool_call (map snd filled) = sorted_calls ord (map snd es)"
proof -
  let ?calls = "sorted_calls ord (map snd es)"
  have "response_call_key ord it \<noteq> None" if "is_tool_call it" for it using that by (cases it) auto
  then have "sort_by_key (response_call_key ord) (filter is_tool_call (map snd es)) = Some ?calls"
    by (auto simp: sort_by_key_def sorted_calls_def)
  moreover have "length ?calls = length (filter is_tool_call (map snd es))"
    "\<forall>c \<in> set ?calls. is_tool_call c"
    by (simp_all add: sorted_calls_def)
  from fill_call_slots_total [OF this] obtain filled where
    "fill_call_slots ?calls es = Some filled" "list_all2 slot_match es filled"
    "filter is_tool_call (map snd filled) = ?calls"
    by blast
  ultimately show ?thesis
    using that by (simp add: normalize_response_history_def sort_regions_arrange)
qed

section \<open>Segments of the projection\<close>

definition segment :: "(nat \<Rightarrow> bool) \<Rightarrow> (nat \<Rightarrow> nat \<times> nat) \<Rightarrow> nat \<Rightarrow> nat \<Rightarrow> nat list \<Rightarrow> bool" where
  "segment B f s t is \<longleftrightarrow> set is = {s..<t} \<and> distinct is \<and>
     sorted_wrt (arranged_before B f id {s..<t}) is"

lemma arrange_segment:
  assumes es: "map fst es = [s..<t]"
    and B: "\<And>e. e \<in> set es \<Longrightarrow> B' e = B (fst e)"
    and f: "\<And>e. e \<in> set es \<Longrightarrow> f' e = f (fst e)"
  shows "segment B f s t (map fst (arrange B' f' es))"
proof -
  from es have E: "fst ` set es = {s..<t}" by (metis atLeastLessThan_upt list.set_map)
  have "mset (map fst (arrange B' f' es)) = mset [s..<t]" using es by (metis mset_arrange mset_map)
  then have "distinct (map fst (arrange B' f' es))" by (metis distinct_upt mset_eq_imp_distinct_iff)
  moreover have "sorted_wrt (\<lambda>a b. fst a < fst b) es"
    using es by (metis sorted_wrt_map strict_sorted_iff sorted_wrt_upt)
  then have "sorted_wrt (arranged_before B' f' fst (set es)) (arrange B' f' es)"
    by (rule sorted_wrt_arrange)
  then have "sorted_wrt (\<lambda>a b. arranged_before B f id {s..<t} (fst a) (fst b)) (arrange B' f' es)"
    by (rule sorted_wrt_mono_rel [rotated])
      (use arranged_before_index [of "set es" B' B fst f' f] B f E in simp)
  ultimately show ?thesis using E by (simp add: segment_def sorted_wrt_map)
qed

lemma segment_mono:
  assumes "segment B f s t is" "{s..<t} \<subseteq> E"
  shows "sorted_wrt (arranged_before B f id E) is"
proof (rule sorted_wrt_mono_rel [where P = "arranged_before B f id {s..<t}"])
  fix i j
  assume "i \<in> set is" "j \<in> set is" and before: "arranged_before B f id {s..<t} i j"
  with assms have "k \<in> {s..<t} \<longleftrightarrow> k \<in> E" if "min i j \<le> k" "k \<le> max i j" for k
    using that by (auto simp: segment_def min_def max_def split: if_splits)
  with before show "arranged_before B f id E i j"
    using arranged_before_cong [of i j "{s..<t}" E B B f f] by blast
qed (use assms in \<open>simp add: segment_def\<close>)

subsection \<open>The order of the projection\<close>

text \<open>
  Before the first response boundary every item that is not a tool call or tool result is a
  barrier and a run of tool items is sorted with the calls in front; behind it user and system
  messages are barriers and tool results move behind the other items of their region.
\<close>

definition in_response :: "item list \<Rightarrow> nat \<Rightarrow> bool" where
  "in_response items k \<longleftrightarrow> (\<exists>b \<in> set [0..<k]. is_boundary (items ! b))"

definition provider_barrier :: "item list \<Rightarrow> nat \<Rightarrow> bool" where
  "provider_barrier items k \<longleftrightarrow> is_boundary (items ! k) \<or>
     (if in_response items k then is_turn_boundary (items ! k) else \<not> is_tool_item (items ! k))"

definition provider_key :: "item list \<Rightarrow> nat \<Rightarrow> nat \<times> nat" where
  "provider_key items k =
     (if in_response items k then result_key (call_order items) (items ! k)
      else legacy_key (call_order items) (items ! k))"

definition provider_before :: "item list \<Rightarrow> nat \<Rightarrow> nat \<Rightarrow> bool" where
  "provider_before items =
     arranged_before (provider_barrier items) (provider_key items) id (set [0..<length items])"

definition response_at :: "item list \<Rightarrow> nat \<Rightarrow> nat \<Rightarrow> bool" where
  "response_at items b e \<longleftrightarrow> b < e \<and> e \<le> length items \<and> is_boundary (items ! b) \<and>
     (\<forall>k \<in> set [Suc b..<e]. \<not> is_boundary (items ! k)) \<and>
     (e = length items \<or> is_boundary (items ! e))"

lemma provider_before_across:
  assumes "i < b" "b < j" "j < length items" "is_boundary (items ! b)"
  shows "provider_before items i j"
proof -
  from assms have "fenced (provider_barrier items) id (set [0..<length items]) i j"
    by (auto simp: fenced_def provider_barrier_def intro!: bexI [of _ b])
  with assms show ?thesis by (simp add: provider_before_def arranged_before_def)
qed

lemma segment_provider_before:
  assumes "segment (provider_barrier items) (provider_key items) s t is" "t \<le> length items"
  shows "sorted_wrt (provider_before items) is"
  unfolding provider_before_def
  by (rule segment_mono [OF assms(1)]) (use assms(2) in auto)

lemma enumerate_slice:
  assumes "s \<le> t" "t \<le> length items"
  shows "enumerate s (take (t - s) (drop s items)) = map (\<lambda>k. (k, items ! k)) [s..<t]"
  using assms by (intro nth_equalityI) (simp_all add: nth_enumerate_eq)

lemma legacy_segment:
  assumes "t \<le> length items" "\<forall>k < t. \<not> is_boundary (items ! k)"
  shows "segment (provider_barrier items) (provider_key items) 0 t
    (map fst (arrange (\<lambda>e. \<not> is_tool_item (snd e)) (\<lambda>e. legacy_key (call_order items) (snd e))
      (map (\<lambda>k. (k, items ! k)) [0..<t])))"
  by (rule arrange_segment)
    (use assms in \<open>auto simp: provider_barrier_def provider_key_def in_response_def comp_def\<close>)

lemma slot_match_filter:
  assumes "list_all2 slot_match es filled"
  shows "map fst filled = map fst es"
    and "map fst (filter (\<lambda>e. is_tool_call (snd e)) filled) =
      map fst (filter (\<lambda>e. is_tool_call (snd e)) es)"
    and "filter (\<lambda>it. \<not> is_tool_call it) (map snd filled) =
      filter (\<lambda>it. \<not> is_tool_call it) (map snd es)"
  using assms by (induction rule: list_all2_induct) (auto simp: slot_match_def split: if_splits)

lemma mset_filter_split: "mset xs = mset (filter P xs) + mset (filter (\<lambda>x. \<not> P x) xs)"
  by (simp add: union_filter_mset_complement)

definition content_match :: "item list \<Rightarrow> nat \<times> item \<Rightarrow> bool" where
  "content_match items e \<longleftrightarrow>
     (if in_response items (fst e) \<and> is_tool_call (items ! fst e) then is_tool_call (snd e)
      else snd e = items ! fst e)"

lemma slot_match_mset:
  assumes "list_all2 slot_match es filled"
    and "mset (filter is_tool_call (map snd filled)) = mset (filter is_tool_call (map snd es))"
  shows "mset (map snd filled) = mset (map snd es)"
  unfolding mset_filter_split [of "map snd filled" is_tool_call]
    mset_filter_split [of "map snd es" is_tool_call] slot_match_filter(3) [OF assms(1)] assms(2) ..

lemma slot_in_response:
  assumes "response_at items b t"
    and match: "list_all2 slot_match (map (\<lambda>k. (k, items ! k)) [Suc b..<t]) filled"
    and "e \<in> set filled"
  shows "is_turn_boundary (snd e) = provider_barrier items (fst e)"
    and "result_key (call_order items) (snd e) = provider_key items (fst e)"
    and "content_match items e"
proof -
  obtain n where n: "n < length filled" "e = filled ! n"
    using assms(3) by (auto simp: in_set_conv_nth)
  define k where "k = Suc b + n"
  have len: "length filled = t - Suc b" using list_all2_lengthD [OF match] by simp
  with n have k: "Suc b \<le> k" "k < t" by (auto simp: k_def)
  have sm: "slot_match (k, items ! k) e"
    using list_all2_nthD2 [OF match n(1)] n len by (simp add: k_def)
  then have "fst e = k" by (simp add: slot_match_def)
  moreover have "in_response items k"
    using k(1) assms(1) by (auto simp: in_response_def response_at_def intro!: bexI [of _ b])
  moreover have "\<not> is_boundary (items ! k)" using k assms(1) by (auto simp: response_at_def)
  ultimately show "is_turn_boundary (snd e) = provider_barrier items (fst e)"
    "result_key (call_order items) (snd e) = provider_key items (fst e)" "content_match items e"
    using sm slot_match_keys(2) [OF sm] slot_match_keys(3) [OF sm, of "call_order items"]
    by (auto simp: provider_barrier_def provider_key_def content_match_def slot_match_def)
qed

lemma response_segment:
  assumes "response_at items b t"
  obtains r F where
    "normalize_response_history (call_order items) (map (\<lambda>k. (k, items ! k)) [Suc b..<t]) = Some r"
    "segment (provider_barrier items) (provider_key items) (Suc b) t (map fst r)"
    "\<forall>e \<in> set r. content_match items e"
    "set F \<subseteq> set r" "map fst F = filter (\<lambda>k. is_tool_call (items ! k)) [Suc b..<t]"
    "map snd F = sorted_calls (call_order items) (map ((!) items) [Suc b..<t])"
    "mset (map snd r) = mset (map ((!) items) [Suc b..<t])"
proof -
  let ?es = "map (\<lambda>k. (k, items ! k)) [Suc b..<t]" and ?ord = "call_order items"
  obtain filled where filled: "normalize_response_history ?ord ?es =
      Some (arrange (\<lambda>e. is_turn_boundary (snd e)) (\<lambda>e. result_key ?ord (snd e)) filled)"
      (is "_ = Some ?r")
    and match: "list_all2 slot_match ?es filled"
    and calls: "filter is_tool_call (map snd filled) = sorted_calls ?ord (map snd ?es)"
    by (rule normalize_response_arrange)
  let ?F = "filter (\<lambda>e. is_tool_call (snd e)) filled"
  have snd_es: "map snd ?es = map ((!) items) [Suc b..<t]" by simp
  have fst_filled: "map fst filled = [Suc b..<t]"
    using slot_match_filter(1) [OF match] by (simp add: comp_def)
  have "mset (map snd filled) = mset (map snd ?es)"
    by (rule slot_match_mset [OF match]) (simp only: calls sorted_calls_def mset_sort)
  then have mset_r: "mset (map snd ?r) = mset (map ((!) items) [Suc b..<t])"
    unfolding snd_es by (metis mset_arrange mset_map)
  have fst_F: "map fst ?F = filter (\<lambda>k. is_tool_call (items ! k)) [Suc b..<t]"
    using slot_match_filter(2) [OF match] by (simp add: filter_map comp_def)
  have snd_F: "map snd ?F = sorted_calls ?ord (map ((!) items) [Suc b..<t])"
    using calls unfolding snd_es by (simp add: filter_map comp_def)
  have "segment (provider_barrier items) (provider_key items) (Suc b) t (map fst ?r)"
    using slot_in_response(1,2) [OF assms match] by (intro arrange_segment [OF fst_filled])
  then show ?thesis
    using slot_in_response(3) [OF assms match]
    by (intro that [OF filled _ _ _ fst_F snd_F mset_r]) auto
qed

end
