(* ===== verification/Provider_Requests.thy ===== *)
theory Provider_Requests
  imports Provider_Order
begin

text \<open>
  The loop over the responses, the index map and the requests built from the projection: the
  projection never panics, is a permutation of the history without the response boundaries in
  exactly the order of \<open>provider_before\<close>, and presents no tool result ahead of its call.
\<close>

section \<open>The loop over the responses\<close>

definition calls_placed :: "item list \<Rightarrow> (nat \<times> item) list \<Rightarrow> nat \<Rightarrow> nat \<Rightarrow> bool" where
  "calls_placed items mat b t \<longleftrightarrow>
     (\<exists>F. set F \<subseteq> set mat \<and> map fst F = filter (\<lambda>k. is_tool_call (items ! k)) [Suc b..<t] \<and>
        map snd F = sorted_calls (call_order items) (map ((!) items) [Suc b..<t]))"

definition projected_upto :: "item list \<Rightarrow> nat \<Rightarrow> (nat \<times> item) list \<Rightarrow> nat list \<Rightarrow> bool" where
  "projected_upto items n mat bs \<longleftrightarrow>
     set (map fst mat) = {k. k < n \<and> \<not> is_boundary (items ! k)} \<and> distinct (map fst mat) \<and>
     sorted_wrt (provider_before items) (map fst mat) \<and>
     (\<forall>e \<in> set mat. content_match items e) \<and>
     mset (map snd mat) = mset (filter (\<lambda>it. \<not> is_boundary it) (take n items)) \<and>
     bs = filter (\<lambda>k. is_boundary (items ! k)) [0..<n] \<and>
     (\<forall>b t. response_at items b t \<longrightarrow> t \<le> n \<longrightarrow> calls_placed items mat b t)"

lemma calls_placed_mono: "calls_placed items mat b t \<Longrightarrow> set mat \<subseteq> set mat' \<Longrightarrow> calls_placed items mat' b t"
  unfolding calls_placed_def by blast

lemma response_at_step:
  assumes "response_at items b t" "response_at items n stop" "t \<le> stop" "\<not> t \<le> n"
  shows "b = n \<and> t = stop"
proof -
  have "\<not> b < n" using assms by (auto simp: response_at_def)
  moreover have "\<not> n < b" using assms by (auto simp: response_at_def)
  ultimately have "b = n" by simp
  moreover have "\<not> t < stop" using assms by (auto simp: response_at_def)
  ultimately show ?thesis using assms(3) by simp
qed

lemma take_slice:
  "s \<le> t \<Longrightarrow> t \<le> length xs \<Longrightarrow> take t xs = take s xs @ map ((!) xs) [s..<t]"
  by (intro nth_equalityI) (auto simp: nth_append)

lemma take_response:
  assumes "response_at items n stop"
  shows "filter (\<lambda>it. \<not> is_boundary it) (take stop items) =
    filter (\<lambda>it. \<not> is_boundary it) (take n items) @ map ((!) items) [Suc n..<stop]"
proof -
  from assms have n: "n < stop" "stop \<le> length items" "is_boundary (items ! n)"
    and rest: "\<forall>k \<in> set [Suc n..<stop]. \<not> is_boundary (items ! k)"
    by (auto simp: response_at_def)
  have "take stop items = take (Suc n) items @ map ((!) items) [Suc n..<stop]"
    using n by (intro take_slice) auto
  moreover have "take (Suc n) items = take n items @ [items ! n]"
    using n by (intro take_Suc_conv_app_nth) auto
  moreover have "filter (\<lambda>it. \<not> is_boundary it) (map ((!) items) [Suc n..<stop]) =
      map ((!) items) [Suc n..<stop]"
    using rest by (intro filter_True) auto
  ultimately show ?thesis using n by simp
qed

lemma boundaries_response:
  assumes "response_at items n stop"
  shows "filter (\<lambda>k. is_boundary (items ! k)) [0..<stop] =
    filter (\<lambda>k. is_boundary (items ! k)) [0..<n] @ [n]"
proof -
  from assms have n: "n < stop" "is_boundary (items ! n)"
    and rest: "\<forall>k \<in> set [Suc n..<stop]. \<not> is_boundary (items ! k)"
    by (auto simp: response_at_def)
  have "[0..<stop] = [0..<n] @ n # [Suc n..<stop]"
    using n(1) upt_add_eq_append [of 0 n "stop - n"] by (simp add: upt_conv_Cons)
  with n(2) rest show ?thesis by (simp add: filter_empty_conv)
qed

lemma projected_step:
  assumes inv: "projected_upto items n mat bs" and resp: "response_at items n stop"
    and seg: "segment (provider_barrier items) (provider_key items) (Suc n) stop (map fst r)"
    and content: "\<forall>e \<in> set r. content_match items e"
    and calls: "calls_placed items r n stop"
    and items: "mset (map snd r) = mset (map ((!) items) [Suc n..<stop])"
  shows "projected_upto items stop (mat @ r) (bs @ [n])"
proof -
  from resp have n: "n < stop" "stop \<le> length items" "is_boundary (items ! n)"
    and rest: "\<And>k. Suc n \<le> k \<Longrightarrow> k < stop \<Longrightarrow> \<not> is_boundary (items ! k)"
    by (auto simp: response_at_def)
  have fst_mat: "set (map fst mat) = {k. k < n \<and> \<not> is_boundary (items ! k)}"
    and fst_r: "set (map fst r) = {Suc n..<stop}"
    using inv seg by (simp_all add: projected_upto_def segment_def)
  have "set (map fst (mat @ r)) = {k. k < stop \<and> \<not> is_boundary (items ! k)}"
    using fst_mat fst_r n rest by (auto simp: not_less_eq_eq)
  moreover have "distinct (map fst (mat @ r))"
    using inv seg fst_mat fst_r by (auto simp: projected_upto_def segment_def)
  moreover have "sorted_wrt (provider_before items) (map fst (mat @ r))"
  proof -
    have "provider_before items i j" if "i \<in> set (map fst mat)" "j \<in> set (map fst r)" for i j
      using that n provider_before_across [of i n j items] unfolding fst_mat fst_r by auto
    then show ?thesis
      using inv segment_provider_before [OF seg n(2)]
      by (simp add: projected_upto_def sorted_wrt_append)
  qed
  moreover have "\<forall>e \<in> set (mat @ r). content_match items e"
    using inv content by (auto simp: projected_upto_def)
  moreover have "mset (map snd (mat @ r)) = mset (filter (\<lambda>it. \<not> is_boundary it) (take stop items))"
    using inv items unfolding take_response [OF resp] by (simp add: projected_upto_def)
  moreover have "bs @ [n] = filter (\<lambda>k. is_boundary (items ! k)) [0..<stop]"
    using inv unfolding boundaries_response [OF resp] by (simp add: projected_upto_def)
  moreover have "calls_placed items (mat @ r) b t" if "response_at items b t" "t \<le> stop" for b t
  proof (cases "t \<le> n")
    case True
    with inv that have "calls_placed items mat b t" by (auto simp: projected_upto_def)
    then show ?thesis by (rule calls_placed_mono) simp
  next
    case False
    with response_at_step [OF that(1) resp that(2)] calls have "calls_placed items r b t" by simp
    then show ?thesis by (rule calls_placed_mono) simp
  qed
  ultimately show ?thesis unfolding projected_upto_def by blast
qed

lemma response_at_position:
  assumes n: "n < length items" "is_boundary (items ! n)"
  shows "response_at items n (case position is_boundary (drop (Suc n) items) of
    Some offset \<Rightarrow> Suc n + offset | None \<Rightarrow> length items)"
proof (cases "position is_boundary (drop (Suc n) items)")
  case None
  have "\<not> is_boundary (items ! k)" if "Suc n \<le> k" "k < length items" for k
  proof -
    have "drop (Suc n) items ! (k - Suc n) \<in> set (drop (Suc n) items)"
      using that by (intro nth_mem) simp
    with None that show ?thesis by (simp add: position_None_iff)
  qed
  with n None show ?thesis by (simp add: response_at_def)
next
  case (Some offset)
  then have offset: "Suc n + offset < length items" "is_boundary (items ! (Suc n + offset))"
    and before: "\<forall>j < offset. \<not> is_boundary (items ! (Suc n + j))"
    using n(1) by (auto simp: position_Some_iff)
  have "\<not> is_boundary (items ! k)" if "Suc n \<le> k" "k < Suc n + offset" for k
    using before [rule_format, of "k - Suc n"] that by simp
  with n offset show ?thesis unfolding response_at_def Some option.case by auto
qed

lemma materialize_responses_total:
  assumes "projected_upto items n mat bs" "n \<le> length items"
    and "n < length items \<Longrightarrow> is_boundary (items ! n)"
  shows "\<exists>mat' bs'. materialize_responses (call_order items) items n mat bs = Some (mat', bs') \<and>
    projected_upto items (length items) mat' bs'"
  using assms
proof (induction "length items - n" arbitrary: n mat bs rule: less_induct)
  case less
  show ?case
  proof (cases "n < length items")
    case False
    with less.prems show ?thesis by (subst materialize_responses.simps) simp
  next
    case True
    define stop where "stop = (case position is_boundary (drop (Suc n) items) of
        Some offset \<Rightarrow> Suc n + offset | None \<Rightarrow> length items)"
    have resp: "response_at items n stop"
      unfolding stop_def by (rule response_at_position [OF True less.prems(3) [OF True]])
    then have stop: "n < stop" "stop \<le> length items"
      "stop < length items \<Longrightarrow> is_boundary (items ! stop)"
      by (auto simp: response_at_def)
    obtain r F where r: "normalize_response_history (call_order items)
        (map (\<lambda>k. (k, items ! k)) [Suc n..<stop]) = Some r"
      and seg: "segment (provider_barrier items) (provider_key items) (Suc n) stop (map fst r)"
      and "\<forall>e \<in> set r. content_match items e"
      and "set F \<subseteq> set r" "map fst F = filter (\<lambda>k. is_tool_call (items ! k)) [Suc n..<stop]"
        "map snd F = sorted_calls (call_order items) (map ((!) items) [Suc n..<stop])"
      and "mset (map snd r) = mset (map ((!) items) [Suc n..<stop])"
      by (rule response_segment [OF resp])
    then have "projected_upto items stop (mat @ r) (bs @ [n])"
      by (intro projected_step [OF less.prems(1) resp seg]) (auto simp: calls_placed_def)
    moreover have "materialize_responses (call_order items) items n mat bs =
        materialize_responses (call_order items) items stop (mat @ r) (bs @ [n])"
      using True less.prems(3) r enumerate_slice [of "Suc n" stop items] stop
      by (subst materialize_responses.simps) (simp add: stop_def [symmetric] Let_def)
    ultimately show ?thesis using less.hyps [of stop "mat @ r" "bs @ [n]"] stop True by simp
  qed
qed

section \<open>The index map\<close>

lemma record_indices_total:
  assumes "distinct (map fst es)" "\<forall>k \<in> set (map fst es). k < length index"
  shows "\<exists>idx. record_indices p es index = Some idx \<and> length idx = length index \<and>
    (\<forall>q < length es. idx ! fst (es ! q) = p + q) \<and>
    (\<forall>k. k \<notin> set (map fst es) \<longrightarrow> idx ! k = index ! k)"
  using assms
proof (induction p es index rule: record_indices.induct)
  case (2 p k it es index)
  then obtain idx where idx: "record_indices (p + 1) es (index[k := p]) = Some idx"
    "length idx = length index" "\<forall>q < length es. idx ! fst (es ! q) = p + 1 + q"
    "\<forall>j. j \<notin> set (map fst es) \<longrightarrow> idx ! j = index[k := p] ! j"
    by (auto simp: index_set_def)
  moreover from idx(4) 2(2,3) have "idx ! k = p" by simp
  ultimately show ?case
    using 2(2,3) by (auto simp: index_set_def nth_Cons split: nat.split)
qed simp

lemma record_boundaries_total:
  assumes "distinct bs" "\<forall>b \<in> set bs. b < length index"
  shows "\<exists>idx. record_boundaries mat bs index = Some idx \<and> length idx = length index \<and>
    (\<forall>b \<in> set bs. idx ! b = length (takeWhile (\<lambda>(k, _). k < b) mat) - 1) \<and>
    (\<forall>k. k \<notin> set bs \<longrightarrow> idx ! k = index ! k)"
  using assms
proof (induction mat bs index rule: record_boundaries.induct)
  case (2 mat b bs index)
  let ?index = "index[b := length (takeWhile (\<lambda>(k, _). k < b) mat) - 1]"
  from 2 obtain idx where idx: "record_boundaries mat bs ?index = Some idx"
    "length idx = length index"
    "\<forall>b \<in> set bs. idx ! b = length (takeWhile (\<lambda>(k, _). k < b) mat) - 1"
    "\<forall>k. k \<notin> set bs \<longrightarrow> idx ! k = ?index ! k"
    by (auto simp: index_set_def)
  with 2(2,3) show ?case by (auto simp: index_set_def)
qed simp

lemma takeWhile_eq_filter:
  "sorted_wrt (\<lambda>x y. P y \<longrightarrow> P x) xs \<Longrightarrow> takeWhile P xs = filter P xs"
  by (induction xs) (auto simp: filter_empty_conv)

lemma length_takeWhile_boundary:
  assumes "projected_upto items (length items) mat bs" "b < length items" "is_boundary (items ! b)"
  shows "length (takeWhile (\<lambda>(k, _). k < b) mat) =
    length (filter (\<lambda>it. \<not> is_boundary it) (take b items))"
proof -
  let ?ks = "map fst mat"
  from assms(1) have ks: "set ?ks = {k. k < length items \<and> \<not> is_boundary (items ! k)}"
    "distinct ?ks" "sorted_wrt (provider_before items) ?ks"
    by (auto simp: projected_upto_def)
  have "sorted_wrt (\<lambda>i j. j < b \<longrightarrow> i < b) ?ks"
  proof (rule sorted_wrt_mono_rel [OF _ ks(3)])
    fix i j
    assume ij: "i \<in> set ?ks" "j \<in> set ?ks" "provider_before items i j"
    show "j < b \<longrightarrow> i < b"
    proof
      assume "j < b"
      moreover have "i \<noteq> b" "i < length items" using ij(1) assms(3) unfolding ks by auto
      ultimately show "i < b"
        using ij(3) provider_before_across [OF _ _ _ assms(3)] arranged_before_asym
        unfolding provider_before_def by (metis linorder_neqE_nat)
    qed
  qed
  then have "takeWhile (\<lambda>k. k < b) ?ks = filter (\<lambda>k. k < b) ?ks" by (rule takeWhile_eq_filter)
  moreover have "length (takeWhile (\<lambda>(k, _). k < b) mat) = length (takeWhile (\<lambda>k. k < b) ?ks)"
    by (simp add: takeWhile_map comp_def case_prod_unfold)
  moreover have "length (filter (\<lambda>k. k < b) ?ks) = card {k. k < b \<and> \<not> is_boundary (items ! k)}"
    using ks assms(2)
    by (subst distinct_card [symmetric]) (auto intro!: arg_cong [where f = card])
  moreover have "card {k. k < b \<and> \<not> is_boundary (items ! k)} =
      length (filter (\<lambda>it. \<not> is_boundary it) (take b items))"
    using assms(2) by (subst length_filter_conv_card) (auto intro!: arg_cong [where f = card])
  ultimately show ?thesis by simp
qed

section \<open>The projection\<close>

lemma legacy_projected:
  assumes "t \<le> length items" "\<forall>k < t. \<not> is_boundary (items ! k)"
  obtains legacy where
    "normalize_legacy_history (call_order items) (enumerate 0 (take t items)) = Some legacy"
    "projected_upto items t legacy []"
proof -
  define es where "es = map (\<lambda>k. (k, items ! k)) [0..<t]"
  define legacy where "legacy = arrange (\<lambda>e. \<not> is_tool_item (snd e))
    (\<lambda>e. legacy_key (call_order items) (snd e)) es"
  have es: "enumerate 0 (take t items) = es"
    using enumerate_slice [of 0 t items] assms(1) by (simp add: es_def)
  have seg: "segment (provider_barrier items) (provider_key items) 0 t (map fst legacy)"
    unfolding legacy_def es_def by (rule legacy_segment [OF assms])
  have take: "take t items = map ((!) items) [0..<t]" using take_slice [of 0 t items] assms(1) by simp
  have free: "filter (\<lambda>it. \<not> is_boundary it) (take t items) = map snd es"
    unfolding take es_def using assms(2) by (subst filter_True) auto
  have 1: "mset (map snd legacy) = mset (filter (\<lambda>it. \<not> is_boundary it) (take t items))"
    unfolding free legacy_def by (metis mset_arrange mset_map)
  have 2: "\<forall>e \<in> set legacy. content_match items e"
    unfolding legacy_def using assms(2) by (auto simp: content_match_def es_def)
  have 3: "\<not> (response_at items b u \<and> u \<le> t)" for b u
    using assms by (auto simp: response_at_def)
  have 4: "filter (\<lambda>k. is_boundary (items ! k)) [0..<t] = []"
    using assms(2) by (simp add: filter_empty_conv)
  have 5: "set (map fst legacy) = {k. k < t \<and> \<not> is_boundary (items ! k)}" "distinct (map fst legacy)"
    using seg assms(2) by (auto simp: segment_def simp del: set_map)
  have "projected_upto items t legacy []"
    unfolding projected_upto_def 4
    using 1 2 3 5 segment_provider_before [OF seg assms(1)] by blast
  moreover have "normalize_legacy_history (call_order items) (enumerate 0 (take t items)) = Some legacy"
    unfolding es legacy_def by (rule normalize_legacy_arrange)
  ultimately show ?thesis using that by blast
qed

lemma materialize_total:
  obtains mat where
    "projected_upto items (length items) mat (filter (\<lambda>k. is_boundary (items ! k)) [0..<length items])"
    "\<exists>p. materialize_provider_history items = Some p \<and> pp_items p = map snd mat \<and>
      length (pp_index p) = length items \<and>
      (\<forall>q < length mat. pp_index p ! fst (mat ! q) = q) \<and>
      (\<forall>b < length items. is_boundary (items ! b) \<longrightarrow>
         pp_index p ! b = length (takeWhile (\<lambda>(k, _). k < b) mat) - 1)"
proof -
  define t where "t = (case position is_boundary items of Some b \<Rightarrow> b | None \<Rightarrow> length items)"
  have t: "t \<le> length items" "\<forall>k < t. \<not> is_boundary (items ! k)"
    "t < length items \<Longrightarrow> is_boundary (items ! t)"
    by (auto simp: t_def position_Some_iff position_None_iff split: option.splits)
  obtain legacy where legacy: "projected_upto items t legacy []"
    "normalize_legacy_history (call_order items) (enumerate 0 (take t items)) = Some legacy"
    by (rule legacy_projected [OF t(1,2)])
  obtain mat bs where mat: "projected_upto items (length items) mat bs"
    "materialize_responses (call_order items) items t legacy [] = Some (mat, bs)"
    using materialize_responses_total [OF legacy(1) t(1,3)] by blast
  then have bs: "bs = filter (\<lambda>k. is_boundary (items ! k)) [0..<length items]"
    and ks: "set (map fst mat) = {k. k < length items \<and> \<not> is_boundary (items ! k)}"
      "distinct (map fst mat)"
    by (auto simp: projected_upto_def)
  have "\<forall>k \<in> set (map fst mat). k < length (replicate (length items) (0::nat))"
    unfolding ks by simp
  from record_indices_total [OF ks(2) this, of 0] obtain idx where
    idx: "record_indices 0 mat (replicate (length items) 0) = Some idx" "length idx = length items"
    "\<forall>q < length mat. idx ! fst (mat ! q) = q" by auto
  have "distinct bs" "\<forall>b \<in> set bs. b < length idx" unfolding bs using idx(2) by auto
  from record_boundaries_total [OF this, of mat] obtain idx' where
    idx': "record_boundaries mat bs idx = Some idx'" "length idx' = length items"
    "\<forall>b \<in> set bs. idx' ! b = length (takeWhile (\<lambda>(k, _). k < b) mat) - 1"
    "\<forall>k. k \<notin> set bs \<longrightarrow> idx' ! k = idx ! k"
    unfolding idx(2) by blast
  have "fst (mat ! q) \<notin> set bs" if "q < length mat" for q
  proof -
    have "fst (mat ! q) \<in> set (map fst mat)" using that by simp
    then show ?thesis unfolding ks bs by simp
  qed
  with idx' idx have "\<forall>q < length mat. idx' ! fst (mat ! q) = q" by simp
  moreover have "materialize_provider_history items = Some \<lparr>pp_items = map snd mat, pp_index = idx'\<rparr>"
    using legacy(2) mat(2) idx(1) idx'(1)
    by (simp add: materialize_provider_history_def Let_def t_def [symmetric])
  ultimately show ?thesis
    using that [of mat] mat(1) idx'(2,3) unfolding bs by auto
qed

definition projects_to ::
  "item list \<Rightarrow> provider_history_projection \<Rightarrow> (nat \<times> item) list \<Rightarrow> bool" where
  "projects_to items p mat \<longleftrightarrow>
     projected_upto items (length items) mat (filter (\<lambda>k. is_boundary (items ! k)) [0..<length items]) \<and>
     materialize_provider_history items = Some p \<and> pp_items p = map snd mat \<and>
     length (pp_index p) = length items \<and> (\<forall>q < length mat. pp_index p ! fst (mat ! q) = q) \<and>
     (\<forall>b < length items. is_boundary (items ! b) \<longrightarrow>
        pp_index p ! b = length (takeWhile (\<lambda>(k, _). k < b) mat) - 1)"

lemma projects_to_total: obtains p mat where "projects_to items p mat"
  using materialize_total [of items] unfolding projects_to_def by metis

lemma projects_to_slot:
  assumes "projects_to items p mat" "i < length items" "\<not> is_boundary (items ! i)"
  shows "pp_index p ! i < length mat"
    and "mat ! (pp_index p ! i) = (i, pp_items p ! (pp_index p ! i))"
proof -
  have "i \<in> set (map fst mat)"
    using assms unfolding projects_to_def projected_upto_def by simp
  then obtain q where q: "q < length mat" "fst (mat ! q) = i" by (auto simp: in_set_conv_nth)
  with assms(1) have idx: "pp_index p ! i = q" "pp_items p = map snd mat"
    unfolding projects_to_def by auto
  from q idx show "pp_index p ! i < length mat" by simp
  from q idx show "mat ! (pp_index p ! i) = (i, pp_items p ! (pp_index p ! i))"
    by (simp add: prod_eq_iff)
qed

lemma projects_to_member:
  assumes "projects_to items p mat" "(k, it) \<in> set mat"
  shows "pp_items p ! (pp_index p ! k) = it" "k < length items" "\<not> is_boundary (items ! k)"
proof -
  obtain q where q: "q < length mat" "mat ! q = (k, it)" using assms(2) by (auto simp: in_set_conv_nth)
  with assms(1) have "pp_index p ! k = q" "pp_items p ! q = it"
    unfolding projects_to_def by (metis fst_conv, simp)
  then show "pp_items p ! (pp_index p ! k) = it" by simp
  have "k \<in> set (map fst mat)" using assms(2) by force
  with assms(1) show "k < length items" "\<not> is_boundary (items ! k)"
    unfolding projects_to_def projected_upto_def by simp_all
qed

lemma projects_to_order:
  assumes "projects_to items p mat"
    and i: "i < length items" "\<not> is_boundary (items ! i)"
    and j: "j < length items" "\<not> is_boundary (items ! j)" and "i \<noteq> j"
  shows "pp_index p ! i < pp_index p ! j \<longleftrightarrow> provider_before items i j"
proof -
  note slot = projects_to_slot [OF assms(1)]
  have sorted: "sorted_wrt (provider_before items) (map fst mat)"
    using assms(1) by (simp add: projects_to_def projected_upto_def)
  have forward: "provider_before items a b"
    if "a < length items" "\<not> is_boundary (items ! a)" "b < length items" "\<not> is_boundary (items ! b)"
      "pp_index p ! a < pp_index p ! b" for a b
    using sorted_wrt_nth_less [OF sorted that(5)] slot [OF that(1,2)] slot [OF that(3,4)] by simp
  have "pp_index p ! i \<noteq> pp_index p ! j"
    using slot(2) [OF i] slot(2) [OF j] assms(6) by (metis prod.inject)
  then show ?thesis
    using forward [OF i j] forward [OF j i] arranged_before_asym
    unfolding provider_before_def by (metis linorder_neqE_nat)
qed

lemma projects_to_calls:
  assumes "projects_to items p mat" "response_at items b t"
  shows "map (\<lambda>k. pp_items p ! (pp_index p ! k)) (filter (\<lambda>k. is_tool_call (items ! k)) [Suc b..<t]) =
    sorted_calls (call_order items) (map ((!) items) [Suc b..<t])"
proof -
  have "calls_placed items mat b t"
    using assms unfolding projects_to_def projected_upto_def by (auto simp: response_at_def)
  then obtain F where F: "set F \<subseteq> set mat"
    "map fst F = filter (\<lambda>k. is_tool_call (items ! k)) [Suc b..<t]"
    "map snd F = sorted_calls (call_order items) (map ((!) items) [Suc b..<t])"
    unfolding calls_placed_def by blast
  have "map (\<lambda>k. pp_items p ! (pp_index p ! k)) (map fst F) = map snd F"
    using F(1) projects_to_member(1) [OF assms(1)] by auto
  then show ?thesis unfolding F(2,3) .
qed

lemma projects_to_content:
  assumes "projects_to items p mat" "i < length items" "\<not> is_boundary (items ! i)"
    and "\<not> (in_response items i \<and> is_tool_call (items ! i))"
  shows "pp_items p ! (pp_index p ! i) = items ! i"
proof -
  have "mat ! (pp_index p ! i) \<in> set mat" using projects_to_slot(1) [OF assms(1-3)] by simp
  then have "content_match items (i, pp_items p ! (pp_index p ! i))"
    using assms(1) unfolding projects_to_slot(2) [OF assms(1-3)]
    by (auto simp: projects_to_def projected_upto_def)
  with assms(4) show ?thesis by (auto simp: content_match_def split: if_splits)
qed

lemma projects_to_boundary:
  assumes "projects_to items p mat" "b < length items" "is_boundary (items ! b)"
  shows "pp_index p ! b = length (filter (\<lambda>it. \<not> is_boundary it) (take b items)) - 1"
proof -
  have "pp_index p ! b = length (takeWhile (\<lambda>(k, _). k < b) mat) - 1"
    using assms unfolding projects_to_def by blast
  also have "length (takeWhile (\<lambda>(k, _). k < b) mat) =
      length (filter (\<lambda>it. \<not> is_boundary it) (take b items))"
    by (rule length_takeWhile_boundary [OF assms(1) [unfolded projects_to_def, THEN conjunct1] assms(2,3)])
  finally show ?thesis .
qed

lemma projects_to_mset:
  assumes "projects_to items p mat"
  shows "mset (pp_items p) = mset (filter (\<lambda>it. \<not> is_boundary it) items)"
    and "length (pp_items p) = length mat"
  using assms by (simp_all add: projects_to_def projected_upto_def)

text \<open>
  C34. The provider projection never panics. It holds exactly the items of the history other than
  response boundaries. Two items stand in the projected order exactly when \<open>provider_before\<close>
  puts one before the other: barriers keep their place, and between two barriers tool results
  follow everything else in the order of their calls. Every item outside the call slots of a
  response is found at its mapped index; the call slots of a response hold its calls in call
  order; a boundary maps to the last item before it.
\<close>

theorem provider_projection_exact:
  shows "\<exists>p. materialize_provider_history items = Some p \<and>
    mset (pp_items p) = mset (filter (\<lambda>it. \<not> is_boundary it) items) \<and>
    length (pp_index p) = length items \<and>
    (\<forall>i < length items. \<not> is_boundary (items ! i) \<longrightarrow>
       pp_index p ! i < length (pp_items p) \<and>
       (in_response items i \<and> is_tool_call (items ! i) \<or>
        pp_items p ! (pp_index p ! i) = items ! i)) \<and>
    (\<forall>i < length items. \<forall>j < length items.
       \<not> is_boundary (items ! i) \<longrightarrow> \<not> is_boundary (items ! j) \<longrightarrow> i \<noteq> j \<longrightarrow>
       (pp_index p ! i < pp_index p ! j \<longleftrightarrow> provider_before items i j)) \<and>
    (\<forall>b t. response_at items b t \<longrightarrow>
       map (\<lambda>k. pp_items p ! (pp_index p ! k)) (filter (\<lambda>k. is_tool_call (items ! k)) [Suc b..<t]) =
       sorted_calls (call_order items) (map ((!) items) [Suc b..<t])) \<and>
    (\<forall>b < length items. is_boundary (items ! b) \<longrightarrow>
       pp_index p ! b = length (filter (\<lambda>it. \<not> is_boundary it) (take b items)) - 1)"
proof -
  obtain p mat where p: "projects_to items p mat" by (rule projects_to_total)
  have slots: "\<forall>i < length items. \<not> is_boundary (items ! i) \<longrightarrow>
      pp_index p ! i < length (pp_items p) \<and>
      (in_response items i \<and> is_tool_call (items ! i) \<or> pp_items p ! (pp_index p ! i) = items ! i)"
    using projects_to_slot(1) [OF p] projects_to_content [OF p] projects_to_mset(2) [OF p] by metis
  have order: "\<forall>i < length items. \<forall>j < length items.
      \<not> is_boundary (items ! i) \<longrightarrow> \<not> is_boundary (items ! j) \<longrightarrow> i \<noteq> j \<longrightarrow>
      (pp_index p ! i < pp_index p ! j \<longleftrightarrow> provider_before items i j)"
    by (simp add: projects_to_order [OF p])
  show ?thesis
    by (intro exI [of _ p] conjI slots order allI impI projects_to_mset(1) [OF p]
        projects_to_calls [OF p] projects_to_boundary [OF p])
      (use p in \<open>simp_all add: projects_to_def\<close>)
qed

section \<open>No result ahead of its call\<close>

text \<open>A response keeps its calls in one region: no user or system message stands between two of
  them.\<close>

definition calls_together :: "item list \<Rightarrow> bool" where
  "calls_together items \<longleftrightarrow>
     (\<forall>j \<in> set [0..<length items]. \<forall>i \<in> set [0..<j].
        is_tool_call (items ! i) \<and> is_tool_call (items ! j) \<and> in_response items i \<and>
        \<not> (\<exists>k \<in> set [i..<j]. is_boundary (items ! k)) \<longrightarrow>
        \<not> (\<exists>k \<in> set [i..<j]. is_turn_boundary (items ! k)))"

lemma response_exists:
  assumes "in_response items i" "i < length items" "\<not> is_boundary (items ! i)"
  obtains b t where "response_at items b t" "b < i" "i < t"
proof -
  define b where "b = Max {b. b < i \<and> is_boundary (items ! b)}"
  have fin: "finite {b. b < i \<and> is_boundary (items ! b)}" by simp
  have "{b. b < i \<and> is_boundary (items ! b)} \<noteq> {}" using assms(1) by (auto simp: in_response_def)
  from Max_in [OF fin this] have b: "b < i" "is_boundary (items ! b)" by (simp_all add: b_def)
  have last: "\<not> is_boundary (items ! k)" if "b < k" "k < i" for k
  proof
    assume "is_boundary (items ! k)"
    with that have "k \<le> b" unfolding b_def by (intro Max_ge fin) simp
    with that show False by simp
  qed
  define t where "t = (case position is_boundary (drop (Suc b) items) of
    Some offset \<Rightarrow> Suc b + offset | None \<Rightarrow> length items)"
  have resp: "response_at items b t"
    unfolding t_def using b assms(2) by (intro response_at_position) auto
  moreover have "i < t"
  proof (rule ccontr)
    assume "\<not> i < t"
    then have "b < t" "t < length items" "is_boundary (items ! t)" "t \<le> i"
      using resp assms(2) by (auto simp: response_at_def)
    with last [of t] assms(3) show False by (cases "t = i") auto
  qed
  ultimately show ?thesis using that b by blast
qed

lemma provider_before_call_result:
  assumes "k < length items" "j < length items" "is_tool_call (items ! k)" "is_tool_result (items ! j)"
    and "in_response items k \<longleftrightarrow> in_response items j"
    and "k < j \<or> \<not> fenced (provider_barrier items) id (set [0..<length items]) k j"
  shows "provider_before items k j"
proof -
  obtain c t where "items ! k = ToolCall c" "items ! j = ToolResult t"
    using assms(3,4) by (cases "items ! k"; cases "items ! j") auto
  then have "provider_key items k < provider_key items j"
    using assms(5) by (simp add: provider_key_def legacy_key_def less_prod_simp)
  with assms(6) show ?thesis by (auto simp: provider_before_def arranged_before_def)
qed

lemma call_slot_exists:
  assumes p: "projects_to items p mat" and resp: "response_at items b t"
    and i: "b < i" "i < t" "is_tool_call (items ! i)"
  obtains k where "b < k" "k < t" "is_tool_call (items ! k)"
    "pp_items p ! (pp_index p ! k) = items ! i"
proof -
  have "items ! i \<in> set (sorted_calls (call_order items) (map ((!) items) [Suc b..<t]))"
    using i by (simp add: sorted_calls_def)
  then obtain k where "k \<in> set [Suc b..<t]" "is_tool_call (items ! k)"
    "pp_items p ! (pp_index p ! k) = items ! i"
    unfolding projects_to_calls [OF p resp, symmetric] by auto
  with that [of k] show ?thesis by simp
qed

lemma same_region_not_fenced:
  assumes "calls_together items" "i < k" "k < length items" "is_tool_call (items ! i)"
    "is_tool_call (items ! k)" "in_response items i" "i < j"
    and free: "\<And>l. i \<le> l \<Longrightarrow> l \<le> k \<Longrightarrow> \<not> is_boundary (items ! l)"
  shows "\<not> fenced (provider_barrier items) id (set [0..<length items]) k j \<or> k < j"
proof (cases "k < j")
  case False
  have "\<not> provider_barrier items l" if "i \<le> l" "l \<le> k" for l
  proof -
    have "in_response items l" using assms(6) that(1) by (auto simp: in_response_def)
    moreover have "\<not> is_turn_boundary (items ! l)"
    proof (cases "l = k")
      case True
      with assms(5) show ?thesis by (cases "items ! k") auto
    next
      case False
      have "\<forall>j \<in> set [0..<length items]. \<forall>i \<in> set [0..<j].
          is_tool_call (items ! i) \<and> is_tool_call (items ! j) \<and> in_response items i \<and>
          \<not> (\<exists>k \<in> set [i..<j]. is_boundary (items ! k)) \<longrightarrow>
          \<not> (\<exists>k \<in> set [i..<j]. is_turn_boundary (items ! k))"
        using assms(1) by (simp only: calls_together_def)
      from this [rule_format, of k i] have "\<not> (\<exists>l \<in> set [i..<k]. is_turn_boundary (items ! l))"
        using assms(2-6) free by auto
      with that False show ?thesis by auto
    qed
    ultimately show ?thesis using free [OF that] by (simp add: provider_barrier_def)
  qed
  with assms(7) False show ?thesis by (auto simp: fenced_def)
qed simp

lemma result_after_call_slot:
  assumes p: "projects_to items p mat" and "calls_together items" and ij: "i < j" "j < length items"
    and call: "is_tool_call (items ! i)" and res: "is_tool_result (items ! j)"
    and resp: "in_response items i"
  shows "\<exists>k < length items. \<not> is_boundary (items ! k) \<and> k \<noteq> j \<and>
    provider_before items k j \<and> pp_items p ! (pp_index p ! k) = items ! i"
proof -
  have i: "\<not> is_boundary (items ! i)" using call by (cases "items ! i") auto
  obtain b t where bt: "response_at items b t" "b < i" "i < t"
    by (rule response_exists [OF resp less_trans [OF ij] i])
  then have t: "t \<le> length items" "t = length items \<or> is_boundary (items ! t)"
    and free: "\<And>l. b < l \<Longrightarrow> l < t \<Longrightarrow> \<not> is_boundary (items ! l)"
    by (auto simp: response_at_def)
  obtain k where k: "b < k" "k < t" "is_tool_call (items ! k)"
    "pp_items p ! (pp_index p ! k) = items ! i"
    by (rule call_slot_exists [OF p bt call])
  have "k \<noteq> j" using k(3) res by (cases "items ! k") auto
  have "provider_before items k j"
  proof (cases "t < j")
    case True
    with k t ij show ?thesis by (intro provider_before_across [of k t j]) auto
  next
    case False
    moreover have "t \<noteq> j" using t(2) ij(2) res by (cases "items ! j") auto
    ultimately have "j < t" by simp
    have in_resp: "in_response items l" if "b < l" for l
      using that bt(1) by (auto simp: in_response_def response_at_def intro!: bexI [of _ b])
    have k_len: "k < length items" using k(2) t(1) by simp
    have "k < j \<or> \<not> fenced (provider_barrier items) id (set [0..<length items]) k j"
    proof (cases "i < k")
      case True
      have "\<not> is_boundary (items ! l)" if "i \<le> l" "l \<le> k" for l
        using free [of l] that bt(2) k(2) by simp
      with same_region_not_fenced [OF assms(2) True k_len call k(3) resp ij(1)] show ?thesis by blast
    next
      case False
      with ij(1) show ?thesis by simp
    qed
    moreover have "in_response items k" "in_response items j"
      using in_resp k(1) bt(2) ij(1) by simp_all
    ultimately show ?thesis
      by (intro provider_before_call_result [OF k_len ij(2) k(3) res]) simp_all
  qed
  moreover have "\<not> is_boundary (items ! k)" using free k(1,2) by blast
  ultimately show ?thesis using k(2,4) t(1) \<open>k \<noteq> j\<close> by (intro exI [of _ k]) simp
qed

text \<open>
  When no user or system message stands between two calls of one response, every tool
  call that precedes a tool result in the history is presented ahead of that result.
\<close>

theorem result_follows_call:
  assumes "materialize_provider_history items = Some p" "calls_together items"
    and "i < j" "j < length items" "is_tool_call (items ! i)" "is_tool_result (items ! j)"
  shows "pp_items p ! (pp_index p ! j) = items ! j \<and>
    (\<exists>q < pp_index p ! j. pp_items p ! q = items ! i)"
proof -
  obtain p' mat where "projects_to items p' mat" by (rule projects_to_total)
  with assms(1) have p: "projects_to items p mat" by (auto simp: projects_to_def)
  have ij: "\<not> is_boundary (items ! i)" "\<not> is_boundary (items ! j)" "\<not> is_tool_call (items ! j)"
    using assms(5,6) by (cases "items ! i"; cases "items ! j"; simp)+
  have j: "pp_items p ! (pp_index p ! j) = items ! j"
    using projects_to_content [OF p assms(4) ij(2)] ij(3) by blast
  have "\<exists>k < length items. \<not> is_boundary (items ! k) \<and> k \<noteq> j \<and>
      provider_before items k j \<and> pp_items p ! (pp_index p ! k) = items ! i"
  proof (cases "in_response items i")
    case True
    then show ?thesis by (rule result_after_call_slot [OF p assms(2-6)])
  next
    case False
    then have "pp_items p ! (pp_index p ! i) = items ! i"
      using projects_to_content [OF p _ ij(1)] assms(3,4) by auto
    moreover have "provider_before items i j"
    proof (cases "in_response items j")
      case True
      then obtain b where b: "b < j" "is_boundary (items ! b)" by (auto simp: in_response_def)
      with False ij(1) have "i < b" by (cases i b rule: linorder_cases) (auto simp: in_response_def)
      then show ?thesis by (rule provider_before_across [OF _ b(1) assms(4) b(2)])
    next
      case resp: False
      show ?thesis
        by (rule provider_before_call_result) (simp_all add: assms False resp less_trans [OF assms(3,4)])
    qed
    ultimately show ?thesis using ij(1) assms(3,4) by (intro exI [of _ i]) auto
  qed
  then show ?thesis
    using j projects_to_order [OF p _ _ assms(4) ij(2)] by blast
qed

section \<open>Examples\<close>

text \<open>A response whose second call finished before its first call was complete.\<close>

definition early_results :: "item list" where
  "early_results =
     [AssistantResponseBoundary ''r1'',
      with_tool_execution_metadata 1 (Some ''x1'') (item_tool_call ''b'' ''second'' ''{}''),
      tool_result ''b'' ''second result'',
      assistant_message ''trailing text'',
      with_tool_execution_metadata 0 (Some ''x0'') (item_tool_call ''a'' ''first'' ''{}''),
      tool_result ''a'' ''first result'']"

theorem provider_projection_exact_witness:
  "\<exists>p. materialize_provider_history early_results = Some p \<and>
    pp_index p ! 5 < pp_index p ! 2 \<and> pp_items p ! (pp_index p ! 3) = assistant_message ''trailing text'' \<and>
    pp_index p ! 0 = 0"
proof -
  have facts: "provider_before early_results 5 2" "\<not> is_tool_call (early_results ! 3)"
    "\<not> is_boundary (early_results ! 2)" "\<not> is_boundary (early_results ! 3)"
    "\<not> is_boundary (early_results ! 5)" "is_boundary (early_results ! 0)"
    by code_simp+
  have list: "length early_results = 6" "early_results ! 3 = assistant_message ''trailing text''"
    by (simp_all add: early_results_def)
  from provider_projection_exact [of early_results] show ?thesis
  proof (elim exE conjE, goal_cases)
    case (1 p)
    from 1(4) [rule_format, of 3] 1(5) [rule_format, of 5 2] 1(7) [rule_format, of 0] 1(1) facts list
    show ?case by (intro exI [of _ p]) simp
  qed
qed

theorem result_follows_call_witness:
  "\<exists>p q. materialize_provider_history early_results = Some p \<and> q < pp_index p ! 5 \<and>
    pp_items p ! q = early_results ! 1"
proof -
  have "calls_together early_results" "is_tool_call (early_results ! 1)"
    "is_tool_result (early_results ! 5)" by code_simp+
  moreover obtain p mat where "projects_to early_results p mat" by (rule projects_to_total)
  moreover have "length early_results = 6" by (simp add: early_results_def)
  ultimately show ?thesis
    using result_follows_call [of early_results p 1 5] by (auto simp: projects_to_def)
qed

text \<open>Without the condition on calls the order can be wrong: the calls of a response are put
  into call order across a user message that stands between them, while the results stay on their
  side of it, so the result of \<open>b\<close> is presented ahead of its call.\<close>

definition split_response :: "item list" where
  "split_response =
     [AssistantResponseBoundary ''r1'',
      with_tool_execution_metadata 1 (Some ''x1'') (item_tool_call ''b'' ''second'' ''{}''),
      tool_result ''b'' ''second result'',
      user_message ''hold on'',
      with_tool_execution_metadata 0 (Some ''x0'') (item_tool_call ''a'' ''first'' ''{}''),
      tool_result ''a'' ''first result'']"

lemma split_response_result_first:
  "map_option pp_items (materialize_provider_history split_response) =
     Some [split_response ! 4, split_response ! 2, split_response ! 3, split_response ! 1, split_response ! 5]"
  by code_simp

end
