(* ===== verification/Provider_Stability.thy ===== *)
theory Provider_Stability
  imports Provider_Requests "HOL-Library.FuncSet"
begin

text \<open>
  Requests built from the projection: what \<open>build_request\<close> sends, that its cache anchor is in
  range, and that what was sent of a completed part of the history is sent unchanged, item by
  item, in every later request, which is what prompt caching relies on.
\<close>

section \<open>Call order of an extended history\<close>

definition call_ids :: "item list \<Rightarrow> string list" where
  "call_ids items = List.map_filter (\<lambda>it. case it of ToolCall c \<Rightarrow> Some (tc_call_id c) | _ \<Rightarrow> None) items"

definition tool_ids :: "item list \<Rightarrow> string list" where
  "tool_ids items = List.map_filter (\<lambda>it. case it of ToolCall c \<Rightarrow> Some (tc_call_id c)
     | ToolResult t \<Rightarrow> Some (tr_call_id t) | _ \<Rightarrow> None) items"

lemma call_order_from_append:
  "\<exists>n'. call_order_from n (xs @ ys) ord = call_order_from n' ys (call_order_from n xs ord)"
  by (induction n xs ord rule: call_order_from.induct) (auto simp del: fun_upd_apply)

lemma call_order_from_other:
  "c \<notin> set (call_ids ys) \<Longrightarrow> call_order_from n ys ord c = ord c"
  by (induction n ys ord rule: call_order_from.induct) (auto simp: call_ids_def map_filter_simps)

lemma call_order_append:
  assumes "set (tool_ids xs) \<inter> set (call_ids ys) = {}" "c \<in> set (tool_ids xs)"
  shows "call_order (xs @ ys) c = call_order xs c"
proof -
  obtain n' where "call_order (xs @ ys) = call_order_from n' ys (call_order xs)"
    using call_order_from_append [of 0 xs ys Map.empty] by (auto simp: call_order_def)
  with assms show ?thesis using call_order_from_other by fastforce
qed

lemma tool_ids_nth:
  assumes "k < length xs"
  shows "xs ! k = ToolCall c \<Longrightarrow> tc_call_id c \<in> set (tool_ids xs)"
    and "xs ! k = ToolResult t \<Longrightarrow> tr_call_id t \<in> set (tool_ids xs)"
proof -
  have "xs ! k \<in> set xs" using assms by simp
  then show "xs ! k = ToolCall c \<Longrightarrow> tc_call_id c \<in> set (tool_ids xs)"
    "xs ! k = ToolResult t \<Longrightarrow> tr_call_id t \<in> set (tool_ids xs)"
    by (force simp: tool_ids_def List.map_filter_def)+
qed

lemma insort_key_cong:
  "f x = g x \<Longrightarrow> (\<And>y. y \<in> set ys \<Longrightarrow> f y = g y) \<Longrightarrow> insort_key f x ys = insort_key g x ys"
  by (induction ys) auto

lemma sort_key_cong: "(\<And>x. x \<in> set xs \<Longrightarrow> f x = g x) \<Longrightarrow> sort_key f xs = sort_key g xs"
  by (induction xs) (auto intro!: insort_key_cong)

section \<open>The projection of an extended history\<close>

definition extended :: "item list \<Rightarrow> string \<Rightarrow> item list \<Rightarrow> item list" where
  "extended xs r ys = xs @ AssistantResponseBoundary r # ys"

lemma extended_nth: "k < length xs \<Longrightarrow> extended xs r ys ! k = xs ! k"
  and extended_boundary: "is_boundary (extended xs r ys ! length xs)"
  and extended_length: "length xs < length (extended xs r ys)"
  by (simp_all add: extended_def nth_append)

lemma extended_order:
  assumes "set (tool_ids xs) \<inter> set (call_ids ys) = {}" "c \<in> set (tool_ids xs)"
  shows "order_of (call_order (extended xs r ys)) c = order_of (call_order xs) c"
proof -
  have "set (tool_ids xs) \<inter> set (call_ids (AssistantResponseBoundary r # ys)) = {}"
    using assms(1) by (simp add: call_ids_def map_filter_simps)
  from call_order_append [OF this assms(2)] show ?thesis
    by (simp add: order_of_def extended_def)
qed

lemma extended_call_key:
  assumes "set (tool_ids xs) \<inter> set (call_ids ys) = {}" "k < length xs" "xs ! k = ToolCall c"
  shows "call_key (call_order (extended xs r ys)) c = call_key (call_order xs) c"
  using extended_order [OF assms(1) tool_ids_nth(1) [OF assms(2,3)]]
  by (simp add: call_key_def split: option.split)

lemma extended_keys:
  assumes ids: "set (tool_ids xs) \<inter> set (call_ids ys) = {}" and k: "k < length xs"
  shows "in_response (extended xs r ys) k = in_response xs k"
    and "provider_barrier (extended xs r ys) k = provider_barrier xs k"
    and "provider_key (extended xs r ys) k = provider_key xs k"
proof -
  show resp: "in_response (extended xs r ys) k = in_response xs k"
    using k by (auto simp: in_response_def extended_nth)
  then show "provider_barrier (extended xs r ys) k = provider_barrier xs k"
    using k by (simp add: provider_barrier_def extended_nth)
  show "provider_key (extended xs r ys) k = provider_key xs k"
    using resp k extended_call_key [OF ids k] extended_order [OF ids tool_ids_nth(2) [OF k]]
    by (cases "xs ! k") (simp_all add: provider_key_def legacy_key_def extended_nth)
qed

lemma extended_before:
  assumes "set (tool_ids xs) \<inter> set (call_ids ys) = {}" "i < length xs" "j < length xs"
  shows "provider_before (extended xs r ys) i j = provider_before xs i j"
  unfolding provider_before_def
  by (rule arranged_before_cong)
    (use assms extended_length [of xs r ys] in \<open>auto simp: extended_keys [OF assms(1)]\<close>)

lemma extended_response:
  assumes "response_at xs b t"
  shows "response_at (extended xs r ys) b t"
  using assms extended_length [of xs r ys] extended_boundary [of xs r ys]
  by (cases "t = length xs") (auto simp: response_at_def extended_nth)

lemma extended_sorted_calls:
  assumes ids: "set (tool_ids xs) \<inter> set (call_ids ys) = {}" and "t \<le> length xs"
  shows "sorted_calls (call_order (extended xs r ys)) (map ((!) (extended xs r ys)) [s..<t]) =
    sorted_calls (call_order xs) (map ((!) xs) [s..<t])"
proof -
  have same: "map ((!) (extended xs r ys)) [s..<t] = map ((!) xs) [s..<t]"
    using assms(2) by (simp add: extended_nth)
  have "the (response_call_key (call_order (extended xs r ys)) it) =
      the (response_call_key (call_order xs) it)"
    if it: "it \<in> set (filter is_tool_call (map ((!) xs) [s..<t]))" for it
  proof -
    from it have "is_tool_call it" by simp
    then obtain c where "it = ToolCall c" by (auto elim: is_tool_call.elims)
    moreover from it obtain k where "k \<in> {s..<t}" "xs ! k = it" by auto
    moreover from this assms(2) have "k < length xs" by simp
    ultimately show ?thesis using extended_call_key [OF ids, of k c r] by simp
  qed
  then show ?thesis
    unfolding same sorted_calls_def by (rule sort_key_cong)
qed


lemma index_as_rank:
  assumes p: "projects_to items p mat" and i: "i < length items" "\<not> is_boundary (items ! i)"
  shows "pp_index p ! i =
    card {k. k < length items \<and> \<not> is_boundary (items ! k) \<and> k \<noteq> i \<and> provider_before items k i}"
proof -
  let ?K = "{k. k < length items \<and> \<not> is_boundary (items ! k) \<and> k \<noteq> i \<and> provider_before items k i}"
  have "bij_betw (\<lambda>q. fst (mat ! q)) {..<pp_index p ! i} ?K"
  proof (rule bij_betwI [where g = "(!) (pp_index p)"])
    show "(\<lambda>q. fst (mat ! q)) \<in> {..<pp_index p ! i} \<rightarrow> ?K"
    proof (intro Pi_I)
      fix q assume "q \<in> {..<pp_index p ! i}"
      then have q: "q < pp_index p ! i" "q < length mat" using projects_to_slot(1) [OF p i] by auto
      let ?k = "fst (mat ! q)"
      have "(?k, snd (mat ! q)) \<in> set mat" using q(2) by simp
      from projects_to_member(2,3) [OF p this] have k: "?k < length items" "\<not> is_boundary (items ! ?k)" .
      have idx: "pp_index p ! ?k = q" using p q(2) by (simp add: projects_to_def)
      with q have "?k \<noteq> i" by auto
      with k idx q(1) projects_to_order [OF p k i] show "?k \<in> ?K" by simp
    qed
    show "(!) (pp_index p) \<in> ?K \<rightarrow> {..<pp_index p ! i}"
      using projects_to_order [OF p _ _ i] by auto
    show "pp_index p ! fst (mat ! q) = q" if "q \<in> {..<pp_index p ! i}" for q
      using that p projects_to_slot(1) [OF p i] by (simp add: projects_to_def)
    show "fst (mat ! (pp_index p ! k)) = k" if "k \<in> ?K" for k
      using that projects_to_slot(2) [OF p, of k] by simp
  qed
  then show ?thesis by (auto dest: bij_betw_same_card)
qed

lemma extended_index:
  assumes ids: "set (tool_ids xs) \<inter> set (call_ids ys) = {}"
    and p: "projects_to xs p mat" and p': "projects_to (extended xs r ys) p' mat'"
    and i: "i < length xs" "\<not> is_boundary (xs ! i)"
  shows "pp_index p' ! i = pp_index p ! i"
proof -
  let ?items = "extended xs r ys"
  have "{k. k < length ?items \<and> \<not> is_boundary (?items ! k) \<and> k \<noteq> i \<and> provider_before ?items k i} =
      {k. k < length xs \<and> \<not> is_boundary (xs ! k) \<and> k \<noteq> i \<and> provider_before xs k i}"
  proof (intro set_eqI)
    fix k
    have "\<not> provider_before ?items k i" if "length xs < k" "k < length ?items"
      using provider_before_across [OF i(1) that extended_boundary]
      unfolding provider_before_def by (rule arranged_before_asym)
    then show "k \<in> {k. k < length ?items \<and> \<not> is_boundary (?items ! k) \<and> k \<noteq> i \<and> provider_before ?items k i} \<longleftrightarrow>
        k \<in> {k. k < length xs \<and> \<not> is_boundary (xs ! k) \<and> k \<noteq> i \<and> provider_before xs k i}"
      using extended_before [OF ids _ i(1), of k r] extended_boundary [of xs r ys]
        extended_length [of xs r ys]
      by (cases k "length xs" rule: linorder_cases) (auto simp: extended_nth)
  qed
  moreover have "i < length ?items" "\<not> is_boundary (?items ! i)"
    using i extended_length [of xs r ys] by (simp_all add: extended_nth)
  ultimately show ?thesis using index_as_rank [OF p' _ _] index_as_rank [OF p i] by simp
qed

lemma extended_content:
  assumes ids: "set (tool_ids xs) \<inter> set (call_ids ys) = {}"
    and p: "projects_to xs p mat" and p': "projects_to (extended xs r ys) p' mat'"
    and i: "i < length xs" "\<not> is_boundary (xs ! i)"
  shows "pp_items p' ! (pp_index p' ! i) = pp_items p ! (pp_index p ! i)"
proof (cases "in_response xs i \<and> is_tool_call (xs ! i)")
  case False
  moreover have "i < length (extended xs r ys)" using i(1) extended_length [of xs r ys] by simp
  ultimately show ?thesis
    using projects_to_content [OF p i] projects_to_content [OF p', of i] i
    by (simp add: extended_nth extended_keys [OF ids])
next
  case True
  then obtain b t where bt: "response_at xs b t" "b < i" "i < t"
    using response_exists i by blast
  then have t: "t \<le> length xs" by (simp add: response_at_def)
  have slots: "filter (\<lambda>k. is_tool_call (extended xs r ys ! k)) [Suc b..<t] =
      filter (\<lambda>k. is_tool_call (xs ! k)) [Suc b..<t]"
    using t by (intro filter_cong) (auto simp: extended_nth)
  have "map (\<lambda>k. pp_items p' ! (pp_index p' ! k)) (filter (\<lambda>k. is_tool_call (xs ! k)) [Suc b..<t]) =
      map (\<lambda>k. pp_items p ! (pp_index p ! k)) (filter (\<lambda>k. is_tool_call (xs ! k)) [Suc b..<t])"
    using projects_to_calls [OF p bt(1)] projects_to_calls [OF p' extended_response [OF bt(1)]]
    unfolding slots extended_sorted_calls [OF ids t] by simp
  moreover have "i \<in> set (filter (\<lambda>k. is_tool_call (xs ! k)) [Suc b..<t])" using True bt by simp
  ultimately show ?thesis by (meson map_eq_conv)
qed

text \<open>
  C37. When a further response is appended to a history and its calls use fresh identifiers,
  what the provider was sent before is a prefix of what it is sent afterwards, item by item, and
  every earlier index, response boundaries included, keeps its projected index.
\<close>

theorem projection_prefix_stable:
  assumes "set (tool_ids xs) \<inter> set (call_ids ys) = {}"
    and "materialize_provider_history xs = Some p"
    and "materialize_provider_history (xs @ AssistantResponseBoundary r # ys) = Some p'"
  shows "take (length (pp_items p)) (pp_items p') = pp_items p \<and>
    take (length xs) (pp_index p') = pp_index p"
proof -
  obtain mat where p: "projects_to xs p mat"
    using projects_to_total [of xs] assms(2) unfolding projects_to_def by (metis option.inject)
  obtain mat' where p': "projects_to (extended xs r ys) p' mat'"
    using projects_to_total [of "extended xs r ys"] assms(3)
    unfolding projects_to_def extended_def by (metis option.inject)
  have index: "pp_index p' ! i = pp_index p ! i" if i: "i < length xs" for i
  proof (cases "is_boundary (xs ! i)")
    case True
    then show ?thesis
      using projects_to_boundary [OF p i] projects_to_boundary [OF p', of i] i
        extended_length [of xs r ys] by (simp add: extended_nth) (simp add: extended_def)
  qed (use extended_index [OF assms(1) p p' i] in simp)
  have item: "q < length (pp_items p') \<and> pp_items p' ! q = pp_items p ! q" if "q < length (pp_items p)" for q
  proof -
    have q: "q < length mat" using that projects_to_mset(2) [OF p] by simp
    let ?k = "fst (mat ! q)"
    have "(?k, snd (mat ! q)) \<in> set mat" using q by simp
    from projects_to_member(2,3) [OF p this] have k: "?k < length xs" "\<not> is_boundary (xs ! ?k)" .
    have idx: "pp_index p ! ?k = q" using p q by (simp add: projects_to_def)
    have "?k < length (extended xs r ys)" "\<not> is_boundary (extended xs r ys ! ?k)"
      using k extended_length [of xs r ys] by (simp_all add: extended_nth)
    from projects_to_slot(1) [OF p' this] show ?thesis
      using extended_content [OF assms(1) p p' k] index [OF k(1)] idx projects_to_mset(2) [OF p'] by simp
  qed
  have len: "length (pp_items p) \<le> length (pp_items p')"
    using item by (metis leI less_irrefl)
  have "length (pp_index p) = length xs" "length (pp_index p') = length (extended xs r ys)"
    using p p' by (simp_all add: projects_to_def)
  with index item len extended_length [of xs r ys] show ?thesis
    by (intro conjI nth_equalityI) auto
qed

section \<open>Requests\<close>

lemma fold_request_tool:
  "fold request_tool tools rq = rq\<lparr>rq_tools := rq_tools rq @ tools\<rparr>"
  by (induction tools arbitrary: rq) (simp_all add: request_tool_def)

lemma projected_anchor_bound:
  assumes "projects_to items p mat" "i < length items" "pp_items p \<noteq> []"
  shows "pp_index p ! i < length (pp_items p)"
proof (cases "is_boundary (items ! i)")
  case False
  with projects_to_slot(1) [OF assms(1,2)] projects_to_mset(2) [OF assms(1)] show ?thesis by simp
next
  case True
  have "length (filter (\<lambda>it. \<not> is_boundary it) (take i items)) \<le>
      length (filter (\<lambda>it. \<not> is_boundary it) items)"
    by (metis append_take_drop_id filter_append le_add1 length_append)
  also have "\<dots> = length (pp_items p)" using projects_to_mset(1) [OF assms(1)] by (metis size_mset)
  finally show ?thesis
    using projects_to_boundary [OF assms(1,2) True] assms(3) by (cases "pp_items p") auto
qed

text \<open>
  Building a request never panics and fills every field from the engine's settings. A
  cache anchor is sent exactly when the configured anchor lies in the context, and it always
  points at an item of the request unless the request has none.
\<close>

theorem build_request_anchored:
  shows "\<exists>rq p. build_request st tools ctxt = Some rq \<and>
    materialize_provider_history ctxt = Some p \<and> rq_items rq = pp_items p \<and>
    rq_tools rq = tools \<and> rq_system_prompt rq = st_system_prompt st \<and>
    rq_config rq = st_request_config st \<and> rq_cache_key rq = st_cache_key st \<and>
    (rq_cache_anchor rq \<noteq> None \<longleftrightarrow>
       (\<exists>anchor. st_cache_anchor st = Some anchor \<and> anchor < length ctxt)) \<and>
    (rq_items rq = [] \<or> (case rq_cache_anchor rq of None \<Rightarrow> True | Some k \<Rightarrow> k < length (rq_items rq)))"
proof -
  obtain p mat where p: "projects_to ctxt p mat" by (rule projects_to_total)
  then have mp: "materialize_provider_history ctxt = Some p" "length (pp_index p) = length ctxt"
    by (simp_all add: projects_to_def)
  show ?thesis
    using mp projected_anchor_bound [OF p]
    by (cases "st_cache_anchor st"; cases "st_system_prompt st")
      (auto simp: build_request_def Let_def fold_request_tool request_new_def item_defs)
qed

theorem projection_prefix_stable_witness:
  "\<exists>p p'. materialize_provider_history early_results = Some p \<and>
    materialize_provider_history
      (early_results @ AssistantResponseBoundary ''r2'' # [item_tool_call ''c'' ''third'' ''{}'']) = Some p' \<and>
    take (length (pp_items p)) (pp_items p') = pp_items p"
proof -
  have "set (tool_ids early_results) \<inter> set (call_ids [item_tool_call ''c'' ''third'' ''{}'']) = {}"
    by code_simp
  moreover obtain p mat where "projects_to early_results p mat" by (rule projects_to_total)
  moreover obtain p' mat' where "projects_to
      (early_results @ AssistantResponseBoundary ''r2'' # [item_tool_call ''c'' ''third'' ''{}'']) p' mat'"
    by (rule projects_to_total)
  ultimately show ?thesis
    using projection_prefix_stable [of early_results "[item_tool_call ''c'' ''third'' ''{}'']" p "''r2''" p']
    by (auto simp: projects_to_def)
qed

end
