(* ===== verification/Tool_Resume.thy ===== *)
theory Tool_Resume
  imports Request_History
begin

text \<open>
  Resuming a run with unanswered tool calls (\<open>engine.rs\<close>): the pairing of results with calls
  by queues of call positions (\<open>unanswered_tool_call_entries\<close>), the classification of what is
  left (\<open>get_unanswered_tool_calls\<close>), and the closing of calls that were already started at the
  head of \<open>run_turn_loop\<close>.  The pairing is shown to agree with a reference that keeps the list of
  open calls.
\<close>

section \<open>Pairing results with calls\<close>

type_synonym 'a pairing = "'a history_entry option list \<times> (string \<rightharpoonup> nat list)"

definition queue_of :: "(string \<rightharpoonup> nat list) \<Rightarrow> string \<Rightarrow> nat list" where
  "queue_of q i = (case q i of Some l \<Rightarrow> l | None \<Rightarrow> [])"

fun pairing_step :: "'a history_entry \<Rightarrow> 'a pairing \<Rightarrow> 'a pairing option" where
  "pairing_step entry (calls, by_provider_id) =
     (case he_item entry of
        ToolCall c \<Rightarrow>
          Some (calls @ [Some entry],
            by_provider_id(tc_call_id c \<mapsto> queue_of by_provider_id (tc_call_id c) @ [length calls]))
      | ToolResult t \<Rightarrow>
          (case by_provider_id (tr_call_id t) of
             Some (index # queue) \<Rightarrow>
               (if index < length calls
                then Some (calls[index := None], by_provider_id(tr_call_id t \<mapsto> queue))
                else None)
           | _ \<Rightarrow> Some (calls, by_provider_id))
      | _ \<Rightarrow> Some (calls, by_provider_id))"

fun pairing_scan :: "'a history \<Rightarrow> 'a pairing \<Rightarrow> 'a pairing option" where
  "pairing_scan [] s = Some s"
| "pairing_scan (entry # h) s = Option.bind (pairing_step entry s) (pairing_scan h)"

definition flatten :: "'a option list \<Rightarrow> 'a list" where
  "flatten xs = List.map_filter id xs"

definition unanswered_tool_call_entries :: "'a history \<Rightarrow> 'a history_entry list option" where
  "unanswered_tool_call_entries h = map_option (\<lambda>s. flatten (fst s)) (pairing_scan h ([], Map.empty))"

text \<open>\<open>serde_json::from_str\<close> is the parameter \<open>from_str\<close>.\<close>

definition resumed_input :: "(string \<Rightarrow> json option) \<Rightarrow> string \<Rightarrow> json" where
  "resumed_input from_str arguments =
     (case from_str arguments of Some (JObject members) \<Rightarrow> JObject members | _ \<Rightarrow> JNull)"

fun classify_calls ::
  "(string \<Rightarrow> json option) \<Rightarrow> 'a history_entry list \<Rightarrow> tool_call list \<times> string list" where
  "classify_calls from_str [] = ([], [])"
| "classify_calls from_str (entry # es) =
     (let (pending, started) = classify_calls from_str es
      in case he_item entry of
           ToolCall c \<Rightarrow>
             (if tc_execution_id c \<noteq> None \<or> tc_status c = Some InProgress
              then (pending, tc_call_id c # started)
              else (\<lparr>tcl_id = tc_call_id c, tcl_name = tc_name c,
                      tcl_input = resumed_input from_str (tc_arguments c)\<rparr> # pending, started))
         | _ \<Rightarrow> (pending, started))"

definition get_unanswered_tool_calls ::
  "(string \<Rightarrow> json option) \<Rightarrow> 'a history \<Rightarrow> (tool_call list \<times> string list) option" where
  "get_unanswered_tool_calls from_str h =
     map_option (classify_calls from_str) (unanswered_tool_call_entries h)"

section \<open>Closing started calls\<close>

definition tool_result_error_message :: "string \<Rightarrow> string \<Rightarrow> tool_execution_result" where
  "tool_result_error_message tool_use_id message =
     \<lparr>ter_tool_use_id = tool_use_id, ter_disposition = DispError, ter_summary = message,
       ter_content = None, ter_is_error = True, ter_attachments = []\<rparr>"

definition outcome_unknown :: "string \<Rightarrow> tool_execution_result" where
  "outcome_unknown tool_use_id =
     \<lparr>ter_tool_use_id = tool_use_id, ter_disposition = DispOutcomeUnknown,
       ter_summary = ''Tool execution outcome unknown'',
       ter_content = Some ''Execution was interrupted before completion could be confirmed. Completion and side effects are unknown.'',
       ter_is_error = True, ter_attachments = []\<rparr>"

fun close_calls ::
  "'w append_callback list \<Rightarrow> ('w, 'a) annotator \<Rightarrow> tool_output_limits option \<Rightarrow> string list
    \<Rightarrow> ('a, 'w) commit_state \<Rightarrow> (engine_error + unit) \<times> ('a, 'w) commit_state"
where
  "close_calls cbs annotate limits [] s = (Inr (), s)"
| "close_calls cbs annotate limits (i # ids) s =
     (case finalize_and_commit_tool_result cbs annotate limits Map.empty (\<lambda>_. None)
             (outcome_unknown i) None s of
        (Inl e, s') \<Rightarrow> (Inl e, s')
      | (Inr _, s') \<Rightarrow> close_calls cbs annotate limits ids s')"

definition close_started_calls ::
  "'w append_callback list \<Rightarrow> ('w, 'a) annotator \<Rightarrow> tool_output_limits option \<Rightarrow> string list
    \<Rightarrow> 'a history \<times> 'w \<Rightarrow> (engine_error + unit) \<times> 'a history \<times> 'w"
where
  "close_started_calls cbs annotate limits started_call_ids = (\<lambda>(h, w).
     (let (r, s) = close_calls cbs annotate limits started_call_ids
            \<lparr>cs_history = h, cs_world = w, cs_fence = Map.empty, cs_terminal_ids = {}\<rparr>
      in (r, cs_history s, cs_world s)))"

section \<open>The reference pairing\<close>

text \<open>The open calls as a list: a call is added at its end, a result removes the first open call
  with its identifier.\<close>

definition entry_call_id :: "'a history_entry \<Rightarrow> string option" where
  "entry_call_id e = (case he_item e of ToolCall c \<Rightarrow> Some (tc_call_id c) | _ \<Rightarrow> None)"

fun remove_first :: "('a \<Rightarrow> bool) \<Rightarrow> 'a list \<Rightarrow> 'a list" where
  "remove_first P [] = []"
| "remove_first P (x # xs) = (if P x then xs else x # remove_first P xs)"

definition open_call_step :: "'a history_entry \<Rightarrow> 'a history_entry list \<Rightarrow> 'a history_entry list" where
  "open_call_step e es =
     (case he_item e of
        ToolCall _ \<Rightarrow> es @ [e]
      | ToolResult t \<Rightarrow> remove_first (\<lambda>x. entry_call_id x = Some (tr_call_id t)) es
      | _ \<Rightarrow> es)"

definition open_calls :: "'a history \<Rightarrow> 'a history_entry list" where
  "open_calls h = fold open_call_step h []"

lemma flatten_simps [simp]:
  "flatten [] = []" "flatten (None # xs) = flatten xs" "flatten (Some x # xs) = x # flatten xs"
  by (simp_all add: flatten_def map_filter_simps)

lemma flatten_append [simp]: "flatten (xs @ ys) = flatten xs @ flatten ys"
  by (simp add: flatten_def map_filter_def)

lemma in_set_flatten: "x \<in> set (flatten xs) \<longleftrightarrow> Some x \<in> set xs"
proof (induction xs)
  case (Cons a xs)
  then show ?case by (cases a) auto
qed simp

lemma remove_first_absent: "(\<And>y. y \<in> set ys \<Longrightarrow> \<not> P y) \<Longrightarrow> remove_first P ys = ys"
  by (induction ys) auto

definition open_at :: "string \<Rightarrow> 'a history_entry option \<Rightarrow> bool" where
  "open_at i slot \<longleftrightarrow> (\<exists>e. slot = Some e \<and> entry_call_id e = Some i)"

definition pairing_ok :: "'a pairing \<Rightarrow> bool" where
  "pairing_ok s \<longleftrightarrow>
     (\<forall>i. queue_of (snd s) i = filter (\<lambda>k. open_at i (fst s ! k)) [0..<length (fst s)])"

lemma flatten_remove_first:
  assumes "filter (\<lambda>k. open_at i (xs ! k)) [0..<length xs] = k # ks"
  shows "flatten (xs[k := None]) = remove_first (\<lambda>x. entry_call_id x = Some i) (flatten xs)"
  using assms
proof (induction xs arbitrary: k ks)
  case (Cons x xs)
  have split: "filter (\<lambda>k. open_at i ((x # xs) ! k)) [0..<length (x # xs)] =
      (if open_at i x then [0] else []) @ map Suc (filter (\<lambda>k. open_at i (xs ! k)) [0..<length xs])"
    by (simp add: upt_conv_Cons filter_map comp_def del: upt_Suc flip: map_Suc_upt)
  show ?case
  proof (cases "open_at i x")
    case True
    with Cons.prems split have "k = 0" by simp
    with True show ?thesis by (auto simp: open_at_def)
  next
    case False
    with Cons.prems split obtain j js where "filter (\<lambda>k. open_at i (xs ! k)) [0..<length xs] = j # js"
      "k = Suc j" by auto
    with Cons.IH False show ?thesis by (cases x) (auto simp: open_at_def)
  qed
qed simp

lemma flatten_none:
  assumes "filter (\<lambda>k. open_at i (xs ! k)) [0..<length xs] = []"
  shows "remove_first (\<lambda>x. entry_call_id x = Some i) (flatten xs) = flatten xs"
proof (rule remove_first_absent)
  fix x
  assume "x \<in> set (flatten xs)"
  then obtain k where "k < length xs" "xs ! k = Some x"
    unfolding in_set_flatten by (auto simp: in_set_conv_nth)
  with assms show "\<not> entry_call_id x = Some i"
    by (auto simp: filter_empty_conv open_at_def)
qed

lemma pairing_call_ok:
  assumes "pairing_ok (calls, q)" "he_item e = ToolCall c"
  shows "pairing_ok (calls @ [Some e], q(tc_call_id c \<mapsto> queue_of q (tc_call_id c) @ [length calls]))"
proof -
  have "open_at i (Some e) \<longleftrightarrow> i = tc_call_id c" for i
    using assms(2) by (auto simp: open_at_def entry_call_id_def)
  moreover have "filter (\<lambda>k. open_at i ((calls @ [Some e]) ! k)) [0..<length calls] =
      filter (\<lambda>k. open_at i (calls ! k)) [0..<length calls]" for i
    by (intro filter_cong) (auto simp: nth_append)
  ultimately show ?thesis using assms(1) by (auto simp: pairing_ok_def queue_of_def)
qed

lemma pairing_result_ok:
  assumes ok: "pairing_ok (calls, q)" and head: "queue_of q i = k # ks"
  shows "k < length calls" "pairing_ok (calls[k := None], q(i \<mapsto> ks))"
    "flatten (calls[k := None]) = remove_first (\<lambda>x. entry_call_id x = Some i) (flatten calls)"
proof -
  have queue: "queue_of q i = filter (\<lambda>k. open_at i (calls ! k)) [0..<length calls]" for i
    using ok by (simp add: pairing_ok_def)
  have first: "filter (\<lambda>k. open_at i (calls ! k)) [0..<length calls] = k # ks"
    using head queue by simp
  then have "k \<in> set (filter (\<lambda>k. open_at i (calls ! k)) [0..<length calls])" by simp
  then have k: "k < length calls" "open_at i (calls ! k)" by auto
  have dist: "distinct (k # ks)" using first by (metis distinct_filter distinct_upt)
  have "filter (\<lambda>j. open_at i' (calls[k := None] ! j)) [0..<length calls] =
      filter (\<lambda>j. j \<noteq> k) (filter (\<lambda>j. open_at i' (calls ! j)) [0..<length calls])" for i'
    using k by (simp, intro filter_cong) (auto simp: nth_list_update open_at_def)
  moreover have "filter (\<lambda>j. j \<noteq> k) (queue_of q i') = queue_of (q(i \<mapsto> ks)) i'" for i'
  proof (cases "i' = i")
    case True
    with dist head show ?thesis by (auto simp: queue_of_def intro!: filter_True)
  next
    case False
    have "k \<notin> set (queue_of q i')" using k False by (auto simp: queue open_at_def)
    then show ?thesis using False by (auto simp: queue_of_def intro!: filter_True)
  qed
  ultimately show "pairing_ok (calls[k := None], q(i \<mapsto> ks))"
    by (simp add: pairing_ok_def queue)
  show "k < length calls" by (rule k(1))
  show "flatten (calls[k := None]) = remove_first (\<lambda>x. entry_call_id x = Some i) (flatten calls)"
    by (rule flatten_remove_first [OF first])
qed

lemma pairing_step_ok:
  assumes "pairing_ok s"
  shows "\<exists>s'. pairing_step e s = Some s' \<and> pairing_ok s' \<and>
    flatten (fst s') = open_call_step e (flatten (fst s))"
proof -
  obtain calls q where s: "s = (calls, q)" by (cases s)
  show ?thesis
  proof (cases "he_item e")
    case (ToolCall c)
    with pairing_call_ok [of calls q e c] assms show ?thesis by (simp add: s open_call_step_def)
  next
    case (ToolResult t)
    show ?thesis
    proof (cases "queue_of q (tr_call_id t)")
      case Nil
      with assms have "filter (\<lambda>k. open_at (tr_call_id t) (calls ! k)) [0..<length calls] = []"
        by (simp add: pairing_ok_def s)
      moreover have "q (tr_call_id t) = None \<or> q (tr_call_id t) = Some []"
        using Nil by (auto simp: queue_of_def split: option.splits)
      ultimately show ?thesis
        using ToolResult assms flatten_none [of "tr_call_id t" calls]
        by (auto simp: s open_call_step_def)
    next
      case (Cons k ks)
      then have "q (tr_call_id t) = Some (k # ks)" by (auto simp: queue_of_def split: option.splits)
      with ToolResult pairing_result_ok [OF assms [unfolded s] Cons] show ?thesis
        by (simp add: s open_call_step_def)
    qed
  qed (use assms in \<open>simp_all add: s open_call_step_def\<close>)
qed

lemma pairing_scan_ok:
  "pairing_ok s \<Longrightarrow> \<exists>s'. pairing_scan h s = Some s' \<and>
    flatten (fst s') = fold open_call_step h (flatten (fst s))"
proof (induction h s rule: pairing_scan.induct)
  case (2 e h s)
  obtain s' where "pairing_step e s = Some s'" "pairing_ok s'"
    "flatten (fst s') = open_call_step e (flatten (fst s))"
    using pairing_step_ok [OF 2(2)] by blast
  with 2(1) [of s'] show ?case by simp
qed simp

lemma unanswered_open_calls: "unanswered_tool_call_entries h = Some (open_calls h)"
proof -
  have "pairing_ok ([], Map.empty)" by (simp add: pairing_ok_def queue_of_def)
  from pairing_scan_ok [OF this, of h] show ?thesis
    by (auto simp: unanswered_tool_call_entries_def open_calls_def)
qed

section \<open>What a resume closes and what it runs\<close>

definition is_started :: "'a history_entry \<Rightarrow> bool" where
  "is_started e \<longleftrightarrow> (case he_item e of
     ToolCall c \<Rightarrow> tc_execution_id c \<noteq> None \<or> tc_status c = Some InProgress | _ \<Rightarrow> False)"

definition resumed_call :: "(string \<Rightarrow> json option) \<Rightarrow> 'a history_entry \<Rightarrow> tool_call" where
  "resumed_call from_str e = (case he_item e of ToolCall c \<Rightarrow>
     \<lparr>tcl_id = tc_call_id c, tcl_name = tc_name c,
       tcl_input = resumed_input from_str (tc_arguments c)\<rparr>)"

lemma set_remove_first: "set (remove_first P xs) \<subseteq> set xs"
  by (induction xs) auto

lemma open_call_step_calls:
  "\<forall>x \<in> set es. is_tool_call (he_item x) \<Longrightarrow> \<forall>x \<in> set (open_call_step e es). is_tool_call (he_item x)"
  using set_remove_first by (cases "he_item e") (fastforce simp: open_call_step_def)+

lemma open_calls_are_calls: "x \<in> set (open_calls h) \<Longrightarrow> is_tool_call (he_item x)"
proof -
  have "\<forall>x \<in> set (fold open_call_step h es). is_tool_call (he_item x)"
    if "\<forall>x \<in> set es. is_tool_call (he_item x)" for es
    using that
  proof (induction h arbitrary: es)
    case (Cons e h)
    from Cons.IH [OF open_call_step_calls [OF Cons.prems]] show ?case by simp
  qed simp
  from this [of "[]"] show "x \<in> set (open_calls h) \<Longrightarrow> is_tool_call (he_item x)"
    by (simp add: open_calls_def)
qed

lemma classify_calls_eq:
  assumes "\<forall>x \<in> set es. is_tool_call (he_item x)"
  shows "classify_calls from_str es =
    (map (resumed_call from_str) (filter (\<lambda>e. \<not> is_started e) es),
     map (\<lambda>e. the (entry_call_id e)) (filter is_started es))"
  using assms
proof (induction es)
  case (Cons e es)
  then show ?case
    by (cases "he_item e")
      (auto simp: is_started_def resumed_call_def entry_call_id_def)
qed simp

lemma remove_first_distinct:
  "distinct (map f xs) \<Longrightarrow> remove_first (\<lambda>x. f x = i) xs = filter (\<lambda>x. f x \<noteq> i) xs"
proof (induction xs)
  case (Cons x xs)
  then show ?case by (auto simp: image_iff intro!: filter_True [symmetric])
qed simp

lemma open_calls_results:
  assumes "distinct (map entry_call_id es)"
    and "map he_item rs = map (\<lambda>i. terminal_item (outcome_unknown i)) ids"
  shows "fold open_call_step rs es = filter (\<lambda>e. entry_call_id e \<notin> Some ` set ids) es"
  using assms
proof (induction ids arbitrary: rs es)
  case (Cons i ids)
  then obtain r rs' where rs: "rs = r # rs'" "he_item r = terminal_item (outcome_unknown i)"
    "map he_item rs' = map (\<lambda>i. terminal_item (outcome_unknown i)) ids" by auto
  have "open_call_step r es = filter (\<lambda>e. entry_call_id e \<noteq> Some i) es"
    using rs(2) remove_first_distinct [OF Cons.prems(1), of "Some i"]
    by (simp add: open_call_step_def terminal_item_def outcome_unknown_def item_defs)
  moreover have "distinct (map entry_call_id (filter (\<lambda>e. entry_call_id e \<noteq> Some i) es))"
    using Cons.prems(1) by (rule distinct_map_filter)
  ultimately show ?case using Cons.IH [OF _ rs(3)] rs(1)
    by (auto simp: filter_filter intro!: filter_cong)
qed simp

lemma finalize_outcome_unknown:
  assumes "finalize_and_commit_tool_result cbs annotate limits Map.empty (\<lambda>_. None)
      (outcome_unknown i) None s = (Inr b, s')" "i \<notin> cs_terminal_ids s"
  shows "\<exists>r. cs_history s' = cs_history s @ [r] \<and> he_item r = terminal_item (outcome_unknown i) \<and>
    cs_terminal_ids s' = insert i (cs_terminal_ids s)"
proof -
  have res: "bound_tool_result limits Map.empty (normalize_tool_result (outcome_unknown i)) = outcome_unknown i"
    by (simp add: normalize_tool_result_def outcome_unknown_def bound_tool_result_def
        disposition_is_success_def split: option.splits)
  have id: "ter_tool_use_id (outcome_unknown i) = i" by (simp add: outcome_unknown_def)
  from assms show ?thesis
    unfolding finalize_and_commit_tool_result_def res id may_commit_def
    by (auto simp: Let_def append_with_def push_entry_def entry_new_def
        split: prod.splits sum.splits if_splits)
qed

lemma close_calls_history:
  assumes "close_calls cbs annotate limits ids s = (Inr (), s')"
    and "distinct ids" "set ids \<inter> cs_terminal_ids s = {}"
  shows "\<exists>rs. cs_history s' = cs_history s @ rs \<and>
    map he_item rs = map (\<lambda>i. terminal_item (outcome_unknown i)) ids"
  using assms
proof (induction ids arbitrary: s)
  case (Cons i ids)
  obtain b s1 where fin: "finalize_and_commit_tool_result cbs annotate limits Map.empty (\<lambda>_. None)
      (outcome_unknown i) None s = (Inr b, s1)" and rest: "close_calls cbs annotate limits ids s1 = (Inr (), s')"
    using Cons.prems(1) by (auto split: prod.splits sum.splits)
  obtain r where r: "cs_history s1 = cs_history s @ [r]" "he_item r = terminal_item (outcome_unknown i)"
    "cs_terminal_ids s1 = insert i (cs_terminal_ids s)"
    using finalize_outcome_unknown [OF fin] Cons.prems(3) by auto
  have "set ids \<inter> cs_terminal_ids s1 = {}" using Cons.prems(2,3) r(3) by auto
  from Cons.IH [OF rest _ this] Cons.prems(2) r(1,2) show ?case
    by (metis append.assoc append_Cons append_Nil distinct.simps(2) list.simps(9))
qed simp

text \<open>
  C35. Pairing never panics, and the unanswered calls it reports are exactly the open calls of the
  reference: each result answers the earliest preceding call with its identifier that is still
  open, never a later one, and a result without such a call answers nothing.
\<close>

theorem unanswered_calls_exact:
  "unanswered_tool_call_entries h = Some (open_calls h)"
  by (rule unanswered_open_calls)


section \<open>Examples\<close>

definition started_call :: "string \<Rightarrow> unit history_entry" where
  "started_call i = entry_from_item
     (with_status InProgress (with_tool_execution_metadata 0 (Some ''attempt'') (item_tool_call i ''run'' ''{}'')))"

definition accept_all :: "(unit, unit) annotator" where
  "accept_all w it = (Inr (), ())"

definition interrupted_history :: "unit history" where
  "interrupted_history =
     [entry_from_item (item_tool_call ''a'' ''run'' ''{}''), entry_from_item (tool_result ''a'' ''done''),
      started_call ''a'', entry_from_item (item_tool_call ''b'' ''run'' ''{}'')]"


text \<open>With a reused identifier the second started call stays open: the results of one resume are
  fenced by their identifier.\<close>

lemma reused_id_stays_open:
  "(case close_started_calls [] accept_all None [''a'', ''a''] ([started_call ''a'', started_call ''a''], ()) of
      (Inr _, h', _) \<Rightarrow> get_unanswered_tool_calls (\<lambda>_. None) h' = Some ([], [''a''])
    | _ \<Rightarrow> False) \<and>
   get_unanswered_tool_calls (\<lambda>_. None) [started_call ''a'', started_call ''a''] = Some ([], [''a'', ''a''])"
  by code_simp

end
