(* ===== verification/Stream_Events.thy ===== *)
theory Stream_Events
  imports Request_Items
begin

text \<open>
  The streaming events of crate \<open>agen\<close>: the data of \<open>llm_client/event.rs\<close> with its factory
  functions, and the block events of \<open>handler.rs\<close> that reach the handlers of a timeline.
\<close>

section \<open>Events of a provider stream\<close>

record ping_event =
  pe_timestamp :: "u64 option"

record usage_event =
  ue_input_tokens :: "u64 option"
  ue_output_tokens :: "u64 option"
  ue_total_tokens :: "u64 option"
  ue_cache_read_input_tokens :: "u64 option"
  ue_cache_creation_input_tokens :: "u64 option"

datatype response_status = StStarted | StCompleted | StCancelled | StFailed

record status_event =
  se_status :: response_status

record error_event =
  ee_code :: "string option"
  ee_message :: string

definition error_event_is_image_size_rejection :: "error_event \<Rightarrow> bool" where
  "error_event_is_image_size_rejection e = is_image_size_diagnostic (ee_code e) (ee_message e)"

record unhandled_sse_event =
  us_provider :: string
  us_event_type :: string
  us_data_preview :: string
  us_data_len :: nat

datatype block_type = BText | BThinking | BToolUse | BToolResult

datatype block_metadata =
  MetaText | MetaThinking | MetaToolUse (mu_id: string) (mu_name: string) | MetaToolResult string

datatype delta_content = DeltaText string | DeltaThinking string | DeltaInputJson string

fun delta_block_type :: "delta_content \<Rightarrow> block_type" where
  "delta_block_type (DeltaText _) = BText"
| "delta_block_type (DeltaThinking _) = BThinking"
| "delta_block_type (DeltaInputJson _) = BToolUse"

datatype stop_reason = SREndTurn | SRMaxTokens | SRStopSequence | SRToolUse

record reasoning_block_data =
  rb_id :: "string option"
  rb_text :: "string option"
  rb_summary :: "string list"
  rb_encrypted_content :: "string option"
  rb_signature :: "string option"

record block_start =
  bs_index :: nat
  bs_block_type :: block_type
  bs_metadata :: block_metadata

record block_delta =
  bd_index :: nat
  bd_delta :: delta_content

record block_stop =
  bp_index :: nat
  bp_block_type :: block_type
  bp_stop_reason :: "stop_reason option"
  bp_reasoning :: "reasoning_block_data option"

record block_abort =
  ba_index :: nat
  ba_block_type :: block_type
  ba_reason :: string

datatype event =
    Ping ping_event
  | Usage usage_event
  | Status status_event
  | ErrorEv error_event
  | UnhandledSse unhandled_sse_event
  | BlockStart block_start
  | BlockDelta block_delta
  | BlockStop block_stop
  | BlockAbort block_abort

subsection \<open>Factory functions\<close>

definition text_block_start :: "nat \<Rightarrow> event" where
  "text_block_start i =
     BlockStart \<lparr>bs_index = i, bs_block_type = BText, bs_metadata = MetaText\<rparr>"

definition text_delta :: "nat \<Rightarrow> string \<Rightarrow> event" where
  "text_delta i txt = BlockDelta \<lparr>bd_index = i, bd_delta = DeltaText txt\<rparr>"

definition text_block_stop :: "nat \<Rightarrow> stop_reason option \<Rightarrow> event" where
  "text_block_stop i reason =
     BlockStop \<lparr>bp_index = i, bp_block_type = BText, bp_stop_reason = reason, bp_reasoning = None\<rparr>"

definition tool_use_start :: "nat \<Rightarrow> string \<Rightarrow> string \<Rightarrow> event" where
  "tool_use_start i call_id name =
     BlockStart \<lparr>bs_index = i, bs_block_type = BToolUse, bs_metadata = MetaToolUse call_id name\<rparr>"

definition tool_input_delta :: "nat \<Rightarrow> string \<Rightarrow> event" where
  "tool_input_delta i fragment = BlockDelta \<lparr>bd_index = i, bd_delta = DeltaInputJson fragment\<rparr>"

definition tool_use_stop :: "nat \<Rightarrow> event" where
  "tool_use_stop i =
     BlockStop \<lparr>bp_index = i, bp_block_type = BToolUse, bp_stop_reason = Some SRToolUse,
       bp_reasoning = None\<rparr>"

text \<open>The sum is the wrapping one of a release build.\<close>

definition usage :: "u64 \<Rightarrow> u64 \<Rightarrow> event" where
  "usage input_tokens output_tokens =
     Usage \<lparr>ue_input_tokens = Some input_tokens, ue_output_tokens = Some output_tokens,
       ue_total_tokens = Some (input_tokens + output_tokens),
       ue_cache_read_input_tokens = None, ue_cache_creation_input_tokens = None\<rparr>"

definition ping :: event where
  "ping = Ping \<lparr>pe_timestamp = None\<rparr>"

section \<open>Events of block handlers\<close>

datatype text_block_event =
  TextStart nat | TextDelta string | TextStop nat "stop_reason option"

datatype thinking_block_event =
  ThinkingStart nat | ThinkingDelta string | ThinkingStop nat "reasoning_block_data option"

datatype tool_use_block_event =
  ToolUseStart nat string string | ToolUseInput string | ToolUseStop nat string string

end
