(* ===== verification/Stream_Timeline.thy ===== *)
theory Stream_Timeline
  imports Stream_Events "HOL-Library.Mapping"
begin

text \<open>
  The timeline of crate \<open>agen\<close> (\<open>timeline/timeline.rs\<close>): it routes the events of a provider
  stream to registered handlers and manages the scope of every block.  A boxed handler is a value
  of a type \<open>'h\<close>, its scopes are values of \<open>'s\<close>, and the record \<open>handler_ops\<close> is its
  method table; a method that panics returns \<open>None\<close>, and so does every dispatch that calls it.
  The iteration order of a hash map is the parameter \<open>hash_order\<close>.
\<close>

section \<open>Handlers\<close>

record ('h, 's) handler_ops =
  scope_default :: "'h \<Rightarrow> 's"
  on_usage :: "'h \<Rightarrow> 's \<Rightarrow> usage_event \<Rightarrow> ('h \<times> 's) option"
  on_ping :: "'h \<Rightarrow> 's \<Rightarrow> ping_event \<Rightarrow> ('h \<times> 's) option"
  on_status :: "'h \<Rightarrow> 's \<Rightarrow> status_event \<Rightarrow> ('h \<times> 's) option"
  on_error :: "'h \<Rightarrow> 's \<Rightarrow> error_event \<Rightarrow> ('h \<times> 's) option"
  on_text :: "'h \<Rightarrow> 's \<Rightarrow> text_block_event \<Rightarrow> ('h \<times> 's) option"
  on_thinking :: "'h \<Rightarrow> 's \<Rightarrow> thinking_block_event \<Rightarrow> ('h \<times> 's) option"
  on_tool_use :: "'h \<Rightarrow> 's \<Rightarrow> tool_use_block_event \<Rightarrow> ('h \<times> 's) option"

record ('h, 's) handler_wrapper =
  hw_handler :: 'h
  hw_scope :: "'s option"

definition wrapper_new :: "'h \<Rightarrow> ('h, 's) handler_wrapper" where
  "wrapper_new h = \<lparr>hw_handler = h, hw_scope = None\<rparr>"

definition wrapper_start_scope ::
  "('h, 's) handler_ops \<Rightarrow> ('h, 's) handler_wrapper \<Rightarrow> ('h, 's) handler_wrapper" where
  "wrapper_start_scope ops w = w\<lparr>hw_scope := Some (scope_default ops (hw_handler w))\<rparr>"

definition wrapper_dispatch ::
  "('h \<Rightarrow> 's \<Rightarrow> 'e \<Rightarrow> ('h \<times> 's) option) \<Rightarrow> 'e \<Rightarrow> ('h, 's) handler_wrapper
    \<Rightarrow> ('h, 's) handler_wrapper option"
where
  "wrapper_dispatch on_event ev w =
     (case hw_scope w of
        None \<Rightarrow> Some w
      | Some scope \<Rightarrow>
          map_option (\<lambda>(h, scope). \<lparr>hw_handler = h, hw_scope = Some scope\<rparr>)
            (on_event (hw_handler w) scope ev))"

subsection \<open>Block handlers\<close>

datatype ('h, 's) block_wrapper =
    TextWrapper (text_handler: 'h) (text_scope: "'s option")
  | ThinkingWrapper (thinking_handler: 'h) (thinking_scopes: "(nat, 's) mapping")
  | ToolUseWrapper (tool_handler: 'h) (tool_scopes: "(nat, 's) mapping")
      (tool_names: "(nat, string \<times> string) mapping")

definition entry_or_default :: "'s \<Rightarrow> nat \<Rightarrow> (nat, 's) mapping \<Rightarrow> 's" where
  "entry_or_default d i m = (case Mapping.lookup m i of Some scope \<Rightarrow> scope | None \<Rightarrow> d)"

fun dispatch_start ::
  "('h, 's) handler_ops \<Rightarrow> block_start \<Rightarrow> ('h, 's) block_wrapper \<Rightarrow> ('h, 's) block_wrapper option"
where
  "dispatch_start ops start (TextWrapper h None) = Some (TextWrapper h None)"
| "dispatch_start ops start (TextWrapper h (Some scope)) =
     map_option (\<lambda>(h, scope). TextWrapper h (Some scope))
       (on_text ops h scope (TextStart (bs_index start)))"
| "dispatch_start ops start (ThinkingWrapper h scopes) =
     map_option (\<lambda>(h, scope). ThinkingWrapper h (Mapping.update (bs_index start) scope scopes))
       (on_thinking ops h (entry_or_default (scope_default ops h) (bs_index start) scopes)
          (ThinkingStart (bs_index start)))"
| "dispatch_start ops start (ToolUseWrapper h scopes tools) =
     (case bs_metadata start of
        MetaToolUse call_id name \<Rightarrow>
          map_option
            (\<lambda>(h, scope). ToolUseWrapper h (Mapping.update (bs_index start) scope scopes)
               (Mapping.update (bs_index start) (call_id, name) tools))
            (on_tool_use ops h (entry_or_default (scope_default ops h) (bs_index start) scopes)
               (ToolUseStart (bs_index start) call_id name))
      | _ \<Rightarrow> Some (ToolUseWrapper h scopes tools))"

fun dispatch_delta ::
  "('h, 's) handler_ops \<Rightarrow> block_delta \<Rightarrow> ('h, 's) block_wrapper \<Rightarrow> ('h, 's) block_wrapper option"
where
  "dispatch_delta ops delta (TextWrapper h None) = Some (TextWrapper h None)"
| "dispatch_delta ops delta (TextWrapper h (Some scope)) =
     (case bd_delta delta of
        DeltaText txt \<Rightarrow>
          map_option (\<lambda>(h, scope). TextWrapper h (Some scope)) (on_text ops h scope (TextDelta txt))
      | _ \<Rightarrow> Some (TextWrapper h (Some scope)))"
| "dispatch_delta ops delta (ThinkingWrapper h scopes) =
     (case bd_delta delta of
        DeltaThinking txt \<Rightarrow>
          map_option (\<lambda>(h, scope). ThinkingWrapper h (Mapping.update (bd_index delta) scope scopes))
            (on_thinking ops h (entry_or_default (scope_default ops h) (bd_index delta) scopes)
               (ThinkingDelta txt))
      | _ \<Rightarrow> Some (ThinkingWrapper h scopes))"
| "dispatch_delta ops delta (ToolUseWrapper h scopes tools) =
     (case bd_delta delta of
        DeltaInputJson fragment \<Rightarrow>
          map_option (\<lambda>(h, scope). ToolUseWrapper h (Mapping.update (bd_index delta) scope scopes) tools)
            (on_tool_use ops h (entry_or_default (scope_default ops h) (bd_index delta) scopes)
               (ToolUseInput fragment))
      | _ \<Rightarrow> Some (ToolUseWrapper h scopes tools))"

text \<open>A stop removes the scope and the tool of its index before the handler is asked.\<close>

fun dispatch_stop ::
  "('h, 's) handler_ops \<Rightarrow> block_stop \<Rightarrow> ('h, 's) block_wrapper \<Rightarrow> ('h, 's) block_wrapper option"
where
  "dispatch_stop ops stop (TextWrapper h None) = Some (TextWrapper h None)"
| "dispatch_stop ops stop (TextWrapper h (Some scope)) =
     map_option (\<lambda>(h, scope). TextWrapper h (Some scope))
       (on_text ops h scope (TextStop (bp_index stop) (bp_stop_reason stop)))"
| "dispatch_stop ops stop (ThinkingWrapper h scopes) =
     (let rest = Mapping.delete (bp_index stop) scopes
      in case Mapping.lookup scopes (bp_index stop) of
           Some scope \<Rightarrow>
             map_option (\<lambda>(h, _). ThinkingWrapper h rest)
               (on_thinking ops h scope (ThinkingStop (bp_index stop) (bp_reasoning stop)))
         | None \<Rightarrow> Some (ThinkingWrapper h rest))"
| "dispatch_stop ops stop (ToolUseWrapper h scopes tools) =
     (let rest = Mapping.delete (bp_index stop) scopes;
          names = Mapping.delete (bp_index stop) tools
      in case (Mapping.lookup scopes (bp_index stop), Mapping.lookup tools (bp_index stop)) of
           (Some scope, Some (call_id, name)) \<Rightarrow>
             map_option (\<lambda>(h, _). ToolUseWrapper h rest names)
               (on_tool_use ops h scope (ToolUseStop (bp_index stop) call_id name))
         | _ \<Rightarrow> Some (ToolUseWrapper h rest names))"

fun dispatch_abort :: "block_abort \<Rightarrow> ('h, 's) block_wrapper \<Rightarrow> ('h, 's) block_wrapper" where
  "dispatch_abort abort (TextWrapper h scope) = TextWrapper h scope"
| "dispatch_abort abort (ThinkingWrapper h scopes) = ThinkingWrapper h Mapping.empty"
| "dispatch_abort abort (ToolUseWrapper h scopes tools) =
     ToolUseWrapper h (Mapping.delete (ba_index abort) scopes) (Mapping.delete (ba_index abort) tools)"

fun block_start_scope ::
  "('h, 's) handler_ops \<Rightarrow> ('h, 's) block_wrapper \<Rightarrow> ('h, 's) block_wrapper" where
  "block_start_scope ops (TextWrapper h scope) = TextWrapper h (Some (scope_default ops h))"
| "block_start_scope ops w = w"

fun block_end_scope :: "('h, 's) block_wrapper \<Rightarrow> ('h, 's) block_wrapper" where
  "block_end_scope (TextWrapper h scope) = TextWrapper h None"
| "block_end_scope w = w"

fun block_has_scope :: "('h, 's) block_wrapper \<Rightarrow> bool" where
  "block_has_scope (TextWrapper h scope) \<longleftrightarrow> scope \<noteq> None"
| "block_has_scope (ThinkingWrapper h scopes) \<longleftrightarrow> \<not> Mapping.is_empty scopes"
| "block_has_scope (ToolUseWrapper h scopes tools) \<longleftrightarrow> \<not> Mapping.is_empty scopes"

section \<open>Usage\<close>

definition later_of :: "'a option \<Rightarrow> 'a option \<Rightarrow> 'a option" where
  "later_of acc new = (if new \<noteq> None then new else acc)"

definition merge_usage :: "usage_event \<Rightarrow> usage_event \<Rightarrow> usage_event" where
  "merge_usage acc new =
     \<lparr>ue_input_tokens = later_of (ue_input_tokens acc) (ue_input_tokens new),
      ue_output_tokens = later_of (ue_output_tokens acc) (ue_output_tokens new),
      ue_total_tokens = later_of (ue_total_tokens acc) (ue_total_tokens new),
      ue_cache_read_input_tokens =
        later_of (ue_cache_read_input_tokens acc) (ue_cache_read_input_tokens new),
      ue_cache_creation_input_tokens =
        later_of (ue_cache_creation_input_tokens acc) (ue_cache_creation_input_tokens new)\<rparr>"

section \<open>The timeline\<close>

type_synonym block_key = "block_type \<times> nat"

record ('h, 's) timeline =
  tl_usage_handlers :: "('h, 's) handler_wrapper list"
  tl_ping_handlers :: "('h, 's) handler_wrapper list"
  tl_status_handlers :: "('h, 's) handler_wrapper list"
  tl_error_handlers :: "('h, 's) handler_wrapper list"
  tl_text_block_handlers :: "('h, 's) block_wrapper list"
  tl_thinking_block_handlers :: "('h, 's) block_wrapper list"
  tl_tool_use_block_handlers :: "('h, 's) block_wrapper list"
  tl_active_blocks :: "block_key list"
  tl_current_block :: "block_type option"
  tl_pending_usage :: "usage_event option"

definition timeline_new :: "('h, 's) timeline" where
  "timeline_new = \<lparr>tl_usage_handlers = [], tl_ping_handlers = [], tl_status_handlers = [],
     tl_error_handlers = [], tl_text_block_handlers = [], tl_thinking_block_handlers = [],
     tl_tool_use_block_handlers = [], tl_active_blocks = [], tl_current_block = None,
     tl_pending_usage = None\<rparr>"

subsection \<open>Registration\<close>

definition register_usage :: "('h, 's) handler_ops \<Rightarrow> 'h \<Rightarrow> ('h, 's) timeline \<Rightarrow> ('h, 's) timeline" where
  "register_usage ops h tm =
     tm\<lparr>tl_usage_handlers := tl_usage_handlers tm @ [wrapper_start_scope ops (wrapper_new h)]\<rparr>"

definition register_ping :: "('h, 's) handler_ops \<Rightarrow> 'h \<Rightarrow> ('h, 's) timeline \<Rightarrow> ('h, 's) timeline" where
  "register_ping ops h tm =
     tm\<lparr>tl_ping_handlers := tl_ping_handlers tm @ [wrapper_start_scope ops (wrapper_new h)]\<rparr>"

definition register_status :: "('h, 's) handler_ops \<Rightarrow> 'h \<Rightarrow> ('h, 's) timeline \<Rightarrow> ('h, 's) timeline" where
  "register_status ops h tm =
     tm\<lparr>tl_status_handlers := tl_status_handlers tm @ [wrapper_start_scope ops (wrapper_new h)]\<rparr>"

definition register_error :: "('h, 's) handler_ops \<Rightarrow> 'h \<Rightarrow> ('h, 's) timeline \<Rightarrow> ('h, 's) timeline" where
  "register_error ops h tm =
     tm\<lparr>tl_error_handlers := tl_error_handlers tm @ [wrapper_start_scope ops (wrapper_new h)]\<rparr>"

definition register_text_block :: "'h \<Rightarrow> ('h, 's) timeline \<Rightarrow> ('h, 's) timeline" where
  "register_text_block h tm =
     tm\<lparr>tl_text_block_handlers := tl_text_block_handlers tm @ [TextWrapper h None]\<rparr>"

definition register_thinking_block :: "'h \<Rightarrow> ('h, 's) timeline \<Rightarrow> ('h, 's) timeline" where
  "register_thinking_block h tm =
     tm\<lparr>tl_thinking_block_handlers := tl_thinking_block_handlers tm @ [ThinkingWrapper h Mapping.empty]\<rparr>"

definition register_tool_use_block :: "'h \<Rightarrow> ('h, 's) timeline \<Rightarrow> ('h, 's) timeline" where
  "register_tool_use_block h tm =
     tm\<lparr>tl_tool_use_block_handlers :=
          tl_tool_use_block_handlers tm @ [ToolUseWrapper h Mapping.empty Mapping.empty]\<rparr>"

subsection \<open>Dispatch\<close>

text \<open>\<open>for handler in handlers { \<dots> }\<close>\<close>

fun map_opt :: "('a \<Rightarrow> 'b option) \<Rightarrow> 'a list \<Rightarrow> 'b list option" where
  "map_opt f [] = Some []"
| "map_opt f (x # xs) = Option.bind (f x) (\<lambda>y. map_option ((#) y) (map_opt f xs))"

definition dispatch_usage :: "usage_event \<Rightarrow> ('h, 's) timeline \<Rightarrow> ('h, 's) timeline" where
  "dispatch_usage u tm =
     (case tl_pending_usage tm of
        Some acc \<Rightarrow> tm\<lparr>tl_pending_usage := Some (merge_usage acc u)\<rparr>
      | None \<Rightarrow> tm\<lparr>tl_pending_usage := Some u\<rparr>)"

definition flush_usage ::
  "('h, 's) handler_ops \<Rightarrow> ('h, 's) timeline \<Rightarrow> ('h, 's) timeline option" where
  "flush_usage ops tm =
     (case tl_pending_usage tm of
        None \<Rightarrow> Some tm
      | Some u \<Rightarrow>
          map_option (\<lambda>hs. tm\<lparr>tl_pending_usage := None, tl_usage_handlers := hs\<rparr>)
            (map_opt (wrapper_dispatch (on_usage ops) u) (tl_usage_handlers tm)))"

definition dispatch_ping ::
  "('h, 's) handler_ops \<Rightarrow> ping_event \<Rightarrow> ('h, 's) timeline \<Rightarrow> ('h, 's) timeline option" where
  "dispatch_ping ops ev tm =
     map_option (\<lambda>hs. tm\<lparr>tl_ping_handlers := hs\<rparr>)
       (map_opt (wrapper_dispatch (on_ping ops) ev) (tl_ping_handlers tm))"

definition dispatch_status ::
  "('h, 's) handler_ops \<Rightarrow> status_event \<Rightarrow> ('h, 's) timeline \<Rightarrow> ('h, 's) timeline option" where
  "dispatch_status ops ev tm =
     map_option (\<lambda>hs. tm\<lparr>tl_status_handlers := hs\<rparr>)
       (map_opt (wrapper_dispatch (on_status ops) ev) (tl_status_handlers tm))"

definition dispatch_error ::
  "('h, 's) handler_ops \<Rightarrow> error_event \<Rightarrow> ('h, 's) timeline \<Rightarrow> ('h, 's) timeline option" where
  "dispatch_error ops ev tm =
     map_option (\<lambda>hs. tm\<lparr>tl_error_handlers := hs\<rparr>)
       (map_opt (wrapper_dispatch (on_error ops) ev) (tl_error_handlers tm))"

text \<open>\<open>get_block_handlers_mut\<close>: the handlers of a block type, replaced by what \<open>f\<close> makes of
  them; tool-result blocks go to the text handlers.\<close>

fun on_block_handlers ::
  "block_type \<Rightarrow> (('h, 's) block_wrapper \<Rightarrow> ('h, 's) block_wrapper option)
    \<Rightarrow> ('h, 's) timeline \<Rightarrow> ('h, 's) timeline option"
where
  "on_block_handlers BText f tm =
     map_option (\<lambda>hs. tm\<lparr>tl_text_block_handlers := hs\<rparr>) (map_opt f (tl_text_block_handlers tm))"
| "on_block_handlers BThinking f tm =
     map_option (\<lambda>hs. tm\<lparr>tl_thinking_block_handlers := hs\<rparr>)
       (map_opt f (tl_thinking_block_handlers tm))"
| "on_block_handlers BToolUse f tm =
     map_option (\<lambda>hs. tm\<lparr>tl_tool_use_block_handlers := hs\<rparr>)
       (map_opt f (tl_tool_use_block_handlers tm))"
| "on_block_handlers BToolResult f tm =
     map_option (\<lambda>hs. tm\<lparr>tl_text_block_handlers := hs\<rparr>) (map_opt f (tl_text_block_handlers tm))"

definition activate :: "block_key \<Rightarrow> block_key list \<Rightarrow> block_key list" where
  "activate k ks = (if k \<in> set ks then ks else ks @ [k])"

definition deactivate :: "block_key \<Rightarrow> block_key list \<Rightarrow> block_key list" where
  "deactivate k ks = filter (\<lambda>k'. k' \<noteq> k) ks"

definition next_current :: "(block_key list \<Rightarrow> block_key list) \<Rightarrow> block_key list \<Rightarrow> block_type option" where
  "next_current hash_order ks =
     (case hash_order ks of [] \<Rightarrow> None | (ty, _) # _ \<Rightarrow> Some ty)"

definition handle_block_start ::
  "('h, 's) handler_ops \<Rightarrow> block_start \<Rightarrow> ('h, 's) timeline \<Rightarrow> ('h, 's) timeline option" where
  "handle_block_start ops start tm =
     on_block_handlers (bs_block_type start)
       (\<lambda>w. dispatch_start ops start (block_start_scope ops w))
       (tm\<lparr>tl_active_blocks := activate (bs_block_type start, bs_index start) (tl_active_blocks tm),
          tl_current_block := Some (bs_block_type start)\<rparr>)"

definition handle_block_delta ::
  "('h, 's) handler_ops \<Rightarrow> block_delta \<Rightarrow> ('h, 's) timeline \<Rightarrow> ('h, 's) timeline option" where
  "handle_block_delta ops delta tm =
     (let ty = delta_block_type (bd_delta delta)
      in on_block_handlers ty
           (\<lambda>w. dispatch_delta ops delta
              (if \<not> block_has_scope w then block_start_scope ops w else w))
           (tm\<lparr>tl_active_blocks := activate (ty, bd_index delta) (tl_active_blocks tm),
              tl_current_block := Some ty\<rparr>))"

definition handle_block_stop ::
  "('h, 's) handler_ops \<Rightarrow> (block_key list \<Rightarrow> block_key list) \<Rightarrow> block_stop
    \<Rightarrow> ('h, 's) timeline \<Rightarrow> ('h, 's) timeline option" where
  "handle_block_stop ops hash_order stop tm =
     map_option
       (\<lambda>tm. let active = deactivate (bp_block_type stop, bp_index stop) (tl_active_blocks tm)
              in tm\<lparr>tl_active_blocks := active, tl_current_block := next_current hash_order active\<rparr>)
       (on_block_handlers (bp_block_type stop)
          (\<lambda>w. map_option block_end_scope (dispatch_stop ops stop w)) tm)"

definition handle_block_abort ::
  "(block_key list \<Rightarrow> block_key list) \<Rightarrow> block_abort \<Rightarrow> ('h, 's) timeline \<Rightarrow> ('h, 's) timeline option"
where
  "handle_block_abort hash_order abort tm =
     map_option
       (\<lambda>tm. let active = deactivate (ba_block_type abort, ba_index abort) (tl_active_blocks tm)
              in tm\<lparr>tl_active_blocks := active, tl_current_block := next_current hash_order active\<rparr>)
       (on_block_handlers (ba_block_type abort)
          (\<lambda>w. Some (block_end_scope (dispatch_abort abort w))) tm)"

fun dispatch ::
  "('h, 's) handler_ops \<Rightarrow> (block_key list \<Rightarrow> block_key list) \<Rightarrow> event
    \<Rightarrow> ('h, 's) timeline \<Rightarrow> ('h, 's) timeline option"
where
  "dispatch ops hash_order (Usage u) tm = Some (dispatch_usage u tm)"
| "dispatch ops hash_order (Ping p) tm = dispatch_ping ops p tm"
| "dispatch ops hash_order (Status st) tm = dispatch_status ops st tm"
| "dispatch ops hash_order (ErrorEv e) tm = dispatch_error ops e tm"
| "dispatch ops hash_order (UnhandledSse _) tm = Some tm"
| "dispatch ops hash_order (BlockStart start) tm = handle_block_start ops start tm"
| "dispatch ops hash_order (BlockDelta delta) tm = handle_block_delta ops delta tm"
| "dispatch ops hash_order (BlockStop stop) tm = handle_block_stop ops hash_order stop tm"
| "dispatch ops hash_order (BlockAbort abort) tm = handle_block_abort hash_order abort tm"

fun dispatch_all ::
  "('h, 's) handler_ops \<Rightarrow> (block_key list \<Rightarrow> block_key list) \<Rightarrow> event list
    \<Rightarrow> ('h, 's) timeline \<Rightarrow> ('h, 's) timeline option"
where
  "dispatch_all ops hash_order [] tm = Some tm"
| "dispatch_all ops hash_order (ev # evs) tm =
     Option.bind (dispatch ops hash_order ev tm) (dispatch_all ops hash_order evs)"

subsection \<open>Abort\<close>

fun abort_blocks ::
  "(block_key list \<Rightarrow> block_key list) \<Rightarrow> block_key list \<Rightarrow> ('h, 's) timeline \<Rightarrow> ('h, 's) timeline option"
where
  "abort_blocks hash_order [] tm = Some tm"
| "abort_blocks hash_order ((ty, i) # keys) tm =
     Option.bind
       (handle_block_abort hash_order
          \<lparr>ba_index = i, ba_block_type = ty, ba_reason = ''Cancelled''\<rparr> tm)
       (abort_blocks hash_order keys)"

definition abort_current_block ::
  "(block_key list \<Rightarrow> block_key list) \<Rightarrow> ('h, 's) timeline \<Rightarrow> ('h, 's) timeline option" where
  "abort_current_block hash_order tm =
     map_option (\<lambda>tm. tm\<lparr>tl_active_blocks := [], tl_current_block := None\<rparr>)
       (abort_blocks hash_order (hash_order (tl_active_blocks tm)) tm)"

end
