(* ===== verification/Stream_Collectors.thy ===== *)
theory Stream_Collectors
  imports Stream_Timeline
begin

text \<open>
  The handlers the engine registers on its timeline: the collectors of text blocks, thinking
  blocks and tool calls (\<open>timeline/text_block_collector.rs\<close>,
  \<open>timeline/thinking_block_collector.rs\<close>, \<open>timeline/tool_call_collector.rs\<close>) and the
  closure adapters of \<open>callback.rs\<close>.  A closure is a function on its captured state \<open>'w\<close>.
  The state a collector shares with the engine is the one its handler holds.
\<close>

section \<open>Collectors\<close>

subsection \<open>Text\<close>

type_synonym text_collector = "string list"

definition text_collector_new :: text_collector where
  "text_collector_new = []"

definition text_take_collected :: "text_collector \<Rightarrow> string list \<times> text_collector" where
  "text_take_collected c = (c, [])"

definition text_collected :: "text_collector \<Rightarrow> string list" where
  "text_collected c = c"

definition text_has_content :: "text_collector \<Rightarrow> bool" where
  "text_has_content c \<longleftrightarrow> c \<noteq> []"

definition text_clear :: "text_collector \<Rightarrow> text_collector" where
  "text_clear c = []"

fun text_on_event :: "text_collector \<Rightarrow> string \<Rightarrow> text_block_event \<Rightarrow> text_collector \<times> string" where
  "text_on_event c buffer (TextStart _) = (c, [])"
| "text_on_event c buffer (TextDelta txt) = (c, buffer @ txt)"
| "text_on_event c buffer (TextStop _ _) =
     (if buffer \<noteq> [] then (c @ [buffer], []) else (c, buffer))"

subsection \<open>Thinking\<close>

type_synonym thinking_collector = "reasoning_block_data list"

definition thinking_collector_new :: thinking_collector where
  "thinking_collector_new = []"

definition thinking_take_collected ::
  "thinking_collector \<Rightarrow> reasoning_block_data list \<times> thinking_collector" where
  "thinking_take_collected c = (c, [])"

definition thinking_clear :: "thinking_collector \<Rightarrow> thinking_collector" where
  "thinking_clear c = []"

definition with_block_text :: "string \<Rightarrow> reasoning_block_data \<Rightarrow> reasoning_block_data" where
  "with_block_text buffer r = (if rb_text r = None then r\<lparr>rb_text := Some buffer\<rparr> else r)"

fun thinking_on_event ::
  "thinking_collector \<Rightarrow> string \<Rightarrow> thinking_block_event \<Rightarrow> thinking_collector \<times> string" where
  "thinking_on_event c buffer (ThinkingStart _) = (c, [])"
| "thinking_on_event c buffer (ThinkingDelta txt) = (c, buffer @ txt)"
| "thinking_on_event c buffer (ThinkingStop _ data) =
     (case data of
        Some r \<Rightarrow> (c @ [with_block_text buffer r], buffer)
      | None \<Rightarrow> (c, buffer))"

subsection \<open>Tool calls\<close>

record collector_state =
  co_current_id :: "string option"
  co_current_name :: "string option"
  co_call_index :: "nat option"
  co_input_json_buffer :: string

definition collector_state_default :: collector_state where
  "collector_state_default = \<lparr>co_current_id = None, co_current_name = None, co_call_index = None,
     co_input_json_buffer = []\<rparr>"

record collected_tool_call =
  cc_call_index :: nat
  cc_call :: tool_call

record tool_collector =
  tc_collected :: "collected_tool_call list"
  tc_next_call_index :: nat

definition tool_collector_new :: tool_collector where
  "tool_collector_new = \<lparr>tc_collected = [], tc_next_call_index = 0\<rparr>"

definition take_collected_with_index ::
  "tool_collector \<Rightarrow> collected_tool_call list \<times> tool_collector" where
  "take_collected_with_index c = (tc_collected c, c\<lparr>tc_collected := []\<rparr>)"

definition tool_take_collected :: "tool_collector \<Rightarrow> tool_call list \<times> tool_collector" where
  "tool_take_collected c =
     (let (calls, c) = take_collected_with_index c in (map cc_call calls, c))"

definition tool_collected :: "tool_collector \<Rightarrow> tool_call list" where
  "tool_collected c = map cc_call (tc_collected c)"

definition begin_response :: "tool_collector \<Rightarrow> tool_collector" where
  "begin_response c = c\<lparr>tc_collected := [], tc_next_call_index := 0\<rparr>"

definition has_pending_calls :: "tool_collector \<Rightarrow> bool" where
  "has_pending_calls c \<longleftrightarrow> tc_collected c \<noteq> []"

definition tool_clear :: "tool_collector \<Rightarrow> tool_collector" where
  "tool_clear c = c\<lparr>tc_collected := []\<rparr>"

text \<open>\<open>serde_json::from_str\<close> is the parameter \<open>from_str\<close>.\<close>

definition collected_input :: "(string \<Rightarrow> json option) \<Rightarrow> string \<Rightarrow> json" where
  "collected_input from_str buffer =
     (if trim_str buffer = [] then JObject []
      else case from_str buffer of Some (JObject members) \<Rightarrow> JObject members | _ \<Rightarrow> JNull)"

fun tool_on_event ::
  "(string \<Rightarrow> json option) \<Rightarrow> tool_collector \<Rightarrow> collector_state \<Rightarrow> tool_use_block_event
    \<Rightarrow> (tool_collector \<times> collector_state) option"
where
  "tool_on_event from_str c scope (ToolUseStart _ call_id name) =
     (let scope = scope\<lparr>co_current_id := Some call_id, co_current_name := Some name\<rparr>;
          (c, scope) = (case co_call_index scope of
             None \<Rightarrow> (c\<lparr>tc_next_call_index := tc_next_call_index c + 1\<rparr>,
                      scope\<lparr>co_call_index := Some (tc_next_call_index c)\<rparr>)
           | Some _ \<Rightarrow> (c, scope))
      in Some (c, scope\<lparr>co_input_json_buffer := []\<rparr>))"
| "tool_on_event from_str c scope (ToolUseInput fragment) =
     Some (c, scope\<lparr>co_input_json_buffer := co_input_json_buffer scope @ fragment\<rparr>)"
| "tool_on_event from_str c scope (ToolUseStop _ _ _) =
     (let taken = scope\<lparr>co_current_id := None, co_current_name := None\<rparr>
      in case (co_current_id scope, co_current_name scope) of
           (Some call_id, Some name) \<Rightarrow>
             (case co_call_index scope of
                None \<Rightarrow> None
              | Some call_index \<Rightarrow>
                  Some (c\<lparr>tc_collected := tc_collected c @
                            [\<lparr>cc_call_index = call_index,
                              cc_call = \<lparr>tcl_id = call_id, tcl_name = name,
                                tcl_input = collected_input from_str (co_input_json_buffer scope)\<rparr>\<rparr>]\<rparr>,
                        taken\<lparr>co_call_index := None, co_input_json_buffer := []\<rparr>))
         | _ \<Rightarrow> Some (c, taken\<lparr>co_input_json_buffer := []\<rparr>))"

section \<open>Closure adapters\<close>

record 'w block_callbacks =
  cb_on_delta :: "('w \<Rightarrow> string \<Rightarrow> 'w) option"
  cb_on_stop :: "('w \<Rightarrow> string \<Rightarrow> 'w) option"

record 'w block_closure_state = "'w block_callbacks" +
  cb_buffer :: string

definition block_closure_default :: "'w block_closure_state" where
  "block_closure_default = \<lparr>cb_on_delta = None, cb_on_stop = None, cb_buffer = []\<rparr>"

type_synonym 'w block_setup = "'w \<Rightarrow> 'w block_callbacks \<times> 'w"

definition closure_start :: "'w block_setup \<Rightarrow> 'w \<Rightarrow> 'w block_closure_state \<Rightarrow> 'w \<times> 'w block_closure_state" where
  "closure_start setup w scope =
     (let (cbs, w) = setup w
      in (w, scope\<lparr>cb_buffer := [], cb_on_delta := cb_on_delta cbs, cb_on_stop := cb_on_stop cbs\<rparr>))"

definition closure_delta :: "string \<Rightarrow> 'w \<Rightarrow> 'w block_closure_state \<Rightarrow> 'w \<times> 'w block_closure_state" where
  "closure_delta txt w scope =
     (let scope = scope\<lparr>cb_buffer := cb_buffer scope @ txt\<rparr>
      in (case cb_on_delta scope of Some f \<Rightarrow> f w txt | None \<Rightarrow> w, scope))"

definition closure_stop :: "'w \<Rightarrow> 'w block_closure_state \<Rightarrow> 'w \<times> 'w block_closure_state" where
  "closure_stop w scope =
     (case cb_on_stop scope of Some f \<Rightarrow> f w (cb_buffer scope) | None \<Rightarrow> w, scope)"

fun text_closure_event ::
  "'w block_setup \<Rightarrow> 'w \<Rightarrow> 'w block_closure_state \<Rightarrow> text_block_event \<Rightarrow> 'w \<times> 'w block_closure_state"
where
  "text_closure_event setup w scope (TextStart _) = closure_start setup w scope"
| "text_closure_event setup w scope (TextDelta txt) = closure_delta txt w scope"
| "text_closure_event setup w scope (TextStop _ _) = closure_stop w scope"

fun thinking_closure_event ::
  "'w block_setup \<Rightarrow> 'w \<Rightarrow> 'w block_closure_state \<Rightarrow> thinking_block_event \<Rightarrow> 'w \<times> 'w block_closure_state"
where
  "thinking_closure_event setup w scope (ThinkingStart _) = closure_start setup w scope"
| "thinking_closure_event setup w scope (ThinkingDelta txt) = closure_delta txt w scope"
| "thinking_closure_event setup w scope (ThinkingStop _ _) = closure_stop w scope"

record 'w tool_callbacks =
  tb_on_delta :: "('w \<Rightarrow> string \<Rightarrow> 'w) option"
  tb_on_stop :: "('w \<Rightarrow> tool_call \<Rightarrow> 'w) option"

record 'w tool_closure_state = "'w tool_callbacks" +
  tb_id :: string
  tb_name :: string
  tb_input_json :: string

definition tool_closure_default :: "'w tool_closure_state" where
  "tool_closure_default = \<lparr>tb_on_delta = None, tb_on_stop = None, tb_id = [], tb_name = [],
     tb_input_json = []\<rparr>"

type_synonym 'w tool_setup = "nat \<Rightarrow> string \<Rightarrow> string \<Rightarrow> 'w \<Rightarrow> 'w tool_callbacks \<times> 'w"

fun tool_closure_event ::
  "(string \<Rightarrow> json option) \<Rightarrow> 'w tool_setup \<Rightarrow> 'w \<Rightarrow> 'w tool_closure_state \<Rightarrow> tool_use_block_event
    \<Rightarrow> 'w \<times> 'w tool_closure_state"
where
  "tool_closure_event from_str setup w scope (ToolUseStart i call_id name) =
     (let scope = scope\<lparr>tb_id := call_id, tb_name := name, tb_input_json := []\<rparr>;
          (cbs, w) = setup i call_id name w
      in (w, scope\<lparr>tb_on_delta := tb_on_delta cbs, tb_on_stop := tb_on_stop cbs\<rparr>))"
| "tool_closure_event from_str setup w scope (ToolUseInput fragment) =
     (let scope = scope\<lparr>tb_input_json := tb_input_json scope @ fragment\<rparr>
      in (case tb_on_delta scope of Some f \<Rightarrow> f w fragment | None \<Rightarrow> w, scope))"
| "tool_closure_event from_str setup w scope (ToolUseStop _ _ _) =
     (let input = (case from_str (tb_input_json scope) of Some v \<Rightarrow> v | None \<Rightarrow> JNull);
          call = \<lparr>tcl_id = tb_id scope, tcl_name = tb_name scope, tcl_input = input\<rparr>;
          scope = scope\<lparr>tb_id := [], tb_name := []\<rparr>
      in (case tb_on_stop scope of Some f \<Rightarrow> f w call | None \<Rightarrow> w, scope))"

section \<open>The handlers of an engine\<close>

datatype 'w engine_handler =
    TextCollectorH text_collector
  | ThinkingCollectorH thinking_collector
  | ToolCollectorH tool_collector
  | TextClosureH "'w block_setup" 'w
  | ThinkingClosureH "'w block_setup" 'w
  | ToolClosureH "'w tool_setup" 'w
  | UsageClosureH "'w \<Rightarrow> usage_event \<Rightarrow> 'w" 'w
  | StatusClosureH "'w \<Rightarrow> status_event \<Rightarrow> 'w" 'w
  | ErrorClosureH "'w \<Rightarrow> error_event \<Rightarrow> 'w" 'w

datatype 'w engine_scope =
    BufferScope string
  | CollectorScope collector_state
  | BlockClosureScope "'w block_closure_state"
  | ToolClosureScope "'w tool_closure_state"
  | UnitScope

fun engine_scope_default :: "'w engine_handler \<Rightarrow> 'w engine_scope" where
  "engine_scope_default (TextCollectorH _) = BufferScope []"
| "engine_scope_default (ThinkingCollectorH _) = BufferScope []"
| "engine_scope_default (ToolCollectorH _) = CollectorScope collector_state_default"
| "engine_scope_default (TextClosureH _ _) = BlockClosureScope block_closure_default"
| "engine_scope_default (ThinkingClosureH _ _) = BlockClosureScope block_closure_default"
| "engine_scope_default (ToolClosureH _ _) = ToolClosureScope tool_closure_default"
| "engine_scope_default _ = UnitScope"

text \<open>The method table.  A handler of one kind is never called with the scope or the event of
  another; those cases are \<open>None\<close>.\<close>

fun engine_on_text ::
  "'w engine_handler \<Rightarrow> 'w engine_scope \<Rightarrow> text_block_event \<Rightarrow> ('w engine_handler \<times> 'w engine_scope) option"
where
  "engine_on_text (TextCollectorH c) (BufferScope b) ev =
     (let (c, b) = text_on_event c b ev in Some (TextCollectorH c, BufferScope b))"
| "engine_on_text (TextClosureH setup w) (BlockClosureScope scope) ev =
     (let (w, scope) = text_closure_event setup w scope ev
      in Some (TextClosureH setup w, BlockClosureScope scope))"
| "engine_on_text _ _ _ = None"

fun engine_on_thinking ::
  "'w engine_handler \<Rightarrow> 'w engine_scope \<Rightarrow> thinking_block_event \<Rightarrow> ('w engine_handler \<times> 'w engine_scope) option"
where
  "engine_on_thinking (ThinkingCollectorH c) (BufferScope b) ev =
     (let (c, b) = thinking_on_event c b ev in Some (ThinkingCollectorH c, BufferScope b))"
| "engine_on_thinking (ThinkingClosureH setup w) (BlockClosureScope scope) ev =
     (let (w, scope) = thinking_closure_event setup w scope ev
      in Some (ThinkingClosureH setup w, BlockClosureScope scope))"
| "engine_on_thinking _ _ _ = None"

fun engine_on_tool_use ::
  "(string \<Rightarrow> json option) \<Rightarrow> 'w engine_handler \<Rightarrow> 'w engine_scope \<Rightarrow> tool_use_block_event
    \<Rightarrow> ('w engine_handler \<times> 'w engine_scope) option"
where
  "engine_on_tool_use from_str (ToolCollectorH c) (CollectorScope scope) ev =
     map_option (\<lambda>(c, scope). (ToolCollectorH c, CollectorScope scope))
       (tool_on_event from_str c scope ev)"
| "engine_on_tool_use from_str (ToolClosureH setup w) (ToolClosureScope scope) ev =
     (let (w, scope) = tool_closure_event from_str setup w scope ev
      in Some (ToolClosureH setup w, ToolClosureScope scope))"
| "engine_on_tool_use _ _ _ _ = None"

fun engine_on_usage ::
  "'w engine_handler \<Rightarrow> 'w engine_scope \<Rightarrow> usage_event \<Rightarrow> ('w engine_handler \<times> 'w engine_scope) option"
where
  "engine_on_usage (UsageClosureH f w) UnitScope ev = Some (UsageClosureH f (f w ev), UnitScope)"
| "engine_on_usage _ _ _ = None"

fun engine_on_status ::
  "'w engine_handler \<Rightarrow> 'w engine_scope \<Rightarrow> status_event \<Rightarrow> ('w engine_handler \<times> 'w engine_scope) option"
where
  "engine_on_status (StatusClosureH f w) UnitScope ev = Some (StatusClosureH f (f w ev), UnitScope)"
| "engine_on_status _ _ _ = None"

fun engine_on_error ::
  "'w engine_handler \<Rightarrow> 'w engine_scope \<Rightarrow> error_event \<Rightarrow> ('w engine_handler \<times> 'w engine_scope) option"
where
  "engine_on_error (ErrorClosureH f w) UnitScope ev = Some (ErrorClosureH f (f w ev), UnitScope)"
| "engine_on_error _ _ _ = None"

definition engine_ops ::
  "(string \<Rightarrow> json option) \<Rightarrow> ('w engine_handler, 'w engine_scope) handler_ops" where
  "engine_ops from_str = \<lparr>scope_default = engine_scope_default, on_usage = engine_on_usage,
     on_ping = (\<lambda>_ _ _. None), on_status = engine_on_status, on_error = engine_on_error,
     on_text = engine_on_text, on_thinking = engine_on_thinking,
     on_tool_use = engine_on_tool_use from_str\<rparr>"

text \<open>\<open>Engine::new_annotated\<close>: the three collectors on a new timeline.\<close>

definition engine_timeline :: "('w engine_handler, 'w engine_scope) timeline" where
  "engine_timeline =
     register_thinking_block (ThinkingCollectorH thinking_collector_new)
       (register_tool_use_block (ToolCollectorH tool_collector_new)
          (register_text_block (TextCollectorH text_collector_new) timeline_new))"

end
