(* ===== verification/Stream_Reference.thy ===== *)
theory Stream_Reference
  imports Stream_Collectors
begin

text \<open>
  What the engine collects from an arbitrary stream: for every kind of block a reference that
  reads the stream as a whole, and the proof that the timeline with its per-index scopes and the
  collectors computes it and never panics.  The content of a tool call depends on the events of its
  own block only, however the blocks are interleaved.
\<close>

section \<open>References\<close>

record open_call =
  oc_start :: nat
  oc_id :: string
  oc_name :: string
  oc_input :: string

text \<open>The open tool-use block with index \<open>k\<close>: where it was started, its latest identifier and
  name, and the input received since.\<close>

fun tool_block_step :: "nat \<Rightarrow> nat \<times> event \<Rightarrow> open_call option \<Rightarrow> open_call option" where
  "tool_block_step k (n, BlockStart s) st =
     (if bs_block_type s = BToolUse \<and> bs_index s = k
      then (case bs_metadata s of
              MetaToolUse i name \<Rightarrow>
                Some \<lparr>oc_start = (case st of None \<Rightarrow> n | Some c \<Rightarrow> oc_start c), oc_id = i, oc_name = name,
                       oc_input = []\<rparr>
            | _ \<Rightarrow> st)
      else st)"
| "tool_block_step k (n, BlockDelta d) st =
     (case bd_delta d of
        DeltaInputJson fragment \<Rightarrow>
          (if bd_index d = k then map_option (\<lambda>c. c\<lparr>oc_input := oc_input c @ fragment\<rparr>) st else st)
      | _ \<Rightarrow> st)"
| "tool_block_step k (n, BlockStop s) st =
     (if bp_block_type s = BToolUse \<and> bp_index s = k then None else st)"
| "tool_block_step k (n, BlockAbort a) st =
     (if ba_block_type a = BToolUse \<and> ba_index a = k then None else st)"
| "tool_block_step k (n, _) st = st"

definition open_block :: "nat \<Rightarrow> event list \<Rightarrow> open_call option" where
  "open_block k es = fold (tool_block_step k) (enumerate 0 es) None"

text \<open>A start that opens a block, as opposed to one that restarts an open block.\<close>

fun opens_call :: "event list \<Rightarrow> event \<Rightarrow> bool" where
  "opens_call es (BlockStart s) \<longleftrightarrow> bs_block_type s = BToolUse \<and>
     (case bs_metadata s of MetaToolUse _ _ \<Rightarrow> open_block (bs_index s) es = None | _ \<Rightarrow> False)"
| "opens_call es _ \<longleftrightarrow> False"

definition calls_opened :: "event list \<Rightarrow> nat \<Rightarrow> nat" where
  "calls_opened es n = length (filter (\<lambda>j. opens_call (take j es) (es ! j)) [0..<n])"

fun completed_block :: "event list \<Rightarrow> event \<Rightarrow> open_call option" where
  "completed_block es (BlockStop s) =
     (if bp_block_type s = BToolUse then open_block (bp_index s) es else None)"
| "completed_block es _ = None"

definition streamed_call :: "(string \<Rightarrow> json option) \<Rightarrow> event list \<Rightarrow> open_call \<Rightarrow> collected_tool_call" where
  "streamed_call from_str es c =
     \<lparr>cc_call_index = calls_opened es (oc_start c),
      cc_call = \<lparr>tcl_id = oc_id c, tcl_name = oc_name c,
                 tcl_input = collected_input from_str (oc_input c)\<rparr>\<rparr>"

definition streamed_calls :: "(string \<Rightarrow> json option) \<Rightarrow> event list \<Rightarrow> collected_tool_call list" where
  "streamed_calls from_str es =
     List.map_filter (\<lambda>n. map_option (streamed_call from_str es) (completed_block (take n es) (es ! n)))
       [0..<length es]"

subsection \<open>Text and thinking\<close>

definition is_text_type :: "block_type \<Rightarrow> bool" where
  "is_text_type ty \<longleftrightarrow> ty = BText \<or> ty = BToolResult"

text \<open>All text blocks share one buffer.\<close>

fun text_step :: "event \<Rightarrow> string option \<Rightarrow> string option" where
  "text_step (BlockStart s) st = (if is_text_type (bs_block_type s) then Some [] else st)"
| "text_step (BlockDelta d) st =
     (case bd_delta d of
        DeltaText txt \<Rightarrow> Some ((case st of Some b \<Rightarrow> b | None \<Rightarrow> []) @ txt)
      | _ \<Rightarrow> st)"
| "text_step (BlockStop s) st = (if is_text_type (bp_block_type s) then None else st)"
| "text_step (BlockAbort a) st = (if is_text_type (ba_block_type a) then None else st)"
| "text_step _ st = st"

definition text_open :: "event list \<Rightarrow> string option" where
  "text_open es = fold text_step es None"

fun completed_text :: "event list \<Rightarrow> event \<Rightarrow> string option" where
  "completed_text es (BlockStop s) =
     (case text_open es of
        Some b \<Rightarrow> (if is_text_type (bp_block_type s) \<and> b \<noteq> [] then Some b else None)
      | None \<Rightarrow> None)"
| "completed_text es _ = None"

definition streamed_texts :: "event list \<Rightarrow> string list" where
  "streamed_texts es = List.map_filter (\<lambda>n. completed_text (take n es) (es ! n)) [0..<length es]"

text \<open>An abort of any thinking block drops all open thinking blocks.\<close>

fun thinking_step :: "nat \<Rightarrow> event \<Rightarrow> string option \<Rightarrow> string option" where
  "thinking_step k (BlockStart s) st =
     (if bs_block_type s = BThinking \<and> bs_index s = k then Some [] else st)"
| "thinking_step k (BlockDelta d) st =
     (case bd_delta d of
        DeltaThinking txt \<Rightarrow>
          (if bd_index d = k then Some ((case st of Some b \<Rightarrow> b | None \<Rightarrow> []) @ txt) else st)
      | _ \<Rightarrow> st)"
| "thinking_step k (BlockStop s) st =
     (if bp_block_type s = BThinking \<and> bp_index s = k then None else st)"
| "thinking_step k (BlockAbort a) st = (if ba_block_type a = BThinking then None else st)"
| "thinking_step k _ st = st"

definition thinking_open :: "nat \<Rightarrow> event list \<Rightarrow> string option" where
  "thinking_open k es = fold (thinking_step k) es None"

fun completed_thinking :: "event list \<Rightarrow> event \<Rightarrow> reasoning_block_data option" where
  "completed_thinking es (BlockStop s) =
     (case thinking_open (bp_index s) es of
        Some b \<Rightarrow> (if bp_block_type s = BThinking then map_option (with_block_text b) (bp_reasoning s) else None)
      | None \<Rightarrow> None)"
| "completed_thinking es _ = None"

definition streamed_thinking :: "event list \<Rightarrow> reasoning_block_data list" where
  "streamed_thinking es =
     List.map_filter (\<lambda>n. completed_thinking (take n es) (es ! n)) [0..<length es]"

subsection \<open>One more event\<close>

lemma map_filter_snoc:
  "List.map_filter f (xs @ [x]) = List.map_filter f xs @ (case f x of Some y \<Rightarrow> [y] | None \<Rightarrow> [])"
  by (simp add: map_filter_def split: option.split)

lemma map_map_filter: "map g (List.map_filter f xs) = List.map_filter (\<lambda>x. map_option g (f x)) xs"
  by (simp add: map_filter_def option.map_sel)

lemma map_filter_upt_cong:
  "(\<And>n. n < m \<Longrightarrow> f n = g n) \<Longrightarrow> List.map_filter f [0..<m] = List.map_filter g [0..<m]"
  by (induction m) (simp_all add: map_filter_snoc)

lemma map_filter_prefixes_snoc:
  "List.map_filter (\<lambda>n. F (take n (es @ [ev])) ((es @ [ev]) ! n)) [0..<length (es @ [ev])] =
     List.map_filter (\<lambda>n. F (take n es) (es ! n)) [0..<length es] @
     (case F es ev of Some y \<Rightarrow> [y] | None \<Rightarrow> [])"
proof -
  have "List.map_filter (\<lambda>n. F (take n (es @ [ev])) ((es @ [ev]) ! n)) [0..<length es] =
      List.map_filter (\<lambda>n. F (take n es) (es ! n)) [0..<length es]"
    by (rule map_filter_upt_cong) (simp add: nth_append)
  then show ?thesis by (simp add: map_filter_snoc)
qed

lemma open_block_Nil [simp]: "open_block k [] = None"
  by (simp add: open_block_def)

lemma open_block_snoc:
  "open_block k (es @ [ev]) = tool_block_step k (length es, ev) (open_block k es)"
  by (simp add: open_block_def enumerate_append_eq)

lemma text_open_Nil [simp]: "text_open [] = None"
  and text_open_snoc: "text_open (es @ [ev]) = text_step ev (text_open es)"
  by (simp_all add: text_open_def)

lemma thinking_open_Nil [simp]: "thinking_open k [] = None"
  and thinking_open_snoc: "thinking_open k (es @ [ev]) = thinking_step k ev (thinking_open k es)"
  by (simp_all add: thinking_open_def)

lemma open_block_start: "open_block k es = Some c \<Longrightarrow> oc_start c < length es"
proof (induction es arbitrary: c rule: rev_induct)
  case (snoc ev es)
  then show ?case
    by (cases ev) (fastforce simp: open_block_snoc less_SucI split: if_splits block_metadata.splits
        delta_content.splits option.splits)+
qed simp

lemma calls_opened_snoc:
  "n \<le> length es \<Longrightarrow> calls_opened (es @ [ev]) n = calls_opened es n"
  "calls_opened (es @ [ev]) (Suc (length es)) = calls_opened es (length es) + (if opens_call es ev then 1 else 0)"
proof -
  have same: "filter (\<lambda>j. opens_call (take j (es @ [ev])) ((es @ [ev]) ! j)) [0..<n] =
      filter (\<lambda>j. opens_call (take j es) (es ! j)) [0..<n]" if "n \<le> length es" for n
    using that by (intro filter_cong) (auto simp: nth_append)
  then show "n \<le> length es \<Longrightarrow> calls_opened (es @ [ev]) n = calls_opened es n"
    by (simp add: calls_opened_def)
  from same [of "length es"] show "calls_opened (es @ [ev]) (Suc (length es)) =
      calls_opened es (length es) + (if opens_call es ev then 1 else 0)"
    by (simp add: calls_opened_def)
qed

lemma streamed_snoc:
  "streamed_texts (es @ [ev]) = streamed_texts es @ (case completed_text es ev of Some b \<Rightarrow> [b] | None \<Rightarrow> [])"
  "streamed_thinking (es @ [ev]) =
     streamed_thinking es @ (case completed_thinking es ev of Some r \<Rightarrow> [r] | None \<Rightarrow> [])"
  unfolding streamed_texts_def streamed_thinking_def
  by (rule map_filter_prefixes_snoc [where F = completed_text],
      rule map_filter_prefixes_snoc [where F = completed_thinking])

lemma completed_block_start: "completed_block es ev = Some c \<Longrightarrow> oc_start c < length es"
  by (cases ev) (auto simp: open_block_start split: if_splits)

lemma streamed_calls_snoc:
  "streamed_calls from_str (es @ [ev]) = streamed_calls from_str es @
     (case completed_block es ev of Some c \<Rightarrow> [streamed_call from_str es c] | None \<Rightarrow> [])"
proof -
  have call: "streamed_call from_str (es @ [ev]) c = streamed_call from_str es c"
    if "oc_start c < length es" for c
    using that by (simp add: streamed_call_def calls_opened_snoc)
  have "map_option (streamed_call from_str (es @ [ev])) (completed_block (take n (es @ [ev])) ((es @ [ev]) ! n)) =
      map_option (streamed_call from_str es) (completed_block (take n es) (es ! n))" if "n < length es" for n
  proof -
    have "oc_start c < length es" if "completed_block (take n es) (es ! n) = Some c" for c
      using completed_block_start [OF that] \<open>n < length es\<close> by simp
    with that call show ?thesis
      by (cases "completed_block (take n es) (es ! n)") (auto simp: nth_append)
  qed
  then have "List.map_filter (\<lambda>n. map_option (streamed_call from_str (es @ [ev]))
        (completed_block (take n (es @ [ev])) ((es @ [ev]) ! n))) [0..<length es] =
      streamed_calls from_str es"
    unfolding streamed_calls_def by (rule map_filter_upt_cong)
  then show ?thesis
    using call completed_block_start [of es ev]
    by (auto simp: streamed_calls_def map_filter_snoc split: option.split)
qed

section \<open>The timeline computes the references\<close>

definition text_as :: "event list \<Rightarrow> ('w engine_handler, 'w engine_scope) block_wrapper \<Rightarrow> bool" where
  "text_as es w \<longleftrightarrow>
     w = TextWrapper (TextCollectorH (streamed_texts es)) (map_option BufferScope (text_open es))"

definition thinking_as :: "event list \<Rightarrow> ('w engine_handler, 'w engine_scope) block_wrapper \<Rightarrow> bool" where
  "thinking_as es w \<longleftrightarrow>
     (\<exists>scopes. w = ThinkingWrapper (ThinkingCollectorH (streamed_thinking es)) scopes \<and>
        (\<forall>k. Mapping.lookup scopes k = map_option BufferScope (thinking_open k es)))"

definition idle_scope :: "collector_state \<Rightarrow> bool" where
  "idle_scope st \<longleftrightarrow> co_current_id st = None \<and> co_current_name st = None \<and> co_call_index st = None"

definition call_scope :: "event list \<Rightarrow> open_call \<Rightarrow> collector_state" where
  "call_scope es c = \<lparr>co_current_id = Some (oc_id c), co_current_name = Some (oc_name c),
     co_call_index = Some (calls_opened es (oc_start c)), co_input_json_buffer = oc_input c\<rparr>"

definition scope_as :: "event list \<Rightarrow> nat \<Rightarrow> 'w engine_scope option \<Rightarrow> (string \<times> string) option \<Rightarrow> bool" where
  "scope_as es k scope name \<longleftrightarrow>
     (case open_block k es of
        Some c \<Rightarrow> scope = Some (CollectorScope (call_scope es c)) \<and> name = Some (oc_id c, oc_name c)
      | None \<Rightarrow> (scope = None \<or> (\<exists>st. scope = Some (CollectorScope st) \<and> idle_scope st)) \<and> name = None)"

definition tools_as ::
  "(string \<Rightarrow> json option) \<Rightarrow> event list \<Rightarrow> ('w engine_handler, 'w engine_scope) block_wrapper \<Rightarrow> bool" where
  "tools_as from_str es w \<longleftrightarrow>
     (\<exists>scopes names. w = ToolUseWrapper (ToolCollectorH
          \<lparr>tc_collected = streamed_calls from_str es, tc_next_call_index = calls_opened es (length es)\<rparr>)
          scopes names \<and>
        (\<forall>k. scope_as es k (Mapping.lookup scopes k) (Mapping.lookup names k)))"

lemma lookup_delete_if:
  "Mapping.lookup (Mapping.delete k m) k' = (if k = k' then None else Mapping.lookup m k')"
  by simp

lemmas lookup_mapping = lookup_update' lookup_delete_if lookup_empty

subsection \<open>Text\<close>

lemma text_as_start:
  assumes "text_as es w" "is_text_type (bs_block_type s)"
  shows "\<exists>w'. dispatch_start (engine_ops from_str) s (block_start_scope (engine_ops from_str) w) = Some w' \<and>
    text_as (es @ [BlockStart s]) w'"
  using assms by (simp add: text_as_def engine_ops_def text_open_snoc streamed_snoc)

lemma text_as_delta:
  assumes "text_as es w" "delta_block_type (bd_delta d) = BText"
  shows "\<exists>w'. dispatch_delta (engine_ops from_str) d
      (if \<not> block_has_scope w then block_start_scope (engine_ops from_str) w else w) = Some w' \<and>
    text_as (es @ [BlockDelta d]) w'"
  using assms
  by (cases "bd_delta d"; cases "text_open es")
    (simp_all add: text_as_def engine_ops_def text_open_snoc streamed_snoc)

lemma text_as_stop:
  assumes "text_as es w" "is_text_type (bp_block_type s)"
  shows "\<exists>w'. map_option block_end_scope (dispatch_stop (engine_ops from_str) s w) = Some w' \<and>
    text_as (es @ [BlockStop s]) w'"
  using assms
  by (cases "text_open es") (simp_all add: text_as_def engine_ops_def text_open_snoc streamed_snoc)

lemma text_as_abort:
  assumes "text_as es w" "is_text_type (ba_block_type a)"
  shows "text_as (es @ [BlockAbort a]) (block_end_scope (dispatch_abort a w))"
  using assms by (simp add: text_as_def text_open_snoc streamed_snoc)

fun concerns_text :: "event \<Rightarrow> bool" where
  "concerns_text (BlockStart s) \<longleftrightarrow> is_text_type (bs_block_type s)"
| "concerns_text (BlockDelta d) \<longleftrightarrow> delta_block_type (bd_delta d) = BText"
| "concerns_text (BlockStop s) \<longleftrightarrow> is_text_type (bp_block_type s)"
| "concerns_text (BlockAbort a) \<longleftrightarrow> is_text_type (ba_block_type a)"
| "concerns_text _ \<longleftrightarrow> False"

lemma text_as_other:
  assumes "text_as es w" "\<not> concerns_text ev"
  shows "text_as (es @ [ev]) w"
proof -
  have "text_step ev st = st" for st
    using assms(2) by (cases ev) (auto split: delta_content.split)
  moreover have "completed_text es ev = None"
    using assms(2) by (cases ev) (auto split: option.split)
  ultimately show ?thesis using assms(1) by (simp add: text_as_def text_open_snoc streamed_snoc)
qed

subsection \<open>Thinking\<close>

lemma thinking_as_start:
  assumes "thinking_as es w" "bs_block_type s = BThinking"
  shows "\<exists>w'. dispatch_start (engine_ops from_str) s (block_start_scope (engine_ops from_str) w) = Some w' \<and>
    thinking_as (es @ [BlockStart s]) w'"
  using assms
  by (auto simp: thinking_as_def engine_ops_def thinking_open_snoc streamed_snoc entry_or_default_def
      lookup_mapping split: option.split)

lemma thinking_as_delta:
  assumes "thinking_as es w" "delta_block_type (bd_delta d) = BThinking"
  shows "\<exists>w'. dispatch_delta (engine_ops from_str) d
      (if \<not> block_has_scope w then block_start_scope (engine_ops from_str) w else w) = Some w' \<and>
    thinking_as (es @ [BlockDelta d]) w'"
proof -
  obtain scopes where w: "w = ThinkingWrapper (ThinkingCollectorH (streamed_thinking es)) scopes"
    "\<forall>k. Mapping.lookup scopes k = map_option BufferScope (thinking_open k es)"
    using assms(1) by (auto simp: thinking_as_def)
  obtain t where "bd_delta d = DeltaThinking t" using assms(2) by (cases "bd_delta d") auto
  with w show ?thesis
    by (cases "thinking_open (bd_index d) es")
      (auto simp: thinking_as_def engine_ops_def thinking_open_snoc streamed_snoc entry_or_default_def
        lookup_mapping)
qed

lemma thinking_as_stop:
  assumes "thinking_as es w" "bp_block_type s = BThinking"
  shows "\<exists>w'. map_option block_end_scope (dispatch_stop (engine_ops from_str) s w) = Some w' \<and>
    thinking_as (es @ [BlockStop s]) w'"
proof -
  obtain scopes where w: "w = ThinkingWrapper (ThinkingCollectorH (streamed_thinking es)) scopes"
    "\<forall>k. Mapping.lookup scopes k = map_option BufferScope (thinking_open k es)"
    using assms(1) by (auto simp: thinking_as_def)
  with assms(2) show ?thesis
    by (cases "thinking_open (bp_index s) es"; cases "bp_reasoning s")
      (auto simp: thinking_as_def engine_ops_def thinking_open_snoc streamed_snoc lookup_mapping Let_def)
qed

lemma thinking_as_abort:
  assumes "thinking_as es w" "ba_block_type a = BThinking"
  shows "thinking_as (es @ [BlockAbort a]) (block_end_scope (dispatch_abort a w))"
  using assms by (auto simp: thinking_as_def thinking_open_snoc streamed_snoc lookup_mapping)

fun concerns_thinking :: "event \<Rightarrow> bool" where
  "concerns_thinking (BlockStart s) \<longleftrightarrow> bs_block_type s = BThinking"
| "concerns_thinking (BlockDelta d) \<longleftrightarrow> delta_block_type (bd_delta d) = BThinking"
| "concerns_thinking (BlockStop s) \<longleftrightarrow> bp_block_type s = BThinking"
| "concerns_thinking (BlockAbort a) \<longleftrightarrow> ba_block_type a = BThinking"
| "concerns_thinking _ \<longleftrightarrow> False"

lemma thinking_as_other:
  assumes "thinking_as es w" "\<not> concerns_thinking ev"
  shows "thinking_as (es @ [ev]) w"
proof -
  have "thinking_step k ev st = st" for k st
    using assms(2) by (cases ev) (auto split: delta_content.split)
  moreover have "completed_thinking es ev = None"
    using assms(2) by (cases ev) (auto split: option.split)
  ultimately show ?thesis using assms(1) by (simp add: thinking_as_def thinking_open_snoc streamed_snoc)
qed

subsection \<open>Tool calls\<close>

fun concerns_tool :: "event \<Rightarrow> bool" where
  "concerns_tool (BlockStart s) \<longleftrightarrow> bs_block_type s = BToolUse"
| "concerns_tool (BlockDelta d) \<longleftrightarrow> delta_block_type (bd_delta d) = BToolUse"
| "concerns_tool (BlockStop s) \<longleftrightarrow> bp_block_type s = BToolUse"
| "concerns_tool (BlockAbort a) \<longleftrightarrow> ba_block_type a = BToolUse"
| "concerns_tool _ \<longleftrightarrow> False"

lemma call_scope_snoc:
  "open_block k es = Some c \<Longrightarrow> call_scope (es @ [ev]) c = call_scope es c"
  using open_block_start by (fastforce simp: call_scope_def calls_opened_snoc)

lemma scope_as_keep:
  assumes "scope_as es k scope name" "open_block k (es @ [ev]) = open_block k es"
  shows "scope_as (es @ [ev]) k scope name"
  using assms by (auto simp: scope_as_def call_scope_snoc split: option.splits)

lemma tools_as_keep:
  assumes "tools_as from_str es w" "completed_block es ev = None" "\<not> opens_call es ev"
    and "\<And>k. open_block k (es @ [ev]) = open_block k es"
  shows "tools_as from_str (es @ [ev]) w"
  using assms scope_as_keep
  by (fastforce simp: tools_as_def streamed_calls_snoc calls_opened_snoc)

lemma tools_as_other:
  assumes "tools_as from_str es w" "\<not> concerns_tool ev"
  shows "tools_as from_str (es @ [ev]) w"
proof (rule tools_as_keep [OF assms(1)])
  show "completed_block es ev = None" "\<not> opens_call es ev" using assms(2) by (cases ev; simp)+
  show "open_block k (es @ [ev]) = open_block k es" for k
    using assms(2) by (cases ev) (auto simp: open_block_snoc split: delta_content.split)
qed

lemma tools_as_abort:
  assumes "tools_as from_str es w" "ba_block_type a = BToolUse"
  shows "tools_as from_str (es @ [BlockAbort a]) (block_end_scope (dispatch_abort a w))"
proof -
  obtain scopes names where w: "w = ToolUseWrapper (ToolCollectorH
      \<lparr>tc_collected = streamed_calls from_str es, tc_next_call_index = calls_opened es (length es)\<rparr>) scopes names"
    "\<forall>k. scope_as es k (Mapping.lookup scopes k) (Mapping.lookup names k)"
    using assms(1) by (auto simp: tools_as_def)
  have "scope_as (es @ [BlockAbort a]) k (Mapping.lookup (Mapping.delete (ba_index a) scopes) k)
      (Mapping.lookup (Mapping.delete (ba_index a) names) k)" for k
  proof (cases "k = ba_index a")
    case True
    then show ?thesis by (simp add: scope_as_def open_block_snoc assms(2))
  next
    case False
    with w(2) show ?thesis
      by (auto intro!: scope_as_keep simp: open_block_snoc lookup_mapping)
  qed
  with w(1) show ?thesis by (simp add: tools_as_def streamed_calls_snoc calls_opened_snoc)
qed

lemma tools_as_cases:
  assumes "tools_as from_str es w"
  obtains scopes names where "w = ToolUseWrapper (ToolCollectorH
      \<lparr>tc_collected = streamed_calls from_str es, tc_next_call_index = calls_opened es (length es)\<rparr>) scopes names"
    "\<And>k. scope_as es k (Mapping.lookup scopes k) (Mapping.lookup names k)"
  using assms by (auto simp: tools_as_def)

text \<open>The scope of a block, created on demand.\<close>

lemma scope_entry:
  assumes "scope_as es k (Mapping.lookup scopes k) name"
  obtains st where
    "entry_or_default (CollectorScope collector_state_default) k scopes = CollectorScope st"
    "case open_block k es of Some c \<Rightarrow> st = call_scope es c | None \<Rightarrow> idle_scope st"
proof (cases "open_block k es")
  case None
  with assms that show ?thesis
    by (auto simp: scope_as_def entry_or_default_def idle_scope_def collector_state_default_def)
next
  case (Some c)
  with assms that show ?thesis by (auto simp: scope_as_def entry_or_default_def)
qed

lemma tool_on_event_start:
  assumes "case open_block k es of Some c \<Rightarrow> st = call_scope es c | None \<Rightarrow> idle_scope st"
  shows "tool_on_event from_str \<lparr>tc_collected = cs, tc_next_call_index = calls_opened es (length es)\<rparr> st
      (ToolUseStart k i name) =
    Some (\<lparr>tc_collected = cs, tc_next_call_index =
              calls_opened es (length es) + (if open_block k es = None then 1 else 0)\<rparr>,
      call_scope es \<lparr>oc_start = (case open_block k es of None \<Rightarrow> length es | Some c \<Rightarrow> oc_start c),
        oc_id = i, oc_name = name, oc_input = []\<rparr>)"
  using assms
  by (cases "open_block k es") (auto simp: idle_scope_def call_scope_def)

lemma tools_as_start:
  assumes "tools_as from_str es w" "bs_block_type s = BToolUse"
  shows "\<exists>w'. dispatch_start (engine_ops from_str) s (block_start_scope (engine_ops from_str) w) = Some w' \<and>
    tools_as from_str (es @ [BlockStart s]) w'"
proof -
  obtain scopes names where w: "w = ToolUseWrapper (ToolCollectorH
      \<lparr>tc_collected = streamed_calls from_str es, tc_next_call_index = calls_opened es (length es)\<rparr>) scopes names"
    and scopes: "\<And>k. scope_as es k (Mapping.lookup scopes k) (Mapping.lookup names k)"
    by (rule tools_as_cases [OF assms(1)]) blast
  show ?thesis
  proof (cases "\<exists>i name. bs_metadata s = MetaToolUse i name")
    case False
    then have "tools_as from_str (es @ [BlockStart s]) w"
      by (intro tools_as_keep [OF assms(1)]) (auto simp: open_block_snoc split: block_metadata.split)
    with False w show ?thesis by (auto split: block_metadata.split)
  next
    case True
    then obtain i name where meta: "bs_metadata s = MetaToolUse i name" by blast
    let ?k = "bs_index s" and ?es = "es @ [BlockStart s]"
    define c where "c = \<lparr>oc_start = (case open_block ?k es of None \<Rightarrow> length es | Some c \<Rightarrow> oc_start c),
      oc_id = i, oc_name = name, oc_input = []\<rparr>"
    obtain st where st: "entry_or_default (CollectorScope collector_state_default) ?k scopes = CollectorScope st"
      "case open_block ?k es of Some c \<Rightarrow> st = call_scope es c | None \<Rightarrow> idle_scope st"
      by (rule scope_entry [OF scopes])
    have "oc_start c \<le> length es"
      using open_block_start [of ?k es] by (auto simp: c_def less_imp_le split: option.split)
    then have scope: "call_scope ?es c = call_scope es c"
      by (simp add: call_scope_def calls_opened_snoc)
    have open_k: "open_block ?k ?es = Some c" by (simp add: open_block_snoc assms(2) meta c_def)
    have "scope_as ?es k (Mapping.lookup (Mapping.update ?k (CollectorScope (call_scope es c)) scopes) k)
        (Mapping.lookup (Mapping.update ?k (i, name) names) k)" for k
    proof (cases "k = ?k")
      case True
      then show ?thesis using open_k scope by (simp add: scope_as_def c_def)
    next
      case False
      with scopes [of k] show ?thesis
        by (auto intro!: scope_as_keep simp: open_block_snoc lookup_mapping)
    qed
    moreover have "calls_opened ?es (Suc (length es)) =
        calls_opened es (length es) + (if open_block ?k es = None then 1 else 0)"
      by (simp add: calls_opened_snoc assms(2) meta)
    ultimately show ?thesis
      using st(1) tool_on_event_start [OF st(2), of from_str "streamed_calls from_str es" i name]
      by (simp add: w meta engine_ops_def c_def tools_as_def streamed_calls_snoc)
  qed
qed

lemma tools_as_delta:
  assumes "tools_as from_str es w" "delta_block_type (bd_delta d) = BToolUse"
  shows "\<exists>w'. dispatch_delta (engine_ops from_str) d
      (if \<not> block_has_scope w then block_start_scope (engine_ops from_str) w else w) = Some w' \<and>
    tools_as from_str (es @ [BlockDelta d]) w'"
proof -
  obtain scopes names where w: "w = ToolUseWrapper (ToolCollectorH
      \<lparr>tc_collected = streamed_calls from_str es, tc_next_call_index = calls_opened es (length es)\<rparr>) scopes names"
    and scopes: "\<And>k. scope_as es k (Mapping.lookup scopes k) (Mapping.lookup names k)"
    by (rule tools_as_cases [OF assms(1)]) blast
  obtain f where f: "bd_delta d = DeltaInputJson f" using assms(2) by (cases "bd_delta d") auto
  let ?k = "bd_index d" and ?es = "es @ [BlockDelta d]"
  obtain st where st: "entry_or_default (CollectorScope collector_state_default) ?k scopes = CollectorScope st"
    "case open_block ?k es of Some c \<Rightarrow> st = call_scope es c | None \<Rightarrow> idle_scope st"
    by (rule scope_entry [OF scopes])
  let ?st = "st\<lparr>co_input_json_buffer := co_input_json_buffer st @ f\<rparr>"
  have "scope_as ?es k (Mapping.lookup (Mapping.update ?k (CollectorScope ?st) scopes) k) (Mapping.lookup names k)" for k
  proof (cases "k = ?k")
    case True
    with st(2) scopes [of ?k] open_block_start [of ?k es] show ?thesis
      by (cases "open_block ?k es")
        (auto simp: scope_as_def open_block_snoc f idle_scope_def call_scope_def calls_opened_snoc)
  next
    case False
    with scopes [of k] show ?thesis
      by (auto intro!: scope_as_keep simp: open_block_snoc f lookup_mapping)
  qed
  with st(1) show ?thesis
    by (simp add: w f engine_ops_def tools_as_def streamed_calls_snoc calls_opened_snoc)
qed

lemma tools_as_stop:
  assumes "tools_as from_str es w" "bp_block_type s = BToolUse"
  shows "\<exists>w'. map_option block_end_scope (dispatch_stop (engine_ops from_str) s w) = Some w' \<and>
    tools_as from_str (es @ [BlockStop s]) w'"
proof -
  obtain scopes names where w: "w = ToolUseWrapper (ToolCollectorH
      \<lparr>tc_collected = streamed_calls from_str es, tc_next_call_index = calls_opened es (length es)\<rparr>) scopes names"
    and scopes: "\<And>k. scope_as es k (Mapping.lookup scopes k) (Mapping.lookup names k)"
    by (rule tools_as_cases [OF assms(1)]) blast
  let ?k = "bp_index s" and ?es = "es @ [BlockStop s]"
  have rest: "scope_as ?es k (Mapping.lookup (Mapping.delete ?k scopes) k)
      (Mapping.lookup (Mapping.delete ?k names) k)" for k
  proof (cases "k = ?k")
    case True
    then show ?thesis by (simp add: scope_as_def open_block_snoc assms(2))
  next
    case False
    with scopes [of k] show ?thesis
      by (auto intro!: scope_as_keep simp: open_block_snoc lookup_mapping)
  qed
  show ?thesis
    using scopes [of ?k] rest
    by (cases "open_block ?k es")
      (auto simp: w engine_ops_def tools_as_def scope_as_def streamed_calls_snoc streamed_call_def
        calls_opened_snoc call_scope_def Let_def assms(2) split: option.splits)
qed

end
