(* ===== verification/Stream_Properties.thy ===== *)
theory Stream_Properties
  imports Stream_Reference
begin

text \<open>
  Properties of the timeline over whole streams: what the engine's collectors hold after any
  stream, that usage is reported once with the latest values, and that an abort leaves no scope
  open, whatever handlers are registered.
\<close>

section \<open>What an engine collects\<close>

definition collected_as ::
  "(string \<Rightarrow> json option) \<Rightarrow> event list \<Rightarrow> ('w engine_handler, 'w engine_scope) timeline \<Rightarrow> bool" where
  "collected_as from_str es tm \<longleftrightarrow>
     tl_usage_handlers tm = [] \<and> tl_ping_handlers tm = [] \<and> tl_status_handlers tm = [] \<and>
     tl_error_handlers tm = [] \<and>
     (\<exists>w. tl_text_block_handlers tm = [w] \<and> text_as es w) \<and>
     (\<exists>w. tl_thinking_block_handlers tm = [w] \<and> thinking_as es w) \<and>
     (\<exists>w. tl_tool_use_block_handlers tm = [w] \<and> tools_as from_str es w)"

lemma collected_as_new: "collected_as from_str [] engine_timeline"
  by (simp add: collected_as_def engine_timeline_def register_text_block_def register_tool_use_block_def
      register_thinking_block_def timeline_new_def text_as_def thinking_as_def tools_as_def
      streamed_texts_def streamed_thinking_def streamed_calls_def calls_opened_def map_filter_simps
      text_collector_new_def thinking_collector_new_def tool_collector_new_def scope_as_def)

text \<open>One handler of each kind takes a block event.\<close>

lemma on_block_handlers_step:
  assumes rel: "collected_as from_str es tm"
    and txt_w: "\<And>w. is_text_type ty \<Longrightarrow> text_as es w \<Longrightarrow> \<exists>w'. f w = Some w' \<and> text_as (es @ [ev]) w'"
    and thinking_w: "\<And>w. ty = BThinking \<Longrightarrow> thinking_as es w \<Longrightarrow> \<exists>w'. f w = Some w' \<and> thinking_as (es @ [ev]) w'"
    and tools_w: "\<And>w. ty = BToolUse \<Longrightarrow> tools_as from_str es w \<Longrightarrow> \<exists>w'. f w = Some w' \<and> tools_as from_str (es @ [ev]) w'"
    and kind: "concerns_text ev \<longleftrightarrow> is_text_type ty" "concerns_thinking ev \<longleftrightarrow> ty = BThinking"
      "concerns_tool ev \<longleftrightarrow> ty = BToolUse"
    and same: "tl_usage_handlers tm0 = tl_usage_handlers tm" "tl_ping_handlers tm0 = tl_ping_handlers tm"
      "tl_status_handlers tm0 = tl_status_handlers tm" "tl_error_handlers tm0 = tl_error_handlers tm"
      "tl_text_block_handlers tm0 = tl_text_block_handlers tm"
      "tl_thinking_block_handlers tm0 = tl_thinking_block_handlers tm"
      "tl_tool_use_block_handlers tm0 = tl_tool_use_block_handlers tm"
  shows "\<exists>tm'. on_block_handlers ty f tm0 = Some tm' \<and> collected_as from_str (es @ [ev]) tm'"
proof -
  from rel obtain wt wk wu where hs: "tl_text_block_handlers tm0 = [wt]" "text_as es wt"
    "tl_thinking_block_handlers tm0 = [wk]" "thinking_as es wk"
    "tl_tool_use_block_handlers tm0 = [wu]" "tools_as from_str es wu"
    and none: "tl_usage_handlers tm0 = []" "tl_ping_handlers tm0 = []" "tl_status_handlers tm0 = []"
    "tl_error_handlers tm0 = []"
    unfolding collected_as_def same by auto
  have others: "\<not> is_text_type ty \<Longrightarrow> text_as (es @ [ev]) wt"
    "ty \<noteq> BThinking \<Longrightarrow> thinking_as (es @ [ev]) wk"
    "ty \<noteq> BToolUse \<Longrightarrow> tools_as from_str (es @ [ev]) wu"
    using text_as_other [OF hs(2)] thinking_as_other [OF hs(4)] tools_as_other [OF hs(6)] kind by auto
  show ?thesis
  proof (cases ty)
    case BThinking
    with thinking_w [OF _ hs(4)] others hs none show ?thesis
      by (auto simp: collected_as_def is_text_type_def)
  next
    case BToolUse
    with tools_w [OF _ hs(6)] others hs none show ?thesis
      by (auto simp: collected_as_def is_text_type_def)
  qed (use txt_w [OF _ hs(2)] others hs none in \<open>auto simp: collected_as_def is_text_type_def\<close>)
qed

lemma collected_as_set_active:
  "collected_as from_str es (tm\<lparr>tl_active_blocks := ks, tl_current_block := b\<rparr>) = collected_as from_str es tm"
  by (simp add: collected_as_def)

lemma is_text_type_delta: "is_text_type (delta_block_type c) \<longleftrightarrow> delta_block_type c = BText"
  by (cases c) (simp_all add: is_text_type_def)

lemma collected_as_step:
  assumes "collected_as from_str es tm"
  shows "\<exists>tm'. dispatch (engine_ops from_str) hash_order ev tm = Some tm' \<and> collected_as from_str (es @ [ev]) tm'"
proof (cases ev)
  case (BlockStart s)
  show ?thesis
    unfolding BlockStart dispatch.simps handle_block_start_def
    by (rule on_block_handlers_step [OF assms])
      (simp_all add: text_as_start thinking_as_start tools_as_start)
next
  case (BlockDelta d)
  show ?thesis
    unfolding BlockDelta dispatch.simps handle_block_delta_def Let_def
    by (rule on_block_handlers_step [OF assms])
      (rule text_as_delta thinking_as_delta tools_as_delta | simp add: is_text_type_delta)+
next
  case (BlockStop s)
  have "\<exists>tm'. on_block_handlers (bp_block_type s)
      (\<lambda>w. map_option block_end_scope (dispatch_stop (engine_ops from_str) s w)) tm = Some tm' \<and>
      collected_as from_str (es @ [BlockStop s]) tm'"
    using text_as_stop thinking_as_stop tools_as_stop
    by (intro on_block_handlers_step [OF assms]; simp)
  then show ?thesis
    by (auto simp: BlockStop handle_block_stop_def Let_def collected_as_set_active)
next
  case (BlockAbort a)
  have "\<exists>tm'. on_block_handlers (ba_block_type a)
      (\<lambda>w. Some (block_end_scope (dispatch_abort a w))) tm = Some tm' \<and>
      collected_as from_str (es @ [BlockAbort a]) tm'"
    using text_as_abort thinking_as_abort tools_as_abort
    by (intro on_block_handlers_step [OF assms]; simp)
  then show ?thesis
    by (auto simp: BlockAbort handle_block_abort_def Let_def collected_as_set_active)
qed (use assms in \<open>auto simp: collected_as_def dispatch_ping_def dispatch_status_def dispatch_error_def
    dispatch_usage_def text_as_other thinking_as_other tools_as_other split: option.split\<close>)

lemma dispatch_all_snoc:
  "dispatch_all ops ho (es @ [ev]) tm = Option.bind (dispatch_all ops ho es tm) (dispatch ops ho ev)"
proof (induction es arbitrary: tm)
  case Nil
  show ?case by (cases "dispatch ops ho ev tm") simp_all
next
  case (Cons e es)
  then show ?case by (cases "dispatch ops ho e tm") simp_all
qed

lemma dispatch_all_collects:
  fixes tm0 :: "('w engine_handler, 'w engine_scope) timeline"
  assumes "collected_as from_str [] tm0"
  shows "\<exists>tm. dispatch_all (engine_ops from_str) hash_order es tm0 = Some tm \<and> collected_as from_str es tm"
proof (induction es rule: rev_induct)
  case Nil
  with assms show ?case by simp
next
  case (snoc ev es)
  then obtain tm where "dispatch_all (engine_ops from_str) hash_order es tm0 = Some tm"
    "collected_as from_str es tm" by blast
  with collected_as_step [of from_str es tm hash_order ev] show ?case by (simp add: dispatch_all_snoc)
qed

subsection \<open>Blocks are independent\<close>

definition call_content :: "open_call \<Rightarrow> string \<times> string \<times> string" where
  "call_content c = (oc_id c, oc_name c, oc_input c)"

fun in_block :: "nat \<Rightarrow> event \<Rightarrow> bool" where
  "in_block k (BlockStart s) \<longleftrightarrow> bs_block_type s = BToolUse \<and> bs_index s = k"
| "in_block k (BlockDelta d) \<longleftrightarrow> delta_block_type (bd_delta d) = BToolUse \<and> bd_index d = k"
| "in_block k (BlockStop s) \<longleftrightarrow> bp_block_type s = BToolUse \<and> bp_index s = k"
| "in_block k (BlockAbort a) \<longleftrightarrow> ba_block_type a = BToolUse \<and> ba_index a = k"
| "in_block k _ \<longleftrightarrow> False"

lemma tool_block_step_other: "\<not> in_block k ev \<Longrightarrow> tool_block_step k (n, ev) st = st"
  by (cases ev) (auto split: delta_content.split)

lemma tool_block_step_content:
  assumes "map_option call_content st = map_option call_content st'"
  shows "map_option call_content (tool_block_step k (n, ev) st) =
    map_option call_content (tool_block_step k (m, ev) st')"
  using assms
  by (cases ev; cases st; cases st')
    (auto simp: call_content_def split: block_metadata.splits delta_content.splits)

lemma open_block_local:
  "map_option call_content (open_block k es) = map_option call_content (open_block k (filter (in_block k) es))"
proof (induction es rule: rev_induct)
  case (snoc ev es)
  then show ?case
    by (cases "in_block k ev")
      (simp_all add: open_block_snoc tool_block_step_other tool_block_step_content)
qed simp

subsection \<open>Call indices follow the order of the starts\<close>

definition opened_at :: "event list \<Rightarrow> nat \<Rightarrow> bool" where
  "opened_at es n \<longleftrightarrow> n < length es \<and> opens_call (take n es) (es ! n)"

lemma calls_opened_strict:
  assumes "opened_at es m" "m < n"
  shows "calls_opened es m < calls_opened es n"
proof -
  have "[0..<n] = [0..<m] @ m # [Suc m..<n]"
    using assms(2) upt_add_eq_append [of 0 m "n - m"] by (simp add: upt_conv_Cons)
  with assms(1) show ?thesis by (simp add: calls_opened_def opened_at_def)
qed

definition completed_starts :: "event list \<Rightarrow> nat list" where
  "completed_starts es =
     List.map_filter (\<lambda>n. map_option oc_start (completed_block (take n es) (es ! n))) [0..<length es]"

lemma completed_starts_snoc:
  "completed_starts (es @ [ev]) = completed_starts es @
     (case completed_block es ev of Some c \<Rightarrow> [oc_start c] | None \<Rightarrow> [])"
  unfolding completed_starts_def
  by (subst map_filter_prefixes_snoc [where F = "\<lambda>es ev. map_option oc_start (completed_block es ev)"])
    (simp split: option.split)

definition starts_ok :: "event list \<Rightarrow> bool" where
  "starts_ok es \<longleftrightarrow> distinct (completed_starts es) \<and>
     (\<forall>n \<in> set (completed_starts es). opened_at es n) \<and>
     (\<forall>k c. open_block k es = Some c \<longrightarrow> opened_at es (oc_start c) \<and> oc_start c \<notin> set (completed_starts es)) \<and>
     (\<forall>k c k' c'. open_block k es = Some c \<longrightarrow> open_block k' es = Some c' \<longrightarrow> oc_start c = oc_start c' \<longrightarrow> k = k')"

lemma opened_at_snoc:
  "opened_at (es @ [ev]) n \<longleftrightarrow> opened_at es n \<or> n = length es \<and> opens_call es ev"
  by (auto simp: opened_at_def nth_append less_Suc_eq)

text \<open>What one event does to the start of an open block.\<close>

lemma open_block_step_start:
  assumes "open_block k (es @ [ev]) = Some c"
  shows "(\<exists>c'. open_block k es = Some c' \<and> oc_start c' = oc_start c) \<or>
    (open_block k es = None \<and> oc_start c = length es \<and> opens_call es ev \<and> in_block k ev)"
  using assms
  by (cases ev; cases "open_block k es")
    (auto simp: open_block_snoc split: if_splits block_metadata.splits delta_content.splits)

lemma opens_call_unique: "opens_call es ev \<Longrightarrow> in_block k ev \<Longrightarrow> in_block k' ev \<Longrightarrow> k = k'"
  by (cases ev) auto

lemma completed_block_closes:
  assumes "completed_block es ev = Some c"
  obtains k where "open_block k es = Some c" "open_block k (es @ [ev]) = None" "\<not> opens_call es ev"
  using assms by (cases ev) (auto simp: open_block_snoc split: if_splits)

lemma starts_ok_facts:
  assumes "starts_ok es"
  shows "distinct (completed_starts es)"
    and "n \<in> set (completed_starts es) \<Longrightarrow> opened_at es n"
    and "open_block k es = Some c \<Longrightarrow> opened_at es (oc_start c)"
    and "open_block k es = Some c \<Longrightarrow> oc_start c \<notin> set (completed_starts es)"
    and "open_block k es = Some c \<Longrightarrow> open_block k' es = Some c' \<Longrightarrow> oc_start c = oc_start c' \<Longrightarrow> k = k'"
  using assms unfolding starts_ok_def by blast+

lemma starts_ok_open:
  assumes ok: "starts_ok es" and open': "open_block k (es @ [ev]) = Some c"
  shows "opened_at (es @ [ev]) (oc_start c)" and "oc_start c \<notin> set (completed_starts (es @ [ev]))"
proof -
  consider (old) c2 where "open_block k es = Some c2" "oc_start c2 = oc_start c"
    | (new) "oc_start c = length es" "opens_call es ev"
    using open_block_step_start [OF open'] by blast
  then have "opened_at (es @ [ev]) (oc_start c) \<and> oc_start c \<notin> set (completed_starts (es @ [ev]))"
  proof cases
    case old
    have "oc_start c3 \<noteq> oc_start c" if closed: "completed_block es ev = Some c3" for c3
    proof -
      obtain k3 where k3: "open_block k3 es = Some c3" "open_block k3 (es @ [ev]) = None"
        by (rule completed_block_closes [OF closed])
      with open' have "k3 \<noteq> k" by auto
      with starts_ok_facts(5) [OF ok k3(1) old(1)] old(2) show ?thesis by auto
    qed
    with starts_ok_facts(3,4) [OF ok old(1)] old(2) show ?thesis
      by (cases "completed_block es ev") (auto simp: completed_starts_snoc opened_at_snoc)
  next
    case new
    have "completed_block es ev = None"
      using new(2) by (cases "completed_block es ev") (auto elim: completed_block_closes)
    moreover have "length es \<notin> set (completed_starts es)"
      using starts_ok_facts(2) [OF ok] by (auto simp: opened_at_def)
    ultimately show ?thesis using new by (simp add: completed_starts_snoc opened_at_snoc)
  qed
  then show "opened_at (es @ [ev]) (oc_start c)" "oc_start c \<notin> set (completed_starts (es @ [ev]))" by simp_all
qed

lemma starts_ok_unique:
  assumes ok: "starts_ok es" and "open_block k (es @ [ev]) = Some c" "open_block k' (es @ [ev]) = Some c'"
    and same: "oc_start c = oc_start c'"
  shows "k = k'"
proof -
  have new: "opens_call es ev \<and> in_block k ev"
    if "open_block k (es @ [ev]) = Some c" "oc_start c = length es" for k c
    using open_block_step_start [OF that(1)] open_block_start [of k es] that(2) by fastforce
  have old: "\<exists>c1. open_block k es = Some c1 \<and> oc_start c1 = oc_start c"
    if "open_block k (es @ [ev]) = Some c" "oc_start c \<noteq> length es" for k c
    using open_block_step_start [OF that(1)] that(2) by blast
  show ?thesis
  proof (cases "oc_start c = length es")
    case True
    with new [OF assms(2)] new [OF assms(3)] same show ?thesis using opens_call_unique by auto
  next
    case False
    obtain c1 where c1: "open_block k es = Some c1" "oc_start c1 = oc_start c"
      using old [OF assms(2) False] by blast
    obtain c2 where c2: "open_block k' es = Some c2" "oc_start c2 = oc_start c'"
      using old [OF assms(3)] False same by auto
    show ?thesis using starts_ok_facts(5) [OF ok c1(1) c2(1)] c1(2) c2(2) same by simp
  qed
qed

lemma starts_ok_all: "starts_ok es"
proof (induction es rule: rev_induct)
  case Nil
  show ?case by (simp add: starts_ok_def completed_starts_def map_filter_simps)
next
  case (snoc ev es)
  have "oc_start c \<notin> set (completed_starts es) \<and> opened_at es (oc_start c)"
    if "completed_block es ev = Some c" for c
    using completed_block_closes [OF that] starts_ok_facts(3,4) [OF snoc] by metis
  then have "distinct (completed_starts (es @ [ev])) \<and>
      (\<forall>n \<in> set (completed_starts (es @ [ev])). opened_at (es @ [ev]) n)"
    using starts_ok_facts(1,2) [OF snoc]
    by (auto simp: completed_starts_snoc opened_at_snoc split: option.splits)
  with starts_ok_open [OF snoc] starts_ok_unique [OF snoc] show ?case
    unfolding starts_ok_def by blast
qed

lemma streamed_call_index:
  "map cc_call_index (streamed_calls from_str es) = map (calls_opened es) (completed_starts es)"
  by (simp add: streamed_calls_def completed_starts_def map_map_filter option.map_comp comp_def
      streamed_call_def)

lemma streamed_call_indices_distinct: "distinct (map cc_call_index (streamed_calls from_str es))"
proof -
  have "inj_on (calls_opened es) (set (completed_starts es))"
  proof (rule linorder_inj_onI')
    fix m n
    assume "m \<in> set (completed_starts es)" "n \<in> set (completed_starts es)" "m < n"
    then show "calls_opened es m \<noteq> calls_opened es n"
      using calls_opened_strict starts_ok_facts(2) [OF starts_ok_all] by (metis less_irrefl)
  qed
  then show ?thesis
    unfolding streamed_call_index using starts_ok_facts(1) [OF starts_ok_all] by (simp add: distinct_map)
qed


section \<open>Timelines as they are built\<close>

datatype 'h registration =
    RegUsage 'h | RegPing 'h | RegStatus 'h | RegError 'h
  | RegText 'h | RegThinking 'h | RegToolUse 'h

fun register_handler ::
  "('h, 's) handler_ops \<Rightarrow> 'h registration \<Rightarrow> ('h, 's) timeline \<Rightarrow> ('h, 's) timeline" where
  "register_handler ops (RegUsage h) tm = register_usage ops h tm"
| "register_handler ops (RegPing h) tm = register_ping ops h tm"
| "register_handler ops (RegStatus h) tm = register_status ops h tm"
| "register_handler ops (RegError h) tm = register_error ops h tm"
| "register_handler ops (RegText h) tm = register_text_block h tm"
| "register_handler ops (RegThinking h) tm = register_thinking_block h tm"
| "register_handler ops (RegToolUse h) tm = register_tool_use_block h tm"

definition registered :: "('h, 's) handler_ops \<Rightarrow> 'h registration list \<Rightarrow> ('h, 's) timeline" where
  "registered ops rs = fold (register_handler ops) rs timeline_new"

section \<open>Usage\<close>

fun usage_of :: "event \<Rightarrow> usage_event option" where
  "usage_of (Usage u) = Some u"
| "usage_of _ = None"

definition latest :: "(usage_event \<Rightarrow> u64 option) \<Rightarrow> event list \<Rightarrow> u64 option" where
  "latest f es = (case rev (List.map_filter f (List.map_filter usage_of es)) of [] \<Rightarrow> None | v # _ \<Rightarrow> Some v)"

definition reported_usage :: "event list \<Rightarrow> usage_event option" where
  "reported_usage es =
     (if List.map_filter usage_of es = [] then None
      else Some \<lparr>ue_input_tokens = latest ue_input_tokens es, ue_output_tokens = latest ue_output_tokens es,
        ue_total_tokens = latest ue_total_tokens es,
        ue_cache_read_input_tokens = latest ue_cache_read_input_tokens es,
        ue_cache_creation_input_tokens = latest ue_cache_creation_input_tokens es\<rparr>)"

lemma latest_snoc:
  "latest f (es @ [ev]) = (case usage_of ev of Some u \<Rightarrow> later_of (latest f es) (f u) | None \<Rightarrow> latest f es)"
  by (auto simp: latest_def map_filter_snoc later_of_def split: option.split)

lemma reported_usage_snoc:
  "reported_usage (es @ [ev]) = (case usage_of ev of
     None \<Rightarrow> reported_usage es
   | Some u \<Rightarrow> Some (case reported_usage es of None \<Rightarrow> u | Some acc \<Rightarrow> merge_usage acc u))"
proof (cases "List.map_filter usage_of es = []")
  case True
  then have "latest f es = None" for f by (simp add: latest_def map_filter_simps)
  with True show ?thesis
    by (auto simp: reported_usage_def latest_snoc later_of_def map_filter_snoc split: option.split)
next
  case False
  then show ?thesis
    by (auto simp: reported_usage_def latest_snoc merge_usage_def map_filter_snoc split: option.split)
qed

lemma on_block_handlers_usage:
  assumes "on_block_handlers ty f tm = Some tm'"
  shows "tl_pending_usage tm' = tl_pending_usage tm" "tl_usage_handlers tm' = tl_usage_handlers tm"
    "tl_active_blocks tm' = tl_active_blocks tm" "tl_current_block tm' = tl_current_block tm"
  using assms by (cases ty; auto)+

lemma dispatch_usage_state:
  assumes "dispatch ops ho ev tm = Some tm'"
  shows "tl_usage_handlers tm' = tl_usage_handlers tm \<and>
    tl_pending_usage tm' = (case usage_of ev of
       None \<Rightarrow> tl_pending_usage tm
     | Some u \<Rightarrow> Some (case tl_pending_usage tm of None \<Rightarrow> u | Some acc \<Rightarrow> merge_usage acc u))"
  using assms
  by (cases ev)
    (auto simp: dispatch_usage_def dispatch_ping_def dispatch_status_def dispatch_error_def
      handle_block_start_def handle_block_delta_def handle_block_stop_def handle_block_abort_def Let_def
      dest: on_block_handlers_usage split: option.splits)

lemma dispatch_all_usage:
  assumes "dispatch_all ops ho es tm = Some tm'" "tl_pending_usage tm = None"
  shows "tl_usage_handlers tm' = tl_usage_handlers tm \<and> tl_pending_usage tm' = reported_usage es"
  using assms(1)
proof (induction es arbitrary: tm' rule: rev_induct)
  case Nil
  with assms(2) show ?case by (simp add: reported_usage_def map_filter_simps)
next
  case (snoc ev es)
  then obtain tm1 where tm1: "dispatch_all ops ho es tm = Some tm1" "dispatch ops ho ev tm1 = Some tm'"
    by (auto simp: dispatch_all_snoc bind_eq_Some_conv)
  from dispatch_usage_state [OF tm1(2)] snoc.IH [OF tm1(1)] show ?case
    by (cases "usage_of ev") (simp_all add: reported_usage_snoc)
qed

text \<open>
  Usage reported in several events of one request reaches every usage handler once, at the
  flush, with the latest value given for each field; without a usage event nothing is reported,
  and a second flush reports nothing.
\<close>

theorem usage_reported_once:
  assumes "dispatch_all ops ho es tm = Some tm1" "tl_pending_usage tm = None"
    and "flush_usage ops tm1 = Some tm2"
  shows "(case reported_usage es of
       None \<Rightarrow> tl_usage_handlers tm2 = tl_usage_handlers tm
     | Some u \<Rightarrow> map_opt (wrapper_dispatch (on_usage ops) u) (tl_usage_handlers tm) =
                  Some (tl_usage_handlers tm2)) \<and>
    flush_usage ops tm2 = Some tm2"
  using assms(3) dispatch_all_usage [OF assms(1,2)]
  by (auto simp: flush_usage_def split: option.splits)

definition recording_usage :: "(usage_event list engine_handler) registration list" where
  "recording_usage = [RegUsage (UsageClosureH (\<lambda>w u. w @ [u]) [])]"

definition usage_tokens :: "u64 option \<Rightarrow> u64 option \<Rightarrow> usage_event" where
  "usage_tokens inp out = \<lparr>ue_input_tokens = inp, ue_output_tokens = out, ue_total_tokens = None,
     ue_cache_read_input_tokens = None, ue_cache_creation_input_tokens = None\<rparr>"

theorem usage_reported_once_witness:
  "\<exists>tm1 tm2. dispatch_all (engine_ops (\<lambda>_. None)) id
       [Usage (usage_tokens (Some 10) (Some 1)), Usage (usage_tokens None (Some 7))]
       (registered (engine_ops (\<lambda>_. None)) recording_usage) = Some tm1 \<and>
     flush_usage (engine_ops (\<lambda>_. None)) tm1 = Some tm2 \<and>
     map hw_handler (tl_usage_handlers tm2) =
       [UsageClosureH (\<lambda>w u. w @ [u]) [usage_tokens (Some 10) (Some 7)]] \<and>
     flush_usage (engine_ops (\<lambda>_. None)) tm2 = Some tm2"
proof -
  let ?ops = "engine_ops (\<lambda>_. None) :: (usage_event list engine_handler, usage_event list engine_scope) handler_ops"
  let ?tm = "registered ?ops recording_usage"
  let ?es = "[Usage (usage_tokens (Some 10) (Some 1)), Usage (usage_tokens None (Some 7))]"
  let ?u = "usage_tokens (Some 10) (Some 7)"
  have u: "reported_usage ?es = Some ?u"
    by (simp add: reported_usage_def map_filter_simps latest_def usage_tokens_def)
  have tm: "tl_pending_usage ?tm = None" "tl_usage_handlers ?tm =
      [\<lparr>hw_handler = UsageClosureH (\<lambda>w u. w @ [u]) [], hw_scope = Some UnitScope\<rparr>]"
    by (simp_all add: registered_def recording_usage_def register_usage_def timeline_new_def
      wrapper_start_scope_def wrapper_new_def engine_ops_def)
  have ops: "on_usage ?ops = engine_on_usage" by (simp add: engine_ops_def)
  obtain tm1 where tm1: "dispatch_all ?ops id ?es ?tm = Some tm1" by (simp add: dispatch_usage_def)
  note state = dispatch_all_usage [OF tm1 tm(1)]
  then obtain tm2 where tm2: "flush_usage ?ops tm1 = Some tm2"
    by (simp add: flush_usage_def u tm(2) wrapper_dispatch_def ops)
  from usage_reported_once [OF tm1 tm(1) tm2]
  have "tl_usage_handlers tm2 =
      [\<lparr>hw_handler = UsageClosureH (\<lambda>w u. w @ [u]) [?u], hw_scope = Some UnitScope\<rparr>]"
    and flushed: "flush_usage ?ops tm2 = Some tm2"
    by (simp_all add: u tm(2) wrapper_dispatch_def ops eq_commute)
  then have "map hw_handler (tl_usage_handlers tm2) = [UsageClosureH (\<lambda>w u. w @ [u]) [?u]]" by simp
  with tm1 tm2 flushed show ?thesis by (intro exI [of _ tm1] exI [of _ tm2] conjI)
qed

section \<open>Abort\<close>

text \<open>Every open scope belongs to an active block.\<close>

fun scopes_active :: "block_key list \<Rightarrow> ('h, 's) block_wrapper \<Rightarrow> bool" where
  "scopes_active ks (TextWrapper h scope) \<longleftrightarrow>
     scope = None \<or> (\<exists>k \<in> set ks. is_text_type (fst k))"
| "scopes_active ks (ThinkingWrapper h scopes) \<longleftrightarrow>
     (\<forall>i. Mapping.lookup scopes i \<noteq> None \<longrightarrow> (BThinking, i) \<in> set ks)"
| "scopes_active ks (ToolUseWrapper h scopes names) \<longleftrightarrow>
     (\<forall>i. Mapping.lookup scopes i \<noteq> None \<or> Mapping.lookup names i \<noteq> None \<longrightarrow> (BToolUse, i) \<in> set ks)"

fun wrapper_type :: "('h, 's) block_wrapper \<Rightarrow> block_type" where
  "wrapper_type (TextWrapper _ _) = BText"
| "wrapper_type (ThinkingWrapper _ _) = BThinking"
| "wrapper_type (ToolUseWrapper _ _ _) = BToolUse"

definition handlers_ok :: "block_key list \<Rightarrow> block_type \<Rightarrow> ('h, 's) block_wrapper list \<Rightarrow> bool" where
  "handlers_ok ks ty hs \<longleftrightarrow> (\<forall>w \<in> set hs. wrapper_type w = ty \<and> scopes_active ks w)"

definition timeline_ok :: "('h, 's) timeline \<Rightarrow> bool" where
  "timeline_ok tm \<longleftrightarrow>
     handlers_ok (tl_active_blocks tm) BText (tl_text_block_handlers tm) \<and>
     handlers_ok (tl_active_blocks tm) BThinking (tl_thinking_block_handlers tm) \<and>
     handlers_ok (tl_active_blocks tm) BToolUse (tl_tool_use_block_handlers tm)"

lemma map_opt_Some_iff: "map_opt f xs = Some ys \<longleftrightarrow> list_all2 (\<lambda>x y. f x = Some y) xs ys"
proof (induction xs arbitrary: ys)
  case (Cons x xs)
  then show ?case by (cases "f x"; cases ys) auto
qed auto

lemma map_opt_set:
  "map_opt f xs = Some ys \<Longrightarrow> y \<in> set ys \<Longrightarrow> \<exists>x \<in> set xs. f x = Some y"
proof (induction xs arbitrary: ys)
  case (Cons x xs)
  then obtain z zs where "f x = Some z" "map_opt f xs = Some zs" "ys = z # zs"
    by (auto simp: bind_eq_Some_conv)
  with Cons show ?case by auto
qed simp

lemma handlers_ok_map:
  assumes "handlers_ok ks ty hs" "map_opt f hs = Some hs'"
    and "\<And>w w'. wrapper_type w = ty \<Longrightarrow> scopes_active ks w \<Longrightarrow> f w = Some w' \<Longrightarrow>
      wrapper_type w' = ty \<and> scopes_active ks' w'"
  shows "handlers_ok ks' ty hs'"
  unfolding handlers_ok_def
proof
  fix w'
  assume "w' \<in> set hs'"
  then obtain w where "w \<in> set hs" "f w = Some w'" using map_opt_set [OF assms(2)] by blast
  moreover from this assms(1) have "wrapper_type w = ty" "scopes_active ks w"
    by (simp_all add: handlers_ok_def)
  ultimately show "wrapper_type w' = ty \<and> scopes_active ks' w'" using assms(3) by blast
qed

lemma handlers_ok_other:
  assumes "handlers_ok ks ty hs"
    and "\<And>w :: ('h, 's) block_wrapper. wrapper_type w = ty \<Longrightarrow> scopes_active ks w \<Longrightarrow> scopes_active ks' w"
  shows "handlers_ok ks' ty (hs :: ('h, 's) block_wrapper list)"
  using assms by (simp add: handlers_ok_def)

text \<open>The type of the handlers a block event is routed to.\<close>

definition routed :: "block_type \<Rightarrow> block_type" where
  "routed ty = (if ty = BToolResult then BText else ty)"

lemma timeline_ok_update:
  fixes tm tm0 tm' :: "('h, 's) timeline"
  assumes "timeline_ok tm" "on_block_handlers ty f tm0 = Some tm'"
    and "tl_text_block_handlers tm0 = tl_text_block_handlers tm"
      "tl_thinking_block_handlers tm0 = tl_thinking_block_handlers tm"
      "tl_tool_use_block_handlers tm0 = tl_tool_use_block_handlers tm"
    and step: "\<And>w w'. wrapper_type w = routed ty \<Longrightarrow> scopes_active (tl_active_blocks tm) w \<Longrightarrow> f w = Some w' \<Longrightarrow>
      wrapper_type w' = routed ty \<and> scopes_active ks w'"
    and other: "\<And>w :: ('h, 's) block_wrapper. wrapper_type w \<noteq> routed ty \<Longrightarrow>
      scopes_active (tl_active_blocks tm) w \<Longrightarrow> scopes_active ks w"
  shows "timeline_ok (tm'\<lparr>tl_active_blocks := ks, tl_current_block := b\<rparr>)"
proof -
  let ?ks = "tl_active_blocks tm"
  have oks: "handlers_ok ?ks BText (tl_text_block_handlers tm0)"
    "handlers_ok ?ks BThinking (tl_thinking_block_handlers tm0)"
    "handlers_ok ?ks BToolUse (tl_tool_use_block_handlers tm0)"
    using assms(1,3-5) by (simp_all add: timeline_ok_def)
  have keep: "handlers_ok ks ty' hs" if "handlers_ok ?ks ty' hs" "ty' \<noteq> routed ty"
    for ty' and hs :: "('h, 's) block_wrapper list"
    using that(2) by (intro handlers_ok_other [OF that(1)] other) simp_all
  have change: "handlers_ok ks (routed ty) hs'"
    if "handlers_ok ?ks (routed ty) hs" "map_opt f hs = Some hs'" for hs hs'
    by (rule handlers_ok_map [OF that]) (rule step)
  show ?thesis
  proof (cases ty)
    case BThinking
    then obtain hs' where "map_opt f (tl_thinking_block_handlers tm0) = Some hs'"
      "tm' = tm0\<lparr>tl_thinking_block_handlers := hs'\<rparr>" using assms(2) by auto
    with change [of "tl_thinking_block_handlers tm0"] keep [OF oks(1)] keep [OF oks(3)] oks(2)
    show ?thesis by (simp add: timeline_ok_def routed_def BThinking)
  next
    case BToolUse
    then obtain hs' where "map_opt f (tl_tool_use_block_handlers tm0) = Some hs'"
      "tm' = tm0\<lparr>tl_tool_use_block_handlers := hs'\<rparr>" using assms(2) by auto
    with change [of "tl_tool_use_block_handlers tm0"] keep [OF oks(1)] keep [OF oks(2)] oks(3)
    show ?thesis by (simp add: timeline_ok_def routed_def BToolUse)
  next
    case BText
    then obtain hs' where "map_opt f (tl_text_block_handlers tm0) = Some hs'"
      "tm' = tm0\<lparr>tl_text_block_handlers := hs'\<rparr>" using assms(2) by auto
    with change [of "tl_text_block_handlers tm0"] keep [OF oks(2)] keep [OF oks(3)] oks(1)
    show ?thesis by (simp add: timeline_ok_def routed_def BText)
  next
    case BToolResult
    then obtain hs' where "map_opt f (tl_text_block_handlers tm0) = Some hs'"
      "tm' = tm0\<lparr>tl_text_block_handlers := hs'\<rparr>" using assms(2) by auto
    with change [of "tl_text_block_handlers tm0"] keep [OF oks(2)] keep [OF oks(3)] oks(1)
    show ?thesis by (simp add: timeline_ok_def routed_def BToolResult)
  qed
qed

lemma scopes_active_mono:
  "set ks \<subseteq> set ks' \<Longrightarrow> scopes_active ks w \<Longrightarrow> scopes_active ks' w"
  by (cases w) auto

lemma set_activate [simp]: "set (activate k ks) = insert k (set ks)"
  by (auto simp: activate_def)

lemma set_deactivate [simp]: "set (deactivate k ks) = set ks - {k}"
  by (auto simp: deactivate_def)

lemma scopes_active_deactivate:
  assumes "scopes_active ks w" "wrapper_type w \<noteq> routed ty"
  shows "scopes_active (deactivate (ty, i) ks) w"
proof (cases w)
  case (TextWrapper h scope)
  with assms(2) have "\<not> is_text_type ty" by (auto simp: routed_def is_text_type_def split: if_splits)
  with assms(1) show ?thesis by (auto simp: TextWrapper)
qed (use assms in \<open>auto simp: routed_def split: if_splits\<close>)

lemma dispatch_start_active:
  assumes "wrapper_type w = routed (bs_block_type start)" "scopes_active ks w"
    and "dispatch_start ops start (block_start_scope ops w) = Some w'"
  shows "wrapper_type w' = routed (bs_block_type start) \<and>
    scopes_active (activate (bs_block_type start, bs_index start) ks) w'"
  using assms
  by (cases w; cases "bs_block_type start")
    (auto simp: routed_def is_text_type_def lookup_update' split: block_metadata.splits if_splits)

lemma dispatch_delta_active:
  assumes "wrapper_type w = routed ty" "scopes_active ks w" "ty = delta_block_type (bd_delta delta)"
    and "dispatch_delta ops delta (if \<not> block_has_scope w then block_start_scope ops w else w) = Some w'"
  shows "wrapper_type w' = routed ty \<and> scopes_active (activate (ty, bd_index delta) ks) w'"
  using assms
  by (cases w; cases "bd_delta delta")
    (auto simp: routed_def is_text_type_def lookup_update' split: if_splits)

lemma dispatch_stop_active:
  assumes "wrapper_type w = routed (bp_block_type stop)" "scopes_active ks w"
    and "map_option block_end_scope (dispatch_stop ops stop w) = Some w'"
  shows "wrapper_type w' = routed (bp_block_type stop) \<and>
    scopes_active (deactivate (bp_block_type stop, bp_index stop) ks) w'"
proof (cases w)
  case (TextWrapper h scope)
  with assms show ?thesis by (cases scope) auto
next
  case (ThinkingWrapper h scopes)
  with assms show ?thesis
    by (cases "bp_block_type stop")
      (auto simp: routed_def lookup_delete_if Let_def split: option.splits if_splits)
next
  case (ToolUseWrapper h scopes names)
  with assms show ?thesis
    by (cases "bp_block_type stop")
      (auto simp: routed_def lookup_delete_if Let_def split: option.splits if_splits)
qed

lemma dispatch_abort_active:
  assumes "wrapper_type w = routed (ba_block_type abort)" "scopes_active ks w"
  shows "wrapper_type (block_end_scope (dispatch_abort abort w)) = routed (ba_block_type abort) \<and>
    scopes_active (deactivate (ba_block_type abort, ba_index abort) ks)
      (block_end_scope (dispatch_abort abort w))"
  using assms
  by (cases w; cases "ba_block_type abort") (auto simp: routed_def lookup_delete_if split: if_splits)

lemma handle_block_start_ok:
  assumes "timeline_ok tm" "handle_block_start ops start tm = Some tm'"
  shows "timeline_ok tm'"
proof -
  let ?key = "(bs_block_type start, bs_index start)"
  let ?ks = "activate ?key (tl_active_blocks tm)"
  let ?tm0 = "tm\<lparr>tl_active_blocks := ?ks, tl_current_block := Some (bs_block_type start)\<rparr>"
  have upd: "on_block_handlers (bs_block_type start)
      (\<lambda>w. dispatch_start ops start (block_start_scope ops w)) ?tm0 = Some tm'"
    using assms(2) by (simp add: handle_block_start_def)
  have "timeline_ok (tm'\<lparr>tl_active_blocks := ?ks, tl_current_block := Some (bs_block_type start)\<rparr>)"
    by (rule timeline_ok_update [OF assms(1) upd])
      (auto intro: scopes_active_mono dest: dispatch_start_active)
  with on_block_handlers_usage(3,4) [OF upd] show ?thesis by (simp add: timeline_ok_def)
qed

lemma handle_block_delta_ok:
  assumes "timeline_ok tm" "handle_block_delta ops delta tm = Some tm'"
  shows "timeline_ok tm'"
proof -
  let ?ty = "delta_block_type (bd_delta delta)"
  let ?ks = "activate (?ty, bd_index delta) (tl_active_blocks tm)"
  let ?tm0 = "tm\<lparr>tl_active_blocks := ?ks, tl_current_block := Some ?ty\<rparr>"
  have upd: "on_block_handlers ?ty
      (\<lambda>w. dispatch_delta ops delta (if \<not> block_has_scope w then block_start_scope ops w else w)) ?tm0
      = Some tm'"
    using assms(2) by (simp add: handle_block_delta_def Let_def)
  have "timeline_ok (tm'\<lparr>tl_active_blocks := ?ks, tl_current_block := Some ?ty\<rparr>)"
    by (rule timeline_ok_update [OF assms(1) upd])
      (simp_all, erule (1) dispatch_delta_active [OF _ _ refl], assumption,
        rule scopes_active_mono [rotated], assumption, auto)
  with on_block_handlers_usage(3,4) [OF upd] show ?thesis by (simp add: timeline_ok_def)
qed

lemma handle_block_stop_ok:
  assumes "timeline_ok tm" "handle_block_stop ops ho stop tm = Some tm'"
  shows "timeline_ok tm'"
proof -
  let ?ks = "deactivate (bp_block_type stop, bp_index stop) (tl_active_blocks tm)"
  from assms(2) obtain tm1 where upd: "on_block_handlers (bp_block_type stop)
      (\<lambda>w. map_option block_end_scope (dispatch_stop ops stop w)) tm = Some tm1"
    and tm1: "tm' = (let ks = deactivate (bp_block_type stop, bp_index stop) (tl_active_blocks tm1)
      in tm1\<lparr>tl_active_blocks := ks, tl_current_block := next_current ho ks\<rparr>)"
    by (auto simp: handle_block_stop_def)
  have tm': "tm' = tm1\<lparr>tl_active_blocks := ?ks, tl_current_block := next_current ho ?ks\<rparr>"
    by (simp add: tm1 Let_def on_block_handlers_usage(3) [OF upd])
  show ?thesis unfolding tm'
    by (rule timeline_ok_update [OF assms(1) upd])
      (auto dest: dispatch_stop_active intro: scopes_active_deactivate)
qed

lemma handle_block_abort_ok:
  assumes "timeline_ok tm" "handle_block_abort ho abort tm = Some tm'"
  shows "timeline_ok tm'"
proof -
  let ?ks = "deactivate (ba_block_type abort, ba_index abort) (tl_active_blocks tm)"
  from assms(2) obtain tm1 where upd: "on_block_handlers (ba_block_type abort)
      (\<lambda>w. Some (block_end_scope (dispatch_abort abort w))) tm = Some tm1"
    and tm1: "tm' = (let ks = deactivate (ba_block_type abort, ba_index abort) (tl_active_blocks tm1)
      in tm1\<lparr>tl_active_blocks := ks, tl_current_block := next_current ho ks\<rparr>)"
    by (auto simp: handle_block_abort_def)
  have tm': "tm' = tm1\<lparr>tl_active_blocks := ?ks, tl_current_block := next_current ho ?ks\<rparr>"
    by (simp add: tm1 Let_def on_block_handlers_usage(3) [OF upd])
  show ?thesis unfolding tm'
    by (rule timeline_ok_update [OF assms(1) upd])
      (auto dest: dispatch_abort_active intro: scopes_active_deactivate)
qed

lemma dispatch_ok:
  assumes "timeline_ok tm" "dispatch ops ho ev tm = Some tm'"
  shows "timeline_ok tm'"
proof (cases ev)
  case (BlockStart start)
  with assms show ?thesis by (auto intro: handle_block_start_ok)
next
  case (BlockDelta delta)
  with assms show ?thesis by (auto intro: handle_block_delta_ok)
next
  case (BlockStop stop)
  with assms show ?thesis by (auto intro: handle_block_stop_ok)
next
  case (BlockAbort abort)
  with assms show ?thesis by (auto intro: handle_block_abort_ok)
qed (use assms in \<open>auto simp: dispatch_usage_def dispatch_ping_def dispatch_status_def
    dispatch_error_def timeline_ok_def split: option.splits\<close>)

lemma dispatch_all_ok:
  "timeline_ok tm \<Longrightarrow> dispatch_all ops ho es tm = Some tm' \<Longrightarrow> timeline_ok tm'"
proof (induction es arbitrary: tm)
  case (Cons ev es)
  then obtain tm1 where "dispatch ops ho ev tm = Some tm1" "dispatch_all ops ho es tm1 = Some tm'"
    by (auto simp: bind_eq_Some_conv)
  with Cons.IH [of tm1] dispatch_ok [OF Cons.prems(1)] show ?case by simp
qed simp

lemma register_handler_ok: "timeline_ok tm \<Longrightarrow> timeline_ok (register_handler ops r tm)"
  by (cases r)
    (auto simp: timeline_ok_def handlers_ok_def register_usage_def register_ping_def
      register_status_def register_error_def register_text_block_def register_thinking_block_def
      register_tool_use_block_def lookup_empty)

lemma registered_ok: "timeline_ok (registered ops rs)"
proof -
  have "timeline_ok tm \<Longrightarrow> timeline_ok (fold (register_handler ops) rs tm)" for tm
    by (induction rs arbitrary: tm) (simp_all add: register_handler_ok)
  from this [of timeline_new] show ?thesis
    by (simp add: registered_def timeline_ok_def handlers_ok_def timeline_new_def)
qed

subsection \<open>Aborting everything that is open\<close>

fun block_handler :: "('h, 's) block_wrapper \<Rightarrow> 'h" where
  "block_handler (TextWrapper h _) = h"
| "block_handler (ThinkingWrapper h _) = h"
| "block_handler (ToolUseWrapper h _ _) = h"

fun block_closed :: "('h, 's) block_wrapper \<Rightarrow> bool" where
  "block_closed (TextWrapper _ scope) \<longleftrightarrow> scope = None"
| "block_closed (ThinkingWrapper _ scopes) \<longleftrightarrow> Mapping.is_empty scopes"
| "block_closed (ToolUseWrapper _ scopes names) \<longleftrightarrow> Mapping.is_empty scopes \<and> Mapping.is_empty names"

definition block_wrappers :: "('h, 's) timeline \<Rightarrow> ('h, 's) block_wrapper list" where
  "block_wrappers tm =
     tl_text_block_handlers tm @ tl_thinking_block_handlers tm @ tl_tool_use_block_handlers tm"

lemma map_opt_Some [simp]: "map_opt (\<lambda>x. Some (g x)) xs = Some (map g xs)"
  by (induction xs) simp_all

lemma block_handler_abort [simp]:
  "block_handler (block_end_scope (dispatch_abort abort w)) = block_handler w"
  by (cases w) simp_all

text \<open>What an abort never touches: the handlers themselves and the usage seen so far.\<close>

definition abort_keeps :: "('h, 's) timeline \<Rightarrow> ('h, 's) timeline \<Rightarrow> bool" where
  "abort_keeps tm tm' \<longleftrightarrow>
     map block_handler (block_wrappers tm') = map block_handler (block_wrappers tm) \<and>
     tl_pending_usage tm' = tl_pending_usage tm \<and> tl_usage_handlers tm' = tl_usage_handlers tm"

lemma handle_block_abort_total:
  "\<exists>tm'. handle_block_abort ho abort tm = Some tm' \<and> abort_keeps tm tm' \<and>
     tl_active_blocks tm' = deactivate (ba_block_type abort, ba_index abort) (tl_active_blocks tm)"
  by (cases "ba_block_type abort")
    (auto simp: handle_block_abort_def Let_def abort_keeps_def block_wrappers_def comp_def)

lemma abort_blocks_total:
  assumes "timeline_ok tm"
  shows "\<exists>tm'. abort_blocks ho keys tm = Some tm' \<and> timeline_ok tm' \<and> abort_keeps tm tm' \<and>
    set (tl_active_blocks tm') = set (tl_active_blocks tm) - set keys"
  using assms
proof (induction keys arbitrary: tm)
  case (Cons key keys)
  obtain ty i where key: "key = (ty, i)" by (cases key)
  let ?abort = "\<lparr>ba_index = i, ba_block_type = ty, ba_reason = ''Cancelled''\<rparr>"
  obtain tm1 where tm1: "handle_block_abort ho ?abort tm = Some tm1" "abort_keeps tm tm1"
    "tl_active_blocks tm1 = deactivate (ty, i) (tl_active_blocks tm)"
    using handle_block_abort_total [of ho ?abort tm] by auto
  from Cons.IH [OF handle_block_abort_ok [OF Cons.prems tm1(1)]] obtain tm2
    where "abort_blocks ho keys tm1 = Some tm2" "timeline_ok tm2" "abort_keeps tm1 tm2"
      "set (tl_active_blocks tm2) = set (tl_active_blocks tm1) - set keys" by auto
  with tm1 show ?case by (auto simp: key abort_keeps_def)
qed (simp add: abort_keeps_def)

lemma mapping_is_empty_iff: "Mapping.is_empty m \<longleftrightarrow> (\<forall>i. Mapping.lookup m i = None)"
  by (auto simp: Mapping.is_empty_def keys_dom_lookup dom_def)

lemma scopes_active_none: "scopes_active [] w \<Longrightarrow> block_closed w"
  by (cases w) (simp_all add: mapping_is_empty_iff del: not_None_eq)

lemma timeline_ok_closed:
  assumes "timeline_ok tm" "tl_active_blocks tm = []" "w \<in> set (block_wrappers tm)"
  shows "block_closed w"
  using assms by (auto simp: timeline_ok_def handlers_ok_def block_wrappers_def intro: scopes_active_none)

text \<open>
  Whatever events a timeline has dispatched, in whatever order and with whatever handlers,
  aborting it succeeds and leaves no block active, no scope open and no tool name remembered,
  while the handlers, the usage accumulated so far and the usage handlers stay as they were.
\<close>

theorem abort_leaves_nothing_open:
  assumes "\<And>ks. set (ho ks) = set ks"
    and "dispatch_all ops ho es (registered ops rs) = Some tm"
  shows "\<exists>tm'. abort_current_block ho tm = Some tm' \<and>
    tl_active_blocks tm' = [] \<and> tl_current_block tm' = None \<and>
    (\<forall>w \<in> set (block_wrappers tm'). block_closed w) \<and> abort_keeps tm tm'"
proof -
  have ok: "timeline_ok tm" using registered_ok assms(2) by (rule dispatch_all_ok)
  from abort_blocks_total [OF ok, of ho "ho (tl_active_blocks tm)"] obtain tm1
    where tm1: "abort_blocks ho (ho (tl_active_blocks tm)) tm = Some tm1" "timeline_ok tm1"
      "abort_keeps tm tm1" "tl_active_blocks tm1 = []"
    by (auto simp: assms(1))
  let ?tm' = "tm1\<lparr>tl_active_blocks := [], tl_current_block := None\<rparr>"
  have "timeline_ok ?tm'" using tm1(2,4) by (simp add: timeline_ok_def)
  then have "\<forall>w \<in> set (block_wrappers ?tm'). block_closed w" by (auto intro: timeline_ok_closed)
  moreover have "abort_keeps tm ?tm'" using tm1(3) by (simp add: abort_keeps_def block_wrappers_def)
  ultimately show ?thesis using tm1(1) by (auto simp: abort_current_block_def)
qed

lemmas stream_defs = text_block_start_def text_delta_def text_block_stop_def tool_use_start_def
  tool_input_delta_def handle_block_start_def handle_block_delta_def handle_block_stop_def
  engine_timeline_def register_text_block_def register_tool_use_block_def
  register_thinking_block_def timeline_new_def engine_ops_def activate_def deactivate_def
  next_current_def lookup_mapping entry_or_default_def mapping_is_empty_iff

definition interrupted_stream :: "event list" where
  "interrupted_stream =
     [text_block_start 0, text_delta 0 ''par'', tool_use_start 1 ''call_a'' ''Read'',
      tool_input_delta 1 ''{'', tool_use_start 2 ''call_b'' ''Bash'']"

theorem abort_leaves_nothing_open_witness:
  "\<exists>tm tm'. dispatch_all (engine_ops (\<lambda>_. None)) rev interrupted_stream
       (engine_timeline :: (nat engine_handler, nat engine_scope) timeline) = Some tm \<and>
     length (tl_active_blocks tm) = 3 \<and> abort_current_block rev tm = Some tm' \<and>
     tl_active_blocks tm' = [] \<and> (\<forall>w \<in> set (block_wrappers tm'). block_closed w)"
proof -
  let ?ops = "engine_ops (\<lambda>_. None) :: (nat engine_handler, nat engine_scope) handler_ops"
  let ?rs = "[RegText (TextCollectorH text_collector_new), RegToolUse (ToolCollectorH tool_collector_new),
     RegThinking (ThinkingCollectorH thinking_collector_new)]"
  have built: "engine_timeline = registered ?ops ?rs"
    by (simp add: engine_timeline_def registered_def)
  obtain tm where tm: "dispatch_all ?ops rev interrupted_stream (registered ?ops ?rs) = Some tm"
    "length (tl_active_blocks tm) = 3"
    unfolding built [symmetric]
    by (simp add: interrupted_stream_def stream_defs Let_def collector_state_default_def
      tool_collector_new_def)
  from abort_leaves_nothing_open [OF set_rev tm(1)] tm show ?thesis
    by (auto simp: built)
qed

section \<open>Interleaved text blocks\<close>

text \<open>Text handlers keep one scope for all indices: a second text block started before the first
  has stopped discards what the first had received, and its own stop ends both.\<close>

definition interleaved_texts :: "event list" where
  "interleaved_texts =
     [text_block_start 0, text_delta 0 ''a'', text_block_start 1, text_delta 1 ''b'', text_delta 0 ''c'',
      text_block_stop 1 None, text_block_stop 0 None]"

lemma interleaved_text_is_merged:
  "\<exists>tm. dispatch_all (engine_ops (\<lambda>_. None)) id interleaved_texts
      (engine_timeline :: (nat engine_handler, nat engine_scope) timeline) = Some tm \<and>
    map block_handler (tl_text_block_handlers tm) = [TextCollectorH [''bc'']]"
  by (simp add: interleaved_texts_def stream_defs Let_def text_collector_new_def)

end
