(* ===== verification/Fs_Text.thy ===== *)
theory Fs_Text
  imports Rust_Std
begin

text \<open>
  The text operations of crate \<open>fs-operation\<close> (\<open>text.rs\<close>): arguments and limits, the checked
  edit, numbered rendering under a byte bound, and the UTF-8 bound of byte reads.  A function that
  slices a string returns an option, \<open>None\<close> for the panic of a slice off a character boundary.
  The JSON decoder is a parameter.
\<close>

section \<open>Operations and arguments\<close>

datatype text_operation = OpRead | OpReadLines | OpEdit | OpWrite

definition operation_from_name :: "string \<Rightarrow> bool \<Rightarrow> text_operation option" where
  "operation_from_name name line_read =
     (if name = ''read'' \<and> line_read then Some OpReadLines
      else if name = ''read'' then Some OpRead
      else if name = ''edit'' then Some OpEdit
      else if name = ''write'' then Some OpWrite
      else None)"

record edit_args =
  ea_old_string :: string
  ea_new_string :: string
  ea_replace_all :: bool

record line_read_args =
  lr_offset :: "nat option"
  lr_limit :: "nat option"

definition line_range :: "line_read_args \<Rightarrow> nat \<Rightarrow> nat \<times> nat" where
  "line_range args default_limit =
     (case lr_offset args of None \<Rightarrow> 0 | Some n \<Rightarrow> n,
      max (case lr_limit args of None \<Rightarrow> default_limit | Some n \<Rightarrow> n) 1)"

record text_limits =
  tl_max_input_bytes :: "nat option"
  tl_max_output_bytes :: "nat option"
  tl_max_replacements :: "nat option"

definition text_limits_default :: text_limits where
  "text_limits_default =
     \<lparr>tl_max_input_bytes = None, tl_max_output_bytes = None, tl_max_replacements = None\<rparr>"

datatype text_error =
    TextDecode string
  | EmptyOldString
  | IdenticalStrings
  | TextNotFound
  | MultipleMatches nat
  | InputTooLarge nat nat
  | OutputTooLarge nat nat
  | ReplacementLimitExceeded nat nat
  | TextOverflow

text \<open>\<open>decode\<close> and \<open>decode_json\<close>, with the deserializer as a parameter.\<close>

definition text_decode :: "('j \<Rightarrow> string + 'a) \<Rightarrow> 'j \<Rightarrow> text_error + 'a" where
  "text_decode from_value v = map_err TextDecode (from_value v)"

section \<open>Limits\<close>

definition check_input_bytes :: "nat \<Rightarrow> text_limits \<Rightarrow> text_error + unit" where
  "check_input_bytes bytes limits =
     (case tl_max_input_bytes limits of
        None \<Rightarrow> Inr ()
      | Some limit \<Rightarrow> if limit < bytes then Inl (InputTooLarge bytes limit) else Inr ())"

definition check_output_bytes :: "nat \<Rightarrow> text_limits \<Rightarrow> text_error + unit" where
  "check_output_bytes bytes limits =
     (case tl_max_output_bytes limits of
        None \<Rightarrow> Inr ()
      | Some limit \<Rightarrow> if limit < bytes then Inl (OutputTooLarge bytes limit) else Inr ())"

definition check_replacements :: "nat \<Rightarrow> text_limits \<Rightarrow> text_error + unit" where
  "check_replacements replacements limits =
     (case tl_max_replacements limits of
        None \<Rightarrow> Inr ()
      | Some limit \<Rightarrow>
          if limit < replacements then Inl (ReplacementLimitExceeded replacements limit) else Inr ())"

definition edit_args_validate :: "edit_args \<Rightarrow> text_limits \<Rightarrow> text_error + unit" where
  "edit_args_validate args limits =
     (if ea_old_string args = [] then Inl EmptyOldString
      else if ea_old_string args = ea_new_string args then Inl IdenticalStrings
      else and_then (check_input_bytes (length (ea_old_string args)) limits)
        (\<lambda>_. check_input_bytes (length (ea_new_string args)) limits))"

section \<open>Edit\<close>

text \<open>\<open>str::match_indices\<close>: the starts of the occurrences found from left to right without
  overlap; the empty pattern matches at every character boundary.\<close>

function match_from :: "string \<Rightarrow> nat \<Rightarrow> string \<Rightarrow> nat list" where
  "match_from pat i s =
     (if pat = [] \<or> s = [] then []
      else if prefix pat s then i # match_from pat (i + length pat) (drop (length pat) s)
      else match_from pat (Suc i) (tl s))"
  by pat_completeness auto
termination
  by (relation "measure (\<lambda>(pat, i, s). length s)") (auto simp: prefix_def)

declare match_from.simps [simp del]

definition match_indices :: "string \<Rightarrow> string \<Rightarrow> nat list" where
  "match_indices pat s =
     (if pat = [] then filter (is_char_boundary s) [0..<Suc (length s)] else match_from pat 0 s)"

record edit_outcome =
  eo_content :: string
  eo_replacements :: nat
  eo_bytes_written :: nat

definition edited_len :: "nat \<Rightarrow> nat \<Rightarrow> nat \<Rightarrow> nat \<Rightarrow> text_error + nat" where
  "edited_len original old new replacements =
     (case checked_mul old replacements of
        None \<Rightarrow> Inl TextOverflow
      | Some removed \<Rightarrow>
          (case checked_mul new replacements of
             None \<Rightarrow> Inl TextOverflow
           | Some added \<Rightarrow>
               (case Option.bind (checked_sub original removed) (\<lambda>bytes. checked_add bytes added) of
                  None \<Rightarrow> Inl TextOverflow
                | Some bytes \<Rightarrow> if isize_max < bytes then Inl TextOverflow else Inr bytes)))"

text \<open>The loop over \<open>match_indices\<close>: the content so far and the cursor.\<close>

fun splice_matches :: "string \<Rightarrow> string \<Rightarrow> string \<Rightarrow> nat list \<Rightarrow> nat \<Rightarrow> string \<Rightarrow> string option" where
  "splice_matches original old new [] cursor content =
     map_option (\<lambda>rest. content @ rest) (str_slice original cursor (length original))"
| "splice_matches original old new (start # starts) cursor content =
     Option.bind (str_slice original cursor start)
       (\<lambda>gap. splice_matches original old new starts (start + length old) (content @ gap @ new))"

definition edit :: "string \<Rightarrow> edit_args \<Rightarrow> text_limits \<Rightarrow> (text_error + edit_outcome) option" where
  "edit original args limits =
     (case and_then (edit_args_validate args limits) (\<lambda>_. check_input_bytes (length original) limits) of
        Inl e \<Rightarrow> Some (Inl e)
      | Inr _ \<Rightarrow>
          (let starts = match_indices (ea_old_string args) original; occurrences = length starts
           in if occurrences = 0 then Some (Inl TextNotFound)
              else if \<not> ea_replace_all args \<and> occurrences \<noteq> 1
              then Some (Inl (MultipleMatches occurrences))
              else
                (case and_then (check_replacements occurrences limits)
                        (\<lambda>_. and_then (edited_len (length original) (length (ea_old_string args))
                                     (length (ea_new_string args)) occurrences)
                                (\<lambda>bytes. map_sum id (\<lambda>_. bytes) (check_output_bytes bytes limits))) of
                   Inl e \<Rightarrow> Some (Inl e)
                 | Inr bytes_written \<Rightarrow>
                     map_option
                       (\<lambda>content. Inr \<lparr>eo_content = content, eo_replacements = occurrences,
                                       eo_bytes_written = bytes_written\<rparr>)
                       (splice_matches original (ea_old_string args) (ea_new_string args) starts 0 []))))"

section \<open>Whole-text read and write\<close>

record text_outcome =
  to_content :: string
  to_bytes :: nat

definition text_outcome_of :: "string \<Rightarrow> text_limits \<Rightarrow> text_error + text_outcome" where
  "text_outcome_of content limits =
     and_then (check_input_bytes (length content) limits)
       (\<lambda>_. and_then (check_output_bytes (length content) limits)
          (\<lambda>_. Inr \<lparr>to_content = content, to_bytes = length content\<rparr>))"

definition text_write :: "string \<Rightarrow> text_limits \<Rightarrow> text_error + text_outcome" where
  "text_write content limits = text_outcome_of content limits"

definition text_read :: "string \<Rightarrow> text_limits \<Rightarrow> text_error + text_outcome" where
  "text_read content limits = text_outcome_of content limits"

section \<open>Numbered rendering\<close>

record rendered =
  re_body :: string
  re_line_count :: nat
  re_total_lines :: nat
  re_truncated :: bool

definition rendered_truncation_marker :: string where
  "rendered_truncation_marker = CHR 0x0A # ''[truncated at rendered output byte limit]'' @ [CHR 0x0A]"

text \<open>\<open>format!("{number:>6}\t")\<close>\<close>

definition number_prefix :: "nat \<Rightarrow> string" where
  "number_prefix n = replicate (6 - length (dec n)) (CHR '' '') @ dec n @ [CHR 0x09]"

text \<open>The loop over the fragments of one line: each is cut to the bytes that remain, and a fragment
  that does not fit ends the line.\<close>

fun push_fragments :: "nat \<Rightarrow> string list \<Rightarrow> string" where
  "push_fragments remaining [] = []"
| "push_fragments remaining (fragment # fragments) =
     (let cut = floor_boundary fragment (min remaining (length fragment))
      in take cut fragment @
         (if cut < length fragment then [] else push_fragments (remaining - cut) fragments))"

fun render_lines ::
  "nat \<Rightarrow> nat \<Rightarrow> nat \<Rightarrow> nat \<Rightarrow> string list \<Rightarrow> string \<Rightarrow> nat \<Rightarrow> string \<times> nat \<times> bool"
where
  "render_lines max_bytes budget start_line index [] body line_count = (body, line_count, False)"
| "render_lines max_bytes budget start_line index (line # lines) body line_count =
     (let number = sat_add (sat_add start_line index) 1;
          pre = number_prefix number;
          numbered_len = sat_add (sat_add (length pre) (length line)) 1;
          remaining = budget - length body;
          line_count = (if 0 < remaining then sat_add line_count 1 else line_count);
          body = body @ push_fragments remaining [pre, line, [CHR 0x0A]]
      in if remaining < numbered_len
         then (body @ take (min (max_bytes - length body) (length rendered_truncation_marker))
                        rendered_truncation_marker, line_count, True)
         else render_lines max_bytes budget start_line (Suc index) lines body line_count)"

definition render_numbered :: "string \<Rightarrow> nat \<Rightarrow> nat \<Rightarrow> bool \<Rightarrow> nat \<Rightarrow> rendered" where
  "render_numbered txt start_line total_lines truncated max_bytes =
     (let budget = max_bytes - length rendered_truncation_marker;
          (body, line_count, output_truncated) =
            render_lines max_bytes budget start_line 0 (str_lines txt) [] 0
      in \<lparr>re_body = body, re_line_count = line_count, re_total_lines = total_lines,
          re_truncated = (0 < start_line \<or> truncated \<or> output_truncated)\<rparr>)"

section \<open>UTF-8 bounds of byte reads\<close>

text \<open>\<open>std::str::from_utf8\<close>: the bytes are valid, or end inside a character
  (\<open>error_len()\<close> is none), or hold a byte no character can have there.\<close>

datatype utf8_check = Utf8Ok | Utf8Incomplete | Utf8Invalid

definition utf8_partial :: "string \<Rightarrow> bool" where
  "utf8_partial s \<longleftrightarrow>
     (case map byte_of s of
        [a] \<Rightarrow> 194 \<le> a \<and> a < 245
      | [a, b] \<Rightarrow> 224 \<le> a \<and> a < 245 \<and> 128 \<le> b \<and> b < 192 \<and>
          (a = 224 \<longrightarrow> 160 \<le> b) \<and> (a = 237 \<longrightarrow> b < 160) \<and> (a = 240 \<longrightarrow> 144 \<le> b) \<and> (a = 244 \<longrightarrow> b < 144)
      | [a, b, c] \<Rightarrow> 240 \<le> a \<and> a < 245 \<and> 128 \<le> b \<and> b < 192 \<and> 128 \<le> c \<and> c < 192 \<and>
          (a = 240 \<longrightarrow> 144 \<le> b) \<and> (a = 244 \<longrightarrow> b < 144)
      | _ \<Rightarrow> False)"

fun from_utf8 :: "string \<Rightarrow> utf8_check" where
  "from_utf8 [] = Utf8Ok"
| "from_utf8 (b # bs) =
     (if utf8_seq (b # take (char_len b - 1) bs) then from_utf8 (drop (char_len b - 1) bs)
      else if utf8_partial (b # bs) then Utf8Incomplete
      else Utf8Invalid)"

text \<open>\<open>while end > 0 { match from_utf8(&bytes[..end]) { \<dots> } }\<close>\<close>

fun shrink_utf8 :: "string \<Rightarrow> nat \<Rightarrow> nat" where
  "shrink_utf8 bytes 0 = 0"
| "shrink_utf8 bytes (Suc e) =
     (case from_utf8 (take (Suc e) bytes) of
        Utf8Incomplete \<Rightarrow> shrink_utf8 bytes e
      | _ \<Rightarrow> Suc e)"

definition bounded_utf8_len :: "string \<Rightarrow> nat \<Rightarrow> nat" where
  "bounded_utf8_len bytes max_bytes = shrink_utf8 bytes (min max_bytes (length bytes))"

end
