(* ===== verification/Fs_Operation.thy ===== *)
theory Fs_Operation
  imports Manifest_Scope Fs_Text
begin

text \<open>
  The provider side of crate \<open>fs-operation\<close>: paths, requests and results (\<open>operation.rs\<close>), the
  access policy and its error type (\<open>lib.rs\<close>), and the shared steps of the local operations
  (\<open>local.rs\<close>).  An effect is a function from a world to a result and the world after it, so
  anything may happen between two calls of a policy; SHA-256 is a parameter.
\<close>

section \<open>Effects\<close>

type_synonym ('w, 'e, 'a) io = "'w \<Rightarrow> ('e + 'a) \<times> 'w"

definition io_return :: "'a \<Rightarrow> ('w, 'e, 'a) io" where
  "io_return x = (\<lambda>w. (Inr x, w))"

definition io_lift :: "'e + 'a \<Rightarrow> ('w, 'e, 'a) io" where
  "io_lift r = (\<lambda>w. (r, w))"

definition io_gets :: "('w \<Rightarrow> 'a) \<Rightarrow> ('w, 'e, 'a) io" where
  "io_gets f = (\<lambda>w. (Inr (f w), w))"

definition io_bind :: "('w, 'e, 'a) io \<Rightarrow> ('a \<Rightarrow> ('w, 'e, 'b) io) \<Rightarrow> ('w, 'e, 'b) io" where
  "io_bind m f = (\<lambda>w. case m w of (Inl e, w) \<Rightarrow> (Inl e, w) | (Inr x, w) \<Rightarrow> f x w)"

definition io_map_err :: "('e \<Rightarrow> 'f) \<Rightarrow> ('w, 'e, 'a) io \<Rightarrow> ('w, 'f, 'a) io" where
  "io_map_err g m = (\<lambda>w. apfst (map_err g) (m w))"

text \<open>The result of a call as a value, whatever it is.\<close>

definition io_result :: "('w, 'e, 'a) io \<Rightarrow> ('w, 'f, 'e + 'a) io" where
  "io_result m = (\<lambda>w. apfst Inr (m w))"

lemma io_bind_Inr_iff:
  "io_bind m f w = (Inr y, w') \<longleftrightarrow> (\<exists>x w1. m w = (Inr x, w1) \<and> f x w1 = (Inr y, w'))"
  by (auto simp: io_bind_def split: prod.splits sum.splits)

lemma io_simps [simp]:
  "io_return x w = (Inr x, w)"
  "io_lift r w = (r, w)"
  "io_gets g w = (Inr (g w), w)"
  "io_map_err h m w = apfst (map_err h) (m w)"
  "io_result m w = apfst Inr (m w)"
  by (simp_all add: io_return_def io_lift_def io_gets_def io_map_err_def io_result_def)

lemma apfst_Inr_iff [simp]:
  "apfst (map_err g) r = (Inr x, w) \<longleftrightarrow> r = (Inr x, w)"
  "apfst Inr r' = (Inr y, w) \<longleftrightarrow> r' = (y, w)"
  by (cases r; auto) (cases r'; auto)+

lemma io_bind_lift [simp]:
  "io_bind (io_lift (Inr x)) f = f x"
  "io_bind (io_lift (Inl e)) f = io_lift (Inl e)"
  by (simp_all add: io_bind_def io_lift_def)

lemma io_bindE:
  assumes "io_bind m f w = (r, w')"
  obtains (failed) e where "m w = (Inl e, w')" "r = Inl e"
    | (continued) x w1 where "m w = (Inr x, w1)" "f x w1 = (r, w')"
  using assms by (auto simp: io_bind_def split: prod.splits sum.splits)

text \<open>An effect that leaves an observation of the world as it was, whatever it returns.\<close>

definition io_keeps :: "('w \<Rightarrow> 'o) \<Rightarrow> ('w, 'e, 'a) io \<Rightarrow> bool" where
  "io_keeps obs m \<longleftrightarrow> (\<forall>w. obs (snd (m w)) = obs w)"

lemma io_keepsD: "io_keeps obs m \<Longrightarrow> m w = (r, w') \<Longrightarrow> obs w' = obs w"
  unfolding io_keeps_def by (metis snd_conv)

lemma io_keeps_simps [simp]:
  "io_keeps obs (io_return x)"
  "io_keeps obs (io_lift r)"
  "io_keeps obs (io_gets g)"
  "io_keeps obs (io_map_err h m) \<longleftrightarrow> io_keeps obs m"
  "io_keeps obs (io_result m) \<longleftrightarrow> io_keeps obs m"
  "io_keeps obs (Pair r)"
  by (simp_all add: io_keeps_def)

lemma io_keeps_bind [intro]:
  assumes "io_keeps obs m" "\<And>x. io_keeps obs (f x)"
  shows "io_keeps obs (io_bind m f)"
proof (unfold io_keeps_def, intro allI)
  fix w
  show "obs (snd (io_bind m f w)) = obs w"
  proof (cases "m w")
    case (Pair r w1)
    then have "obs w1 = obs w" using assms(1) by (rule io_keepsD [rotated])
    then show ?thesis using assms(2) Pair by (auto simp: io_bind_def io_keeps_def split: sum.split)
  qed
qed

lemma io_keeps_bindE:
  assumes "io_bind m f w = (r, w')" "io_keeps obs m"
  obtains (failed) e where "r = Inl e" "obs w' = obs w"
    | (continued) x w1 where "m w = (Inr x, w1)" "obs w1 = obs w" "f x w1 = (r, w')"
  using assms(1)
proof (cases rule: io_bindE)
  case (failed e)
  then show ?thesis using that(1) io_keepsD [OF assms(2)] by blast
next
  case (continued x w1)
  then show ?thesis using that(2) io_keepsD [OF assms(2)] by blast
qed

section \<open>Paths\<close>

text \<open>\<open>Path::new(s).components()\<close> on Unix: empty components are skipped and \<open>.\<close> is kept at the
  start of a relative path only.\<close>

fun split_slash :: "string \<Rightarrow> string list" where
  "split_slash [] = [[]]"
| "split_slash (c # s) =
     (if c = CHR ''/'' then [] # split_slash s
      else (case split_slash s of p # ps \<Rightarrow> (c # p) # ps | [] \<Rightarrow> [[c]]))"

definition part_component :: "string \<Rightarrow> component option" where
  "part_component part =
     (if part = [] \<or> part = ''.'' then None else if part = ''..'' then Some ParentDir
      else Some (Normal part))"

definition components_of :: "string \<Rightarrow> path" where
  "components_of s =
     (let parts = split_slash s; rest = List.map_filter part_component parts
      in if s \<noteq> [] \<and> hd s = CHR ''/'' then RootDir # rest
         else if hd parts = ''.'' then CurDir # rest else rest)"

text \<open>\<open>FsPath\<close> is its text.\<close>

type_synonym fs_path = string

subsection \<open>Errors\<close>

datatype fs_error =
    FsInvalidPath string
  | FsRelativePath path
  | FsOutOfScope path
  | FsNotFound path
  | FsBrokenSymlink path path path
  | FsSymlinkOutOfScope path path string
  | FsSymlinkDirectoryNotTraversed string path path
  | FsReadOnly path
  | FsIsDirectory path
  | FsNotDirectory path
  | FsSymlinkTargetIsDirectory path path
  | FsConflict string
  | FsInvalidGlob string
  | FsInvalidRegex string
  | FsInvalidArgument string
  | FsIo path io_error

definition fs_path_root :: fs_path where
  "fs_path_root = []"

text \<open>The loop of \<open>FsPath::new\<close>.\<close>

fun normal_components :: "path \<Rightarrow> path \<Rightarrow> path option" where
  "normal_components normalized [] = Some normalized"
| "normal_components normalized (Normal part # cs) = normal_components (path_push normalized [Normal part]) cs"
| "normal_components normalized (CurDir # cs) = normal_components normalized cs"
| "normal_components normalized (ParentDir # cs) = None"
| "normal_components normalized (RootDir # cs) = None"

definition fs_path_new :: "string \<Rightarrow> fs_error + fs_path" where
  "fs_path_new s =
     (if s = [] \<or> s = ''.'' then Inr fs_path_root
      else if is_absolute (components_of s) \<or> CHR 0x5C \<in> set s then Inl (FsInvalidPath s)
      else case normal_components [] (components_of s) of
             None \<Rightarrow> Inl (FsInvalidPath s)
           | Some normalized \<Rightarrow>
               Inr (map (\<lambda>c. if c = CHR 0x5C then CHR ''/'' else c) (join_components normalized)))"

definition fs_path_new_scoped :: "string \<Rightarrow> fs_error + fs_path" where
  "fs_path_new_scoped s =
     (if \<not> is_absolute (components_of s) then fs_path_new s
      else if CHR 0x5C \<in> set s then Inl (FsInvalidPath s)
      else if ParentDir \<in> set (components_of s) then Inl (FsInvalidPath s)
      else Inr s)"

definition fs_path_is_root :: "fs_path \<Rightarrow> bool" where
  "fs_path_is_root p \<longleftrightarrow> p = []"

definition fs_path_display :: "fs_path \<Rightarrow> string" where
  "fs_path_display p = (if p = [] then ''.'' else p)"

section \<open>Requests and results\<close>

type_synonym content_hash = "u8 list"

datatype entry_kind = KFile | KDirectory | KSymlink | KOther

record bounded_read_limits =
  bl_max_source_bytes :: nat
  bl_max_response_bytes :: nat

definition external_default_limits :: bounded_read_limits where
  "external_default_limits =
     \<lparr>bl_max_source_bytes = 64 * 1024 * 1024, bl_max_response_bytes = 1024 * 1024\<rparr>"

definition limits_validate :: "bounded_read_limits \<Rightarrow> fs_error + unit" where
  "limits_validate l =
     (if bl_max_source_bytes l = 0
      then Inl (FsInvalidArgument ''max_source_bytes must be greater than zero'')
      else if bl_max_response_bytes l = 0
      then Inl (FsInvalidArgument ''max_response_bytes must be greater than zero'')
      else if bl_max_source_bytes l < bl_max_response_bytes l
      then Inl (FsInvalidArgument ''max_response_bytes must not exceed max_source_bytes'')
      else Inr ())"

definition limits_new :: "nat \<Rightarrow> nat \<Rightarrow> fs_error + bounded_read_limits" where
  "limits_new max_source max_response =
     (let l = \<lparr>bl_max_source_bytes = max_source, bl_max_response_bytes = max_response\<rparr>
      in and_then (limits_validate l) (\<lambda>_. Inr l))"

record stat_result =
  sr_path :: fs_path
  sr_kind :: entry_kind
  sr_size :: nat

record read_request =
  rr_path :: fs_path
  rr_offset :: nat
  rr_limit :: nat
  rr_max_bytes :: nat

record read_result =
  rd_path :: fs_path
  rd_bytes :: string
  rd_start_line :: nat
  rd_total_lines :: nat
  rd_content_hash :: content_hash
  rd_truncated :: bool
  rd_byte_truncated :: bool

record read_bytes_request =
  rb_path :: fs_path
  rb_offset :: nat
  rb_max_bytes :: nat
  rb_expected_hash :: "content_hash option"

record read_bytes_result =
  bb_path :: fs_path
  bb_bytes :: string
  bb_offset :: nat
  bb_total_bytes :: nat
  bb_content_hash :: content_hash
  bb_eof :: bool

record write_request =
  wr_path :: fs_path
  wr_content :: string
  wr_expected_hash :: "content_hash option"

record write_result =
  ws_bytes_written :: nat
  ws_created :: bool

record edit_request =
  er_path :: fs_path
  er_old_string :: string
  er_new_string :: string
  er_replace_all :: bool
  er_expected_hash :: content_hash

record edit_result =
  es_replacements :: nat
  es_bytes_written :: nat
  es_content_hash :: content_hash

record list_cursor =
  lc_kind :: entry_kind
  lc_path :: fs_path

record list_request =
  lq_path :: fs_path
  lq_limit :: nat
  lq_after :: "list_cursor option"

record list_entry =
  le_path :: fs_path
  le_kind :: entry_kind
  le_size :: nat

record list_result =
  ls_entries :: "list_entry list"
  ls_total_entries :: nat
  ls_total_bytes :: nat
  ls_truncated :: bool
  ls_next_after :: "list_cursor option"

section \<open>The filesystem and the access policy\<close>

text \<open>What \<open>std::fs\<close> answers about the current tree; \<open>fv_symlink_kind\<close> does not follow a last
  symbolic link.\<close>

record fs_view =
  fv_canonicalize :: "path \<Rightarrow> io_error + path"
  fv_symlink_kind :: "path \<Rightarrow> io_error + entry_kind"
  fv_read_link :: "path \<Rightarrow> io_error + path"
  fv_exists :: "path \<Rightarrow> bool"
  fv_is_dir :: "path \<Rightarrow> bool"

record fs_metadata =
  md_kind :: entry_kind
  md_len :: nat
  md_validator :: "io_error + string"

text \<open>An open file: its metadata now and after it was read, and what its reads will return. A
  successful read of no bytes is the end of the file; one that is longer than the buffer is
  returned in parts.\<close>

record open_file =
  of_metadata :: "io_error + fs_metadata"
  of_reads :: "(io_error + string) list"
  of_metadata_after :: "io_error + fs_metadata"

fun read_some :: "nat \<Rightarrow> (io_error + string) list \<Rightarrow> io_error + (string \<times> (io_error + string) list)" where
  "read_some n [] = Inr ([], [])"
| "read_some n (Inl e # rs) = Inl e"
| "read_some n (Inr bytes # rs) =
     Inr (take n bytes, if n < length bytes then Inr (drop n bytes) # rs else rs)"

datatype atomic_write_mode = CreateNew | Replace

text \<open>The trait \<open>FsAccessPolicy\<close>.\<close>

record 'w fs_access =
  fa_check_cancelled :: "('w, io_error, unit) io"
  fa_view :: "'w \<Rightarrow> fs_view"
  fa_resolve_access_path :: "path \<Rightarrow> ('w, io_error, path) io"
  fa_is_readable_paths :: "path \<Rightarrow> path \<Rightarrow> bool"
  fa_is_writable_paths :: "path \<Rightarrow> path \<Rightarrow> bool"
  fa_can_enumerate_directory :: "path \<Rightarrow> path \<Rightarrow> bool"
  fa_open_read_file :: "path \<Rightarrow> path \<Rightarrow> ('w, io_error, open_file) io"
  fa_read_metadata :: "path \<Rightarrow> path \<Rightarrow> ('w, io_error, fs_metadata) io"
  fa_open_read_dir :: "path \<Rightarrow> path \<Rightarrow> ('w, io_error, (io_error + string) list) io"
  fa_atomic_write_file :: "path \<Rightarrow> path \<Rightarrow> string \<Rightarrow> atomic_write_mode \<Rightarrow> ('w, io_error, unit) io"
  fa_max_write_bytes :: "nat option"
  fa_max_edit_replacements :: "nat option"

subsection \<open>Symbolic links\<close>

record symlink_info =
  si_link_path :: path
  si_target_path :: path
  si_resolved_path :: path
  si_target_exists :: bool

fun first_symlink_from :: "fs_view \<Rightarrow> path \<Rightarrow> path \<Rightarrow> symlink_info option" where
  "first_symlink_from v current [] = None"
| "first_symlink_from v current (component # components) =
     (let current = path_push current [component]
      in case fv_symlink_kind v current of
           Inl _ \<Rightarrow> None
         | Inr kind \<Rightarrow>
             if kind \<noteq> KSymlink then first_symlink_from v current components
             else (case fv_read_link v current of
                     Inl _ \<Rightarrow> None
                   | Inr raw_target \<Rightarrow>
                       (let target_path =
                              (if is_absolute raw_target then raw_target
                               else path_push (case path_parent current of None \<Rightarrow> [RootDir] | Some p \<Rightarrow> p)
                                      raw_target);
                            resolved = (case fv_canonicalize v target_path of
                                          Inl _ \<Rightarrow> target_path | Inr p \<Rightarrow> p)
                        in Some \<lparr>si_link_path = current, si_target_path = target_path,
                             si_resolved_path = fold (\<lambda>c p. path_push p [c]) components resolved,
                             si_target_exists = fv_exists v target_path\<rparr>)))"

definition first_symlink :: "fs_view \<Rightarrow> path \<Rightarrow> symlink_info option" where
  "first_symlink v p = (if \<not> is_absolute p then None else first_symlink_from v [] p)"

definition direct_symlink :: "fs_view \<Rightarrow> path \<Rightarrow> symlink_info option" where
  "direct_symlink v p =
     (case fv_symlink_kind v p of
        Inl _ \<Rightarrow> None
      | Inr kind \<Rightarrow> if kind = KSymlink then first_symlink v p else None)"

subsection \<open>Resolution\<close>

function resolve_access_from :: "fs_view \<Rightarrow> path \<Rightarrow> string list \<Rightarrow> io_error + path" where
  "resolve_access_from v cursor missing =
     (case fv_canonicalize v cursor of
        Inr resolved \<Rightarrow> Inr (fold (\<lambda>component p. path_push p [Normal component]) (rev missing) resolved)
      | Inl error \<Rightarrow>
          if io_kind error = NotFound then
            if fv_symlink_kind v cursor = Inr KSymlink then Inl error
            else case file_name cursor of
                None \<Rightarrow> Inl error
              | Some name \<Rightarrow>
                  (case path_parent cursor of
                     None \<Rightarrow> Inl (IoError NotFound ''path has no existing ancestor'')
                   | Some parent \<Rightarrow> resolve_access_from v parent (missing @ [name]))
          else Inl error)"
  by pat_completeness auto
termination
  by (relation "measure (\<lambda>(v, cursor, missing). length cursor)") (auto dest: path_parent_length)

declare resolve_access_from.simps [simp del]

definition resolve_access_path :: "fs_view \<Rightarrow> path \<Rightarrow> io_error + path" where
  "resolve_access_path v p = resolve_access_from v p []"

section \<open>Shared steps of the local operations\<close>

definition map_io :: "fs_path \<Rightarrow> io_error \<Rightarrow> fs_error" where
  "map_io logical error =
     (if io_kind error = NotFound then FsNotFound (components_of logical)
      else FsIo (components_of logical) error)"

definition resolve_under :: "path \<Rightarrow> fs_path \<Rightarrow> fs_error + path" where
  "resolve_under root logical =
     (if \<not> is_absolute root then Inl (FsRelativePath root)
      else Inr (if logical = [] then root else path_push root (components_of logical)))"

definition internal_target :: path where
  "internal_target = components_of ''<provider-internal target>''"

definition broken_symlink :: "fs_path \<Rightarrow> fs_error" where
  "broken_symlink logical = FsBrokenSymlink (components_of logical) (components_of logical) internal_target"

definition map_resolve_error :: "fs_view \<Rightarrow> path \<Rightarrow> fs_path \<Rightarrow> io_error \<Rightarrow> fs_error" where
  "map_resolve_error v p logical error =
     (if io_kind error = NotFound \<and>
         (case direct_symlink v p of None \<Rightarrow> False | Some info \<Rightarrow> \<not> si_target_exists info)
      then broken_symlink logical else map_io logical error)"

definition require_access ::
  "path \<Rightarrow> fs_path \<Rightarrow> 'w fs_access \<Rightarrow> bool \<Rightarrow> bool \<Rightarrow> ('w, fs_error, path) io" where
  "require_access p logical access write allow_symlink_directory =
     io_bind (io_result (fa_resolve_access_path access p)) (\<lambda>r.
     io_bind (io_gets (fa_view access)) (\<lambda>v. io_lift
       (and_then (map_err (map_resolve_error v p logical) r) (\<lambda>resolved.
          let symlink = (if resolved \<noteq> p then direct_symlink v p else None);
              allowed = (if write then fa_is_writable_paths access p resolved
                         else fa_is_readable_paths access p resolved)
          in case symlink of
               Some info \<Rightarrow>
                 if \<not> si_target_exists info then Inl (broken_symlink logical)
                 else if \<not> allowed
                 then Inl (FsSymlinkOutOfScope (components_of logical) internal_target
                             (if write then ''write'' else ''read''))
                 else if \<not> allow_symlink_directory \<and> fv_is_dir v (si_resolved_path info)
                 then Inl (FsSymlinkTargetIsDirectory (components_of logical) internal_target)
                 else Inr resolved
             | None \<Rightarrow>
                 if allowed then Inr resolved
                 else if write then Inl (FsReadOnly (components_of logical))
                 else Inl (FsOutOfScope (components_of logical))))))"

lemma require_access_allowed:
  assumes "require_access p logical access write allow w = (Inr target, w')"
  shows "if write then fa_is_writable_paths access p target else fa_is_readable_paths access p target"
  using assms
  by (auto simp: require_access_def io_bind_Inr_iff and_then_Inr_iff Let_def
      split: option.splits if_splits)

lemma require_access_resolved:
  assumes "require_access p logical access write allow w = (Inr target, w')"
  shows "fa_resolve_access_path access p w = (Inr target, w')"
  using assms
  by (auto simp: require_access_def io_bind_Inr_iff and_then_Inr_iff Let_def
      split: option.splits if_splits)

definition map_text_error :: "fs_path \<Rightarrow> text_error \<Rightarrow> fs_error" where
  "map_text_error logical error = FsInvalidArgument
     (case error of
        InputTooLarge _ limit \<Rightarrow> logical @ '' exceeds provider write limit '' @ dec limit
      | OutputTooLarge _ limit \<Rightarrow> logical @ '' exceeds provider write limit '' @ dec limit
      | ReplacementLimitExceeded _ limit \<Rightarrow>
          logical @ '' exceeds provider Edit replacement limit '' @ dec limit
      | TextDecode message \<Rightarrow> ''invalid arguments: '' @ message
      | EmptyOldString \<Rightarrow> ''old_string must not be empty''
      | IdenticalStrings \<Rightarrow> ''old_string and new_string are identical''
      | TextNotFound \<Rightarrow> ''old_string was not found''
      | MultipleMatches occurrences \<Rightarrow>
          ''old_string matched '' @ dec occurrences
            @ '' times; set replace_all=true or provide a unique string''
      | TextOverflow \<Rightarrow> ''edited content size overflowed'')"

definition enforce_write_bound :: "fs_path \<Rightarrow> nat \<Rightarrow> 'w fs_access \<Rightarrow> fs_error + unit" where
  "enforce_write_bound logical bytes access =
     map_err (map_text_error logical)
       (check_output_bytes bytes (text_limits_default\<lparr>tl_max_output_bytes := fa_max_write_bytes access\<rparr>))"

text \<open>\<open>read_to_end\<close>, and the same behind \<open>take(n)\<close>.\<close>

fun read_to_end :: "(io_error + string) list \<Rightarrow> io_error + string" where
  "read_to_end [] = Inr []"
| "read_to_end (Inl e # rs) = Inl e"
| "read_to_end (Inr bytes # rs) =
     (if bytes = [] then Inr [] else map_sum id ((@) bytes) (read_to_end rs))"

fun take_to_end :: "nat \<Rightarrow> (io_error + string) list \<Rightarrow> io_error + string" where
  "take_to_end n [] = Inr []"
| "take_to_end n (r # rs) =
     (if n = 0 then Inr []
      else case r of
             Inl e \<Rightarrow> Inl e
           | Inr bytes \<Rightarrow>
               if bytes = [] then Inr []
               else map_sum id ((@) (take n bytes)) (take_to_end (n - length bytes) rs))"

definition read_mutation_preimage ::
  "fs_path \<Rightarrow> path \<Rightarrow> path \<Rightarrow> fs_metadata \<Rightarrow> 'w fs_access \<Rightarrow> ('w, fs_error, string) io" where
  "read_mutation_preimage logical p target metadata access =
     (case fa_max_write_bytes access of
        Some limit \<Rightarrow>
          if limit < md_len metadata
          then io_lift (Inl (FsInvalidArgument (logical @ '' exceeds provider write limit '' @ dec limit)))
          else io_bind (io_map_err (map_io logical) (fa_open_read_file access p target)) (\<lambda>file.
            io_bind (io_lift (map_err (map_io logical) (take_to_end (sat_add limit 1) (of_reads file)))) (\<lambda>bytes.
              io_bind (io_lift (enforce_write_bound logical (length bytes) access)) (\<lambda>_. io_return bytes)))
      | None \<Rightarrow>
          io_bind (io_map_err (map_io logical) (fa_open_read_file access p target)) (\<lambda>file.
            io_lift (map_err (map_io logical) (read_to_end (of_reads file)))))"

lemma take_to_end_whole:
  "take_to_end n rs = Inr bytes \<Longrightarrow> length bytes < n \<Longrightarrow> read_to_end rs = Inr bytes"
proof (induction n rs arbitrary: bytes rule: take_to_end.induct)
  case (2 n r rs)
  show ?case
  proof (cases "\<exists>b. r = Inr b \<and> b \<noteq> []")
    case True
    then obtain b where b: "r = Inr b" "b \<noteq> []" by blast
    with 2(2,3) obtain d where d: "take_to_end (n - length b) rs = Inr d" "bytes = take n b @ d"
      by (cases "take_to_end (n - length b) rs") auto
    with 2(3) have "length b < n" by (auto simp: min_def split: if_splits)
    with 2 b d show ?thesis by auto
  qed (use 2 in \<open>auto split: sum.splits if_splits\<close>)
qed simp

end
