(* ===== verification/Fs_Paths.thy ===== *)
theory Fs_Paths
  imports Fs_Operation
begin

text \<open>
  What the constructors of \<open>FsPath\<close> guarantee (\<open>operation.rs\<close>): the text they store reads back as
  ordinary components, so joined to a provider root it stays below the root.
\<close>

section \<open>Splitting and joining\<close>

lemma split_slash_nonempty [simp]: "split_slash s \<noteq> []"
  by (induction s) (auto split: list.split)

lemma split_slash_parts: "part \<in> set (split_slash s) \<Longrightarrow> CHR ''/'' \<notin> set part \<and> set part \<subseteq> set s"
proof (induction s arbitrary: part)
  case (Cons c s)
  obtain p ps where ps: "split_slash s = p # ps" by (cases "split_slash s") auto
  then show ?case using Cons by (cases "c = CHR ''/''") (auto, blast+)
qed simp

lemma split_slash_plain: "CHR ''/'' \<notin> set a \<Longrightarrow> split_slash a = [a]"
  by (induction a) auto

lemma split_slash_append:
  "CHR ''/'' \<notin> set a \<Longrightarrow> split_slash (a @ CHR ''/'' # s) = a # split_slash s"
  by (induction a) auto

text \<open>The names a component can have.\<close>

definition component_name :: "string \<Rightarrow> bool" where
  "component_name n \<longleftrightarrow> n \<noteq> [] \<and> n \<noteq> ''.'' \<and> n \<noteq> ''..'' \<and> CHR ''/'' \<notin> set n"

lemma split_slash_join:
  "ns \<noteq> [] \<Longrightarrow> list_all component_name ns \<Longrightarrow> split_slash (join_components (map Normal ns)) = ns"
  by (induction ns rule: induct_list012)
    (auto simp: component_name_def split_slash_plain split_slash_append)

lemma map_filter_names:
  "list_all component_name ns \<Longrightarrow> List.map_filter part_component ns = map Normal ns"
  by (induction ns) (auto simp: map_filter_simps part_component_def component_name_def)

lemma components_of_join:
  assumes "list_all component_name ns"
  shows "components_of (join_components (map Normal ns)) = map Normal ns"
proof (cases ns)
  case Nil
  then show ?thesis by (simp add: components_of_def part_component_def map_filter_simps)
next
  case (Cons n ms)
  with assms have n: "component_name n" by simp
  then have "hd (join_components (map Normal ns)) \<noteq> CHR ''/''"
    by (cases ms; cases n) (auto simp: Cons component_name_def)
  moreover have "split_slash (join_components (map Normal ns)) = ns"
    using split_slash_join assms Cons by blast
  ultimately show ?thesis
    using n map_filter_names [OF assms] by (auto simp: components_of_def Cons component_name_def)
qed

lemma components_of_normal:
  "Normal n \<in> set (components_of s) \<Longrightarrow> component_name n \<and> set n \<subseteq> set s"
  using split_slash_parts [of n s]
  by (auto simp: components_of_def Let_def map_filter_def part_component_def component_name_def split: if_splits)

lemma normal_path_append: "normal_path p \<Longrightarrow> normal_path (p @ map Normal ns)"
  by (auto simp: normal_path_def map_append [symmetric] simp del: map_append)

lemma map_filter_normal:
  "ParentDir \<notin> set (List.map_filter part_component parts) \<Longrightarrow>
    \<exists>ns. List.map_filter part_component parts = map Normal ns"
  by (induction parts)
    (auto simp: map_filter_simps part_component_def Cons_eq_map_conv intro: exI [of _ "_ # _"] split: if_splits)

lemma components_of_absolute:
  assumes "is_absolute (components_of s)" "ParentDir \<notin> set (components_of s)"
  shows "normal_path (components_of s)"
proof -
  have "\<exists>ns. List.map_filter part_component (split_slash s) = map Normal ns"
    using assms(2) by (intro map_filter_normal) (auto simp: components_of_def Let_def split: if_splits)
  then show ?thesis
    using assms(1) by (auto simp: components_of_def Let_def normal_path_def is_absolute_def Cons_eq_map_conv
        split: if_splits list.splits)
qed

lemma normal_components_names:
  "normal_components (map Normal ns) cs = Some q \<Longrightarrow>
    \<exists>ms. q = map Normal (ns @ ms) \<and> set (map Normal ms) \<subseteq> set cs"
proof (induction cs arbitrary: ns)
  case (Cons c cs)
  show ?case
  proof (cases c)
    case (Normal n)
    with Cons(2) have "normal_components (map Normal (ns @ [n])) cs = Some q"
      by (simp add: path_push_def is_absolute_def)
    from Cons(1) [OF this] obtain ms where "q = map Normal (ns @ n # ms)" "set (map Normal ms) \<subseteq> set cs" by auto
    then show ?thesis using Normal by (intro exI [of _ "n # ms"]) auto
  next
    case CurDir
    with Cons(2) have "normal_components (map Normal ns) cs = Some q" by simp
    from Cons(1) [OF this] show ?thesis by auto
  qed (use Cons(2) in simp_all)
qed auto

section \<open>Constructed paths\<close>

lemma fs_path_new_names:
  assumes "fs_path_new s = Inr q"
  shows "\<exists>ns. list_all component_name ns \<and> q = join_components (map Normal ns) \<and> CHR 0x5C \<notin> set q"
proof (cases "s = [] \<or> s = ''.''")
  case True
  with assms have "q = []" by (auto simp: fs_path_new_def fs_path_root_def)
  then show ?thesis by (intro exI [of _ "[]"]) simp
next
  case False
  with assms obtain normalized where n: "normal_components [] (components_of s) = Some normalized"
    and q: "q = map (\<lambda>c. if c = CHR 0x5C then CHR ''/'' else c) (join_components normalized)"
    and bs: "CHR 0x5C \<notin> set s"
    by (auto simp: fs_path_new_def split: if_splits option.splits)
  obtain ns where ns: "normalized = map Normal ns" "set (map Normal ns) \<subseteq> set (components_of s)"
    using normal_components_names [of "[]" "components_of s" normalized] n by auto
  have names: "component_name m \<and> CHR 0x5C \<notin> set m" if "m \<in> set ns" for m
    using ns(2) that components_of_normal [of m s] bs by auto
  have "CHR 0x5C \<notin> set (join_components (map Normal ms))" if "\<forall>m\<in>set ms. CHR 0x5C \<notin> set m" for ms
    using that by (induction ms rule: induct_list012) auto
  then have "CHR 0x5C \<notin> set (join_components normalized)" using names ns(1) by blast
  then have "q = join_components normalized" unfolding q by (intro map_idI) auto
  then show ?thesis using ns(1) names \<open>CHR 0x5C \<notin> set (join_components normalized)\<close>
    by (auto simp: list_all_iff)
qed

lemma normal_components_map: "normal_components (map Normal ms) (map Normal ns) = Some (map Normal (ms @ ns))"
proof (induction ns arbitrary: ms)
  case (Cons n ns)
  from Cons [of "ms @ [n]"] show ?case by (simp add: path_push_def is_absolute_def)
qed simp

text \<open>
  C40. A logical path built by \<open>FsPath::new\<close> stays below the provider root: it resolves to the root
  followed by ordinary components only, whatever dots, slashes or parent steps the input text has,
  and building it again from its own text gives the same path.
\<close>

theorem fs_path_confined:
  assumes "fs_path_new s = Inr q" "is_absolute root"
  shows "(\<exists>ns. resolve_under root q = Inr (root @ map Normal ns)) \<and> fs_path_new q = Inr q"
proof -
  obtain ns where ns: "list_all component_name ns" "q = join_components (map Normal ns)" "CHR 0x5C \<notin> set q"
    using fs_path_new_names [OF assms(1)] by blast
  have comps: "components_of q = map Normal ns" using components_of_join [OF ns(1)] ns(2) by simp
  then have rel: "\<not> is_absolute (components_of q)" by (cases ns) (auto simp: is_absolute_def)
  have "fs_path_new q = Inr q"
  proof (cases "q = [] \<or> q = ''.''")
    case True
    moreover have "q \<noteq> ''.''" using comps by (auto simp: components_of_def part_component_def map_filter_simps)
    ultimately show ?thesis by (simp add: fs_path_new_def fs_path_root_def)
  next
    case False
    have "map (\<lambda>c. if c = CHR 0x5C then CHR ''/'' else c) q = q" using ns(3) by (intro map_idI) auto
    then show ?thesis
      using False rel ns(3) normal_components_map [of "[]" ns]
      by (simp add: fs_path_new_def comps ns(2) [symmetric])
  qed
  moreover have "resolve_under root q = Inr (root @ map Normal ns)"
    using assms(2) rel comps by (auto simp: resolve_under_def path_push_def components_of_def
        part_component_def map_filter_simps)
  ultimately show ?thesis by blast
qed

theorem fs_path_confined_witness:
  "\<exists>ns. fs_path_new ''./a//b/./c'' = Inr ''a/b/c'' \<and>
     resolve_under [RootDir, Normal ''srv''] ''a/b/c'' = Inr ([RootDir, Normal ''srv''] @ map Normal ns)"
proof -
  have run: "fs_path_new ''./a//b/./c'' = Inr ''a/b/c''" by code_simp
  have root: "is_absolute [RootDir, Normal ''srv'']" by code_simp
  show ?thesis using run fs_path_confined [OF run root] by blast
qed

end
