(* ===== verification/Fs_Mutate.thy ===== *)
theory Fs_Mutate
  imports Fs_Paths
begin

text \<open>
  The mutations of the local provider (\<open>local.rs\<close>): \<open>run_write\<close> and \<open>run_edit\<close>, both compare
  the current content with the caller's hash before an atomic replacement.  The locale says what
  they rely on from an access policy; the lemmas in it say what they do to the files.
\<close>

section \<open>Operations\<close>

definition create_error :: "fs_path \<Rightarrow> io_error \<Rightarrow> fs_error" where
  "create_error logical error =
     (if io_kind error = AlreadyExists then FsConflict logical else map_io logical error)"

definition run_write ::
  "(string \<Rightarrow> content_hash) \<Rightarrow> path \<Rightarrow> write_request \<Rightarrow> 'w fs_access \<Rightarrow> ('w, fs_error, write_result) io" where
  "run_write sha256 root request access =
     (let logical = wr_path request; content = wr_content request in
     io_bind (io_map_err (map_io logical) (fa_check_cancelled access)) (\<lambda>_.
     io_bind (io_lift (enforce_write_bound logical (length content) access)) (\<lambda>_.
     io_bind (io_lift (resolve_under root logical)) (\<lambda>p.
     io_bind (require_access p logical access True False) (\<lambda>target.
     io_bind (io_result (fa_read_metadata access p target)) (\<lambda>r.
     case r of
       Inr metadata \<Rightarrow>
         if md_kind metadata = KDirectory then io_lift (Inl (FsIsDirectory (components_of logical)))
         else io_bind (read_mutation_preimage logical p target metadata access) (\<lambda>bytes.
           if wr_expected_hash request \<noteq> Some (sha256 bytes) then io_lift (Inl (FsConflict logical))
           else io_bind (io_map_err (map_io logical) (fa_atomic_write_file access p target content Replace)) (\<lambda>_.
             io_return \<lparr>ws_bytes_written = length content, ws_created = False\<rparr>))
     | Inl error \<Rightarrow>
         if io_kind error \<noteq> NotFound then io_lift (Inl (map_io logical error))
         else if wr_expected_hash request \<noteq> None then io_lift (Inl (FsConflict logical))
         else io_bind (io_map_err (create_error logical) (fa_atomic_write_file access p target content CreateNew)) (\<lambda>_.
           io_return \<lparr>ws_bytes_written = length content, ws_created = True\<rparr>)))))))"

text \<open>A panic of the text edit is the result none.\<close>

definition edit_limits :: "'w fs_access \<Rightarrow> text_limits" where
  "edit_limits access =
     \<lparr>tl_max_input_bytes = fa_max_write_bytes access, tl_max_output_bytes = fa_max_write_bytes access,
      tl_max_replacements = fa_max_edit_replacements access\<rparr>"

definition edit_args_of :: "edit_request \<Rightarrow> edit_args" where
  "edit_args_of request =
     \<lparr>ea_old_string = er_old_string request, ea_new_string = er_new_string request,
      ea_replace_all = er_replace_all request\<rparr>"

definition run_edit ::
  "(string \<Rightarrow> content_hash) \<Rightarrow> path \<Rightarrow> edit_request \<Rightarrow> 'w fs_access
    \<Rightarrow> ('w, fs_error, edit_result option) io" where
  "run_edit sha256 root request access =
     (let logical = er_path request in
     io_bind (io_map_err (map_io logical) (fa_check_cancelled access)) (\<lambda>_.
     io_bind (io_lift (resolve_under root logical)) (\<lambda>p.
     io_bind (require_access p logical access True False) (\<lambda>target.
     io_bind (io_map_err (map_io logical) (fa_read_metadata access p target)) (\<lambda>metadata.
       if md_kind metadata = KDirectory then io_lift (Inl (FsIsDirectory (components_of logical)))
       else io_bind (read_mutation_preimage logical p target metadata access) (\<lambda>bytes.
         if sha256 bytes \<noteq> er_expected_hash request then io_lift (Inl (FsConflict logical))
         else if from_utf8 bytes \<noteq> Utf8Ok
         then io_lift (Inl (FsInvalidArgument (logical @ '' is not valid UTF-8'')))
         else case edit bytes (edit_args_of request) (edit_limits access) of
             None \<Rightarrow> io_return None
           | Some (Inl error) \<Rightarrow> io_lift (Inl (map_text_error logical error))
           | Some (Inr edited) \<Rightarrow>
               io_bind (io_map_err (map_io logical)
                   (fa_atomic_write_file access p target (eo_content edited) Replace)) (\<lambda>_.
                 io_return (Some \<lparr>es_replacements = eo_replacements edited,
                   es_bytes_written = eo_bytes_written edited,
                   es_content_hash = sha256 (eo_content edited)\<rparr>))))))))"

section \<open>What a policy promises\<close>

text \<open>
  \<open>files\<close> is the content of the regular files by name, and \<open>settled w p\<close> says that in world \<open>w\<close>
  the name \<open>p\<close> goes through no symbolic link.  Only a successful atomic write changes the files.
\<close>

definition plainly_named :: "path \<Rightarrow> fs_path \<Rightarrow> bool" where
  "plainly_named root logical \<longleftrightarrow>
     (case resolve_under root logical of Inl _ \<Rightarrow> True | Inr p \<Rightarrow> normal_path p)"

lemma scoped_plainly_named:
  assumes "fs_path_new_scoped s = Inr logical" "normal_path root"
  shows "plainly_named root logical"
proof (cases "is_absolute (components_of s)")
  case True
  with assms(1) have "logical = s" "ParentDir \<notin> set (components_of s)" "s \<noteq> []"
    by (auto simp: fs_path_new_scoped_def components_of_def is_absolute_def part_component_def map_filter_simps
        split: if_splits)
  then show ?thesis
    using True components_of_absolute by (simp add: plainly_named_def resolve_under_def path_push_def)
next
  case False
  with assms(1) have "fs_path_new s = Inr logical" by (simp add: fs_path_new_scoped_def)
  then obtain ns where ns: "list_all component_name ns" "logical = join_components (map Normal ns)"
    using fs_path_new_names by blast
  then have "components_of logical = map Normal ns" using components_of_join by simp
  then show ?thesis using assms(2)
    by (cases ns) (auto simp: plainly_named_def resolve_under_def path_push_def is_absolute_def
        dest: normal_path_append [of _ ns])
qed

locale fs_files =
  fixes access :: "'w fs_access"
    and files :: "'w \<Rightarrow> path \<Rightarrow> string option"
    and settled :: "'w \<Rightarrow> path \<Rightarrow> bool"
  assumes check_keeps:
      "fa_check_cancelled access w = (r0, w') \<Longrightarrow> files w' = files w \<and> settled w' = settled w"
    and resolve_keeps:
      "fa_resolve_access_path access p w = (r1, w') \<Longrightarrow> files w' = files w \<and> settled w' = settled w"
    and resolve_settled:
      "fa_resolve_access_path access p w = (Inr t, w') \<Longrightarrow> normal_path p \<Longrightarrow> settled w t"
    and metadata_keeps:
      "fa_read_metadata access p t w = (r2, w') \<Longrightarrow> files w' = files w \<and> settled w' = settled w"
    and open_keeps:
      "fa_open_read_file access p t w = (r3, w') \<Longrightarrow> files w' = files w \<and> settled w' = settled w"
    and open_serves:
      "fa_open_read_file access p t w = (Inr f, w') \<Longrightarrow> settled w t \<Longrightarrow> read_to_end (of_reads f) = Inr c \<Longrightarrow>
        files w t = Some c"
    and write_publishes:
      "fa_atomic_write_file access p t c m w = (Inr u, w') \<Longrightarrow> settled w t \<Longrightarrow>
        files w' = (files w)(t \<mapsto> c) \<and> (m = CreateNew \<longrightarrow> files w t = None)"
    and write_fails:
      "fa_atomic_write_file access p t c m w = (Inl e, w') \<Longrightarrow> files w' = files w"
    and bound_fits: "fa_max_write_bytes access = Some limit \<Longrightarrow> limit < usize_max"
begin

abbreviation observed :: "'w \<Rightarrow> (path \<Rightarrow> string option) \<times> (path \<Rightarrow> bool)" where
  "observed w \<equiv> (files w, settled w)"

lemma policy_keeps [simp, intro]:
  "io_keeps observed (fa_check_cancelled access)"
  "io_keeps observed (fa_resolve_access_path access p)"
  "io_keeps observed (fa_read_metadata access p t)"
  "io_keeps observed (fa_open_read_file access p t)"
  unfolding io_keeps_def using check_keeps resolve_keeps metadata_keeps open_keeps
  by (metis prod.collapse)+

lemma steps_keep [simp, intro]:
  "io_keeps observed (require_access p logical access write symlink_directory)"
  "io_keeps observed (read_mutation_preimage logical p t metadata access)"
  by (auto simp: require_access_def read_mutation_preimage_def split: option.split intro!: io_keeps_bind)

lemma reports_keep:
  "io_keeps observed (io_map_err g (fa_check_cancelled access))"
  "io_keeps observed (io_map_err g (fa_read_metadata access p t))"
  "io_keeps observed (io_result (fa_read_metadata access p t))"
  by simp_all

lemma require_access_settled:
  assumes "require_access p logical access write symlink_directory w = (Inr t, w1)" "normal_path p"
  shows "settled w1 t"
  using require_access_resolved [OF assms(1)] resolve_settled assms(2) resolve_keeps by metis

lemma preimage_is_content:
  assumes "read_mutation_preimage logical p t metadata access w = (Inr bytes, w1)" "settled w t"
  shows "files w t = Some bytes"
proof (cases "fa_max_write_bytes access")
  case None
  with assms(1) obtain f w2 where "fa_open_read_file access p t w = (Inr f, w2)"
    "read_to_end (of_reads f) = Inr bytes"
    by (auto simp: read_mutation_preimage_def io_bind_Inr_iff)
  with open_serves assms(2) show ?thesis by blast
next
  case (Some limit)
  with assms(1) obtain f w2 where f: "fa_open_read_file access p t w = (Inr f, w2)"
    "take_to_end (sat_add limit 1) (of_reads f) = Inr bytes"
    and "length bytes \<le> limit"
    by (auto simp: read_mutation_preimage_def io_bind_Inr_iff enforce_write_bound_def
        check_output_bytes_def text_limits_default_def split: if_splits)
  moreover have "sat_add limit 1 = Suc limit" using bound_fits [OF Some] by (simp add: sat_add_def)
  ultimately show ?thesis using take_to_end_whole [OF f(2)] open_serves [OF f(1) assms(2)] by simp
qed

lemma keep_step:
  assumes "io_bind m f w = (r, w')" "io_keeps observed m"
  obtains (failed) e where "r = Inl e" "files w' = files w"
    | (continued) x w1 where "m w = (Inr x, w1)" "observed w1 = observed w" "f x w1 = (r, w')"
  using that by (rule io_keeps_bindE [OF assms]) auto

text \<open>The common start of the two mutations.\<close>

lemma authorize_step:
  assumes run: "io_bind (io_map_err (map_io logical) (fa_check_cancelled access)) (\<lambda>_.
      io_bind (io_lift (resolve_under root logical)) (\<lambda>p.
      io_bind (require_access p logical access True False) (f p))) w = (r, w')"
    and named: "plainly_named root logical"
  obtains (failed) e where "r = Inl e" "files w' = files w"
    | (continued) p t w1 where "resolve_under root logical = Inr p" "fa_is_writable_paths access p t"
        "settled w1 t" "observed w1 = observed w" "f p t w1 = (r, w')"
  using run reports_keep(1)
proof (cases rule: keep_step)
  case (continued u w1)
  show ?thesis
  proof (cases "resolve_under root logical")
    case (Inl e)
    with continued have "r = Inl e" "files w' = files w" by simp_all
    then show ?thesis by (rule that(1))
  next
    case (Inr p)
    with continued(3) have "io_bind (require_access p logical access True False) (f p) w1 = (r, w')" by simp
    from this steps_keep(1) show ?thesis
    proof (cases rule: keep_step)
      case (failed e)
      then show ?thesis using that(1) continued(2) by simp
    next
      case step: (continued t w2)
      show ?thesis
        using that(2) [OF Inr _ _ _ step(3)] require_access_allowed [OF step(1)]
          require_access_settled [OF step(1)] named Inr step(2) continued(2) by (simp add: plainly_named_def)
    qed
  qed
qed (use that(1) in simp)

lemma publish_step:
  assumes "io_bind (io_map_err g (fa_atomic_write_file access p t c m)) (\<lambda>_. io_return x) w = (r, w')"
    and "settled w t"
  obtains (failed) e where "r = Inl e" "files w' = files w"
    | (continued) "r = Inr x" "files w' = (files w)(t \<mapsto> c)" "m = CreateNew \<longrightarrow> files w t = None"
  using assms(1)
proof (cases rule: io_bindE)
  case (failed e)
  then show ?thesis using that(1) write_fails by (cases "fa_atomic_write_file access p t c m w"; cases "fst (fa_atomic_write_file access p t c m w)") auto
next
  case (continued w1)
  then show ?thesis using that(2) write_publishes [OF _ assms(2)] by auto
qed

lemma preimage_step:
  assumes "io_bind (read_mutation_preimage logical p t metadata access) f w = (r, w')" "settled w t"
  obtains (failed) e where "r = Inl e" "files w' = files w"
    | (continued) bytes w1 where "files w t = Some bytes" "observed w1 = observed w" "f bytes w1 = (r, w')"
  using assms(1) steps_keep(2)
proof (cases rule: keep_step)
  case (continued bytes w1)
  then show ?thesis using that(2) preimage_is_content [OF continued(1) assms(2)] by blast
qed (use that(1) in blast)

text \<open>A write that succeeds replaced the content the caller expected, or created the file, and
  changed nothing else; one that fails changed nothing.\<close>

lemma write_effect:
  assumes run: "run_write sha256 root request access w = (r, w')"
    and named: "plainly_named root (wr_path request)"
  shows "case r of
      Inl _ \<Rightarrow> files w' = files w
    | Inr res \<Rightarrow> (\<exists>p t. resolve_under root (wr_path request) = Inr p \<and> fa_is_writable_paths access p t \<and>
        map_option sha256 (files w t) = wr_expected_hash request \<and>
        files w' = (files w)(t \<mapsto> wr_content request) \<and>
        res = \<lparr>ws_bytes_written = length (wr_content request), ws_created = (files w t = None)\<rparr>)"
proof (cases "enforce_write_bound (wr_path request) (length (wr_content request)) access")
  case (Inl e)
  from run have "io_bind (io_map_err (map_io (wr_path request)) (fa_check_cancelled access)) (\<lambda>_. io_lift (Inl e)) w = (r, w')"
    unfolding run_write_def Let_def Inl by simp
  from this reports_keep(1) show ?thesis by (cases rule: keep_step) auto
next
  case (Inr u)
  note start = run [unfolded run_write_def Let_def Inr io_bind_lift]
  from start named show ?thesis
  proof (cases rule: authorize_step)
    case (continued p t w1)
    from continued(5) reports_keep(3) show ?thesis
    proof (cases rule: keep_step)
      case meta: (continued m w2)
      have w2: "files w2 = files w" "settled w2 t" using meta(2) continued(3,4) by simp_all
      show ?thesis
      proof (cases m)
        case (Inl e)
        show ?thesis
        proof (cases "io_kind e \<noteq> NotFound \<or> wr_expected_hash request \<noteq> None")
          case True
          then show ?thesis using meta(3) w2 by (auto simp: Inl split: if_splits)
        next
          case False
          with meta(3) Inl have "io_bind (io_map_err (create_error (wr_path request))
              (fa_atomic_write_file access p t (wr_content request) CreateNew)) (\<lambda>_.
              io_return \<lparr>ws_bytes_written = length (wr_content request), ws_created = True\<rparr>) w2 = (r, w')" by simp
          from this w2(2) show ?thesis
            by (cases rule: publish_step) (use False w2(1) continued(1,2) in auto)
        qed
      next
        case (Inr metadata)
        show ?thesis
        proof (cases "md_kind metadata = KDirectory")
          case True
          then show ?thesis using meta(3) w2 by (auto simp: Inr)
        next
          case False
          from meta(3) [unfolded Inr sum.case if_not_P [OF False]] w2(2) show ?thesis
          proof (cases rule: preimage_step)
            case pre: (continued bytes w3)
            have w3: "files w3 = files w" "settled w3 t" using pre(2) w2 by simp_all
            show ?thesis
            proof (cases "wr_expected_hash request = Some (sha256 bytes)")
              case True
              with pre(3) have "io_bind (io_map_err (map_io (wr_path request))
                  (fa_atomic_write_file access p t (wr_content request) Replace)) (\<lambda>_.
                  io_return \<lparr>ws_bytes_written = length (wr_content request), ws_created = False\<rparr>) w3 = (r, w')" by simp
              from this w3(2) show ?thesis
                by (cases rule: publish_step) (use True pre(1) w2(1) w3(1) continued(1,2) in auto)
            qed (use pre(3) w3 in auto)
          qed (use w2 in auto)
        qed
      qed
    qed (use continued in auto)
  qed auto
qed

text \<open>An edit that succeeds replaced the content the caller expected by its checked edit and changed
  nothing else; one that fails, or panics, changed nothing.\<close>

lemma edit_effect:
  assumes run: "run_edit sha256 root request access w = (r, w')"
    and named: "plainly_named root (er_path request)"
  shows "case r of
      Inr (Some res) \<Rightarrow> (\<exists>p t original out. resolve_under root (er_path request) = Inr p \<and>
        fa_is_writable_paths access p t \<and> files w t = Some original \<and>
        sha256 original = er_expected_hash request \<and> from_utf8 original = Utf8Ok \<and>
        edit original (edit_args_of request) (edit_limits access) = Some (Inr out) \<and>
        files w' = (files w)(t \<mapsto> eo_content out) \<and>
        res = \<lparr>es_replacements = eo_replacements out, es_bytes_written = eo_bytes_written out,
               es_content_hash = sha256 (eo_content out)\<rparr>)
    | Inr None \<Rightarrow> files w' = files w \<and> (\<exists>t original. files w t = Some original \<and>
        from_utf8 original = Utf8Ok \<and> edit original (edit_args_of request) (edit_limits access) = None)
    | Inl _ \<Rightarrow> files w' = files w"
  using run [unfolded run_edit_def Let_def] named
proof (cases rule: authorize_step)
  case (continued p t w1)
  from continued(5) reports_keep(2) show ?thesis
  proof (cases rule: keep_step)
    case meta: (continued metadata w2)
    have w2: "files w2 = files w" "settled w2 t" using meta(2) continued(3,4) by simp_all
    show ?thesis
    proof (cases "md_kind metadata = KDirectory")
      case False
      from meta(3) [unfolded if_not_P [OF False]] w2(2) show ?thesis
      proof (cases rule: preimage_step)
        case pre: (continued bytes w3)
        have w3: "files w3 = files w" "settled w3 t" using pre(2) w2 by simp_all
        show ?thesis
        proof (cases "sha256 bytes = er_expected_hash request \<and> from_utf8 bytes = Utf8Ok")
          case True
          show ?thesis
          proof (cases "edit bytes (edit_args_of request) (edit_limits access)")
            case None
            then show ?thesis using True pre w2 w3 by (auto intro!: exI [of _ t] exI [of _ bytes])
          next
            case (Some e)
            show ?thesis
            proof (cases e)
              case (Inr out)
              with Some True pre(3) have "io_bind (io_map_err (map_io (er_path request))
                  (fa_atomic_write_file access p t (eo_content out) Replace)) (\<lambda>_.
                  io_return (Some \<lparr>es_replacements = eo_replacements out, es_bytes_written = eo_bytes_written out,
                    es_content_hash = sha256 (eo_content out)\<rparr>)) w3 = (r, w')" by simp
              from this w3(2) show ?thesis
                by (cases rule: publish_step) (use True Some Inr pre(1) w2(1) w3(1) continued(1,2) in auto)
            qed (use Some True pre(3) w3 in auto)
          qed
        qed (use pre(3) w3 in \<open>auto split: if_splits\<close>)
      qed (use w2 in auto)
    qed (use meta(3) w2 in auto)
  qed (use continued in auto)
qed auto

end

end
