(* ===== verification/Workdir_Host.thy ===== *)
theory Workdir_Host
  imports Fs_Mutate
begin

text \<open>
  The local provider's access policy (\<open>workdir/src/local.rs\<close>, \<open>ScopeAccess\<close>) and the two
  descriptor-confined calls of \<open>fs-operation/src/lib.rs\<close> it uses for external work directories.
  The operating system and the temporary-file library are the parameter \<open>host\<close>; a directory
  descriptor is the name it was opened under.
\<close>

section \<open>The host\<close>

datatype os_error = Eloop | OsError io_error

text \<open>A directory or a file named by a path, or relative to an open directory
  (\<open>/proc/self/fd/N\<close>).\<close>

datatype dir_ref = ByName path | ByHandle path

datatype file_ref = AtPath path | AtHandle path string

record 'w host =
  ho_view :: "'w \<Rightarrow> fs_view"
  ho_open :: "path \<Rightarrow> ('w, io_error, open_file) io"
  ho_metadata :: "path \<Rightarrow> ('w, io_error, fs_metadata) io"
  ho_read_dir :: "dir_ref \<Rightarrow> ('w, io_error, (io_error + string) list) io"
  ho_create_dir_all :: "path \<Rightarrow> ('w, io_error, unit) io"
  ho_try_clone :: "path \<Rightarrow> ('w, io_error, path) io"
  ho_openat2 :: "path \<Rightarrow> path \<Rightarrow> ('w, os_error, open_file) io"
  ho_openat_dir :: "path \<Rightarrow> string \<Rightarrow> ('w, io_error, path) io"
  ho_mkdirat :: "path \<Rightarrow> string \<Rightarrow> ('w, io_error, unit) io"
  ho_temp_new_in :: "dir_ref \<Rightarrow> ('w, io_error, nat) io"
  ho_temp_write_all :: "nat \<Rightarrow> string \<Rightarrow> ('w, io_error, unit) io"
  ho_temp_flush :: "nat \<Rightarrow> ('w, io_error, unit) io"
  ho_temp_sync_all :: "nat \<Rightarrow> ('w, io_error, unit) io"
  ho_temp_persist :: "nat \<Rightarrow> file_ref \<Rightarrow> ('w, io_error, unit) io"
  ho_temp_persist_noclobber :: "nat \<Rightarrow> file_ref \<Rightarrow> ('w, io_error, unit) io"
  ho_temp_drop :: "nat \<Rightarrow> 'w \<Rightarrow> 'w"
  ho_now :: "'w \<Rightarrow> nat \<times> 'w"
  ho_cancelled :: "'w \<Rightarrow> bool"
  ho_set_cancelled :: "'w \<Rightarrow> 'w"

section \<open>Atomic writes\<close>

text \<open>The drop of a value at an early return.\<close>

definition io_cleanup :: "('w \<Rightarrow> 'w) \<Rightarrow> ('w, 'e, 'a) io \<Rightarrow> ('w, 'e, 'a) io" where
  "io_cleanup g m = (\<lambda>w. case m w of (Inl e, w) \<Rightarrow> (Inl e, g w) | (Inr x, w) \<Rightarrow> (Inr x, w))"

text \<open>From the temporary file to the rename, the same in every implementation of
  \<open>atomic_write_file\<close>.\<close>

definition publish_temporary ::
  "'w host \<Rightarrow> dir_ref \<Rightarrow> file_ref \<Rightarrow> string \<Rightarrow> atomic_write_mode \<Rightarrow> ('w, io_error, unit) io
    \<Rightarrow> ('w, io_error, unit) io" where
  "publish_temporary host parent destination content mode before_commit =
     io_bind (ho_temp_new_in host parent) (\<lambda>temporary. io_cleanup (ho_temp_drop host temporary) (
     io_bind (ho_temp_write_all host temporary content) (\<lambda>_.
     io_bind (ho_temp_flush host temporary) (\<lambda>_.
     io_bind (ho_temp_sync_all host temporary) (\<lambda>_.
     io_bind before_commit (\<lambda>_.
       case mode of
         CreateNew \<Rightarrow> ho_temp_persist_noclobber host temporary destination
       | Replace \<Rightarrow> ho_temp_persist host temporary destination))))))"

definition provider_root_exceeded :: io_error where
  "provider_root_exceeded = IoError PermissionDenied ''path is outside provider root''"

definition provider_symlink_denied :: io_error where
  "provider_symlink_denied =
     IoError PermissionDenied ''symbolic links are not permitted by this provider''"

definition contains_nul :: io_error where
  "contains_nul = IoError InvalidInput ''path contains NUL''"

definition open_beneath_no_symlinks_at :: "'w host \<Rightarrow> path \<Rightarrow> path \<Rightarrow> ('w, io_error, open_file) io" where
  "open_beneath_no_symlinks_at host root relative =
     (if is_absolute relative then io_lift (Inl provider_root_exceeded)
      else if CHR 0x00 \<in> set (join_components relative) then io_lift (Inl contains_nul)
      else io_map_err (\<lambda>e. case e of Eloop \<Rightarrow> provider_symlink_denied | OsError e \<Rightarrow> e)
             (ho_openat2 host root (if relative = [] then [CurDir] else relative)))"

text \<open>One directory of the walk: it is created when it is missing.\<close>

definition open_parent :: "'w host \<Rightarrow> path \<Rightarrow> string \<Rightarrow> ('w, io_error, path) io" where
  "open_parent host parent name =
     (if CHR 0x00 \<in> set name then io_lift (Inl contains_nul)
      else io_bind (io_result (ho_openat_dir host parent name)) (\<lambda>r.
        case r of
          Inr fd \<Rightarrow> io_return fd
        | Inl e \<Rightarrow>
            if io_kind e \<noteq> NotFound then io_lift (Inl e)
            else io_bind (io_result (ho_mkdirat host parent name)) (\<lambda>created.
              case created of
                Inl e \<Rightarrow> if io_kind e \<noteq> AlreadyExists then io_lift (Inl e) else ho_openat_dir host parent name
              | Inr _ \<Rightarrow> ho_openat_dir host parent name)))"

fun walk_parents :: "'w host \<Rightarrow> path \<Rightarrow> path \<Rightarrow> ('w, io_error, path \<times> string) io" where
  "walk_parents host parent [] = io_lift (Inl (IoError InvalidInput ''file path is empty''))"
| "walk_parents host parent [Normal name] = io_return (parent, name)"
| "walk_parents host parent (Normal name # component # components) =
     io_bind (open_parent host parent name) (\<lambda>fd. walk_parents host fd (component # components))"
| "walk_parents host parent (component # components) = io_lift (Inl provider_root_exceeded)"

definition atomic_write_beneath_no_symlinks_at ::
  "'w host \<Rightarrow> path \<Rightarrow> path \<Rightarrow> string \<Rightarrow> atomic_write_mode \<Rightarrow> ('w, io_error, unit) io
    \<Rightarrow> ('w, io_error, unit) io" where
  "atomic_write_beneath_no_symlinks_at host root relative content mode before_commit =
     (if is_absolute relative then io_lift (Inl provider_root_exceeded)
      else io_bind (ho_try_clone host root) (\<lambda>parent.
        io_bind (walk_parents host parent relative) (\<lambda>(parent, name).
          publish_temporary host (ByHandle parent) (AtHandle parent name) content mode before_commit)))"

section \<open>The scope policy\<close>

definition MAX_EXTERNAL_WRITE_BYTES :: nat where
  "MAX_EXTERNAL_WRITE_BYTES = 512 * 1024"

definition MAX_EXTERNAL_RESULT_ITEMS :: nat where
  "MAX_EXTERNAL_RESULT_ITEMS = 10000"

text \<open>\<open>sa_deadline\<close> is the deadline of the operation guard, when there is one.\<close>

record scope_access =
  sa_scope :: scope
  sa_root :: path
  sa_pinned_root :: "path option"
  sa_reject_symlinks :: bool
  sa_deadline :: "nat option"

definition strip_root :: "path \<Rightarrow> path \<Rightarrow> path option" where
  "strip_root root p = (if path_starts_with p root then Some (drop (length root) p) else None)"

definition root_unavailable :: io_error where
  "root_unavailable = IoError Unsupported ''External Workdir root handle is unavailable''"

definition open_confined :: "'w host \<Rightarrow> scope_access \<Rightarrow> path \<Rightarrow> ('w, io_error, open_file) io" where
  "open_confined host sa p =
     (case sa_pinned_root sa of
        None \<Rightarrow> io_lift (Inl root_unavailable)
      | Some root \<Rightarrow>
          (case strip_root (sa_root sa) p of
             None \<Rightarrow> io_lift (Inl provider_root_exceeded)
           | Some relative \<Rightarrow> open_beneath_no_symlinks_at host root relative))"

definition path_is_confined :: "scope_access \<Rightarrow> path \<Rightarrow> path \<Rightarrow> bool" where
  "path_is_confined sa logical resolved \<longleftrightarrow>
     \<not> sa_reject_symlinks sa \<or>
     (path_starts_with logical (sa_root sa) \<and> path_starts_with resolved (sa_root sa))"

definition check_cancelled :: "'w host \<Rightarrow> scope_access \<Rightarrow> ('w, io_error, unit) io" where
  "check_cancelled host sa w =
     (case sa_deadline sa of
        None \<Rightarrow> (Inr (), w)
      | Some deadline \<Rightarrow>
          if ho_cancelled host w
          then (Inl (IoError Interrupted ''External Workdir operation was cancelled''), w)
          else (case ho_now host w of
                  (now, w) \<Rightarrow>
                    if deadline \<le> now
                    then (Inl (IoError TimedOut ''External Workdir operation exceeded its provider deadline''),
                          ho_set_cancelled host w)
                    else (Inr (), w)))"

definition scope_resolve :: "'w host \<Rightarrow> scope_access \<Rightarrow> path \<Rightarrow> ('w, io_error, path) io" where
  "scope_resolve host sa logical w =
     (if \<not> sa_reject_symlinks sa then (resolve_access_path (ho_view host w) logical, w)
      else if path_starts_with logical (sa_root sa) then (Inr logical, w)
      else (Inl provider_root_exceeded, w))"

definition scope_open_read_file :: "'w host \<Rightarrow> scope_access \<Rightarrow> path \<Rightarrow> path \<Rightarrow> ('w, io_error, open_file) io" where
  "scope_open_read_file host sa logical resolved =
     (if sa_reject_symlinks sa then open_confined host sa resolved else ho_open host resolved)"

definition scope_read_metadata :: "'w host \<Rightarrow> scope_access \<Rightarrow> path \<Rightarrow> path \<Rightarrow> ('w, io_error, fs_metadata) io" where
  "scope_read_metadata host sa logical resolved =
     (if sa_reject_symlinks sa
      then io_bind (open_confined host sa resolved) (\<lambda>file. io_lift (of_metadata file))
      else ho_metadata host resolved)"

definition scope_open_read_dir ::
  "'w host \<Rightarrow> scope_access \<Rightarrow> path \<Rightarrow> path \<Rightarrow> ('w, io_error, (io_error + string) list) io" where
  "scope_open_read_dir host sa logical resolved =
     (if \<not> sa_reject_symlinks sa then ho_read_dir host (ByName resolved)
      else io_bind (open_confined host sa resolved) (\<lambda>directory.
        io_bind (io_lift (of_metadata directory)) (\<lambda>metadata.
          if md_kind metadata \<noteq> KDirectory
          then io_lift (Inl (IoError NotADirectory ''path is not a directory''))
          else ho_read_dir host (ByHandle resolved))))"

definition scope_atomic_write_file ::
  "'w host \<Rightarrow> scope_access \<Rightarrow> path \<Rightarrow> path \<Rightarrow> string \<Rightarrow> atomic_write_mode \<Rightarrow> ('w, io_error, unit) io" where
  "scope_atomic_write_file host sa logical resolved content mode =
     (if \<not> sa_reject_symlinks sa
      then (case path_parent resolved of
              None \<Rightarrow> io_lift (Inl (IoError InvalidInput ''file path has no parent''))
            | Some parent \<Rightarrow>
                io_bind (ho_create_dir_all host parent) (\<lambda>_.
                  publish_temporary host (ByName parent) (AtPath resolved) content mode
                    (check_cancelled host sa)))
      else (case sa_pinned_root sa of
              None \<Rightarrow> io_lift (Inl root_unavailable)
            | Some root \<Rightarrow>
                (case strip_root (sa_root sa) resolved of
                   None \<Rightarrow> io_lift (Inl provider_root_exceeded)
                 | Some relative \<Rightarrow>
                     atomic_write_beneath_no_symlinks_at host root relative content mode
                       (check_cancelled host sa))))"

definition scope_readable :: "scope_access \<Rightarrow> path \<Rightarrow> path \<Rightarrow> bool" where
  "scope_readable sa logical resolved \<longleftrightarrow>
     path_is_confined sa logical resolved \<and>
     permission_at_paths (sa_scope sa) logical resolved \<in> {Some Read, Some Write}"

definition scope_writable_paths :: "scope_access \<Rightarrow> path \<Rightarrow> path \<Rightarrow> bool" where
  "scope_writable_paths sa logical resolved \<longleftrightarrow>
     path_is_confined sa logical resolved \<and>
     permission_at_paths (sa_scope sa) logical resolved = Some Write"

definition scope_policy :: "'w host \<Rightarrow> scope_access \<Rightarrow> 'w fs_access" where
  "scope_policy host sa =
     \<lparr>fa_check_cancelled = check_cancelled host sa,
      fa_view = ho_view host,
      fa_resolve_access_path = scope_resolve host sa,
      fa_is_readable_paths = scope_readable sa,
      fa_is_writable_paths = scope_writable_paths sa,
      fa_can_enumerate_directory = scope_readable sa,
      fa_open_read_file = scope_open_read_file host sa,
      fa_read_metadata = scope_read_metadata host sa,
      fa_open_read_dir = scope_open_read_dir host sa,
      fa_atomic_write_file = scope_atomic_write_file host sa,
      fa_max_write_bytes = (if sa_reject_symlinks sa then Some MAX_EXTERNAL_WRITE_BYTES else None),
      fa_max_edit_replacements = (if sa_reject_symlinks sa then Some MAX_EXTERNAL_RESULT_ITEMS else None)\<rparr>"

end
