(* ===== verification/Workdir_Files.thy ===== *)
theory Workdir_Files
  imports Workdir_Host
begin

text \<open>
  What the local provider relies on from the operating system and the temporary-file library, as a
  locale over what can be observed of a disk, and the proof that the scope policy then keeps the
  contract of the mutations (\<open>fs_files\<close>).
\<close>

section \<open>Observing a disk\<close>

text \<open>The content of the files by name, of the temporary files by handle, and which names are
  symbolic links.\<close>

record disk =
  dk_files :: "path \<Rightarrow> string option"
  dk_temps :: "nat \<Rightarrow> string option"
  dk_link :: "path \<Rightarrow> bool"

definition link_free :: "(path \<Rightarrow> bool) \<Rightarrow> path \<Rightarrow> bool" where
  "link_free link p \<longleftrightarrow> (\<forall>q. prefix q p \<longrightarrow> \<not> link q)"

fun ref_path :: "file_ref \<Rightarrow> path" where
  "ref_path (AtPath p) = p"
| "ref_path (AtHandle d n) = d @ [Normal n]"

text \<open>A file below an open directory is reached through no link of the directory's name.\<close>

fun reached :: "(path \<Rightarrow> bool) \<Rightarrow> file_ref \<Rightarrow> bool" where
  "reached link (AtPath p) \<longleftrightarrow> link_free link p"
| "reached link (AtHandle d n) \<longleftrightarrow> True"

lemma link_free_append:
  "link_free link (p @ q) \<longleftrightarrow> link_free link p \<and> (\<forall>r. r \<noteq> [] \<longrightarrow> prefix r q \<longrightarrow> \<not> link (p @ r))"
  unfolding link_free_def prefix_append by (metis append_Nil2 prefix_order.refl)

lemma push_names: "fold (\<lambda>c p. path_push p [Normal c]) ns p = p @ map Normal ns"
  by (induction ns arbitrary: p) (auto simp: path_push_def is_absolute_def)

text \<open>
  The documented behaviour: looking changes nothing; \<open>canonicalize\<close> answers names without links,
  and below a name that does not exist there is nothing; an opened file is the one of that name,
  which for \<open>openat2\<close> without links is the name under the descriptor; a temporary file holds what
  was written to it until it is renamed over the destination or dropped.
\<close>

locale host_files =
  fixes host :: "'w host"
    and disk :: "'w \<Rightarrow> disk"
  assumes looks_keep:
      "io_keeps disk (ho_open host p)" "io_keeps disk (ho_metadata host p)"
      "io_keeps disk (ho_openat2 host p q)" "io_keeps disk (ho_openat_dir host p n)"
      "io_keeps disk (ho_try_clone host p)"
    and now_keeps: "disk (snd (ho_now host w)) = disk w" "disk (ho_set_cancelled host w) = disk w"
    and directories_keep: "io_keeps disk (ho_create_dir_all host p)" "io_keeps disk (ho_mkdirat host p n)"
    and canonical:
      "fv_canonicalize (ho_view host w) p = Inr t \<Longrightarrow> link_free (dk_link (disk w)) t"
    and below_missing:
      "fv_canonicalize (ho_view host w) p = Inl e \<Longrightarrow> io_kind e = NotFound \<Longrightarrow>
        fv_symlink_kind (ho_view host w) p \<noteq> Inr KSymlink \<Longrightarrow> path_parent p = Some q \<Longrightarrow> file_name p = Some n \<Longrightarrow>
        fv_canonicalize (ho_view host w) q = Inr t \<Longrightarrow> \<not> dk_link (disk w) (t @ Normal n # rest)"
    and open_named:
      "ho_open host p w = (Inr f, w') \<Longrightarrow> link_free (dk_link (disk w)) p \<Longrightarrow>
        read_to_end (of_reads f) = Inr c \<Longrightarrow> dk_files (disk w) p = Some c"
    and open_beneath:
      "ho_openat2 host root (map Normal ns) w = (Inr f, w') \<Longrightarrow> read_to_end (of_reads f) = Inr c \<Longrightarrow>
        dk_files (disk w) (root @ map Normal ns) = Some c"
    and open_root_fails:
      "ho_openat2 host root [CurDir] w = (Inr f, w') \<Longrightarrow> read_to_end (of_reads f) \<noteq> Inr c"
    and clone_same: "ho_try_clone host d w = (Inr d', w') \<Longrightarrow> d' = d"
    and openat_named: "ho_openat_dir host d n w = (Inr d', w') \<Longrightarrow> d' = d @ [Normal n]"
    and temp_new:
      "ho_temp_new_in host dir w = (Inr h, w') \<Longrightarrow>
        disk w' = (disk w)\<lparr>dk_temps := (dk_temps (disk w))(h \<mapsto> [])\<rparr>"
      "ho_temp_new_in host dir w = (Inl e, w') \<Longrightarrow> disk w' = disk w"
    and temp_write:
      "ho_temp_write_all host h c w = (Inr u, w') \<Longrightarrow> dk_temps (disk w) h = Some b \<Longrightarrow>
        disk w' = (disk w)\<lparr>dk_temps := (dk_temps (disk w))(h \<mapsto> b @ c)\<rparr>"
      "io_keeps (\<lambda>w. dk_files (disk w)) (ho_temp_write_all host h c)"
    and temp_sync: "io_keeps disk (ho_temp_flush host h)" "io_keeps disk (ho_temp_sync_all host h)"
    and temp_persist:
      "ho_temp_persist host h r w = (Inr u, w') \<Longrightarrow> dk_temps (disk w) h = Some c \<Longrightarrow>
        reached (dk_link (disk w)) r \<Longrightarrow> dk_files (disk w') = (dk_files (disk w))(ref_path r \<mapsto> c)"
      "ho_temp_persist host h r w = (Inl e, w') \<Longrightarrow> dk_files (disk w') = dk_files (disk w)"
    and temp_persist_noclobber:
      "ho_temp_persist_noclobber host h r w = (Inr u, w') \<Longrightarrow> dk_temps (disk w) h = Some c \<Longrightarrow>
        reached (dk_link (disk w)) r \<Longrightarrow>
        dk_files (disk w) (ref_path r) = None \<and> dk_files (disk w') = (dk_files (disk w))(ref_path r \<mapsto> c)"
      "ho_temp_persist_noclobber host h r w = (Inl e, w') \<Longrightarrow> dk_files (disk w') = dk_files (disk w)"
    and temp_drop: "dk_files (disk (ho_temp_drop host h w)) = dk_files (disk w)"
begin

lemma check_cancelled_keeps: "io_keeps disk (check_cancelled host sa)"
  unfolding io_keeps_def check_cancelled_def
  by (auto simp: now_keeps split: option.split prod.split) (metis now_keeps(1) snd_conv)+

lemma open_beneath_keeps: "io_keeps disk (open_beneath_no_symlinks_at host root relative)"
  by (simp add: open_beneath_no_symlinks_at_def looks_keep)

lemma open_confined_keeps: "io_keeps disk (open_confined host sa p)"
  by (simp add: open_confined_def open_beneath_keeps split: option.split)

lemma open_parent_keeps: "io_keeps disk (open_parent host d n)"
  unfolding open_parent_def
  by (auto intro!: io_keeps_bind simp: looks_keep directories_keep split: sum.split)

lemma walk_parents_keeps: "io_keeps disk (walk_parents host d cs)"
proof (induction cs arbitrary: d rule: induct_list012)
  case (2 c)
  then show ?case by (cases c) auto
next
  case (3 c c' cs)
  then show ?case by (cases c) (auto intro!: io_keeps_bind open_parent_keeps)
qed auto

lemma resolve_from_link_free:
  assumes "resolve_access_from (ho_view host w) cursor missing = Inr t"
    and "missing = [] \<or> (\<exists>p e. path_parent p = Some cursor \<and> file_name p = Some (last missing) \<and>
      fv_canonicalize (ho_view host w) p = Inl e \<and> io_kind e = NotFound \<and>
      fv_symlink_kind (ho_view host w) p \<noteq> Inr KSymlink)"
  shows "link_free (dk_link (disk w)) t"
  using assms
proof (induction cursor arbitrary: missing rule: measure_induct_rule [of length])
  case (less cursor)
  note run = less.prems(1) [unfolded resolve_access_from.simps [of _ cursor]]
  show ?case
  proof (cases "fv_canonicalize (ho_view host w) cursor")
    case (Inr resolved)
    with run have t: "t = resolved @ map Normal (rev missing)" by (simp add: push_names)
    have "\<not> dk_link (disk w) (resolved @ r)" if "r \<noteq> []" "prefix r (map Normal (rev missing))" for r
    proof -
      from that have ne: "missing \<noteq> []" by auto
      with less.prems(2) obtain p e where "path_parent p = Some cursor" "file_name p = Some (last missing)"
        "fv_canonicalize (ho_view host w) p = Inl e" "io_kind e = NotFound"
        "fv_symlink_kind (ho_view host w) p \<noteq> Inr KSymlink" by blast
      from below_missing [OF this(3,4,5,1,2) Inr] have "\<not> dk_link (disk w) (resolved @ Normal (last missing) # rest)" for rest .
      moreover have "\<exists>rest. r = Normal (last missing) # rest"
        using that ne by (cases missing rule: rev_cases; cases r) auto
      ultimately show ?thesis by auto
    qed
    then show ?thesis using canonical [OF Inr] unfolding t link_free_append by blast
  next
    case (Inl e)
    from run Inl obtain name parent where step: "io_kind e = NotFound"
      "fv_symlink_kind (ho_view host w) cursor \<noteq> Inr KSymlink" "file_name cursor = Some name"
      "path_parent cursor = Some parent"
      "resolve_access_from (ho_view host w) parent (missing @ [name]) = Inr t"
      by (auto split: if_splits option.splits)
    show ?thesis
      by (rule less.IH [OF _ step(5)]) (use path_parent_length [OF step(4)] step Inl in auto)
  qed
qed

lemma fill_temporary:
  assumes run: "io_bind (ho_temp_write_all host h c) (\<lambda>_. io_bind (ho_temp_flush host h) (\<lambda>_.
      io_bind (ho_temp_sync_all host h) (\<lambda>_. io_bind check (\<lambda>_.
        case m of CreateNew \<Rightarrow> ho_temp_persist_noclobber host h r | Replace \<Rightarrow> ho_temp_persist host h r)))) w = (res, w')"
    and check: "io_keeps disk check" and h: "dk_temps (disk w) h = Some []"
  shows "case res of Inl _ \<Rightarrow> dk_files (disk w') = dk_files (disk w)
    | Inr _ \<Rightarrow> reached (dk_link (disk w)) r \<longrightarrow> dk_files (disk w') = (dk_files (disk w))(ref_path r \<mapsto> c) \<and>
        (m = CreateNew \<longrightarrow> dk_files (disk w) (ref_path r) = None)"
  using run
proof (cases rule: io_bindE)
  case (failed e)
  then show ?thesis using io_keepsD [OF temp_write(2)] by auto
next
  case (continued u w1)
  from temp_write(1) [OF continued(1) h]
  have w1: "dk_files (disk w1) = dk_files (disk w)" "dk_link (disk w1) = dk_link (disk w)" "dk_temps (disk w1) h = Some c"
    by simp_all
  from continued(2) temp_sync(1) show ?thesis
  proof (cases rule: io_keeps_bindE)
    case flush: (continued u w2)
    from flush(3) temp_sync(2) show ?thesis
    proof (cases rule: io_keeps_bindE)
      case sync: (continued u w3)
      from sync(3) check show ?thesis
      proof (cases rule: io_keeps_bindE)
        case commit: (continued u w4)
        have w4: "disk w4 = disk w1" using flush(2) sync(2) commit(2) by simp
        then have temp: "dk_temps (disk w4) h = Some c" using w1 by simp
        note persist = temp_persist(1) [OF _ temp, of r _ w'] temp_persist_noclobber(1) [OF _ temp, of r _ w']
        have files: "dk_files (disk w4) = dk_files (disk w)" "dk_link (disk w4) = dk_link (disk w)"
          using w4 w1 by simp_all
        show ?thesis
        proof (cases m)
          case CreateNew
          then show ?thesis using commit(3) persist(2) temp_persist_noclobber(2) [of h r w4 _ w']
            by (cases res) (simp_all add: files)
        next
          case Replace
          then show ?thesis using commit(3) persist(1) temp_persist(2) [of h r w4 _ w']
            by (cases res) (simp_all add: files)
        qed
      qed (use flush sync w1 in auto)
    qed (use flush w1 in auto)
  qed (use w1 in auto)
qed

lemma publish_temporary_effect:
  assumes run: "publish_temporary host dir r c m check w = (res, w')"
    and check: "io_keeps disk check"
  shows "case res of Inl _ \<Rightarrow> dk_files (disk w') = dk_files (disk w)
    | Inr _ \<Rightarrow> reached (dk_link (disk w)) r \<longrightarrow> dk_files (disk w') = (dk_files (disk w))(ref_path r \<mapsto> c) \<and>
        (m = CreateNew \<longrightarrow> dk_files (disk w) (ref_path r) = None)"
  using run [unfolded publish_temporary_def]
proof (cases rule: io_bindE)
  case (failed e)
  then show ?thesis using temp_new(2) by simp
next
  case (continued h w1)
  from temp_new(1) [OF continued(1)]
  have w1: "dk_files (disk w1) = dk_files (disk w)" "dk_link (disk w1) = dk_link (disk w)" "dk_temps (disk w1) h = Some []"
    by simp_all
  let ?body = "io_bind (ho_temp_write_all host h c) (\<lambda>_. io_bind (ho_temp_flush host h) (\<lambda>_.
      io_bind (ho_temp_sync_all host h) (\<lambda>_. io_bind check (\<lambda>_.
        case m of CreateNew \<Rightarrow> ho_temp_persist_noclobber host h r | Replace \<Rightarrow> ho_temp_persist host h r))))"
  obtain res0 w2 where body: "?body w1 = (res0, w2)" by (cases "?body w1")
  note effect = fill_temporary [OF body check w1(3)]
  have cleanup: "(case (res0, w2) of (Inl e, w) \<Rightarrow> (Inl e, ho_temp_drop host h w) | (Inr x, w) \<Rightarrow> (Inr x, w)) = (res, w')"
    using continued(2) unfolding io_cleanup_def body .
  show ?thesis
  proof (cases res0)
    case (Inl e)
    with cleanup have "res = Inl e" "w' = ho_temp_drop host h w2" by simp_all
    then show ?thesis using effect Inl w1(1) temp_drop [of h w2] by simp
  next
    case (Inr x)
    with cleanup have "res = Inr x" "w' = w2" by simp_all
    then show ?thesis using effect Inr w1 by simp
  qed
qed

lemma open_parent_named:
  assumes "open_parent host d name w = (Inr fd, w')"
  shows "fd = d @ [Normal name]"
proof -
  obtain r w1 where r: "ho_openat_dir host d name w = (r, w1)" by (cases "ho_openat_dir host d name w")
  obtain r' w2 where r': "ho_mkdirat host d name w1 = (r', w2)" by (cases "ho_mkdirat host d name w1")
  show ?thesis
    using assms openat_named [of d name w fd w'] openat_named [of d name w2 fd w'] r r'
    by (cases r; cases r') (auto simp: open_parent_def io_bind_def split: if_splits)
qed

lemma walk_parents_named:
  "walk_parents host d (map Normal ns) w = (Inr (d', n), w') \<Longrightarrow> d' @ [Normal n] = d @ map Normal ns"
proof (induction ns arbitrary: d w rule: induct_list012)
  case (3 name m ns)
  from 3(3) obtain fd w1 where fd: "open_parent host d name w = (Inr fd, w1)"
    "walk_parents host fd (map Normal (m # ns)) w1 = (Inr (d', n), w')"
    by (auto simp: io_bind_Inr_iff)
  from open_parent_named [OF fd(1)] 3(2) [OF fd(2)] show ?case by simp
qed simp_all

lemma beneath_write_effect:
  assumes run: "atomic_write_beneath_no_symlinks_at host root relative c m check w = (res, w')"
    and check: "io_keeps disk check"
  shows "case res of Inl _ \<Rightarrow> dk_files (disk w') = dk_files (disk w)
    | Inr _ \<Rightarrow> relative \<in> range (map Normal) \<longrightarrow> dk_files (disk w') = (dk_files (disk w))(root @ relative \<mapsto> c) \<and>
        (m = CreateNew \<longrightarrow> dk_files (disk w) (root @ relative) = None)"
proof (cases "is_absolute relative")
  case True
  with run show ?thesis by (auto simp: atomic_write_beneath_no_symlinks_at_def)
next
  case False
  with run have "io_bind (ho_try_clone host root) (\<lambda>parent.
      io_bind (walk_parents host parent relative) (\<lambda>(parent, name).
        publish_temporary host (ByHandle parent) (AtHandle parent name) c m check)) w = (res, w')"
    by (simp add: atomic_write_beneath_no_symlinks_at_def)
  from this looks_keep(5) show ?thesis
  proof (cases rule: io_keeps_bindE)
    case clone: (continued d w1)
    from clone(3) walk_parents_keeps show ?thesis
    proof (cases rule: io_keeps_bindE)
      case walk: (continued dn w2)
      obtain d' n where dn: "dn = (d', n)" by (cases dn)
      have named: "ref_path (AtHandle d' n) = root @ relative" if normal: "relative \<in> range (map Normal)"
      proof -
        from normal obtain ns where "relative = map Normal ns" by blast
        with walk_parents_named [of d ns w1 d' n w2] walk(1) clone_same [OF clone(1)] show ?thesis
          by (simp add: dn)
      qed
      have "publish_temporary host (ByHandle d') (AtHandle d' n) c m check w2 = (res, w')"
        using walk(3) by (simp add: dn)
      note effect = publish_temporary_effect [OF this check]
      have "disk w2 = disk w" using walk(2) clone(2) by simp
      then show ?thesis using effect named by (cases res; cases "relative \<in> range (map Normal)") simp_all
    qed (use clone in auto)
  qed auto
qed

end

section \<open>The policy of a local session\<close>

text \<open>An external session pins its root; otherwise the name must have no link.\<close>

definition settled_path :: "scope_access \<Rightarrow> disk \<Rightarrow> path \<Rightarrow> bool" where
  "settled_path sa d t \<longleftrightarrow> (if sa_reject_symlinks sa then normal_path t else link_free (dk_link d) t)"

locale local_policy = host_files host disk
  for host :: "'w host" and disk :: "'w \<Rightarrow> disk" +
  fixes sa :: scope_access
  assumes pinned: "sa_pinned_root sa = Some r \<Longrightarrow> r = sa_root sa"
    and root_normal: "normal_path (sa_root sa)"
begin

lemma strip_root_names:
  assumes "strip_root (sa_root sa) t = Some relative" "normal_path t"
  obtains ns where "relative = map Normal ns" "t = sa_root sa @ map Normal ns"
proof -
  from assms(1) have t: "t = sa_root sa @ relative"
    by (auto simp: strip_root_def path_starts_with_def prefix_def split: if_splits)
  obtain rs ts where rs: "sa_root sa = RootDir # map Normal rs" "t = RootDir # map Normal ts"
    using assms(2) root_normal unfolding normal_path_def by blast
  then have "map Normal ts = map Normal rs @ relative" using t by simp
  then obtain ns where "relative = map Normal ns" by (auto simp: map_eq_append_conv)
  then show ?thesis using that t by blast
qed

lemma scope_keeps:
  "io_keeps disk (scope_resolve host sa p)"
  "io_keeps disk (scope_read_metadata host sa p t)"
  "io_keeps disk (scope_open_read_file host sa p t)"
  by (simp_all add: scope_read_metadata_def scope_open_read_file_def looks_keep open_confined_keeps io_keeps_bind)
    (simp add: io_keeps_def scope_resolve_def)

lemma scope_resolve_settled:
  "scope_resolve host sa p w = (Inr t, w') \<Longrightarrow> normal_path p \<Longrightarrow> settled_path sa (disk w) t"
  using resolve_from_link_free [of w p "[]" t]
  by (cases "sa_reject_symlinks sa")
    (auto simp: scope_resolve_def settled_path_def resolve_access_path_def split: if_splits)

lemma scope_open_serves:
  assumes "scope_open_read_file host sa p t w = (Inr f, w')" "settled_path sa (disk w) t"
    "read_to_end (of_reads f) = Inr c"
  shows "dk_files (disk w) t = Some c"
proof (cases "sa_reject_symlinks sa")
  case True
  with assms(1,2) obtain root relative where rel: "strip_root (sa_root sa) t = Some relative" "normal_path t"
    and root: "sa_pinned_root sa = Some root" and beneath: "open_beneath_no_symlinks_at host root relative w = (Inr f, w')"
    by (auto simp: scope_open_read_file_def open_confined_def settled_path_def split: option.splits)
  note opened = beneath [unfolded pinned [OF root]]
  obtain ns where ns: "relative = map Normal ns" "t = sa_root sa @ map Normal ns"
    using strip_root_names [OF rel] by blast
  from opened have run: "ho_openat2 host (sa_root sa) (if relative = [] then [CurDir] else relative) w = (Inr f, w')"
    by (auto simp: open_beneath_no_symlinks_at_def split: if_splits)
  then have "ns \<noteq> []" using open_root_fails [of "sa_root sa" w f w' c] assms(3) ns(1) by auto
  then show ?thesis using run open_beneath [of "sa_root sa" ns w f w' c] assms(3) ns by simp
next
  case False
  then show ?thesis
    using assms open_named [of t w f w' c] by (simp add: scope_open_read_file_def settled_path_def)
qed

lemma scope_write_effect:
  assumes "scope_atomic_write_file host sa p t c m w = (res, w')"
  shows "case res of Inl _ \<Rightarrow> dk_files (disk w') = dk_files (disk w)
    | Inr _ \<Rightarrow> settled_path sa (disk w) t \<longrightarrow> dk_files (disk w') = (dk_files (disk w))(t \<mapsto> c) \<and>
        (m = CreateNew \<longrightarrow> dk_files (disk w) t = None)"
proof (cases "sa_reject_symlinks sa")
  case False
  show ?thesis
  proof (cases "path_parent t")
    case None
    with False assms show ?thesis by (auto simp: scope_atomic_write_file_def)
  next
    case (Some parent)
    with False assms have "io_bind (ho_create_dir_all host parent) (\<lambda>_.
        publish_temporary host (ByName parent) (AtPath t) c m (check_cancelled host sa)) w = (res, w')"
      by (simp add: scope_atomic_write_file_def)
    from this directories_keep(1) show ?thesis
    proof (cases rule: io_keeps_bindE)
      case (continued u w1)
      show ?thesis
        using publish_temporary_effect [OF continued(3) check_cancelled_keeps] continued(2) False
        by (cases res) (simp_all add: settled_path_def)
    qed auto
  qed
next
  case True
  show ?thesis
  proof (cases "sa_pinned_root sa = None \<or> strip_root (sa_root sa) t = None")
    case none: True
    with True assms show ?thesis by (auto simp: scope_atomic_write_file_def split: option.splits)
  next
    case False
    then obtain root relative where rel: "strip_root (sa_root sa) t = Some relative" "sa_pinned_root sa = Some root"
      by auto
    note rel = rel(1) rel(2) [unfolded pinned [OF rel(2)]]
    from True assms have run: "atomic_write_beneath_no_symlinks_at host (sa_root sa) relative c m
        (check_cancelled host sa) w = (res, w')"
      by (simp add: scope_atomic_write_file_def rel)
    have named: "relative \<in> range (map Normal) \<and> t = sa_root sa @ relative" if "normal_path t"
      by (rule strip_root_names [OF rel(1) that]) simp
    note effect = beneath_write_effect [OF run check_cancelled_keeps]
    show ?thesis
    proof (cases "normal_path t")
      case normal: True
      from effect show ?thesis unfolding conjunct2 [OF named [OF normal], symmetric]
        using conjunct1 [OF named [OF normal]] by (cases res) simp_all
    next
      case False
      with effect True show ?thesis by (cases res) (simp_all add: settled_path_def)
    qed
  qed
qed

end

sublocale local_policy \<subseteq> policy: fs_files "scope_policy host sa" "\<lambda>w. dk_files (disk w)" "\<lambda>w. settled_path sa (disk w)"
proof unfold_locales
  note policy = scope_policy_def fs_access.select_convs
  show "dk_files (disk w') = dk_files (disk w) \<and> settled_path sa (disk w') = settled_path sa (disk w)"
    if "fa_check_cancelled (scope_policy host sa) w = (r, w')" for w r w'
    using that io_keepsD [OF check_cancelled_keeps] unfolding policy by simp
  show "dk_files (disk w') = dk_files (disk w) \<and> settled_path sa (disk w') = settled_path sa (disk w)"
    if "fa_resolve_access_path (scope_policy host sa) p w = (r, w')" for p w r w'
    using that io_keepsD [OF scope_keeps(1)] unfolding policy by simp
  show "dk_files (disk w') = dk_files (disk w) \<and> settled_path sa (disk w') = settled_path sa (disk w)"
    if "fa_read_metadata (scope_policy host sa) p t w = (r, w')" for p t w r w'
    using that io_keepsD [OF scope_keeps(2)] unfolding policy by simp
  show "dk_files (disk w') = dk_files (disk w) \<and> settled_path sa (disk w') = settled_path sa (disk w)"
    if "fa_open_read_file (scope_policy host sa) p t w = (r, w')" for p t w r w'
    using that io_keepsD [OF scope_keeps(3)] unfolding policy by simp
  show "settled_path sa (disk w) t"
    if "fa_resolve_access_path (scope_policy host sa) p w = (Inr t, w')" "normal_path p" for p w t w'
    using that scope_resolve_settled unfolding policy by blast
  show "dk_files (disk w) t = Some c"
    if "fa_open_read_file (scope_policy host sa) p t w = (Inr f, w')" "settled_path sa (disk w) t"
      "read_to_end (of_reads f) = Inr c" for p t w f w' c
    using that scope_open_serves unfolding policy by blast
  show "dk_files (disk w') = (dk_files (disk w))(t \<mapsto> c) \<and> (m = CreateNew \<longrightarrow> dk_files (disk w) t = None)"
    if "fa_atomic_write_file (scope_policy host sa) p t c m w = (Inr u, w')" "settled_path sa (disk w) t"
    for p t c m w u w'
    using that scope_write_effect [of p t c m w "Inr u" w'] unfolding policy by simp
  show "dk_files (disk w') = dk_files (disk w)"
    if "fa_atomic_write_file (scope_policy host sa) p t c m w = (Inl e, w')" for p t c m w e w'
    using that scope_write_effect [of p t c m w "Inl e" w'] unfolding policy by simp
  show "limit < usize_max" if "fa_max_write_bytes (scope_policy host sa) = Some limit" for limit
    using that by (auto simp: scope_policy_def MAX_EXTERNAL_WRITE_BYTES_def usize_max_def split: if_splits)
qed

context local_policy
begin

lemma writable_grants:
  "fa_is_writable_paths (scope_policy host sa) p t \<Longrightarrow>
    permission_at_paths (sa_scope sa) p t = Some Write \<and> path_is_confined sa p t"
  by (simp add: scope_policy_def scope_writable_paths_def)

text \<open>What a stat asks of the policy changes no file.\<close>

lemma policy_stat_keeps:
  "io_keeps (\<lambda>w. dk_files (disk w)) (fa_check_cancelled (scope_policy host sa))"
  "io_keeps (\<lambda>w. dk_files (disk w)) (fa_resolve_access_path (scope_policy host sa) p)"
  "io_keeps (\<lambda>w. dk_files (disk w)) (fa_read_metadata (scope_policy host sa) p t)"
  unfolding io_keeps_def
  by (metis policy.check_keeps prod.collapse, metis policy.resolve_keeps prod.collapse,
      metis policy.metadata_keeps prod.collapse)

lemmas session_write_effect = policy.write_effect
lemmas session_edit_effect = policy.edit_effect

end

end
