(* ===== verification/Workdir_Memory.thy ===== *)
theory Workdir_Memory
  imports Workdir_Files "HOL-Library.AList"
begin

text \<open>
  A disk held in memory, without symbolic links: an instance of the host interface on which the
  operations run.  Every call first consumes one entry of a fault script, so that each error path of
  the provider can be taken.
\<close>

record memory =
  me_files :: "(path \<times> string) list"
  me_temps :: "(nat \<times> string) list"
  me_next :: nat
  me_clock :: nat
  me_cancelled :: bool
  me_faults :: "io_error option list"

definition memory_disk :: "memory \<Rightarrow> disk" where
  "memory_disk m = \<lparr>dk_files = map_of (me_files m), dk_temps = map_of (me_temps m), dk_link = (\<lambda>_. False)\<rparr>"

definition memory_is_dir :: "memory \<Rightarrow> path \<Rightarrow> bool" where
  "memory_is_dir m p \<longleftrightarrow> p = [RootDir] \<or> (\<exists>(q, _) \<in> set (me_files m). strict_prefix p q)"

definition memory_kind :: "memory \<Rightarrow> path \<Rightarrow> io_error + entry_kind" where
  "memory_kind m p =
     (if map_of (me_files m) p \<noteq> None then Inr KFile
      else if memory_is_dir m p then Inr KDirectory
      else Inl (IoError NotFound ''no such file or directory''))"

text \<open>A call that fails when the script says so.\<close>

definition scripted :: "(memory, io_error, 'a) io \<Rightarrow> (memory, io_error, 'a) io" where
  "scripted call m =
     (case me_faults m of
        [] \<Rightarrow> call m
      | None # faults \<Rightarrow> call (m\<lparr>me_faults := faults\<rparr>)
      | Some e # faults \<Rightarrow> (Inl e, m\<lparr>me_faults := faults\<rparr>))"

definition memory_metadata :: "path \<Rightarrow> (memory, io_error, fs_metadata) io" where
  "memory_metadata p m =
     (map_sum id (\<lambda>kind. \<lparr>md_kind = kind, md_len = (case map_of (me_files m) p of None \<Rightarrow> 0 | Some c \<Rightarrow> length c),
        md_validator = Inr []\<rparr>) (memory_kind m p), m)"

definition memory_open :: "path \<Rightarrow> (memory, io_error, open_file) io" where
  "memory_open p m =
     (case memory_metadata p m of
        (Inl e, m) \<Rightarrow> (Inl e, m)
      | (Inr md, m) \<Rightarrow>
          (Inr \<lparr>of_metadata = Inr md,
             of_reads = (case map_of (me_files m) p of
                           None \<Rightarrow> [Inl (IoError InvalidInput ''is a directory'')] | Some c \<Rightarrow> [Inr c]),
             of_metadata_after = Inr md\<rparr>, m))"

definition memory_openat2 :: "path \<Rightarrow> path \<Rightarrow> (memory, io_error, open_file) io" where
  "memory_openat2 d p m =
     (if p \<noteq> [CurDir] then memory_open (d @ p) m
      else if memory_is_dir m d \<and> map_of (me_files m) d = None then memory_open d m
      else (Inl (IoError NotADirectory ''not a directory''), m))"

definition memory_persist :: "bool \<Rightarrow> nat \<Rightarrow> file_ref \<Rightarrow> (memory, io_error, unit) io" where
  "memory_persist clobber h r m =
     (case map_of (me_temps m) h of
        None \<Rightarrow> (Inl (IoError InvalidInput ''no temporary file''), m)
      | Some c \<Rightarrow>
          if memory_is_dir m (ref_path r) \<or> \<not> clobber \<and> map_of (me_files m) (ref_path r) \<noteq> None
          then (Inl (IoError AlreadyExists ''destination exists''), m)
          else (Inr (), m\<lparr>me_files := AList.update (ref_path r) c (me_files m),
                          me_temps := AList.delete h (me_temps m)\<rparr>))"

definition memory_view :: "memory \<Rightarrow> fs_view" where
  "memory_view m =
     \<lparr>fv_canonicalize = (\<lambda>p. map_sum id (\<lambda>_. p) (memory_kind m p)),
      fv_symlink_kind = memory_kind m,
      fv_read_link = (\<lambda>_. Inl (IoError InvalidInput ''not a symbolic link'')),
      fv_exists = (\<lambda>p. memory_kind m p \<in> {Inr KFile, Inr KDirectory}),
      fv_is_dir = memory_is_dir m\<rparr>"

definition memory_host :: "memory host" where
  "memory_host =
     \<lparr>ho_view = memory_view,
      ho_open = (\<lambda>p. scripted (memory_open p)),
      ho_metadata = (\<lambda>p. scripted (memory_metadata p)),
      ho_read_dir = (\<lambda>d. scripted (io_return [])),
      ho_create_dir_all = (\<lambda>p. scripted (io_return ())),
      ho_try_clone = (\<lambda>d. scripted (io_return d)),
      ho_openat2 = (\<lambda>d p. io_map_err OsError (scripted (memory_openat2 d p))),
      ho_openat_dir = (\<lambda>d n. scripted (io_return (d @ [Normal n]))),
      ho_mkdirat = (\<lambda>d n. scripted (io_return ())),
      ho_temp_new_in = (\<lambda>d. scripted (\<lambda>m. (Inr (me_next m),
        m\<lparr>me_temps := AList.update (me_next m) [] (me_temps m), me_next := Suc (me_next m)\<rparr>))),
      ho_temp_write_all = (\<lambda>h c. scripted (\<lambda>m.
        case map_of (me_temps m) h of
          None \<Rightarrow> (Inl (IoError InvalidInput ''no temporary file''), m)
        | Some b \<Rightarrow> (Inr (), m\<lparr>me_temps := AList.update h (b @ c) (me_temps m)\<rparr>))),
      ho_temp_flush = (\<lambda>h. scripted (io_return ())),
      ho_temp_sync_all = (\<lambda>h. scripted (io_return ())),
      ho_temp_persist = (\<lambda>h r. scripted (memory_persist True h r)),
      ho_temp_persist_noclobber = (\<lambda>h r. scripted (memory_persist False h r)),
      ho_temp_drop = (\<lambda>h m. m\<lparr>me_temps := AList.delete h (me_temps m)\<rparr>),
      ho_now = (\<lambda>m. (me_clock m, m\<lparr>me_clock := Suc (me_clock m)\<rparr>)),
      ho_cancelled = me_cancelled,
      ho_set_cancelled = (\<lambda>m. m\<lparr>me_cancelled := True\<rparr>)\<rparr>"

lemma scripted_cases:
  assumes "scripted call m = (r, m')"
  obtains (fault) e where "r = Inl e" "memory_disk m' = memory_disk m"
    | (call) m1 where "call m1 = (r, m')" "memory_disk m1 = memory_disk m"
  using assms by (auto simp: scripted_def memory_disk_def split: list.splits option.splits)

lemma scripted_keeps [intro]:
  assumes "io_keeps memory_disk call"
  shows "io_keeps memory_disk (scripted call)"
proof (unfold io_keeps_def, intro allI)
  fix m
  obtain r m' where run: "scripted call m = (r, m')" by (cases "scripted call m")
  then have "memory_disk m' = memory_disk m"
    by (cases rule: scripted_cases) (use io_keepsD [OF assms] in auto)
  then show "memory_disk (snd (scripted call m)) = memory_disk m" by (simp add: run)
qed

lemma memory_open_keeps: "io_keeps memory_disk (memory_open p)"
  by (auto simp: io_keeps_def memory_open_def memory_metadata_def split: sum.split)

lemma memory_metadata_keeps: "io_keeps memory_disk (memory_metadata p)"
  by (simp add: io_keeps_def memory_metadata_def)

lemma memory_openat2_keeps: "io_keeps memory_disk (memory_openat2 d p)"
  using memory_open_keeps by (simp add: io_keeps_def memory_openat2_def)

lemma memory_open_content:
  "memory_open p m = (Inr f, m') \<Longrightarrow> read_to_end (of_reads f) = Inr c \<Longrightarrow> dk_files (memory_disk m) p = Some c"
  by (auto simp: memory_open_def memory_metadata_def memory_disk_def split: sum.splits option.splits if_splits)

lemma memory_open_serves:
  assumes "scripted (memory_open p) m = (Inr f, m')" "read_to_end (of_reads f) = Inr c"
  shows "dk_files (memory_disk m) p = Some c"
  using assms(1)
proof (cases rule: scripted_cases)
  case (call m1)
  then show ?thesis using memory_open_content [OF call(1) assms(2)] by simp
qed simp

lemma memory_openat2_serves:
  assumes "ho_openat2 memory_host d p m = (Inr f, m')" "read_to_end (of_reads f) = Inr c"
  shows "p \<noteq> [CurDir] \<and> dk_files (memory_disk m) (d @ p) = Some c"
proof -
  from assms(1) have "scripted (memory_openat2 d p) m = (Inr f, m')" by (simp add: memory_host_def)
  then show ?thesis
  proof (cases rule: scripted_cases)
    case (call m1)
    show ?thesis
    proof (cases "p = [CurDir]")
      case True
      with call(1) have "memory_open d m1 = (Inr f, m')" "dk_files (memory_disk m1) d = None"
        by (auto simp: memory_openat2_def memory_disk_def split: if_splits)
      then show ?thesis using memory_open_content [OF _ assms(2)] by fastforce
    next
      case False
      with call(1) have "memory_open (d @ p) m1 = (Inr f, m')" by (simp add: memory_openat2_def)
      then show ?thesis using memory_open_content [OF _ assms(2)] False call(2) by fastforce
    qed
  qed simp
qed

lemma memory_persist_effect:
  assumes "scripted (memory_persist clobber h r) m = (res, m')"
  shows "case res of Inl _ \<Rightarrow> dk_files (memory_disk m') = dk_files (memory_disk m)
    | Inr _ \<Rightarrow> (\<forall>c. dk_temps (memory_disk m) h = Some c \<longrightarrow>
        dk_files (memory_disk m') = (dk_files (memory_disk m))(ref_path r \<mapsto> c) \<and>
        (clobber \<or> dk_files (memory_disk m) (ref_path r) = None))"
  using assms
proof (cases rule: scripted_cases)
  case (call m1)
  show ?thesis unfolding call(2) [symmetric]
    using call(1) by (auto simp: memory_persist_def memory_disk_def update_conv' split: option.splits if_splits)
qed auto

lemma memory_temp_new:
  assumes "ho_temp_new_in memory_host d m = (r, m')"
  shows "case r of Inl _ \<Rightarrow> memory_disk m' = memory_disk m
    | Inr h \<Rightarrow> memory_disk m' = (memory_disk m)\<lparr>dk_temps := (dk_temps (memory_disk m))(h \<mapsto> [])\<rparr>"
  using assms [unfolded memory_host_def host.select_convs]
proof (cases rule: scripted_cases)
  case (call m1)
  show ?thesis unfolding call(2) [symmetric]
    using call(1) by (auto simp: memory_disk_def update_conv')
qed auto

lemma memory_temp_write:
  assumes "ho_temp_write_all memory_host h c m = (r, m')"
  shows "case r of Inl _ \<Rightarrow> memory_disk m' = memory_disk m
    | Inr _ \<Rightarrow> (\<forall>b. dk_temps (memory_disk m) h = Some b \<longrightarrow>
        memory_disk m' = (memory_disk m)\<lparr>dk_temps := (dk_temps (memory_disk m))(h \<mapsto> b @ c)\<rparr>) \<and>
        dk_files (memory_disk m') = dk_files (memory_disk m)"
  using assms [unfolded memory_host_def host.select_convs]
proof (cases rule: scripted_cases)
  case (call m1)
  show ?thesis unfolding call(2) [symmetric]
    using call(1) by (auto simp: memory_disk_def update_conv' split: option.splits)
qed auto

lemma memory_directories:
  "ho_try_clone memory_host d m = (Inr d', m') \<Longrightarrow> d' = d"
  "ho_openat_dir memory_host d n m = (Inr d', m') \<Longrightarrow> d' = d @ [Normal n]"
  by (auto simp: memory_host_def elim!: scripted_cases)

text \<open>The work directory of the examples: everything below \<open>/w\<close> is writable.\<close>

definition writable_rule :: resolved_rule where
  "writable_rule = \<lparr>rr_logical_target = [RootDir, Normal ''w''], rr_resolved_target = [RootDir, Normal ''w''],
     rr_permission = Write, rr_recursive = True, rr_symlink_policy = Resolved\<rparr>"

definition memory_access :: scope_access where
  "memory_access = \<lparr>sa_scope = \<lparr>s_allow = [writable_rule], s_deny = []\<rparr>, sa_root = [RootDir, Normal ''w''],
     sa_pinned_root = None, sa_reject_symlinks = False, sa_deadline = None\<rparr>"

lemma memory_looks_keep:
  "io_keeps memory_disk (ho_open memory_host p)" "io_keeps memory_disk (ho_metadata memory_host p)"
  "io_keeps memory_disk (ho_openat2 memory_host p q)" "io_keeps memory_disk (ho_openat_dir memory_host p n)"
  "io_keeps memory_disk (ho_try_clone memory_host p)" "io_keeps memory_disk (ho_create_dir_all memory_host p)"
  "io_keeps memory_disk (ho_mkdirat memory_host p n)" "io_keeps memory_disk (ho_temp_flush memory_host h)"
  "io_keeps memory_disk (ho_temp_sync_all memory_host h)"
  by (simp_all add: memory_host_def scripted_keeps memory_open_keeps memory_metadata_keeps memory_openat2_keeps)

lemma memory_write_keeps: "io_keeps (\<lambda>m. dk_files (memory_disk m)) (ho_temp_write_all memory_host h c)"
proof (unfold io_keeps_def, intro allI)
  fix m
  obtain r m' where run: "ho_temp_write_all memory_host h c m = (r, m')" by (cases "ho_temp_write_all memory_host h c m")
  then show "dk_files (memory_disk (snd (ho_temp_write_all memory_host h c m))) = dk_files (memory_disk m)"
    using memory_temp_write [OF run] by (cases r) simp_all
qed

lemma memory_no_links: "dk_link (memory_disk m) p = False" "link_free (dk_link (memory_disk m)) p"
  by (simp_all add: memory_disk_def link_free_def)

lemma memory_clock:
  "memory_disk (snd (ho_now memory_host m)) = memory_disk m"
  "memory_disk (ho_set_cancelled memory_host m) = memory_disk m"
  "dk_files (memory_disk (ho_temp_drop memory_host h m)) = dk_files (memory_disk m)"
  by (simp_all add: memory_host_def memory_disk_def)

interpretation memory: host_files memory_host memory_disk
proof (unfold_locales, goal_cases)
  case (12 p w f w' c)
  then show ?case using memory_open_serves by (simp add: memory_host_def)
next
  case (13 root ns w f w' c)
  then show ?case using memory_openat2_serves by blast
next
  case (14 root w f w' c)
  then show ?case using memory_openat2_serves by blast
next
  case (17 dir w h w')
  then show ?case using memory_temp_new by fastforce
next
  case (18 dir w e w')
  then show ?case using memory_temp_new by fastforce
next
  case (19 h c w u w' b)
  then show ?case using memory_temp_write by fastforce
next
  case (23 h r w u w' c)
  then show ?case using memory_persist_effect [of True h r w "Inr u" w'] by (simp add: memory_host_def)
next
  case (24 h r w e w')
  then show ?case using memory_persist_effect [of True h r w "Inl e" w'] by (simp add: memory_host_def)
next
  case (25 h r w u w' c)
  then show ?case using memory_persist_effect [of False h r w "Inr u" w'] by (simp add: memory_host_def)
next
  case (26 h r w e w')
  then show ?case using memory_persist_effect [of False h r w "Inl e" w'] by (simp add: memory_host_def)
qed (simp_all add: memory_looks_keep memory_write_keeps memory_no_links memory_clock memory_directories)

interpretation memory_session: local_policy memory_host memory_disk memory_access
  by unfold_locales (simp_all add: memory_access_def normal_path_code)

end
