(* ===== verification/Fs_Read.thy ===== *)
theory Fs_Read
  imports Fs_Operation
begin

text \<open>
  The reads of the local provider (\<open>local.rs\<close>): \<open>run_stat\<close>, the streaming \<open>run_read\<close> that
  selects a window of lines while it hashes and counts the whole source, and \<open>run_read_bytes\<close>.
\<close>

section \<open>Stat\<close>

definition run_stat :: "path \<Rightarrow> fs_path \<Rightarrow> 'w fs_access \<Rightarrow> ('w, fs_error, stat_result) io" where
  "run_stat root logical access =
     io_bind (io_map_err (map_io logical) (fa_check_cancelled access)) (\<lambda>_.
     io_bind (io_lift (resolve_under root logical)) (\<lambda>p.
     io_bind (io_map_err (map_io logical) (fa_resolve_access_path access p)) (\<lambda>resolved.
       if \<not> fa_is_readable_paths access p resolved then io_lift (Inl (FsOutOfScope (components_of logical)))
       else io_bind (io_map_err (map_io logical) (fa_read_metadata access p resolved)) (\<lambda>metadata.
         io_return \<lparr>sr_path = logical, sr_kind = md_kind metadata, sr_size = md_len metadata\<rparr>))))"

section \<open>Reading lines\<close>

definition READ_BUFFER_BYTES :: nat where
  "READ_BUFFER_BYTES = 16 * 1024"

text \<open>The variables of the loop; the hasher is the bytes it was fed.\<close>

record read_scan =
  sc_selected :: string
  sc_selected_seen :: nat
  sc_current_line :: nat
  sc_source_seen :: nat
  sc_last_byte :: "char option"
  sc_hashed :: string

definition read_scan_new :: read_scan where
  "read_scan_new = \<lparr>sc_selected = [], sc_selected_seen = 0, sc_current_line = 0, sc_source_seen = 0,
     sc_last_byte = None, sc_hashed = []\<rparr>"

definition scan_byte :: "nat \<Rightarrow> nat \<Rightarrow> nat \<Rightarrow> char \<Rightarrow> read_scan \<Rightarrow> read_scan" where
  "scan_byte offset selected_end retained_limit b st =
     (let st = (if offset \<le> sc_current_line st \<and> sc_current_line st < selected_end
                then st\<lparr>sc_selected_seen := sat_add (sc_selected_seen st) 1,
                        sc_selected := (if length (sc_selected st) < retained_limit
                                        then sc_selected st @ [b] else sc_selected st)\<rparr>
                else st);
          st = (if b = CHR 0x0A then st\<lparr>sc_current_line := sat_add (sc_current_line st) 1\<rparr> else st)
      in st\<lparr>sc_last_byte := Some b\<rparr>)"

definition scan_chunk :: "nat \<Rightarrow> nat \<Rightarrow> nat \<Rightarrow> string \<Rightarrow> read_scan \<Rightarrow> read_scan" where
  "scan_chunk offset selected_end retained_limit chunk st =
     fold (scan_byte offset selected_end retained_limit) chunk (st\<lparr>sc_hashed := sc_hashed st @ chunk\<rparr>)"

definition source_read_limit :: "bounded_read_limits option \<Rightarrow> nat \<Rightarrow> nat" where
  "source_read_limit limits seen =
     (case limits of
        None \<Rightarrow> READ_BUFFER_BYTES
      | Some l \<Rightarrow> min (sat_add (bl_max_source_bytes l - seen) 1) READ_BUFFER_BYTES)"

definition over_source_limit :: "bounded_read_limits option \<Rightarrow> nat \<Rightarrow> bool" where
  "over_source_limit limits n \<longleftrightarrow> (case limits of None \<Rightarrow> False | Some l \<Rightarrow> bl_max_source_bytes l < n)"

definition source_limit_text :: "bounded_read_limits option \<Rightarrow> string" where
  "source_limit_text limits = (case limits of None \<Rightarrow> [] | Some l \<Rightarrow> dec (bl_max_source_bytes l))"

text \<open>Every pass reads some bytes or ends the loop.\<close>

definition reads_size :: "(io_error + string) list \<Rightarrow> nat" where
  "reads_size rs = sum_list (map (\<lambda>r. case r of Inl _ \<Rightarrow> 1 | Inr bytes \<Rightarrow> Suc (length bytes)) rs)"

lemma read_some_size:
  "read_some n rs = Inr (bytes, rs') \<Longrightarrow> bytes \<noteq> [] \<Longrightarrow> reads_size rs' < reads_size rs"
  by (cases "(n, rs)" rule: read_some.cases) (auto simp: reads_size_def split: if_splits)

function read_loop ::
  "'w fs_access \<Rightarrow> fs_path \<Rightarrow> bounded_read_limits option \<Rightarrow> nat \<Rightarrow> nat \<Rightarrow> nat \<Rightarrow> (io_error + string) list
    \<Rightarrow> read_scan \<Rightarrow> ('w, fs_error, read_scan) io"
where
  "read_loop access logical limits offset selected_end retained_limit rs st w =
     (case fa_check_cancelled access w of
        (Inl e, w) \<Rightarrow> (Inl (map_io logical e), w)
      | (Inr _, w) \<Rightarrow>
          (case read_some (source_read_limit limits (sc_source_seen st)) rs of
             Inl e \<Rightarrow> (Inl (map_io logical e), w)
           | Inr (chunk, rs') \<Rightarrow>
               if chunk = [] then (Inr st, w)
               else
                 let st = st\<lparr>sc_source_seen := sat_add (sc_source_seen st) (length chunk)\<rparr>
                 in if over_source_limit limits (sc_source_seen st)
                    then (Inl (FsInvalidArgument
                            (''read source exceeds provider limit '' @ source_limit_text limits)), w)
                    else read_loop access logical limits offset selected_end retained_limit rs'
                           (scan_chunk offset selected_end retained_limit chunk st) w))"
  by pat_completeness auto
termination
  by (relation "measure (\<lambda>(access, logical, limits, offset, selected_end, retained_limit, rs, st, w). reads_size rs)")
    (auto dest: read_some_size)

declare read_loop.simps [simp del]

text \<open>What is computed once the loop is done.\<close>

definition read_finish ::
  "(string \<Rightarrow> content_hash) \<Rightarrow> read_request \<Rightarrow> nat \<Rightarrow> read_scan \<Rightarrow> fs_error + read_result" where
  "read_finish sha256 request response_limit st =
     (let total_lines = sat_add (sc_current_line st)
            (case sc_last_byte st of None \<Rightarrow> 0 | Some b \<Rightarrow> if b \<noteq> CHR 0x0A then 1 else 0)
      in if total_lines < rr_offset request \<and> rr_offset request \<noteq> 0
         then Inl (FsInvalidArgument
                (''offset '' @ dec (rr_offset request) @ '' exceeds file length '' @ dec total_lines))
         else
           (let last_line = min (sat_add (rr_offset request) (rr_limit request)) total_lines;
                byte_truncated = response_limit < sc_selected_seen st
            in Inr \<lparr>rd_path = rr_path request,
                 rd_bytes = (if byte_truncated
                             then take (bounded_utf8_len (sc_selected st) response_limit) (sc_selected st)
                             else sc_selected st),
                 rd_start_line = rr_offset request, rd_total_lines = total_lines,
                 rd_content_hash = sha256 (sc_hashed st),
                 rd_truncated = (last_line < total_lines \<or> byte_truncated),
                 rd_byte_truncated = byte_truncated\<rparr>))"

text \<open>The identity of the source before and after the loop.\<close>

definition same_identity :: "fs_path \<Rightarrow> fs_metadata \<Rightarrow> open_file \<Rightarrow> fs_error + unit" where
  "same_identity logical metadata file =
     and_then (map_err (map_io logical) (md_validator metadata)) (\<lambda>before.
     and_then (map_err (map_io logical) (of_metadata_after file)) (\<lambda>after.
     and_then (map_err (map_io logical) (md_validator after)) (\<lambda>validator.
       if before \<noteq> validator then Inl (FsConflict logical) else Inr ())))"

definition run_read_with_limits ::
  "(string \<Rightarrow> content_hash) \<Rightarrow> path \<Rightarrow> read_request \<Rightarrow> 'w fs_access \<Rightarrow> bounded_read_limits option
    \<Rightarrow> ('w, fs_error, read_result) io" where
  "run_read_with_limits sha256 root request access limits =
     (let logical = rr_path request in
     io_bind (io_map_err (map_io logical) (fa_check_cancelled access)) (\<lambda>_.
     io_bind (io_lift (resolve_under root logical)) (\<lambda>p.
     io_bind (require_access p logical access False False) (\<lambda>target.
     io_bind (io_map_err (map_io logical) (fa_open_read_file access p target)) (\<lambda>file.
     io_bind (io_lift (map_err (map_io logical) (of_metadata file))) (\<lambda>metadata.
       if md_kind metadata = KDirectory then io_lift (Inl (FsIsDirectory (components_of logical)))
       else if md_kind metadata \<noteq> KFile
       then io_lift (Inl (FsInvalidArgument ''read source must be a regular file''))
       else if over_source_limit limits (md_len metadata)
       then io_lift (Inl (FsInvalidArgument (''read source size '' @ dec (md_len metadata) @
              '' exceeds provider limit '' @ source_limit_text limits)))
       else
         (let response_limit = (case limits of None \<Rightarrow> rr_max_bytes request
                                | Some l \<Rightarrow> min (rr_max_bytes request) (bl_max_response_bytes l))
          in io_bind (read_loop access logical limits (rr_offset request)
                        (sat_add (rr_offset request) (rr_limit request)) (sat_add response_limit 4)
                        (of_reads file) read_scan_new) (\<lambda>st.
             io_bind (io_lift (same_identity logical metadata file)) (\<lambda>_.
               io_lift (read_finish sha256 request response_limit st))))))))))"

definition run_read ::
  "(string \<Rightarrow> content_hash) \<Rightarrow> path \<Rightarrow> read_request \<Rightarrow> 'w fs_access \<Rightarrow> ('w, fs_error, read_result) io" where
  "run_read sha256 root request access = run_read_with_limits sha256 root request access None"

definition run_read_bounded ::
  "(string \<Rightarrow> content_hash) \<Rightarrow> path \<Rightarrow> read_request \<Rightarrow> 'w fs_access \<Rightarrow> bounded_read_limits
    \<Rightarrow> ('w, fs_error, read_result) io" where
  "run_read_bounded sha256 root request access limits =
     run_read_with_limits sha256 root request access (Some limits)"

section \<open>Reading bytes\<close>

record byte_scan =
  bs_bytes :: string
  bs_source_bytes :: nat
  bs_hashed :: string

definition scan_bytes :: "nat \<Rightarrow> nat \<Rightarrow> string \<Rightarrow> byte_scan \<Rightarrow> byte_scan" where
  "scan_bytes offset max_bytes chunk st =
     (let chunk_start = bs_source_bytes st; source_bytes = sat_add chunk_start (length chunk);
          st = st\<lparr>bs_source_bytes := source_bytes, bs_hashed := bs_hashed st @ chunk\<rparr>
      in if length (bs_bytes st) < max_bytes \<and> offset < source_bytes
         then (let start = min (offset - chunk_start) (length chunk);
                   retained = min (max_bytes - length (bs_bytes st)) (length chunk - start)
               in st\<lparr>bs_bytes := bs_bytes st @ take retained (drop start chunk)\<rparr>)
         else st)"

function read_bytes_loop ::
  "'w fs_access \<Rightarrow> fs_path \<Rightarrow> bounded_read_limits option \<Rightarrow> nat \<Rightarrow> nat \<Rightarrow> (io_error + string) list
    \<Rightarrow> byte_scan \<Rightarrow> ('w, fs_error, byte_scan) io"
where
  "read_bytes_loop access logical limits offset max_bytes rs st w =
     (case fa_check_cancelled access w of
        (Inl e, w) \<Rightarrow> (Inl (map_io logical e), w)
      | (Inr _, w) \<Rightarrow>
          (case read_some (source_read_limit limits (bs_source_bytes st)) rs of
             Inl e \<Rightarrow> (Inl (map_io logical e), w)
           | Inr (chunk, rs') \<Rightarrow>
               if chunk = [] then (Inr st, w)
               else if over_source_limit limits (sat_add (bs_source_bytes st) (length chunk))
               then (Inl (FsInvalidArgument
                       (''byte read source exceeds provider limit '' @ source_limit_text limits)), w)
               else read_bytes_loop access logical limits offset max_bytes rs'
                      (scan_bytes offset max_bytes chunk st) w))"
  by pat_completeness auto
termination
  by (relation "measure (\<lambda>(access, logical, limits, offset, max_bytes, rs, st, w). reads_size rs)")
    (auto dest: read_some_size)

declare read_bytes_loop.simps [simp del]

definition read_bytes_finish ::
  "(string \<Rightarrow> content_hash) \<Rightarrow> read_bytes_request \<Rightarrow> byte_scan \<Rightarrow> fs_error + read_bytes_result" where
  "read_bytes_finish sha256 request st =
     (let hash = sha256 (bs_hashed st)
      in if rb_expected_hash request \<noteq> None \<and> rb_expected_hash request \<noteq> Some hash
         then Inl (FsConflict (rb_path request))
         else if bs_source_bytes st < rb_offset request
         then Inl (FsInvalidArgument (''byte offset '' @ dec (rb_offset request) @
                '' exceeds file size '' @ dec (bs_source_bytes st)))
         else Inr \<lparr>bb_path = rb_path request, bb_bytes = bs_bytes st, bb_offset = rb_offset request,
                bb_total_bytes = bs_source_bytes st, bb_content_hash = hash,
                bb_eof = (sat_add (rb_offset request) (length (bs_bytes st)) = bs_source_bytes st)\<rparr>)"

definition run_read_bytes_with_limits ::
  "(string \<Rightarrow> content_hash) \<Rightarrow> path \<Rightarrow> read_bytes_request \<Rightarrow> 'w fs_access \<Rightarrow> bounded_read_limits option
    \<Rightarrow> ('w, fs_error, read_bytes_result) io" where
  "run_read_bytes_with_limits sha256 root request access limits =
     (let logical = rb_path request in
      if rb_max_bytes request = 0
      then io_lift (Inl (FsInvalidArgument ''byte read max_bytes must be greater than zero''))
      else if (case limits of None \<Rightarrow> False | Some l \<Rightarrow> bl_max_response_bytes l < rb_max_bytes request)
      then io_lift (Inl (FsInvalidArgument (''byte read response limit is '' @
             (case limits of None \<Rightarrow> [] | Some l \<Rightarrow> dec (bl_max_response_bytes l)) @ '' bytes'')))
      else
     io_bind (io_map_err (map_io logical) (fa_check_cancelled access)) (\<lambda>_.
     io_bind (io_lift (resolve_under root logical)) (\<lambda>p.
     io_bind (require_access p logical access False False) (\<lambda>target.
     io_bind (io_map_err (map_io logical) (fa_open_read_file access p target)) (\<lambda>file.
     io_bind (io_lift (map_err (map_io logical) (of_metadata file))) (\<lambda>metadata.
       if md_kind metadata = KDirectory then io_lift (Inl (FsIsDirectory (components_of logical)))
       else if md_kind metadata \<noteq> KFile
       then io_lift (Inl (FsInvalidArgument ''byte read source must be a regular file''))
       else if over_source_limit limits (md_len metadata)
       then io_lift (Inl (FsInvalidArgument
              (''byte read source exceeds provider limit '' @ source_limit_text limits)))
       else
         io_bind (read_bytes_loop access logical limits (rb_offset request) (rb_max_bytes request)
                    (of_reads file) \<lparr>bs_bytes = [], bs_source_bytes = 0, bs_hashed = []\<rparr>) (\<lambda>st.
           io_lift (read_bytes_finish sha256 request st))))))))"

definition run_read_bytes ::
  "(string \<Rightarrow> content_hash) \<Rightarrow> path \<Rightarrow> read_bytes_request \<Rightarrow> 'w fs_access
    \<Rightarrow> ('w, fs_error, read_bytes_result) io" where
  "run_read_bytes sha256 root request access = run_read_bytes_with_limits sha256 root request access None"

definition run_read_bytes_bounded ::
  "(string \<Rightarrow> content_hash) \<Rightarrow> path \<Rightarrow> read_bytes_request \<Rightarrow> 'w fs_access \<Rightarrow> bounded_read_limits
    \<Rightarrow> ('w, fs_error, read_bytes_result) io" where
  "run_read_bytes_bounded sha256 root request access limits =
     run_read_bytes_with_limits sha256 root request access (Some limits)"

end
