(* ===== verification/Fs_List.thy ===== *)
theory Fs_List
  imports Fs_Operation "HOL-Library.Product_Lexorder"
begin

text \<open>
  Paged listing of a directory (\<open>run_list\<close> of \<open>fs-operation/src/local.rs\<close>).  The binary
  heap of retained entries is the ascending list of its contents: its greatest element is the last.
\<close>

section \<open>The listing order\<close>

text \<open>Directories before everything else, then by path; comparing keys is \<open>list_order\<close>.\<close>

definition list_key :: "entry_kind \<Rightarrow> fs_path \<Rightarrow> bool \<times> string" where
  "list_key kind p = (kind \<noteq> KDirectory, p)"

definition entry_key :: "list_entry \<Rightarrow> bool \<times> string" where
  "entry_key e = list_key (le_kind e) (le_path e)"

definition cursor_key :: "list_cursor \<Rightarrow> bool \<times> string" where
  "cursor_key c = list_key (lc_kind c) (lc_path c)"

definition list_entry_bytes :: "list_entry \<Rightarrow> nat" where
  "list_entry_bytes e = sat_add (length (le_path e)) 64"

definition MAX_TRAVERSAL_ENTRIES :: nat where
  "MAX_TRAVERSAL_ENTRIES = 100000"

definition MAX_RESULT_PATH_BYTES :: nat where
  "MAX_RESULT_PATH_BYTES = 1024 * 1024"

section \<open>Retaining entries\<close>

record list_scan =
  sc_entries :: "list_entry list"
  sc_retained_limit :: nat
  sc_retained_path_bytes :: nat
  sc_total_entries :: nat
  sc_total_bytes :: nat
  sc_remaining :: nat

definition list_scan_new :: "nat \<Rightarrow> list_scan" where
  "list_scan_new limit = \<lparr>sc_entries = [], sc_retained_limit = sat_add limit 1, sc_retained_path_bytes = 0,
     sc_total_entries = 0, sc_total_bytes = 0, sc_remaining = 0\<rparr>"

text \<open>The eviction of the greatest keys while the retained paths are too long.\<close>

function evict :: "nat \<Rightarrow> list_scan \<Rightarrow> list_scan" where
  "evict max_bytes st =
     (if max_bytes < sc_retained_path_bytes st \<and> sc_entries st \<noteq> []
      then evict max_bytes (st\<lparr>sc_retained_path_bytes := sc_retained_path_bytes st - list_entry_bytes (last (sc_entries st)),
                               sc_entries := butlast (sc_entries st),
                               sc_retained_limit := length (sc_entries st) - 1\<rparr>)
      else st)"
  by pat_completeness auto
termination
  by (relation "measure (\<lambda>(_, st). length (sc_entries st))") auto

declare evict.simps [simp del]

definition exceeds_response_bound :: fs_error where
  "exceeds_response_bound = FsInvalidArgument ''List entry exceeds provider response bound''"

definition retain_push :: "nat \<Rightarrow> list_entry \<Rightarrow> list_scan \<Rightarrow> fs_error + list_scan" where
  "retain_push max_bytes candidate st =
     (let st = evict max_bytes (st\<lparr>sc_retained_path_bytes := sat_add (sc_retained_path_bytes st) (list_entry_bytes candidate),
                                  sc_entries := insort_key entry_key candidate (sc_entries st)\<rparr>)
      in if sc_retained_limit st = 0 then Inl exceeds_response_bound else Inr st)"

definition retain_entry :: "nat \<Rightarrow> list_cursor option \<Rightarrow> list_entry \<Rightarrow> list_scan \<Rightarrow> fs_error + list_scan" where
  "retain_entry max_bytes after candidate st =
     (let st = st\<lparr>sc_total_entries := sc_total_entries st + 1,
                  sc_total_bytes := sat_add (sc_total_bytes st) (le_size candidate)\<rparr>
      in if (case after of None \<Rightarrow> False | Some c \<Rightarrow> entry_key candidate \<le> cursor_key c) then Inr st
         else let st = st\<lparr>sc_remaining := sc_remaining st + 1\<rparr>
              in if length (sc_entries st) = sc_retained_limit st
                 then if entry_key (last (sc_entries st)) \<le> entry_key candidate then Inr st
                      else retain_push max_bytes candidate
                             (st\<lparr>sc_retained_path_bytes := sc_retained_path_bytes st - list_entry_bytes (last (sc_entries st)),
                                 sc_entries := butlast (sc_entries st)\<rparr>)
                 else retain_push max_bytes candidate st)"

section \<open>The page\<close>

text \<open>The entries here are in descending order.\<close>

fun trim_response :: "nat \<Rightarrow> nat \<Rightarrow> nat \<Rightarrow> list_entry list \<Rightarrow> list_entry list" where
  "trim_response max_bytes remaining response_bytes [] = []"
| "trim_response max_bytes remaining response_bytes (e # es) =
     (if length (e # es) < remaining \<and> max_bytes < sat_add response_bytes (list_entry_bytes e)
      then trim_response max_bytes remaining (response_bytes - list_entry_bytes e) es
      else e # es)"

definition list_finish :: "nat \<Rightarrow> nat \<Rightarrow> list_scan \<Rightarrow> fs_error + list_result" where
  "list_finish max_bytes limit st =
     (let entries = take limit (sc_entries st);
          entries = rev (trim_response max_bytes (sc_remaining st) (sum_list (map list_entry_bytes entries)) (rev entries));
          truncated = length entries < sc_remaining st
      in if 0 < limit \<and> 0 < sc_remaining st \<and> entries = [] then Inl exceeds_response_bound
         else Inr \<lparr>ls_entries = entries, ls_total_entries = sc_total_entries st, ls_total_bytes = sc_total_bytes st,
           ls_truncated = truncated,
           ls_next_after = (if truncated \<and> entries \<noteq> []
             then Some \<lparr>lc_kind = le_kind (last entries), lc_path = le_path (last entries)\<rparr> else None)\<rparr>)"

section \<open>Scanning the directory\<close>

text \<open>What one directory entry contributes: nothing when it cannot be named or is not readable.\<close>

definition list_candidate ::
  "path \<Rightarrow> path \<Rightarrow> fs_path \<Rightarrow> 'w fs_access \<Rightarrow> string \<Rightarrow> ('w, fs_error, list_entry option) io" where
  "list_candidate root logical_base logical access name =
     (if \<not> utf8_valid name then io_return None
      else let logical_absolute = path_push logical_base [Normal name] in
        io_bind (io_result (fa_resolve_access_path access logical_absolute)) (\<lambda>resolved.
          case resolved of
            Inl _ \<Rightarrow> io_return None
          | Inr resolved \<Rightarrow>
              if \<not> fa_is_readable_paths access logical_absolute resolved then io_return None
              else io_bind (io_map_err (map_io logical) (fa_read_metadata access logical_absolute resolved)) (\<lambda>metadata.
                if \<not> path_starts_with logical_absolute root
                then io_lift (Inl (FsInvalidArgument ''provider returned a path outside its root''))
                else let relative = join_components (drop (length root) logical_absolute)
                     in if \<not> utf8_valid relative then io_return None
                        else case fs_path_new relative of
                               Inl _ \<Rightarrow> io_return None
                             | Inr result_path \<Rightarrow>
                                 io_return (Some \<lparr>le_path = result_path, le_kind = md_kind metadata,
                                   le_size = md_len metadata\<rparr>))))"

fun list_loop ::
  "path \<Rightarrow> path \<Rightarrow> fs_path \<Rightarrow> 'w fs_access \<Rightarrow> list_cursor option \<Rightarrow> nat \<Rightarrow> (io_error + string) list \<Rightarrow> list_scan
    \<Rightarrow> ('w, fs_error, list_scan) io" where
  "list_loop root logical_base logical access after index [] st = io_return st"
| "list_loop root logical_base logical access after index (entry # entries) st =
     io_bind (io_map_err (map_io logical) (fa_check_cancelled access)) (\<lambda>_.
       if MAX_TRAVERSAL_ENTRIES \<le> index
       then io_lift (Inl (FsInvalidArgument (''directory traversal exceeds provider limit '' @ dec MAX_TRAVERSAL_ENTRIES)))
       else io_bind (io_lift (map_err (map_io logical) entry)) (\<lambda>name.
         io_bind (list_candidate root logical_base logical access name) (\<lambda>candidate.
         io_bind (io_lift (case candidate of
                             None \<Rightarrow> Inr st
                           | Some candidate \<Rightarrow> retain_entry MAX_RESULT_PATH_BYTES after candidate st)) (\<lambda>st.
           list_loop root logical_base logical access after (index + 1) entries st))))"

definition cursor_valid :: "fs_path \<Rightarrow> list_cursor option \<Rightarrow> bool" where
  "cursor_valid logical after \<longleftrightarrow>
     (case after of
        None \<Rightarrow> True
      | Some c \<Rightarrow> \<not> fs_path_is_root (lc_path c) \<and>
          path_parent (components_of (lc_path c)) = Some (components_of logical))"

definition run_list :: "path \<Rightarrow> list_request \<Rightarrow> 'w fs_access \<Rightarrow> ('w, fs_error, list_result) io" where
  "run_list root request access =
     (let logical = lq_path request in
      if \<not> cursor_valid logical (lq_after request)
      then io_lift (Inl (FsInvalidArgument ''List cursor must name a direct child of the listed directory''))
      else
     io_bind (io_map_err (map_io logical) (fa_check_cancelled access)) (\<lambda>_.
     io_bind (io_lift (resolve_under root logical)) (\<lambda>logical_base.
     io_bind (require_access logical_base logical access False True) (\<lambda>p.
     io_bind (io_map_err (map_io logical) (fa_open_read_file access logical_base p)) (\<lambda>directory.
     io_bind (io_lift (map_err (map_io logical) (of_metadata directory))) (\<lambda>metadata.
       if md_kind metadata \<noteq> KDirectory then io_lift (Inl (FsNotDirectory (components_of logical)))
       else if \<not> fa_can_enumerate_directory access logical_base p
       then io_return \<lparr>ls_entries = [], ls_total_entries = 0, ls_total_bytes = 0, ls_truncated = False, ls_next_after = None\<rparr>
       else
     io_bind (io_map_err (map_io logical) (fa_open_read_dir access logical_base p)) (\<lambda>read_dir.
     io_bind (list_loop root logical_base logical access (lq_after request) 0 read_dir (list_scan_new (lq_limit request))) (\<lambda>st.
       io_lift (list_finish MAX_RESULT_PATH_BYTES (lq_limit request) st)))))))))"

end
