(* ===== verification/Workdir_Session.thy ===== *)
theory Workdir_Session
  imports Workdir_Memory Fs_Read Fs_List
begin

text \<open>
  A local work directory session (\<open>workdir/src/lib.rs\<close>, \<open>workdir/src/local.rs\<close>): its
  capabilities, the errors a caller sees, and the file operations of the session.  The last section
  shows what a write or an edit through a session does to the disk.
\<close>

unbundle bit_operations_syntax

section \<open>Capabilities\<close>

datatype session_capability = CapRead | CapWrite | CapEdit | CapGlob | CapGrep | CapCommand

type_synonym capabilities = u8

fun capability_bit :: "session_capability \<Rightarrow> u8" where
  "capability_bit CapRead = push_bit 0 1"
| "capability_bit CapWrite = push_bit 1 1"
| "capability_bit CapEdit = push_bit 2 1"
| "capability_bit CapGlob = push_bit 3 1"
| "capability_bit CapGrep = push_bit 4 1"
| "capability_bit CapCommand = push_bit 5 1"

definition capabilities_with :: "capabilities \<Rightarrow> session_capability \<Rightarrow> capabilities" where
  "capabilities_with bits c = bits OR capability_bit c"

definition from_capabilities :: "session_capability list \<Rightarrow> capabilities" where
  "from_capabilities cs = foldl capabilities_with 0 cs"

definition capabilities_union :: "capabilities \<Rightarrow> capabilities \<Rightarrow> capabilities" where
  "capabilities_union a b = a OR b"

definition capabilities_intersection :: "capabilities \<Rightarrow> capabilities \<Rightarrow> capabilities" where
  "capabilities_intersection a b = a AND b"

definition supports :: "capabilities \<Rightarrow> session_capability \<Rightarrow> bool" where
  "supports bits c \<longleftrightarrow> bits AND capability_bit c \<noteq> 0"

definition capabilities_all :: capabilities where
  "capabilities_all = capability_bit CapRead OR capability_bit CapWrite OR capability_bit CapEdit OR
     capability_bit CapGlob OR capability_bit CapGrep OR capability_bit CapCommand"

definition capabilities_read_only :: capabilities where
  "capabilities_read_only = capability_bit CapRead OR capability_bit CapGlob OR capability_bit CapGrep"

definition capabilities_write_only :: capabilities where
  "capabilities_write_only = capability_bit CapWrite OR capability_bit CapEdit"

definition capabilities_command_only :: capabilities where
  "capabilities_command_only = capability_bit CapCommand"

definition capabilities_read_write :: capabilities where
  "capabilities_read_write = capability_bit CapRead OR capability_bit CapWrite OR capability_bit CapEdit OR
     capability_bit CapGlob OR capability_bit CapGrep"

section \<open>Errors\<close>

text \<open>The reason a denial or a failure context carries is left out.\<close>

datatype workdir_error =
    WFailureContext workdir_error
  | WDenied string
  | WDenialContext workdir_error
  | WSessionClosed
  | WUnsupported session_capability
  | WUnsupportedOperation string
  | WInvalidPath string
  | WUnavailable string
  | WNotDispatched
  | WOperationFailed
  | WTransport string
  | WConflict string
  | WOutcomeUnknown string
  | WUnknownCommand string
  | WRelativePath path
  | WOutOfScope path
  | WSymlinkOutOfScope path path string
  | WBrokenSymlink path path path
  | WSymlinkTargetIsDirectory path path
  | WReadOnly path
  | WIsDirectory path
  | WNotFound path
  | WInvalidArgument string
  | WInvalidGlob string
  | WInvalidRegex string
  | WSymlinkDirectoryNotTraversed string path path
  | WIo path io_error

fun classification_source :: "workdir_error \<Rightarrow> workdir_error" where
  "classification_source (WDenialContext e) = classification_source e"
| "classification_source (WFailureContext e) = classification_source e"
| "classification_source e = e"

definition conflict_prefix :: string where
  "conflict_prefix = ''The target file's content or existence changed since it was last observed; read the file again before retrying: ''"

fun workdir_error_of :: "fs_error \<Rightarrow> workdir_error" where
  "workdir_error_of (FsInvalidPath message) = WInvalidPath message"
| "workdir_error_of (FsRelativePath p) = WRelativePath p"
| "workdir_error_of (FsOutOfScope p) = WOutOfScope p"
| "workdir_error_of (FsNotFound p) = WNotFound p"
| "workdir_error_of (FsBrokenSymlink p link target) = WBrokenSymlink p link target"
| "workdir_error_of (FsSymlinkOutOfScope p target required) = WSymlinkOutOfScope p target required"
| "workdir_error_of (FsSymlinkDirectoryNotTraversed tool p target) = WSymlinkDirectoryNotTraversed tool p target"
| "workdir_error_of (FsReadOnly p) = WReadOnly p"
| "workdir_error_of (FsIsDirectory p) = WIsDirectory p"
| "workdir_error_of (FsNotDirectory p) = WInvalidArgument (''path is not a directory: '' @ join_components p)"
| "workdir_error_of (FsSymlinkTargetIsDirectory p target) = WSymlinkTargetIsDirectory p target"
| "workdir_error_of (FsConflict p) = WConflict (conflict_prefix @ p)"
| "workdir_error_of (FsInvalidGlob message) = WInvalidGlob message"
| "workdir_error_of (FsInvalidRegex message) = WInvalidRegex message"
| "workdir_error_of (FsInvalidArgument message) = WInvalidArgument message"
| "workdir_error_of (FsIo p source) = WIo p source"

text \<open>The text of an error kind is the standard library's.\<close>

fun sanitize_error :: "(io_kind \<Rightarrow> string) \<Rightarrow> fs_path \<Rightarrow> workdir_error \<Rightarrow> workdir_error" where
  "sanitize_error kind_text logical (WRelativePath _) = WInvalidPath (fs_path_display logical)"
| "sanitize_error kind_text logical (WOutOfScope _) = WOutOfScope (components_of logical)"
| "sanitize_error kind_text logical (WSymlinkOutOfScope _ _ required) =
     WSymlinkOutOfScope (components_of logical) internal_target required"
| "sanitize_error kind_text logical (WBrokenSymlink _ _ _) =
     WBrokenSymlink (components_of logical) (components_of logical) internal_target"
| "sanitize_error kind_text logical (WSymlinkTargetIsDirectory _ _) =
     WSymlinkTargetIsDirectory (components_of logical) internal_target"
| "sanitize_error kind_text logical (WSymlinkDirectoryNotTraversed tool _ _) =
     WSymlinkDirectoryNotTraversed tool (components_of logical) internal_target"
| "sanitize_error kind_text logical (WReadOnly _) = WReadOnly (components_of logical)"
| "sanitize_error kind_text logical (WIsDirectory _) = WIsDirectory (components_of logical)"
| "sanitize_error kind_text logical (WNotFound _) = WNotFound (components_of logical)"
| "sanitize_error kind_text logical (WIo _ source) =
     (if io_kind source = PermissionDenied then WDenialContext (WOutOfScope (components_of logical))
      else WUnavailable (''I/O operation failed for '' @ fs_path_display logical @ '': '' @ kind_text (io_kind source)))"
| "sanitize_error kind_text logical other = other"

section \<open>The session\<close>

text \<open>The scope is shared and may change between two operations; so are the closed flag and the
  lock that serializes reads and mutations.\<close>

record 'w session =
  se_id :: string
  se_root :: path
  se_pinned_root :: "path option"
  se_reject_symlinks :: bool
  se_read_limits :: "bounded_read_limits option"
  se_capabilities :: capabilities
  se_deadline :: "nat option"
  se_scope :: "'w \<Rightarrow> scope"
  se_closed :: "'w \<Rightarrow> bool"
  se_busy :: "'w \<Rightarrow> bool"

definition session_access :: "'w session \<Rightarrow> 'w \<Rightarrow> scope_access" where
  "session_access se w =
     \<lparr>sa_scope = se_scope se w, sa_root = se_root se, sa_pinned_root = se_pinned_root se,
      sa_reject_symlinks = se_reject_symlinks se, sa_deadline = se_deadline se\<rparr>"

definition ensure_open :: "'w session \<Rightarrow> 'w \<Rightarrow> workdir_error + unit" where
  "ensure_open se w =
     (if se_closed se w
      then Inl (WFailureContext (WUnavailable (''Workdir session for '' @ se_id se @ '' is closed'')))
      else Inr ())"

definition ensure_capability :: "'w session \<Rightarrow> 'w \<Rightarrow> session_capability \<Rightarrow> workdir_error + unit" where
  "ensure_capability se w c =
     and_then (ensure_open se w) (\<lambda>_.
       if supports (se_capabilities se) c then Inr () else Inl (WUnsupported c))"

definition validate_operation_path :: "'w session \<Rightarrow> fs_path \<Rightarrow> workdir_error + unit" where
  "validate_operation_path se logical =
     (if \<not> se_reject_symlinks se then Inr ()
      else if is_absolute (components_of logical) \<or>
              (\<exists>c \<in> set (components_of logical). c = ParentDir \<or> c = RootDir)
      then Inl (WInvalidPath ''External Workdir paths must be root-relative'')
      else Inr ())"

definition try_lock :: "'w session \<Rightarrow> 'w \<Rightarrow> workdir_error + unit" where
  "try_lock se w = (if se_busy se w then Inl (WUnavailable ''filesystem provider busy'') else Inr ())"

text \<open>What every operation does around the provider call.\<close>

definition session_call ::
  "(io_kind \<Rightarrow> string) \<Rightarrow> 'w session \<Rightarrow> session_capability \<Rightarrow> fs_path
    \<Rightarrow> (scope_access \<Rightarrow> ('w, fs_error, 'a) io) \<Rightarrow> ('w, workdir_error, 'a) io" where
  "session_call kind_text se c logical call w =
     (case and_then (ensure_capability se w c) (\<lambda>_. validate_operation_path se logical) of
        Inl e \<Rightarrow> (Inl e, w)
      | Inr _ \<Rightarrow> io_map_err (\<lambda>e. sanitize_error kind_text logical (workdir_error_of e))
                   (call (session_access se w)) w)"

definition session_stat ::
  "(io_kind \<Rightarrow> string) \<Rightarrow> 'w host \<Rightarrow> 'w session \<Rightarrow> fs_path \<Rightarrow> ('w, workdir_error, stat_result) io" where
  "session_stat kind_text host se logical =
     session_call kind_text se CapRead logical (\<lambda>sa. run_stat (se_root se) logical (scope_policy host sa))"

definition session_read ::
  "(io_kind \<Rightarrow> string) \<Rightarrow> (string \<Rightarrow> content_hash) \<Rightarrow> 'w host \<Rightarrow> 'w session \<Rightarrow> read_request
    \<Rightarrow> ('w, workdir_error, read_result) io" where
  "session_read kind_text sha256 host se request =
     io_bind (\<lambda>w. (try_lock se w, w)) (\<lambda>_. session_call kind_text se CapRead (rr_path request) (\<lambda>sa.
       case se_read_limits se of
         Some limits \<Rightarrow> run_read_bounded sha256 (se_root se) request (scope_policy host sa) limits
       | None \<Rightarrow> run_read sha256 (se_root se) request (scope_policy host sa)))"

definition session_read_bytes ::
  "(io_kind \<Rightarrow> string) \<Rightarrow> (string \<Rightarrow> content_hash) \<Rightarrow> 'w host \<Rightarrow> 'w session \<Rightarrow> read_bytes_request
    \<Rightarrow> ('w, workdir_error, read_bytes_result) io" where
  "session_read_bytes kind_text sha256 host se request =
     session_call kind_text se CapRead (rb_path request) (\<lambda>sa.
       case se_read_limits se of
         Some limits \<Rightarrow> run_read_bytes_bounded sha256 (se_root se) request (scope_policy host sa) limits
       | None \<Rightarrow> run_read_bytes sha256 (se_root se) request (scope_policy host sa))"

definition session_write ::
  "(io_kind \<Rightarrow> string) \<Rightarrow> (string \<Rightarrow> content_hash) \<Rightarrow> 'w host \<Rightarrow> 'w session \<Rightarrow> write_request
    \<Rightarrow> ('w, workdir_error, write_result) io" where
  "session_write kind_text sha256 host se request =
     io_bind (\<lambda>w. (try_lock se w, w)) (\<lambda>_. session_call kind_text se CapWrite (wr_path request) (\<lambda>sa.
       run_write sha256 (se_root se) request (scope_policy host sa)))"

definition session_edit ::
  "(io_kind \<Rightarrow> string) \<Rightarrow> (string \<Rightarrow> content_hash) \<Rightarrow> 'w host \<Rightarrow> 'w session \<Rightarrow> edit_request
    \<Rightarrow> ('w, workdir_error, edit_result option) io" where
  "session_edit kind_text sha256 host se request =
     io_bind (\<lambda>w. (try_lock se w, w)) (\<lambda>_. session_call kind_text se CapEdit (er_path request) (\<lambda>sa.
       run_edit sha256 (se_root se) request (scope_policy host sa)))"

definition session_list ::
  "(io_kind \<Rightarrow> string) \<Rightarrow> 'w host \<Rightarrow> 'w session \<Rightarrow> list_request \<Rightarrow> ('w, workdir_error, list_result) io" where
  "session_list kind_text host se request =
     session_call kind_text se CapRead (lq_path request) (\<lambda>sa. run_list (se_root se) request (scope_policy host sa))"

end
