(* ===== verification/File_Tracker.thy ===== *)
theory File_Tracker
  imports Workdir_Session
begin

text \<open>
  The tracker of file observations (\<open>tools/src/tracker.rs\<close>): the hash and the line count last
  observed for each path of each attachment, the recently touched paths and the change statistics.
  A tracker handle is its namespace; the shared state is a record.  Counters of type \<open>u64\<close> and
  \<open>usize\<close> have the same width.
\<close>

section \<open>State\<close>

definition RECENCY_CAPACITY :: nat where
  "RECENCY_CAPACITY = 20"

record tracked_path =
  tp_namespace :: "string option"
  tp_path :: path

record change_stat =
  cs_added :: nat
  cs_deleted :: nat

record tracker =
  tk_hashes :: "tracked_path \<Rightarrow> content_hash option"
  tk_line_counts :: "tracked_path \<Rightarrow> nat option"
  tk_recency :: "tracked_path list"
  tk_change_stat :: change_stat

definition tracker_new :: tracker where
  "tracker_new = \<lparr>tk_hashes = Map.empty, tk_line_counts = Map.empty, tk_recency = [],
     tk_change_stat = \<lparr>cs_added = 0, cs_deleted = 0\<rparr>\<rparr>"

definition scoped_attachment :: "string \<Rightarrow> nat \<Rightarrow> string" where
  "scoped_attachment alias generation = alias @ ''#'' @ dec generation"

definition tracker_key :: "string option \<Rightarrow> path \<Rightarrow> tracked_path" where
  "tracker_key ns p = \<lparr>tp_namespace = ns, tp_path = p\<rparr>"

section \<open>Lossy text\<close>

text \<open>\<open>String::from_utf8_lossy\<close>: a maximal incomplete or invalid sequence becomes one replacement
  character.\<close>

definition replacement_character :: string where
  "replacement_character = [CHR 0xEF, CHR 0xBF, CHR 0xBD]"

definition invalid_len :: "string \<Rightarrow> nat" where
  "invalid_len s = (if 3 \<le> length s \<and> utf8_partial (take 3 s) then 3
     else if 2 \<le> length s \<and> utf8_partial (take 2 s) then 2 else 1)"

function from_utf8_lossy :: "string \<Rightarrow> string" where
  "from_utf8_lossy [] = []"
| "from_utf8_lossy (b # bs) =
     (if utf8_seq (b # take (char_len b - 1) bs)
      then b # take (char_len b - 1) bs @ from_utf8_lossy (drop (char_len b - 1) bs)
      else replacement_character @ from_utf8_lossy (drop (invalid_len (b # bs)) (b # bs)))"
  by pat_completeness auto
termination
  by (relation "measure length") (auto simp: invalid_len_def)

section \<open>Operations\<close>

text \<open>The recency bump every record operation ends with.\<close>

definition touch :: "tracked_path \<Rightarrow> tracked_path list \<Rightarrow> tracked_path list" where
  "touch key recency =
     (let recency = key # filter (\<lambda>p. p \<noteq> key) recency
      in if RECENCY_CAPACITY < length recency then butlast recency else recency)"

definition canonicalize_or_owned :: "fs_view \<Rightarrow> path \<Rightarrow> path" where
  "canonicalize_or_owned v p = (case fv_canonicalize v p of Inl _ \<Rightarrow> p | Inr c \<Rightarrow> c)"

definition tracker_record ::
  "(string \<Rightarrow> content_hash) \<Rightarrow> fs_view \<Rightarrow> string option \<Rightarrow> path \<Rightarrow> string \<Rightarrow> tracker \<Rightarrow> tracker" where
  "tracker_record sha256 v ns p bytes tr =
     (let key = tracker_key ns (canonicalize_or_owned v p)
      in tr\<lparr>tk_hashes := (tk_hashes tr)(key \<mapsto> sha256 bytes), tk_recency := touch key (tk_recency tr)\<rparr>)"

definition record_workdir_observation ::
  "string option \<Rightarrow> fs_path \<Rightarrow> content_hash \<Rightarrow> nat \<Rightarrow> tracker \<Rightarrow> tracker" where
  "record_workdir_observation ns p hash total_lines tr =
     (let key = tracker_key ns (components_of p)
      in tr\<lparr>tk_line_counts := (tk_line_counts tr)(key \<mapsto> total_lines),
            tk_hashes := (tk_hashes tr)(key \<mapsto> hash), tk_recency := touch key (tk_recency tr)\<rparr>)"

definition record_workdir_content ::
  "(string \<Rightarrow> content_hash) \<Rightarrow> string option \<Rightarrow> fs_path \<Rightarrow> string \<Rightarrow> tracker \<Rightarrow> tracker" where
  "record_workdir_content sha256 ns p content tr =
     (let key = tracker_key ns (components_of p)
      in tr\<lparr>tk_line_counts := (tk_line_counts tr)(key \<mapsto> length (str_lines (from_utf8_lossy content))),
            tk_hashes := (tk_hashes tr)(key \<mapsto> sha256 content), tk_recency := touch key (tk_recency tr)\<rparr>)"

definition record_workdir_hash :: "string option \<Rightarrow> fs_path \<Rightarrow> content_hash \<Rightarrow> tracker \<Rightarrow> tracker" where
  "record_workdir_hash ns p hash tr =
     (let key = tracker_key ns (components_of p)
      in tr\<lparr>tk_hashes := (tk_hashes tr)(key \<mapsto> hash), tk_recency := touch key (tk_recency tr)\<rparr>)"

definition add_change :: "nat \<Rightarrow> nat \<Rightarrow> change_stat \<Rightarrow> change_stat" where
  "add_change added deleted st =
     \<lparr>cs_added = sat_add (cs_added st) added, cs_deleted = sat_add (cs_deleted st) deleted\<rparr>"

definition record_change :: "nat \<Rightarrow> nat \<Rightarrow> tracker \<Rightarrow> tracker" where
  "record_change added deleted tr = tr\<lparr>tk_change_stat := add_change added deleted (tk_change_stat tr)\<rparr>"

definition record_workdir_edit ::
  "string option \<Rightarrow> fs_path \<Rightarrow> content_hash \<Rightarrow> nat \<Rightarrow> nat \<Rightarrow> nat \<Rightarrow> tracker \<Rightarrow> tracker" where
  "record_workdir_edit ns p hash replacements added_per deleted_per tr =
     (let added = sat_mul added_per replacements; deleted = sat_mul deleted_per replacements;
          key = tracker_key ns (components_of p)
      in tr\<lparr>tk_change_stat := add_change added deleted (tk_change_stat tr),
            tk_line_counts := (case tk_line_counts tr key of
                                 None \<Rightarrow> tk_line_counts tr
                               | Some n \<Rightarrow> (tk_line_counts tr)(key \<mapsto> sat_add (n - deleted) added)),
            tk_hashes := (tk_hashes tr)(key \<mapsto> hash), tk_recency := touch key (tk_recency tr)\<rparr>)"

definition observed_workdir_line_count :: "string option \<Rightarrow> fs_path \<Rightarrow> tracker \<Rightarrow> nat option" where
  "observed_workdir_line_count ns p tr = tk_line_counts tr (tracker_key ns (components_of p))"

datatype tools_error =
    FileSystem fs_error
  | WorkdirSession workdir_error
  | NotRead path
  | ExternallyModified path
  | StringNotFound path
  | NotUnique path nat
  | ToolsInvalidArgument string

definition expected_workdir_hash :: "string option \<Rightarrow> fs_path \<Rightarrow> tracker \<Rightarrow> tools_error + content_hash" where
  "expected_workdir_hash ns p tr =
     (case tk_hashes tr (tracker_key ns (components_of p)) of
        None \<Rightarrow> Inl (NotRead (components_of p))
      | Some hash \<Rightarrow> Inr hash)"

definition tracker_verify ::
  "(string \<Rightarrow> content_hash) \<Rightarrow> fs_view \<Rightarrow> string option \<Rightarrow> path \<Rightarrow> string \<Rightarrow> tracker \<Rightarrow> tools_error + unit" where
  "tracker_verify sha256 v ns p current_bytes tr =
     (case tk_hashes tr (tracker_key ns (canonicalize_or_owned v p)) of
        None \<Rightarrow> Inl (NotRead p)
      | Some recorded \<Rightarrow>
          if recorded \<noteq> sha256 current_bytes then Inl (ExternallyModified p) else Inr ())"

definition recent_files :: "nat \<Rightarrow> tracker \<Rightarrow> path list" where
  "recent_files n tr = map tp_path (take n (tk_recency tr))"

section \<open>Mutation keys\<close>

fun normalize_path_lexically :: "path \<Rightarrow> path \<Rightarrow> path" where
  "normalize_path_lexically normalized [] = normalized"
| "normalize_path_lexically normalized (c # cs) =
     normalize_path_lexically
       (case c of
          CurDir \<Rightarrow> normalized
        | ParentDir \<Rightarrow> (case path_pop normalized of (True, q) \<Rightarrow> q | (False, q) \<Rightarrow> path_push q [ParentDir])
        | Normal part \<Rightarrow> path_push normalized [Normal part]
        | RootDir \<Rightarrow> path_push normalized [RootDir]) cs"

definition file_mutation_key :: "fs_view \<Rightarrow> path \<Rightarrow> path" where
  "file_mutation_key v p =
     (case fv_canonicalize v p of
        Inr canonical \<Rightarrow> canonical
      | Inl _ \<Rightarrow>
          (case (path_parent p, file_name p) of
             (Some parent, Some name) \<Rightarrow>
               (case fv_canonicalize v parent of
                  Inr canonical_parent \<Rightarrow> path_push canonical_parent [Normal name]
                | Inl _ \<Rightarrow> normalize_path_lexically [] p)
           | _ \<Rightarrow> normalize_path_lexically [] p))"

end
