(* ===== verification/Session_Router.thy ===== *)
theory Session_Router
  imports Workdir_Session
begin

text \<open>
  The router of attached work directories (\<open>workdir/src/router.rs\<close>): aliases, routed
  sessions with their accounting of active operations and commands, and the attach and detach
  operations.  The states behind \<open>Arc\<close> are a heap and an \<open>Arc\<close> is its address, so that
  \<open>Arc::ptr_eq\<close> compares addresses.  What a session handle does is a record of methods;
  locks are never poisoned.
\<close>

section \<open>Aliases\<close>

definition bt_remove :: "'k \<Rightarrow> ('k, 'v) btree_map \<Rightarrow> ('k, 'v) btree_map" where
  "bt_remove k m = filter (\<lambda>(a, _). a \<noteq> k) m"

definition alias_message :: string where
  "alias_message = ''attachment alias must be 1-64 ASCII letters, digits, '.', '_' or '-', and start with a letter or digit''"

definition alias_byte :: "nat \<Rightarrow> char \<Rightarrow> bool" where
  "alias_byte index b \<longleftrightarrow> is_ascii_alphanumeric b \<or> b \<in> {CHR ''_'', CHR ''-'', CHR ''.''} \<and> 0 < index"

definition attachment_alias_new :: "string \<Rightarrow> workdir_error + string" where
  "attachment_alias_new v =
     (if v \<noteq> [] \<and> length v \<le> 64 \<and> (\<forall>(index, b) \<in> set (enumerate 0 v). alias_byte index b)
      then Inr v else Inl (WInvalidArgument alias_message))"

datatype route_error_code = NoWorkdirAttached | TargetWorkdirRequired | UnknownTargetWorkdir

record route_error =
  re_code :: route_error_code
  re_target_workdir :: "string option"
  re_available_aliases :: "string list"

section \<open>Routed sessions\<close>

datatype command_status = CmdRunning | CmdCompleted | CmdFailed | CmdTimedOut | CmdCancelled

text \<open>The methods of a session handle the router calls.  \<open>iter_order\<close> is the order in which
  a hash set is iterated.\<close>

record ('w, 's, 'q, 'r, 'o) methods =
  sm_capabilities :: "'s \<Rightarrow> capabilities"
  sm_start_command :: "'s \<Rightarrow> 'q \<Rightarrow> ('w, workdir_error, string) io"
  sm_command_status :: "'s \<Rightarrow> string \<Rightarrow> ('w, workdir_error, command_status) io"
  sm_command_output :: "'s \<Rightarrow> 'r \<Rightarrow> ('w, workdir_error, 'o) io"
  sm_cancel_command :: "'s \<Rightarrow> string \<Rightarrow> ('w, workdir_error, unit) io"
  sm_command_snapshot :: "'s \<Rightarrow> 'w \<Rightarrow> (string \<times> command_status) list"
  sm_close :: "'s \<Rightarrow> ('w, workdir_error, unit) io"
  iter_order :: "string set \<Rightarrow> string list"

record 's routed_state =
  rs_session :: 's
  rs_generation :: u64
  rs_detached :: bool
  rs_active_operations :: nat
  rs_active_commands :: "string set"

definition routed_enter :: "'s routed_state \<Rightarrow> workdir_error + 's routed_state" where
  "routed_enter st =
     (if rs_detached st then Inl (WUnavailable ''Workdir attachment is detached'')
      else Inr (st\<lparr>rs_active_operations := rs_active_operations st + 1\<rparr>))"

definition drop_active :: "'s routed_state \<Rightarrow> 's routed_state" where
  "drop_active st = st\<lparr>rs_active_operations := rs_active_operations st - 1\<rparr>"

definition mark_terminal :: "string \<Rightarrow> command_status \<Rightarrow> 's routed_state \<Rightarrow> 's routed_state" where
  "mark_terminal handle status st =
     (if status \<noteq> CmdRunning then st\<lparr>rs_active_commands := rs_active_commands st - {handle}\<rparr> else st)"

definition reconcile_terminal_commands ::
  "(string \<times> command_status) list \<Rightarrow> 's routed_state \<Rightarrow> 's routed_state" where
  "reconcile_terminal_commands snapshots st =
     (let terminal = set (map fst (filter (\<lambda>(_, status). status \<noteq> CmdRunning) snapshots))
      in if terminal = {} then st
         else st\<lparr>rs_active_commands := Set.filter (\<lambda>handle. handle \<notin> terminal) (rs_active_commands st)\<rparr>)"

definition is_busy ::
  "('w, 's, 'q, 'r, 'o) methods \<Rightarrow> 's routed_state \<Rightarrow> 'w \<Rightarrow> bool \<times> 's routed_state" where
  "is_busy ms st w =
     (if rs_active_operations st \<noteq> 0 then (True, st)
      else let st = reconcile_terminal_commands (sm_command_snapshot ms (rs_session st) w) st
           in (rs_active_commands st \<noteq> {}, st))"

fun poll_commands ::
  "('w, 's, 'q, 'r, 'o) methods \<Rightarrow> string list \<Rightarrow> 's routed_state \<Rightarrow> 'w \<Rightarrow> 's routed_state \<times> 'w" where
  "poll_commands ms [] st w = (st, w)"
| "poll_commands ms (handle # handles) st w =
     (case sm_command_status ms (rs_session st) handle w of
        (Inr status, w) \<Rightarrow> poll_commands ms handles (mark_terminal handle status st) w
      | (Inl e, w) \<Rightarrow>
          (case classification_source e of
             WUnknownCommand _ \<Rightarrow>
               poll_commands ms handles (st\<lparr>rs_active_commands := rs_active_commands st - {handle}\<rparr>) w
           | _ \<Rightarrow> poll_commands ms handles st w))"

definition is_busy_for_detach ::
  "('w, 's, 'q, 'r, 'o) methods \<Rightarrow> 's routed_state \<Rightarrow> 'w \<Rightarrow> bool \<times> 's routed_state \<times> 'w" where
  "is_busy_for_detach ms st w =
     (if rs_active_operations st \<noteq> 0 then (True, st, w)
      else let st = reconcile_terminal_commands (sm_command_snapshot ms (rs_session st) w) st;
               handles = iter_order ms (rs_active_commands st);
               (st, w) = poll_commands ms handles st w
           in (rs_active_operations st \<noteq> 0 \<or> rs_active_commands st \<noteq> {}, st, w))"

text \<open>The operations of a routed session: every one of them enters, calls the inner session (the
  bound view where there is one) and leaves; those on commands keep the set of active commands.\<close>

definition routed_call ::
  "('w, workdir_error, 'a) io \<Rightarrow> ('a \<Rightarrow> 's routed_state \<Rightarrow> 's routed_state) \<Rightarrow> 's routed_state \<Rightarrow> 'w
    \<Rightarrow> (workdir_error + 'a) \<times> 's routed_state \<times> 'w" where
  "routed_call call keep st w =
     (case routed_enter st of
        Inl e \<Rightarrow> (Inl e, st, w)
      | Inr st \<Rightarrow>
          (case call w of
             (Inl e, w) \<Rightarrow> (Inl e, drop_active st, w)
           | (Inr a, w) \<Rightarrow> (Inr a, drop_active (keep a st), w)))"

definition routed_inner :: "'s option \<Rightarrow> 's routed_state \<Rightarrow> 's" where
  "routed_inner view st = (case view of None \<Rightarrow> rs_session st | Some v \<Rightarrow> v)"

definition routed_operation ::
  "('s \<Rightarrow> ('w, workdir_error, 'a) io) \<Rightarrow> 's option \<Rightarrow> 's routed_state \<Rightarrow> 'w
    \<Rightarrow> (workdir_error + 'a) \<times> 's routed_state \<times> 'w" where
  "routed_operation call view st = routed_call (call (routed_inner view st)) (\<lambda>_ st. st) st"

definition routed_start_command ::
  "('w, 's, 'q, 'r, 'o) methods \<Rightarrow> 'q \<Rightarrow> 's option \<Rightarrow> 's routed_state \<Rightarrow> 'w
    \<Rightarrow> (workdir_error + string) \<times> 's routed_state \<times> 'w" where
  "routed_start_command ms request view st =
     routed_call (sm_start_command ms (routed_inner view st) request)
       (\<lambda>handle st. st\<lparr>rs_active_commands := insert handle (rs_active_commands st)\<rparr>) st"

definition routed_command_status ::
  "('w, 's, 'q, 'r, 'o) methods \<Rightarrow> string \<Rightarrow> 's option \<Rightarrow> 's routed_state \<Rightarrow> 'w
    \<Rightarrow> (workdir_error + command_status) \<times> 's routed_state \<times> 'w" where
  "routed_command_status ms handle view st =
     routed_call (sm_command_status ms (routed_inner view st) handle) (mark_terminal handle) st"

text \<open>\<open>handle_of\<close> and \<open>terminal_of\<close> are the fields \<open>handle\<close> of the request and
  \<open>terminal.status\<close> of the output.\<close>

definition routed_command_output ::
  "('w, 's, 'q, 'r, 'o) methods \<Rightarrow> ('r \<Rightarrow> string) \<Rightarrow> ('o \<Rightarrow> command_status option) \<Rightarrow> 'r \<Rightarrow> 's option
    \<Rightarrow> 's routed_state \<Rightarrow> 'w \<Rightarrow> (workdir_error + 'o) \<times> 's routed_state \<times> 'w" where
  "routed_command_output ms handle_of terminal_of request view st =
     routed_call (sm_command_output ms (routed_inner view st) request)
       (\<lambda>output st. case terminal_of output of
          None \<Rightarrow> st | Some status \<Rightarrow> mark_terminal (handle_of request) status st) st"

definition routed_cancel_command ::
  "('w, 's, 'q, 'r, 'o) methods \<Rightarrow> string \<Rightarrow> 's option \<Rightarrow> 's routed_state \<Rightarrow> 'w
    \<Rightarrow> (workdir_error + unit) \<times> 's routed_state \<times> 'w" where
  "routed_cancel_command ms handle view st =
     routed_call (sm_cancel_command ms (routed_inner view st) handle)
       (\<lambda>_ st. st\<lparr>rs_active_commands := rs_active_commands st - {handle}\<rparr>) st"

definition routed_command_snapshot ::
  "('w, 's, 'q, 'r, 'o) methods \<Rightarrow> 's option \<Rightarrow> 's routed_state \<Rightarrow> 'w
    \<Rightarrow> (string \<times> command_status) list \<times> 's routed_state" where
  "routed_command_snapshot ms view st w =
     (let snapshots = sm_command_snapshot ms (routed_inner view st) w
      in (snapshots, reconcile_terminal_commands snapshots st))"

definition routed_close ::
  "('w, 's, 'q, 'r, 'o) methods \<Rightarrow> 's option \<Rightarrow> 's routed_state \<Rightarrow> 'w
    \<Rightarrow> (workdir_error + unit) \<times> 's routed_state \<times> 'w" where
  "routed_close ms view st w =
     (case is_busy ms st w of
        (True, st) \<Rightarrow> (Inl (WConflict ''Workdir attachment has active operations or commands''), st, w)
      | (False, st) \<Rightarrow> (case sm_close ms (routed_inner view st) w of (r, w) \<Rightarrow> (r, st, w)))"

section \<open>The router\<close>

record ('s, 'b) router =
  ro_sessions :: "(string, nat) btree_map"
  ro_next_generation :: u64
  ro_brokers :: "(string, u64 \<times> 'b) btree_map"
  ro_heap :: "'s routed_state list"

definition router_new :: "('s, 'b) router" where
  "router_new = \<lparr>ro_sessions = [], ro_next_generation = 0, ro_brokers = [], ro_heap = []\<rparr>"

definition arc :: "('s, 'b) router \<Rightarrow> nat \<Rightarrow> 's routed_state" where
  "arc r a = ro_heap r ! a"

definition set_arc :: "nat \<Rightarrow> 's routed_state \<Rightarrow> ('s, 'b) router \<Rightarrow> ('s, 'b) router" where
  "set_arc a st r = r\<lparr>ro_heap := (ro_heap r)[a := st]\<rparr>"

definition router_aliases :: "('s, 'b) router \<Rightarrow> string list" where
  "router_aliases r = bt_keys (ro_sessions r)"

definition router_capabilities :: "('w, 's, 'q, 'r, 'o) methods \<Rightarrow> ('s, 'b) router \<Rightarrow> capabilities" where
  "router_capabilities ms r =
     foldl (\<lambda>bits (_, a). capabilities_union bits (sm_capabilities ms (rs_session (arc r a)))) 0 (ro_sessions r)"

definition router_len :: "('s, 'b) router \<Rightarrow> nat" where
  "router_len r = length (ro_sessions r)"

definition coordinate_broker :: "string \<Rightarrow> u64 \<Rightarrow> ('s, 'b) router \<Rightarrow> 'b option" where
  "coordinate_broker alias generation r =
     (case bt_get (ro_brokers r) alias of
        Some (current, broker) \<Rightarrow> if current = generation then Some broker else None
      | None \<Rightarrow> None)"

text \<open>A routed session is the address of its state and the view its broker gives.\<close>

definition routed_handle :: "('b \<Rightarrow> 's) \<Rightarrow> string \<Rightarrow> nat \<Rightarrow> ('s, 'b) router \<Rightarrow> nat \<times> 's option" where
  "routed_handle tool_session alias a r =
     (a, map_option tool_session (coordinate_broker alias (rs_generation (arc r a)) r))"

record 's resolved_session =
  rv_alias :: string
  rv_generation :: u64
  rv_session :: "nat \<times> 's option"

definition router_resolve ::
  "('b \<Rightarrow> 's) \<Rightarrow> string option \<Rightarrow> ('s, 'b) router \<Rightarrow> route_error + 's resolved_session" where
  "router_resolve tool_session target_workdir r =
     (let available_aliases = router_aliases r;
          failed = (\<lambda>code target. \<lparr>re_code = code, re_target_workdir = target,
                      re_available_aliases = available_aliases\<rparr>);
          selected =
            (case target_workdir of
               Some target \<Rightarrow>
                 (case List.find (\<lambda>(alias, _). alias = target) (ro_sessions r) of
                    Some entry \<Rightarrow> Inr entry
                  | None \<Rightarrow> Inl (failed UnknownTargetWorkdir (Some target)))
             | None \<Rightarrow>
                 (case ro_sessions r of
                    [] \<Rightarrow> Inl (failed NoWorkdirAttached None)
                  | [entry] \<Rightarrow> Inr entry
                  | _ \<Rightarrow> Inl (failed TargetWorkdirRequired None)))
      in and_then selected (\<lambda>(alias, a).
           Inr \<lparr>rv_alias = alias, rv_generation = rs_generation (arc r a),
                rv_session = routed_handle tool_session alias a r\<rparr>))"

definition alias_exists_message :: "string \<Rightarrow> string" where
  "alias_exists_message alias = ''Workdir attachment alias `'' @ alias @ ''` already exists''"

definition alias_busy_message :: "string \<Rightarrow> string" where
  "alias_busy_message alias = ''Workdir attachment `'' @ alias @ ''` has active operations or commands''"

text \<open>\<open>at_cwd\<close> builds the broker over the routed session at an address.\<close>

definition attach_with_cwd ::
  "(nat \<Rightarrow> fs_path \<Rightarrow> workdir_error + 'b) \<Rightarrow> ('b \<Rightarrow> 's) \<Rightarrow> string \<Rightarrow> 's \<Rightarrow> fs_path option \<Rightarrow> ('s, 'b) router
    \<Rightarrow> (workdir_error + (nat \<times> 's option)) \<times> ('s, 'b) router" where
  "attach_with_cwd at_cwd tool_session alias session cwd r =
     (if bt_get (ro_sessions r) alias \<noteq> None then (Inl (WConflict (alias_exists_message alias)), r)
      else let a = length (ro_heap r); generation = ro_next_generation r;
               r = r\<lparr>ro_next_generation := generation + 1,
                     ro_heap := ro_heap r @ [\<lparr>rs_session = session, rs_generation = generation,
                       rs_detached = False, rs_active_operations = 0, rs_active_commands = {}\<rparr>]\<rparr>;
               publish = (\<lambda>view r. (Inr (a, view), r\<lparr>ro_sessions := bt_insert alias a (ro_sessions r)\<rparr>))
           in case cwd of
                None \<Rightarrow> publish None r
              | Some cwd \<Rightarrow>
                  (case at_cwd a cwd of
                     Inl e \<Rightarrow> (Inl e, r)
                   | Inr broker \<Rightarrow>
                       publish (Some (tool_session broker))
                         (r\<lparr>ro_brokers := bt_insert alias (generation, broker) (ro_brokers r)\<rparr>)))"

definition router_attach ::
  "(nat \<Rightarrow> fs_path \<Rightarrow> workdir_error + 'b) \<Rightarrow> ('b \<Rightarrow> 's) \<Rightarrow> string \<Rightarrow> 's \<Rightarrow> ('s, 'b) router
    \<Rightarrow> (workdir_error + (nat \<times> 's option)) \<times> ('s, 'b) router" where
  "router_attach at_cwd tool_session alias session = attach_with_cwd at_cwd tool_session alias session None"

definition attach_at_cwd ::
  "(nat \<Rightarrow> fs_path \<Rightarrow> workdir_error + 'b) \<Rightarrow> ('b \<Rightarrow> 's) \<Rightarrow> string \<Rightarrow> 's \<Rightarrow> fs_path \<Rightarrow> ('s, 'b) router
    \<Rightarrow> (workdir_error + (nat \<times> 's option)) \<times> ('s, 'b) router" where
  "attach_at_cwd at_cwd tool_session alias source cwd r =
     (case fs_path_new cwd of
        Inl e \<Rightarrow> (Inl (workdir_error_of e), r)
      | Inr cwd \<Rightarrow> attach_with_cwd at_cwd tool_session alias source (Some cwd) r)"

definition router_session :: "('b \<Rightarrow> 's) \<Rightarrow> string \<Rightarrow> ('s, 'b) router \<Rightarrow> (nat \<times> 's option) option" where
  "router_session tool_session alias r =
     map_option (\<lambda>a. routed_handle tool_session alias a r) (bt_get (ro_sessions r) alias)"

definition only_session :: "('b \<Rightarrow> 's) \<Rightarrow> ('s, 'b) router \<Rightarrow> (nat \<times> 's option) option" where
  "only_session tool_session r =
     (case ro_sessions r of [(alias, a)] \<Rightarrow> Some (routed_handle tool_session alias a r) | _ \<Rightarrow> None)"

section \<open>Detaching\<close>

definition can_detach ::
  "('w, 's, 'q, 'r, 'o) methods \<Rightarrow> string \<Rightarrow> ('s, 'b) router \<Rightarrow> 'w \<Rightarrow> (workdir_error + unit) \<times> ('s, 'b) router" where
  "can_detach ms alias r w =
     (case bt_get (ro_sessions r) alias of
        None \<Rightarrow> (Inl (WNotFound (components_of alias)), r)
      | Some a \<Rightarrow>
          if rs_detached (arc r a) then (Inl (WUnavailable ''Workdir attachment is already detaching''), r)
          else (case is_busy ms (arc r a) w of
                  (busy, st) \<Rightarrow> (if busy then Inl (WConflict (alias_busy_message alias)) else Inr (), set_arc a st r)))"

definition begin_detach ::
  "('w, 's, 'q, 'r, 'o) methods \<Rightarrow> string \<Rightarrow> ('s, 'b) router \<Rightarrow> 'w
    \<Rightarrow> (workdir_error + unit) \<times> ('s, 'b) router \<times> 'w" where
  "begin_detach ms alias r w =
     (case bt_get (ro_sessions r) alias of
        None \<Rightarrow> (Inl (WNotFound (components_of alias)), r, w)
      | Some a \<Rightarrow>
          if rs_detached (arc r a) then (Inl (WUnavailable ''Workdir attachment is already detaching''), r, w)
          else (case is_busy_for_detach ms ((arc r a)\<lparr>rs_detached := True\<rparr>) w of
                  (True, st, w) \<Rightarrow>
                    (Inl (WConflict (alias_busy_message alias)), set_arc a (st\<lparr>rs_detached := False\<rparr>) r, w)
                | (False, st, w) \<Rightarrow> (Inr (), set_arc a st r, w)))"

definition cancel_detach :: "string \<Rightarrow> ('s, 'b) router \<Rightarrow> ('s, 'b) router" where
  "cancel_detach alias r =
     (case bt_get (ro_sessions r) alias of
        None \<Rightarrow> r
      | Some a \<Rightarrow> set_arc a ((arc r a)\<lparr>rs_detached := False\<rparr>) r)"

definition remove_route :: "string \<Rightarrow> nat \<Rightarrow> ('s, 'b) router \<Rightarrow> ('s, 'b) router" where
  "remove_route alias a r =
     (if bt_get (ro_sessions r) alias = Some a
      then r\<lparr>ro_sessions := bt_remove alias (ro_sessions r), ro_brokers := bt_remove alias (ro_brokers r)\<rparr>
      else r)"

definition close_route ::
  "('w, 's, 'q, 'r, 'o) methods \<Rightarrow> string \<Rightarrow> nat \<Rightarrow> ('s, 'b) router \<Rightarrow> 'w
    \<Rightarrow> (workdir_error + unit) \<times> ('s, 'b) router \<times> 'w" where
  "close_route ms alias a r w =
     (case sm_close ms (rs_session (arc r a)) w of
        (Inl e, w) \<Rightarrow> (Inl e, set_arc a ((arc r a)\<lparr>rs_detached := False\<rparr>) r, w)
      | (Inr _, w) \<Rightarrow> (Inr (), remove_route alias a r, w))"

definition finish_detach ::
  "('w, 's, 'q, 'r, 'o) methods \<Rightarrow> string \<Rightarrow> ('s, 'b) router \<Rightarrow> 'w
    \<Rightarrow> (workdir_error + 's) \<times> ('s, 'b) router \<times> 'w" where
  "finish_detach ms alias r w =
     (case bt_get (ro_sessions r) alias of
        None \<Rightarrow> (Inl (WNotFound (components_of alias)), r, w)
      | Some a \<Rightarrow>
          if \<not> rs_detached (arc r a)
          then (Inl (WConflict (''Workdir attachment `'' @ alias @ ''` was not prepared for detach'')), r, w)
          else (case is_busy_for_detach ms (arc r a) w of
                  (True, st, w) \<Rightarrow>
                    (Inl (WConflict (alias_busy_message alias)), set_arc a (st\<lparr>rs_detached := False\<rparr>) r, w)
                | (False, st, w) \<Rightarrow>
                    (case close_route ms alias a (set_arc a st r) w of
                       (Inl e, r, w) \<Rightarrow> (Inl e, r, w)
                     | (Inr _, r, w) \<Rightarrow> (Inr (rs_session (arc r a)), r, w))))"

definition router_detach ::
  "('w, 's, 'q, 'r, 'o) methods \<Rightarrow> string \<Rightarrow> ('s, 'b) router \<Rightarrow> 'w
    \<Rightarrow> (workdir_error + 's) \<times> ('s, 'b) router \<times> 'w" where
  "router_detach ms alias r w =
     (case begin_detach ms alias r w of
        (Inl e, r, w) \<Rightarrow> (Inl e, r, w)
      | (Inr _, r, w) \<Rightarrow> finish_detach ms alias r w)"

fun close_aliases ::
  "('w, 's, 'q, 'r, 'o) methods \<Rightarrow> string list \<Rightarrow> ('s, 'b) router \<Rightarrow> 'w
    \<Rightarrow> (workdir_error + unit) \<times> ('s, 'b) router \<times> 'w" where
  "close_aliases ms [] r w = (Inr (), r, w)"
| "close_aliases ms (alias # aliases) r w =
     (case bt_get (ro_sessions r) alias of
        None \<Rightarrow> close_aliases ms aliases r w
      | Some a \<Rightarrow>
          (case close_route ms alias a (set_arc a ((arc r a)\<lparr>rs_detached := True\<rparr>) r) w of
             (Inl e, r, w) \<Rightarrow> (Inl e, r, w)
           | (Inr _, r, w) \<Rightarrow> close_aliases ms aliases r w))"

definition close_all ::
  "('w, 's, 'q, 'r, 'o) methods \<Rightarrow> ('s, 'b) router \<Rightarrow> 'w \<Rightarrow> (workdir_error + unit) \<times> ('s, 'b) router \<times> 'w" where
  "close_all ms r w = close_aliases ms (router_aliases r) r w"

end
