(* ===== verification/File_Tools.thy ===== *)
theory File_Tools
  imports File_Tracker Session_Router
begin

text \<open>
  The file tools of a worker (\<open>tools/src\<close>: \<open>error.rs\<close>, \<open>routing.rs\<close>,
  \<open>file_target.rs\<close>, \<open>read.rs\<close>, \<open>write.rs\<close>, \<open>edit.rs\<close>).  A tool resolves an
  attachment, scopes the tracker to it and runs one operation of the routed session.  An error
  carries the value its message displays; a panic is the result \<open>None\<close>.  Tools on one file are
  serialized by the mutation guard, so each runs alone.
\<close>

section \<open>Errors\<close>

datatype tool_message =
    ToolsMessage tools_error
  | TextMessage text_error
  | WorkdirMessage workdir_error
  | RouteMessage route_error
  | PlainMessage string

datatype tool_error =
    ToolInvalidArgument tool_message
  | ToolExecutionFailed tool_message
  | ToolStructuredConflict string tool_message

fun tool_error_of :: "tools_error \<Rightarrow> tool_error" where
  "tool_error_of (WorkdirSession e) =
     (case classification_source e of
        WNotFound _ \<Rightarrow> ToolExecutionFailed (ToolsMessage (WorkdirSession e))
      | WIo _ _ \<Rightarrow> ToolExecutionFailed (ToolsMessage (WorkdirSession e))
      | WUnavailable _ \<Rightarrow> ToolExecutionFailed (ToolsMessage (WorkdirSession e))
      | WOperationFailed \<Rightarrow> ToolExecutionFailed (ToolsMessage (WorkdirSession e))
      | WTransport _ \<Rightarrow> ToolExecutionFailed (ToolsMessage (WorkdirSession e))
      | WConflict _ \<Rightarrow> ToolExecutionFailed (ToolsMessage (WorkdirSession e))
      | WOutcomeUnknown _ \<Rightarrow> ToolExecutionFailed (ToolsMessage (WorkdirSession e))
      | _ \<Rightarrow> ToolInvalidArgument (ToolsMessage (WorkdirSession e)))"
| "tool_error_of e = ToolInvalidArgument (ToolsMessage e)"

definition tool_text_error :: "text_error \<Rightarrow> tool_error" where
  "tool_text_error e = ToolInvalidArgument (TextMessage e)"

definition checked_code :: "workdir_error \<Rightarrow> string option" where
  "checked_code e =
     (case classification_source e of
        WConflict _ \<Rightarrow> Some ''checkout_stale''
      | WNotFound _ \<Rightarrow> Some ''checkout_stale''
      | WDenied _ \<Rightarrow> Some ''checkout_denied''
      | WOutOfScope _ \<Rightarrow> Some ''checkout_denied''
      | WReadOnly _ \<Rightarrow> Some ''checkout_denied''
      | WUnsupported _ \<Rightarrow> Some ''checkout_denied''
      | WUnsupportedOperation _ \<Rightarrow> Some ''checkout_denied''
      | WSymlinkOutOfScope _ _ _ \<Rightarrow> Some ''checkout_denied''
      | WSymlinkDirectoryNotTraversed _ _ _ \<Rightarrow> Some ''checkout_denied''
      | WInvalidArgument _ \<Rightarrow> Some ''checkout_invalid''
      | WInvalidPath _ \<Rightarrow> Some ''checkout_invalid''
      | WUnknownCommand _ \<Rightarrow> Some ''checkout_invalid''
      | WRelativePath _ \<Rightarrow> Some ''checkout_invalid''
      | WBrokenSymlink _ _ _ \<Rightarrow> Some ''checkout_invalid''
      | WSymlinkTargetIsDirectory _ _ \<Rightarrow> Some ''checkout_invalid''
      | WIsDirectory _ \<Rightarrow> Some ''checkout_invalid''
      | WInvalidGlob _ \<Rightarrow> Some ''checkout_invalid''
      | WInvalidRegex _ \<Rightarrow> Some ''checkout_invalid''
      | WNotDispatched \<Rightarrow> Some ''checkout_not_dispatched''
      | WUnavailable _ \<Rightarrow> Some ''checkout_unavailable''
      | WSessionClosed \<Rightarrow> Some ''checkout_unavailable''
      | _ \<Rightarrow> None)"

definition checked_error :: "workdir_error \<Rightarrow> tool_error" where
  "checked_error e =
     (case checked_code e of
        Some code \<Rightarrow> ToolStructuredConflict code (WorkdirMessage e)
      | None \<Rightarrow> tool_error_of (WorkdirSession e))"

definition readonly_result_error :: "string \<Rightarrow> tool_error" where
  "readonly_result_error operation =
     checked_error (WUnavailable (''provider returned an invalid readonly checkout '' @ operation @ '' result''))"

definition unknown_result :: "string \<Rightarrow> tool_error" where
  "unknown_result operation =
     ToolExecutionFailed (PlainMessage (''Outcome unknown: provider returned wrong checkout '' @ operation @
       '' result after mutation; do not automatically retry''))"

section \<open>File targets\<close>

datatype checkout_operation =
    CoReadBytes nat nat
  | CoRead nat nat nat
  | CoWrite string content_hash
  | CoEdit string string bool content_hash
  | CoCreate fs_path string

record checkout_request =
  cq_target :: fs_path
  cq_validator :: string
  cq_operation :: checkout_operation

datatype checkout_output =
    OutRead read_result
  | OutReadBytes read_bytes_result
  | OutWrite write_result
  | OutEdit edit_result

text \<open>Of the observation only the validator is used.\<close>

record checkout_result =
  cr_validator :: string
  cr_output :: checkout_output

text \<open>The file methods of a session; an edit may panic.\<close>

record 'w file_provider =
  fp_stat :: "fs_path \<Rightarrow> ('w, workdir_error, stat_result) io"
  fp_read :: "read_request \<Rightarrow> ('w, workdir_error, read_result) io"
  fp_write :: "write_request \<Rightarrow> ('w, workdir_error, write_result) io"
  fp_edit :: "edit_request \<Rightarrow> ('w, workdir_error, edit_result option) io"
  fp_checkout_execute :: "checkout_request \<Rightarrow> ('w, workdir_error, checkout_result) io"

record 'w file_target =
  ft_session :: "'w file_provider"
  ft_path :: fs_path
  ft_validator :: "string option"

definition checked ::
  "'w file_target \<Rightarrow> string \<Rightarrow> checkout_operation \<Rightarrow> ('w, tool_error, checkout_output \<times> string option) io" where
  "checked target validator operation =
     io_bind (io_map_err checked_error
       (fp_checkout_execute (ft_session target)
          \<lparr>cq_target = ft_path target, cq_validator = validator, cq_operation = operation\<rparr>)) (\<lambda>result w.
     (Inr (cr_output result, Some (cr_validator result)), w))"

definition regular :: "('w, workdir_error, 'a) io \<Rightarrow> ('w, tool_error, 'a) io" where
  "regular = io_map_err (\<lambda>e. tool_error_of (WorkdirSession e))"

definition target_read ::
  "'w file_target \<Rightarrow> nat \<Rightarrow> nat \<Rightarrow> nat \<Rightarrow> ('w, tool_error, read_result \<times> string option) io" where
  "target_read target offset limit max_bytes =
     (case ft_validator target of
        Some v \<Rightarrow>
          io_bind (checked target v (CoRead offset limit max_bytes)) (\<lambda>(output, validator) w.
            (case output of OutRead result \<Rightarrow> Inr (result, validator) | _ \<Rightarrow> Inl (readonly_result_error ''Read''), w))
      | None \<Rightarrow>
          io_bind (regular (fp_read (ft_session target)
            \<lparr>rr_path = ft_path target, rr_offset = offset, rr_limit = limit, rr_max_bytes = max_bytes\<rparr>))
          (\<lambda>result w. (Inr (result, None), w)))"

definition target_edit ::
  "'w file_target \<Rightarrow> string \<Rightarrow> string \<Rightarrow> bool \<Rightarrow> content_hash
    \<Rightarrow> ('w, tool_error, (edit_result \<times> string option) option) io" where
  "target_edit target old_string new_string replace_all expected_hash =
     (case ft_validator target of
        Some v \<Rightarrow>
          io_bind (checked target v (CoEdit old_string new_string replace_all expected_hash)) (\<lambda>(output, validator) w.
            (case output of OutEdit result \<Rightarrow> Inr (Some (result, validator)) | _ \<Rightarrow> Inl (unknown_result ''Edit''), w))
      | None \<Rightarrow>
          io_bind (regular (fp_edit (ft_session target)
            \<lparr>er_path = ft_path target, er_old_string = old_string, er_new_string = new_string,
             er_replace_all = replace_all, er_expected_hash = expected_hash\<rparr>))
          (\<lambda>result w. (Inr (map_option (\<lambda>result. (result, None)) result), w)))"

definition target_write ::
  "'w file_target \<Rightarrow> string \<Rightarrow> content_hash option \<Rightarrow> fs_path option
    \<Rightarrow> ('w, tool_error, (write_result \<times> string option) option) io" where
  "target_write target content expected_hash create_path =
     (case ft_validator target of
        Some v \<Rightarrow>
          (case (case create_path of
                   Some p \<Rightarrow> Some (CoCreate p content)
                 | None \<Rightarrow> map_option (CoWrite content) expected_hash) of
             None \<Rightarrow> (\<lambda>w. (Inr None, w))
           | Some operation \<Rightarrow>
               io_bind (checked target v operation) (\<lambda>(output, validator) w.
                 (case output of OutWrite result \<Rightarrow> Inr (Some (result, validator))
                  | _ \<Rightarrow> Inl (unknown_result ''Write/Create''), w)))
      | None \<Rightarrow>
          io_bind (regular (fp_write (ft_session target)
            \<lparr>wr_path = ft_path target, wr_content = content, wr_expected_hash = expected_hash\<rparr>))
          (\<lambda>result w. (Inr (Some (result, None)), w)))"

section \<open>Executing a tool on a target\<close>

definition DEFAULT_LIMIT :: nat where
  "DEFAULT_LIMIT = 2000"

definition PROVIDER_BYTE_LIMIT :: nat where
  "PROVIDER_BYTE_LIMIT = 256 * 1024"

text \<open>The output of a tool; these tools return no attachments and no listing.\<close>

record tool_output =
  tl_summary :: string
  tl_content :: "string option"
  tl_paths :: "fs_path list"
  tl_validator :: "string option"

type_synonym 'w tool_run = "tracker \<Rightarrow> 'w \<Rightarrow> (tool_error + tool_output) option \<times> tracker \<times> 'w"

definition render_provider_read :: "string \<Rightarrow> nat \<Rightarrow> nat \<Rightarrow> bool \<Rightarrow> rendered" where
  "render_provider_read s start_line total_lines truncated =
     render_numbered s start_line total_lines truncated PROVIDER_BYTE_LIMIT"

definition read_summary :: "nat \<Rightarrow> fs_path \<Rightarrow> rendered \<Rightarrow> string" where
  "read_summary offset p rendered =
     (if re_truncated rendered
      then ''Read '' @ dec (re_line_count rendered) @ '' line(s) ['' @ dec (sat_add offset 1) @ ''..'' @
        dec (sat_add offset (re_line_count rendered)) @ ''] of '' @ dec (re_total_lines rendered) @ '' from '' @
        fs_path_display p
      else ''Read '' @ dec (re_line_count rendered) @ '' line(s) from '' @ fs_path_display p)"

definition execute_read :: "'w file_target \<Rightarrow> string option \<Rightarrow> line_read_args \<Rightarrow> 'w tool_run" where
  "execute_read target ns args tr w =
     (let (offset, limit) = line_range args DEFAULT_LIMIT; p = ft_path target
      in case target_read target offset limit PROVIDER_BYTE_LIMIT w of
           (Inl e, w) \<Rightarrow> (Some (Inl e), tr, w)
         | (Inr (result, validator), w) \<Rightarrow>
             let tr = record_workdir_observation ns p (rd_content_hash result) (rd_total_lines result) tr
             in case text_read (from_utf8_lossy (rd_bytes result)) text_limits_default of
                  Inl e \<Rightarrow> (Some (Inl (tool_text_error e)), tr, w)
                | Inr txt \<Rightarrow>
                    let rendered = render_provider_read (to_content txt) (rd_start_line result)
                          (rd_total_lines result) (rd_truncated result)
                    in (Some (Inr \<lparr>tl_summary = read_summary offset p rendered, tl_content = Some (re_body rendered),
                          tl_paths = [], tl_validator = validator\<rparr>), tr, w))"

definition make_preview :: "string \<Rightarrow> string \<Rightarrow> string" where
  "make_preview s needle =
     (let lines = str_lines s
      in if lines = [] then []
         else let first_needle_line = (case str_lines needle of [] \<Rightarrow> needle | l # _ \<Rightarrow> l);
                  hit = (case position (\<lambda>l. str_contains first_needle_line l) lines of None \<Rightarrow> 0 | Some i \<Rightarrow> i);
                  start = hit - 3; stop = min (hit + 4) (length lines)
              in concat (map (\<lambda>(i, line). number_prefix (start + i + 1) @ line @ [CHR 0x0A])
                   (enumerate 0 (take (stop - start) (drop start lines)))))"

definition edit_summary :: "fs_path \<Rightarrow> nat \<Rightarrow> string" where
  "edit_summary p replacements =
     ''Edited '' @ fs_path_display p @ '' ('' @ dec replacements @ '' replacement'' @
       (if replacements = 1 then [] else ''s'') @ '')''"

definition execute_edit :: "'w file_target \<Rightarrow> string option \<Rightarrow> edit_args \<Rightarrow> 'w tool_run" where
  "execute_edit target ns args tr w =
     (let p = ft_path target
      in case edit_args_validate args text_limits_default of
           Inl e \<Rightarrow> (Some (Inl (tool_text_error e)), tr, w)
         | Inr _ \<Rightarrow>
             (case expected_workdir_hash ns p tr of
                Inl e \<Rightarrow> (Some (Inl (tool_error_of e)), tr, w)
              | Inr expected_hash \<Rightarrow>
                  (case target_edit target (ea_old_string args) (ea_new_string args) (ea_replace_all args) expected_hash w of
                     (Inl e, w) \<Rightarrow> (Some (Inl e), tr, w)
                   | (Inr None, w) \<Rightarrow> (None, tr, w)
                   | (Inr (Some (result, validator)), w) \<Rightarrow>
                       let tr = record_workdir_edit ns p (es_content_hash result) (es_replacements result)
                             (length (str_lines (ea_new_string args))) (length (str_lines (ea_old_string args))) tr
                       in (Some (Inr \<lparr>tl_summary = edit_summary p (es_replacements result),
                             tl_content = Some (make_preview (ea_new_string args) (ea_new_string args)),
                             tl_paths = [], tl_validator = validator\<rparr>), tr, w))))"

definition write_summary :: "fs_path \<Rightarrow> write_result \<Rightarrow> string" where
  "write_summary p outcome =
     (if ws_created outcome then ''Created'' else ''Overwrote'') @ '' '' @ fs_path_display p @ '' ('' @
       dec (ws_bytes_written outcome) @ '' bytes)''"

text \<open>The hash a write expects: the last observed one, unless the file is to be created.\<close>

definition write_expectation ::
  "'w file_target \<Rightarrow> string option \<Rightarrow> fs_path option \<Rightarrow> tracker \<Rightarrow> ('w, tool_error, content_hash option) io" where
  "write_expectation target ns create_path tr w =
     (if create_path \<noteq> None then (Inr None, w)
      else let p = ft_path target;
               observed = map_err tool_error_of (and_then (expected_workdir_hash ns p tr) (\<lambda>h. Inr (Some h)))
           in if ft_validator target \<noteq> None then (observed, w)
              else case fp_stat (ft_session target) p w of
                     (Inr _, w) \<Rightarrow> (observed, w)
                   | (Inl e, w) \<Rightarrow>
                       (case classification_source e of
                          WNotFound _ \<Rightarrow> Inr None
                        | _ \<Rightarrow> Inl (tool_error_of (WorkdirSession e)), w))"

definition execute_write ::
  "(string \<Rightarrow> content_hash) \<Rightarrow> 'w file_target \<Rightarrow> string option \<Rightarrow> string \<Rightarrow> fs_path option \<Rightarrow> 'w tool_run" where
  "execute_write sha256 target ns content create_path tr w =
     (case text_write content text_limits_default of
        Inl e \<Rightarrow> (Some (Inl (tool_text_error e)), tr, w)
      | Inr txt \<Rightarrow>
          let content = to_content txt; p = (case create_path of None \<Rightarrow> ft_path target | Some p \<Rightarrow> p)
          in case write_expectation target ns create_path tr w of
               (Inl e, w) \<Rightarrow> (Some (Inl e), tr, w)
             | (Inr expected_hash, w) \<Rightarrow>
                 let old_line_count = (case observed_workdir_line_count ns p tr of None \<Rightarrow> 0 | Some n \<Rightarrow> n)
                 in case target_write target content expected_hash create_path w of
                      (Inl e, w) \<Rightarrow> (Some (Inl e), tr, w)
                    | (Inr None, w) \<Rightarrow> (None, tr, w)
                    | (Inr (Some (outcome, validator)), w) \<Rightarrow>
                        let tr = record_workdir_content sha256 ns p content
                              (record_change (length (str_lines content)) old_line_count tr)
                        in (Some (Inr \<lparr>tl_summary = write_summary p outcome, tl_content = None,
                              tl_paths = option_list (map_option (\<lambda>p. [p]) create_path), tl_validator = validator\<rparr>), tr, w))"

section \<open>Routed tools\<close>

text \<open>The session a tool resolves, with the world extended by the router that holds its state.\<close>

definition routed_io ::
  "nat \<times> 's option \<Rightarrow> ('s \<Rightarrow> ('w, workdir_error, 'a) io) \<Rightarrow> (('s, 'b) router \<times> 'w, workdir_error, 'a) io" where
  "routed_io handle call s =
     (case (handle, s) of ((a, view), (r, w)) \<Rightarrow>
        (case routed_operation call view (arc r a) w of (res, st, w) \<Rightarrow> (res, (set_arc a st r, w))))"

definition routed_provider ::
  "('s \<Rightarrow> 'w file_provider) \<Rightarrow> nat \<times> 's option \<Rightarrow> (('s, 'b) router \<times> 'w) file_provider" where
  "routed_provider providers handle =
     \<lparr>fp_stat = (\<lambda>q. routed_io handle (\<lambda>s. fp_stat (providers s) q)),
      fp_read = (\<lambda>q. routed_io handle (\<lambda>s. fp_read (providers s) q)),
      fp_write = (\<lambda>q. routed_io handle (\<lambda>s. fp_write (providers s) q)),
      fp_edit = (\<lambda>q. routed_io handle (\<lambda>s. fp_edit (providers s) q)),
      fp_checkout_execute = (\<lambda>q. routed_io handle (\<lambda>s. fp_checkout_execute (providers s) q))\<rparr>"

record ('w, 's, 'b) tool_context =
  tc_providers :: "'s \<Rightarrow> 'w file_provider"
  tc_capabilities :: "'s \<Rightarrow> capabilities"
  tc_tool_session :: "'b \<Rightarrow> 's"
  tc_sha256 :: "string \<Rightarrow> content_hash"

definition resolve_session ::
  "('w, 's, 'b) tool_context \<Rightarrow> string option \<Rightarrow> session_capability \<Rightarrow> ('s, 'b) router
    \<Rightarrow> tool_error + 's resolved_session" where
  "resolve_session tc target_workdir required r =
     and_then (map_err (\<lambda>e. ToolInvalidArgument (RouteMessage e)) (router_resolve (tc_tool_session tc) target_workdir r))
       (\<lambda>selected. case rv_session selected of (a, view) \<Rightarrow>
          if supports (tc_capabilities tc (routed_inner view (arc r a))) required then Inr selected
          else Inl (tool_error_of (WorkdirSession (WUnsupported required))))"

definition attachment_namespace :: "'s resolved_session \<Rightarrow> string" where
  "attachment_namespace selected = scoped_attachment (rv_alias selected) (unat (rv_generation selected))"

definition run_tool ::
  "('w, 's, 'b) tool_context \<Rightarrow> session_capability \<Rightarrow> (string \<Rightarrow> fs_error + fs_path) \<Rightarrow> string option \<Rightarrow> string
    \<Rightarrow> ((('s, 'b) router \<times> 'w) file_target \<Rightarrow> string option \<Rightarrow> (('s, 'b) router \<times> 'w) tool_run)
    \<Rightarrow> (('s, 'b) router \<times> 'w) tool_run" where
  "run_tool tc required parse target_workdir file_path execute tr s =
     (case resolve_session tc target_workdir required (fst s) of
        Inl e \<Rightarrow> (Some (Inl e), tr, s)
      | Inr selected \<Rightarrow>
          (case parse file_path of
             Inl e \<Rightarrow> (Some (Inl (tool_error_of (FileSystem e))), tr, s)
           | Inr p \<Rightarrow>
               execute \<lparr>ft_session = routed_provider (tc_providers tc) (rv_session selected), ft_path = p, ft_validator = None\<rparr>
                 (Some (attachment_namespace selected)) tr s))"

definition read_tool ::
  "('w, 's, 'b) tool_context \<Rightarrow> string option \<Rightarrow> string \<Rightarrow> line_read_args \<Rightarrow> (('s, 'b) router \<times> 'w) tool_run" where
  "read_tool tc target_workdir file_path args =
     run_tool tc CapRead fs_path_new_scoped target_workdir file_path (\<lambda>target ns. execute_read target ns args)"

definition edit_tool ::
  "('w, 's, 'b) tool_context \<Rightarrow> string option \<Rightarrow> string \<Rightarrow> edit_args \<Rightarrow> (('s, 'b) router \<times> 'w) tool_run" where
  "edit_tool tc target_workdir file_path args =
     run_tool tc CapEdit fs_path_new target_workdir file_path (\<lambda>target ns. execute_edit target ns args)"

definition write_tool ::
  "('w, 's, 'b) tool_context \<Rightarrow> string option \<Rightarrow> string \<Rightarrow> string \<Rightarrow> (('s, 'b) router \<times> 'w) tool_run" where
  "write_tool tc target_workdir file_path content =
     run_tool tc CapWrite fs_path_new target_workdir file_path
       (\<lambda>target ns. execute_write (tc_sha256 tc) target ns content None)"

text \<open>Tools over local sessions.\<close>

definition local_provider ::
  "(io_kind \<Rightarrow> string) \<Rightarrow> (string \<Rightarrow> content_hash) \<Rightarrow> 'w host
    \<Rightarrow> ('w session \<Rightarrow> checkout_request \<Rightarrow> ('w, workdir_error, checkout_result) io) \<Rightarrow> 'w session \<Rightarrow> 'w file_provider" where
  "local_provider kind_text sha256 host checkout se =
     \<lparr>fp_stat = session_stat kind_text host se, fp_read = session_read kind_text sha256 host se,
      fp_write = session_write kind_text sha256 host se, fp_edit = session_edit kind_text sha256 host se,
      fp_checkout_execute = checkout se\<rparr>"

end
