(* ===== verification/Fs_Text_Properties.thy ===== *)
theory Fs_Text_Properties
  imports Fs_Text
begin

text \<open>
  Correctness of the text operations: the checked edit against the leftmost splitting of a text
  at a pattern, the byte bound and the UTF-8 validity of numbered rendering, and the byte bound of
  reads.
\<close>

section \<open>Valid UTF-8 around a pattern\<close>

lemma utf8_valid_hd:
  assumes "utf8_valid s" "s \<noteq> []"
  shows "\<not> is_cont (hd s)"
proof -
  obtain b bs where s: "s = b # bs" using assms(2) by (cases s) auto
  with assms(1) have "utf8_seq (b # take (char_len b - 1) bs)" by (simp add: utf8_valid_def)
  then show ?thesis
    by (cases "b # take (char_len b - 1) bs" rule: utf8_seq.cases) (auto simp: s is_cont_def)
qed

lemma boundary_append:
  assumes "utf8_valid b"
  shows "is_char_boundary (a @ b) (length a)"
  using utf8_valid_hd [OF assms] by (cases b) (auto simp: is_char_boundary_def nth_append)

lemma utf8_valid_before:
  assumes "utf8_valid (pre @ pat @ rest)" "utf8_valid pat" "pat \<noteq> []"
  shows "utf8_valid pre"
proof -
  have "is_char_boundary (pre @ pat @ rest) (length pre)"
    using utf8_valid_hd [OF assms(2,3)] assms(3)
    by (cases pat) (auto simp: is_char_boundary_def nth_append)
  from utf8_valid_take [OF assms(1) this] show ?thesis by simp
qed

section \<open>Splitting at a pattern\<close>

text \<open>The pieces of a text between occurrences of a pattern, joined again.\<close>

fun joined :: "string \<Rightarrow> string list \<Rightarrow> string" where
  "joined sep [] = []"
| "joined sep [p] = p"
| "joined sep (p # q # ps) = p @ sep @ joined sep (q # ps)"

text \<open>The pattern after a piece is its first occurrence.\<close>

definition leftmost :: "string \<Rightarrow> string \<Rightarrow> bool" where
  "leftmost pat p \<longleftrightarrow> (\<forall>j < length p. \<not> prefix pat (drop j (p @ pat)))"

definition leftmost_split :: "string \<Rightarrow> string \<Rightarrow> string list \<Rightarrow> bool" where
  "leftmost_split pat s ps \<longleftrightarrow> ps \<noteq> [] \<and> s = joined pat ps \<and>
     (\<forall>p \<in> set (butlast ps). leftmost pat p) \<and> \<not> sublist pat (last ps)"

fun piece_starts :: "nat \<Rightarrow> nat \<Rightarrow> string list \<Rightarrow> nat list" where
  "piece_starts i n (p # q # ps) = (i + length p) # piece_starts (i + length p + n) n (q # ps)"
| "piece_starts i n _ = []"

lemma joined_Cons: "ps \<noteq> [] \<Longrightarrow> joined sep (p # ps) = p @ sep @ joined sep ps"
  by (cases ps) auto

lemma length_piece_starts: "length (piece_starts i n ps) = length ps - 1"
  by (induction i n ps rule: piece_starts.induct) auto

lemma leftmost_Nil [simp]: "leftmost pat []"
  by (simp add: leftmost_def)

lemma leftmost_Cons:
  "leftmost pat (c # p) \<longleftrightarrow> \<not> prefix pat (c # p @ pat) \<and> leftmost pat p"
  by (auto simp: leftmost_def less_Suc_eq_0_disj)

lemma leftmost_split_prefix:
  assumes "leftmost_split pat s ps"
  shows "leftmost_split pat (pat @ s) ([] # ps)"
  using assms by (auto simp: leftmost_split_def joined_Cons)

lemma leftmost_split_step:
  assumes "leftmost_split pat s (p # ps)" "\<not> prefix pat (c # s)"
  shows "leftmost_split pat (c # s) ((c # p) # ps)"
proof (cases ps)
  case Nil
  with assms show ?thesis by (auto simp: leftmost_split_def sublist_Cons_right)
next
  case (Cons q qs)
  have "\<not> prefix pat (c # p @ pat)"
  proof
    assume "prefix pat (c # p @ pat)"
    then have "prefix pat ((c # p @ pat) @ joined pat ps)" by (rule prefix_prefix)
    with assms Cons show False by (simp add: leftmost_split_def)
  qed
  with assms(1) Cons show ?thesis by (auto simp: leftmost_split_def leftmost_Cons)
qed

lemma match_from_split:
  assumes "pat \<noteq> []"
  shows "\<exists>ps. leftmost_split pat s ps \<and> match_from pat i s = piece_starts i (length pat) ps"
  using assms
proof (induction pat i s rule: match_from.induct)
  case (1 pat i s)
  show ?case
  proof (cases "s = []")
    case True
    then show ?thesis
      by (intro exI [of _ "[[]]"]) (simp add: leftmost_split_def 1(3) match_from.simps [of pat i])
  next
    case s: False
    show ?thesis
    proof (cases "prefix pat s")
      case True
      then obtain ps where "leftmost_split pat (drop (length pat) s) ps"
        "match_from pat (i + length pat) (drop (length pat) s) = piece_starts (i + length pat) (length pat) ps"
        using 1(1) 1(3) s by blast
      moreover from this(1) obtain p qs where "ps = p # qs" by (cases ps) (auto simp: leftmost_split_def)
      ultimately show ?thesis using leftmost_split_prefix [of pat "drop (length pat) s" ps] True s 1(3)
        by (intro exI [of _ "[] # ps"]) (auto simp: match_from.simps [of pat i] prefix_def)
    next
      case False
      then obtain ps where ps: "leftmost_split pat (tl s) ps"
        "match_from pat (Suc i) (tl s) = piece_starts (Suc i) (length pat) ps"
        using 1(2) 1(3) s by blast
      moreover from this(1) obtain p qs where p: "ps = p # qs" by (cases ps) (auto simp: leftmost_split_def)
      moreover obtain c s' where c: "s = c # s'" using s by (cases s) auto
      ultimately show ?thesis using leftmost_split_step [of pat s' p qs c] False 1(3)
        by (intro exI [of _ "(c # p) # qs"]) (cases qs; auto simp: match_from.simps [of pat i])
    qed
  qed
qed

lemma joined_eq_Nil: "joined pat ps = [] \<Longrightarrow> pat \<noteq> [] \<Longrightarrow> ps \<noteq> [] \<Longrightarrow> ps = [[]]"
  by (cases ps rule: remdups_adj.cases) auto

lemma leftmost_split_prefixD:
  assumes "leftmost_split pat (pat @ s) ps" "pat \<noteq> []"
  shows "\<exists>qs. ps = [] # qs \<and> leftmost_split pat s qs"
proof (cases ps rule: remdups_adj.cases)
  case (2 p)
  with assms show ?thesis by (auto simp: leftmost_split_def)
next
  case (3 p q qs)
  have "p = []"
  proof (rule ccontr)
    assume "p \<noteq> []"
    with assms(1) 3 have "\<not> prefix pat (p @ pat)" by (auto simp: leftmost_split_def leftmost_def)
    moreover have "prefix pat (p @ pat @ joined pat (q # qs))"
      using assms(1) 3 by (auto simp: leftmost_split_def) (metis prefixI)
    ultimately show False
      by (metis append.assoc length_append le_add2 prefix_length_prefix prefixI)
  qed
  with assms(1) 3 show ?thesis by (auto simp: leftmost_split_def)
qed (use assms in \<open>auto simp: leftmost_split_def\<close>)

lemma leftmost_split_stepD:
  assumes "leftmost_split pat (c # s) ps" "\<not> prefix pat (c # s)"
  shows "\<exists>p qs. ps = (c # p) # qs \<and> leftmost_split pat s (p # qs)"
proof (cases ps rule: remdups_adj.cases)
  case (2 p)
  with assms(1) show ?thesis by (auto simp: leftmost_split_def sublist_Cons_right)
next
  case (3 p q qs)
  then obtain p' where "p = c # p'" "s = p' @ pat @ joined pat (q # qs)"
    using assms by (cases p) (auto simp: leftmost_split_def)
  with assms(1) 3 show ?thesis by (auto simp: leftmost_split_def leftmost_Cons)
qed (use assms in \<open>auto simp: leftmost_split_def\<close>)

lemma leftmost_split_unique:
  assumes "leftmost_split pat s ps" "leftmost_split pat s qs" "pat \<noteq> []"
  shows "ps = qs"
  using assms
proof (induction "length s" arbitrary: s ps qs rule: less_induct)
  case less
  show ?case
  proof (cases "prefix pat s")
    case True
    then obtain t where s: "s = pat @ t" by (auto simp: prefix_def)
    obtain ps' qs' where "ps = [] # ps'" "leftmost_split pat t ps'" "qs = [] # qs'" "leftmost_split pat t qs'"
      using leftmost_split_prefixD less.prems unfolding s by metis
    with less.hyps [of t ps' qs'] less.prems(3) show ?thesis by (simp add: s)
  next
    case False
    show ?thesis
    proof (cases s)
      case Nil
      with less.prems show ?thesis unfolding leftmost_split_def by (metis joined_eq_Nil)
    next
      case (Cons c t)
      obtain p ps' q qs' where "ps = (c # p) # ps'" "leftmost_split pat t (p # ps')"
        "qs = (c # q) # qs'" "leftmost_split pat t (q # qs')"
        using leftmost_split_stepD False less.prems unfolding Cons by metis
      with less.hyps [of t "p # ps'" "q # qs'"] less.prems(3) show ?thesis by (simp add: Cons)
    qed
  qed
qed

lemma match_indices_split:
  assumes "pat \<noteq> []" "leftmost_split pat s ps"
  shows "match_indices pat s = piece_starts 0 (length pat) ps"
  using match_from_split [OF assms(1), of s 0] leftmost_split_unique [OF _ assms(2,1)] assms(1)
  by (auto simp: match_indices_def)

section \<open>The edited text\<close>

lemma splice_joined:
  assumes "utf8_valid (pre @ joined old ps)" "utf8_valid pre" "utf8_valid old" "old \<noteq> []" "ps \<noteq> []"
  shows "splice_matches (pre @ joined old ps) old new (piece_starts (length pre) (length old) ps) (length pre) content
    = Some (content @ joined new ps)"
  using assms
proof (induction ps arbitrary: pre content rule: induct_list012)
  case (2 p)
  then have "is_char_boundary (pre @ p) (length pre)"
    using boundary_append [of p pre] utf8_valid_append by simp
  then show ?case by (simp add: str_slice_def is_char_boundary_def)
next
  case (3 p q ps)
  let ?pre = "pre @ p @ old" and ?rest = "joined old (q # ps)"
  have whole: "pre @ joined old (p # q # ps) = ?pre @ ?rest" by simp
  have prep: "utf8_valid (pre @ p)"
    using utf8_valid_before [of "pre @ p" old ?rest] 3(3,5,6) by simp
  have p: "utf8_valid p" using prep 3(4) utf8_valid_append by blast
  have "utf8_valid ?pre" using prep 3(5) utf8_valid_append [of "pre @ p" old] by simp
  moreover have "utf8_valid (?pre @ ?rest)" using 3(3) whole by simp
  ultimately have IH: "splice_matches (?pre @ ?rest) old new (piece_starts (length ?pre) (length old) (q # ps))
      (length ?pre) (content @ p @ new) = Some ((content @ p @ new) @ joined new (q # ps))"
    using 3(2) [of ?pre "content @ p @ new"] 3(5,6) by simp
  have "is_char_boundary (pre @ p @ old @ ?rest) (length pre)"
    using boundary_append [of "p @ old @ ?rest" pre] 3(3,4) utf8_valid_append [of pre "p @ old @ ?rest"] by simp
  moreover have "is_char_boundary ((pre @ p) @ old @ ?rest) (length (pre @ p))"
    using boundary_append [of "old @ ?rest" "pre @ p"] 3(3) prep
      utf8_valid_append [of "pre @ p" "old @ ?rest"] by simp
  ultimately have "str_slice (pre @ p @ old @ ?rest) (length pre) (length pre + length p) = Some p"
    by (simp add: str_slice_def)
  with IH show ?case by (simp add: add.assoc)
qed simp

lemma length_joined:
  "ps \<noteq> [] \<Longrightarrow> length (joined sep ps) = sum_list (map length ps) + length sep * (length ps - 1)"
  by (induction ps rule: induct_list012) auto

lemma edited_len_joined:
  assumes "ps \<noteq> []" "length (joined old ps) \<le> isize_max"
  shows "edited_len (length (joined old ps)) (length old) (length new) (length ps - 1) =
    (if length (joined new ps) \<le> isize_max then Inr (length (joined new ps)) else Inl TextOverflow)"
proof -
  let ?k = "length ps - 1" and ?t = "sum_list (map length ps)"
  have old: "length (joined old ps) = ?t + length old * ?k" and new: "length (joined new ps) = ?t + length new * ?k"
    using length_joined [OF assms(1)] by simp_all
  have "length old * ?k \<le> usize_max" "\<not> usize_max < ?t" using assms(2) isize_max_le old by linarith+
  then show ?thesis using isize_max_le
    by (auto simp: edited_len_def checked_mul_def checked_sub_def checked_add_def old new
        split: option.splits)
qed

definition within :: "nat option \<Rightarrow> nat \<Rightarrow> bool" where
  "within limit n \<longleftrightarrow> (case limit of None \<Rightarrow> True | Some l \<Rightarrow> n \<le> l)"

lemma check_within:
  "check_input_bytes n limits = Inr u \<longleftrightarrow> within (tl_max_input_bytes limits) n"
  "check_output_bytes n limits = Inr u \<longleftrightarrow> within (tl_max_output_bytes limits) n"
  "check_replacements n limits = Inr u \<longleftrightarrow> within (tl_max_replacements limits) n"
  by (auto simp: check_input_bytes_def check_output_bytes_def check_replacements_def within_def
      split: option.splits)

lemma edit_args_validate_iff:
  "edit_args_validate args limits = Inr u \<longleftrightarrow>
     ea_old_string args \<noteq> [] \<and> ea_old_string args \<noteq> ea_new_string args \<and>
     within (tl_max_input_bytes limits) (length (ea_old_string args)) \<and>
     within (tl_max_input_bytes limits) (length (ea_new_string args))"
  by (auto simp: edit_args_validate_def and_then_Inr_iff check_within)

text \<open>What an edit accepts: the arguments, the sizes, and the number of occurrences.\<close>

definition edit_accepts :: "string \<Rightarrow> edit_args \<Rightarrow> text_limits \<Rightarrow> string list \<Rightarrow> bool" where
  "edit_accepts original args limits ps \<longleftrightarrow>
     (let old = ea_old_string args; new = ea_new_string args
      in old \<noteq> [] \<and> old \<noteq> new \<and> leftmost_split old original ps \<and>
         (\<forall>s \<in> {old, new, original}. within (tl_max_input_bytes limits) (length s)) \<and>
         1 < length ps \<and> (ea_replace_all args \<or> length ps = 2) \<and>
         within (tl_max_replacements limits) (length ps - 1) \<and>
         length (joined new ps) \<le> isize_max \<and>
         within (tl_max_output_bytes limits) (length (joined new ps)))"

lemma edit_valid_eq:
  assumes "utf8_valid original" "utf8_valid (ea_old_string args)" "length original \<le> isize_max"
    and "ea_old_string args \<noteq> []" "leftmost_split (ea_old_string args) original ps"
    and "edit_args_validate args limits = Inr ()" "check_input_bytes (length original) limits = Inr ()"
  shows "edit original args limits =
    (if length ps = 1 then Some (Inl TextNotFound)
     else if \<not> ea_replace_all args \<and> length ps \<noteq> 2 then Some (Inl (MultipleMatches (length ps - 1)))
     else case and_then (check_replacements (length ps - 1) limits)
            (\<lambda>_. if isize_max < length (joined (ea_new_string args) ps) then Inl TextOverflow
                 else check_output_bytes (length (joined (ea_new_string args) ps)) limits) of
            Inl e \<Rightarrow> Some (Inl e)
          | Inr _ \<Rightarrow> Some (Inr \<lparr>eo_content = joined (ea_new_string args) ps, eo_replacements = length ps - 1,
                                 eo_bytes_written = length (joined (ea_new_string args) ps)\<rparr>))"
proof -
  let ?old = "ea_old_string args" and ?new = "ea_new_string args"
  have ps: "ps \<noteq> []" "original = joined ?old ps" using assms(5) by (simp_all add: leftmost_split_def)
  have starts: "match_indices ?old original = piece_starts 0 (length ?old) ps"
    by (rule match_indices_split [OF assms(4,5)])
  have n: "length (match_indices ?old original) = length ps - 1"
    by (simp add: starts length_piece_starts)
  have spliced: "splice_matches original ?old ?new (match_indices ?old original) 0 [] = Some (joined ?new ps)"
    using splice_joined [of "[]" ?old ps ?new "[]"] assms(1,2,4) ps(1)
    unfolding starts ps(2) [symmetric] by (simp add: utf8_valid_def ps(2) [symmetric])
  have len: "edited_len (length original) (length ?old) (length ?new) (length ps - 1) =
      (if length (joined ?new ps) \<le> isize_max then Inr (length (joined ?new ps)) else Inl TextOverflow)"
    using edited_len_joined [of ps ?old ?new] assms(3) ps by simp
  obtain k where k: "length ps = Suc k" using ps(1) by (cases ps) auto
  show ?thesis
    using n len unfolding edit_def Let_def spliced
    by (cases "check_replacements k limits"; cases "check_output_bytes (length (joined ?new ps)) limits")
      (auto simp: assms(6,7) k simp del: length_0_conv)
qed

lemma leftmost_split_exists: "pat \<noteq> [] \<Longrightarrow> \<exists>ps. leftmost_split pat s ps"
  using match_from_split by blast

lemma utf8_valid_joined:
  assumes "utf8_valid (joined old ps)" "utf8_valid old" "utf8_valid new" "old \<noteq> []"
  shows "utf8_valid (joined new ps)"
  using assms(1)
proof (induction ps rule: induct_list012)
  case (3 p q ps)
  have p: "utf8_valid p" using utf8_valid_before [of p old "joined old (q # ps)"] 3(3) assms(2,4) by simp
  have "utf8_valid (joined old (q # ps))"
    using 3(3) utf8_valid_append [OF p] utf8_valid_append [OF assms(2)] by simp
  then show ?case using 3(2) utf8_valid_append [OF p] utf8_valid_append [OF assms(3)] by simp
qed simp_all

lemma edit_decided:
  assumes "utf8_valid original" "utf8_valid (ea_old_string args)" "utf8_valid (ea_new_string args)"
    and "length original \<le> isize_max"
  shows "\<exists>r. edit original args limits = Some r \<and>
    (\<forall>out. r = Inr out \<longleftrightarrow>
       (\<exists>ps. edit_accepts original args limits ps \<and>
          out = \<lparr>eo_content = joined (ea_new_string args) ps, eo_replacements = length ps - 1,
                 eo_bytes_written = length (joined (ea_new_string args) ps)\<rparr>)) \<and>
    (\<forall>out. r = Inr out \<longrightarrow> utf8_valid (eo_content out))"
proof (cases "edit_args_validate args limits = Inr () \<and> check_input_bytes (length original) limits = Inr ()")
  case True
  then have old: "ea_old_string args \<noteq> []" by (simp add: edit_args_validate_iff)
  obtain ps where ps: "leftmost_split (ea_old_string args) original ps"
    using leftmost_split_exists [OF old] by blast
  then have ne: "ps \<noteq> []" and orig: "original = joined (ea_old_string args) ps"
    by (simp_all add: leftmost_split_def)
  have accepts: "edit_accepts original args limits qs \<Longrightarrow> qs = ps" for qs
    using leftmost_split_unique [OF _ ps old] by (auto simp: edit_accepts_def Let_def)
  have valid: "utf8_valid (joined (ea_new_string args) ps)"
    using utf8_valid_joined [of "ea_old_string args"] assms(1-3) old orig by blast
  note eq = edit_valid_eq [OF assms(1,2,4) old ps conjunct1 [OF True] conjunct2 [OF True]]
  have ok: "edit_accepts original args limits ps \<longleftrightarrow>
      length ps \<noteq> 1 \<and> (ea_replace_all args \<or> length ps = 2) \<and>
      check_replacements (length ps - 1) limits = Inr () \<and>
      length (joined (ea_new_string args) ps) \<le> isize_max \<and>
      check_output_bytes (length (joined (ea_new_string args) ps)) limits = Inr ()"
    using True ps ne by (cases ps) (auto simp: edit_accepts_def Let_def check_within edit_args_validate_iff)
  show ?thesis
  proof (cases "edit_accepts original args limits ps")
    case True
    with ok have run: "edit original args limits = Some (Inr \<lparr>eo_content = joined (ea_new_string args) ps,
        eo_replacements = length ps - 1, eo_bytes_written = length (joined (ea_new_string args) ps)\<rparr>)"
      by (simp add: eq)
    have unique: "edit_accepts original args limits qs \<longleftrightarrow> qs = ps" for qs using True accepts by blast
    show ?thesis by (simp add: run unique valid eq_commute)
  next
    case False
    then have "\<not> edit_accepts original args limits qs" for qs using accepts by blast
    moreover have "\<exists>e. edit original args limits = Some (Inl e)"
      using False unfolding ok eq
      by (cases "check_replacements (length ps - 1) limits";
          cases "check_output_bytes (length (joined (ea_new_string args) ps)) limits") auto
    ultimately show ?thesis by auto
  qed
next
  case False
  then obtain e where "and_then (edit_args_validate args limits)
      (\<lambda>_. check_input_bytes (length original) limits) = Inl e"
    by (cases "edit_args_validate args limits"; cases "check_input_bytes (length original) limits") auto
  then have "edit original args limits = Some (Inl e)" by (simp add: edit_def)
  moreover have "\<not> edit_accepts original args limits ps" for ps
    using False by (auto simp: edit_accepts_def Let_def check_within edit_args_validate_iff)
  ultimately show ?thesis by auto
qed

lemma edit_success:
  assumes "edit original args limits = Some (Inr out)"
    and "utf8_valid original" "utf8_valid (ea_old_string args)" "utf8_valid (ea_new_string args)"
    and "length original \<le> isize_max"
  obtains ps where "edit_accepts original args limits ps"
    "out = \<lparr>eo_content = joined (ea_new_string args) ps, eo_replacements = length ps - 1,
            eo_bytes_written = length (joined (ea_new_string args) ps)\<rparr>"
proof -
  obtain r where r: "edit original args limits = Some r" "\<forall>out. r = Inr out \<longleftrightarrow>
      (\<exists>ps. edit_accepts original args limits ps \<and>
        out = \<lparr>eo_content = joined (ea_new_string args) ps, eo_replacements = length ps - 1,
               eo_bytes_written = length (joined (ea_new_string args) ps)\<rparr>)"
    using edit_decided [OF assms(2-5), of limits] by blast
  with assms(1) have "r = Inr out" by simp
  with r(2) that show thesis by blast
qed

lemma edit_total:
  assumes "utf8_valid original" "utf8_valid (ea_old_string args)" "utf8_valid (ea_new_string args)"
    and "length original \<le> isize_max"
  shows "edit original args limits \<noteq> None"
  using edit_decided [OF assms, of limits] by auto

text \<open>
  C38. The checked edit never panics on valid UTF-8.  It succeeds exactly when the arguments, the
  sizes and the number of occurrences are accepted; then its result is the text with the leftmost
  non-overlapping occurrences of the old string replaced, together with their number and the exact
  length of the new text, which is valid UTF-8 again.
\<close>

theorem edit_exact:
  assumes "utf8_valid original" "utf8_valid (ea_old_string args)" "utf8_valid (ea_new_string args)"
    and "length original \<le> isize_max"
  shows "\<exists>r. edit original args limits = Some r \<and>
    (\<forall>out. r = Inr out \<longleftrightarrow>
       (\<exists>ps. edit_accepts original args limits ps \<and>
          out = \<lparr>eo_content = joined (ea_new_string args) ps, eo_replacements = length ps - 1,
                 eo_bytes_written = length (joined (ea_new_string args) ps)\<rparr>)) \<and>
    (\<forall>out. r = Inr out \<longrightarrow> utf8_valid (eo_content out))"
  by (rule edit_decided [OF assms])

theorem edit_exact_witness:
  "\<exists>out. edit ''aXbXc'' \<lparr>ea_old_string = ''X'', ea_new_string = ''--'', ea_replace_all = True\<rparr>
       text_limits_default = Some (Inr out) \<and> utf8_valid (eo_content out) \<and>
     eo_content out = ''a--b--c'' \<and> eo_replacements out = 2 \<and> eo_bytes_written out = 7"
proof -
  let ?args = "\<lparr>ea_old_string = ''X'', ea_new_string = ''--'', ea_replace_all = True\<rparr>"
  have valid: "utf8_valid ''aXbXc''" "utf8_valid (ea_old_string ?args)" "utf8_valid (ea_new_string ?args)"
    by code_simp+
  have len: "length ''aXbXc'' \<le> isize_max" by (simp add: isize_max_def)
  have starts: "match_indices ''X'' ''aXbXc'' = [1, 3]" by code_simp
  have spliced: "splice_matches ''aXbXc'' ''X'' ''--'' [1, 3] 0 [] = Some ''a--b--c''" by code_simp
  have len5: "edited_len (Suc (Suc (Suc (Suc (Suc 0))))) (Suc 0) (Suc (Suc 0)) (Suc (Suc 0)) = Inr 7"
    by (simp add: edited_len_def checked_mul_def checked_sub_def checked_add_def usize_max_def isize_max_def)
  have run: "edit ''aXbXc'' ?args text_limits_default =
      Some (Inr \<lparr>eo_content = ''a--b--c'', eo_replacements = 2, eo_bytes_written = 7\<rparr>)"
    using spliced by (simp add: edit_def starts len5 numeral_2_eq_2 edit_args_validate_def
      check_input_bytes_def check_output_bytes_def check_replacements_def text_limits_default_def)
  obtain r where "edit ''aXbXc'' ?args text_limits_default = Some r"
    "\<forall>out. r = Inr out \<longrightarrow> utf8_valid (eo_content out)"
    using edit_exact [OF valid len, of text_limits_default] by blast
  with run show ?thesis by simp
qed

section \<open>Numbered rendering\<close>

text \<open>The numbered text without a bound.\<close>

fun numbered :: "nat \<Rightarrow> nat \<Rightarrow> string list \<Rightarrow> string" where
  "numbered start_line index [] = []"
| "numbered start_line index (line # lines) =
     number_prefix (sat_add (sat_add start_line index) 1) @ line @ [CHR 0x0A] @
     numbered start_line (Suc index) lines"

lemma utf8_valid_Nil [simp]: "utf8_valid []"
  by (simp add: utf8_valid_def)

lemma utf8_valid_appendI: "utf8_valid a \<Longrightarrow> utf8_valid b \<Longrightarrow> utf8_valid (a @ b)"
  by (simp add: utf8_valid_append)

lemma push_fragments_prefix: "prefix (push_fragments r fs) (concat fs)"
  by (induction fs arbitrary: r) (auto simp: Let_def take_is_prefix)

lemma length_push_fragments: "length (push_fragments r fs) \<le> r"
proof (induction fs arbitrary: r)
  case (Cons f fs)
  define cut where "cut = floor_boundary f (min r (length f))"
  have "cut \<le> r" "cut \<le> length f"
    using floor_boundary_le [of f "min r (length f)"] by (simp_all add: cut_def)
  moreover have "push_fragments r (f # fs) =
      take cut f @ (if cut < length f then [] else push_fragments (r - cut) fs)"
    by (simp add: cut_def Let_def)
  ultimately show ?case using Cons.IH [of "r - cut"] by (auto split: if_splits)
qed simp

lemma floor_boundary_length: "floor_boundary f (length f) = length f"
  by (cases "length f") (auto simp: is_char_boundary_def)

lemma push_fragments_all: "length (concat fs) \<le> r \<Longrightarrow> push_fragments r fs = concat fs"
proof (induction fs arbitrary: r)
  case (Cons f fs)
  then have "min r (length f) = length f" by simp
  with Cons show ?case by (simp add: floor_boundary_length)
qed simp

lemma utf8_valid_push_fragments:
  "list_all utf8_valid fs \<Longrightarrow> utf8_valid (push_fragments r fs)"
proof (induction fs arbitrary: r)
  case (Cons f fs)
  let ?cut = "floor_boundary f (min r (length f))"
  have "?cut \<le> length f" using floor_boundary_le [of f "min r (length f)"] by simp
  with Cons.prems have "utf8_valid (take ?cut f)"
    by (auto intro: utf8_valid_take floor_boundary_is_boundary)
  with Cons show ?case by (auto simp: Let_def intro: utf8_valid_appendI)
qed simp

lemma digit_char_ascii: "n < 10 \<Longrightarrow> byte_of (digit_char n) < 128"
  by (simp add: digit_char_def byte_of_def)

lemma utf8_valid_number_prefix: "utf8_valid (number_prefix n)"
  using dec_ascii [of n]
  by (intro utf8_valid_ascii) (auto simp: number_prefix_def list_all_iff byte_of_def)

lemma length_number_prefix: "n \<le> usize_max \<Longrightarrow> length (number_prefix n) \<le> 21"
  using length_dec [of n 20] by (simp add: number_prefix_def usize_max_def)

lemma utf8_valid_marker_take: "utf8_valid (take m rendered_truncation_marker)"
proof (rule utf8_valid_ascii)
  have "list_all (\<lambda>c. byte_of c < 128) rendered_truncation_marker" by code_simp
  then show "list_all (\<lambda>c. byte_of c < 128) (take m rendered_truncation_marker)"
    by (auto simp: list_all_iff dest: in_set_takeD)
qed

lemma utf8_valid_snoc_ascii:
  assumes "utf8_valid (s @ [c])" "byte_of c < 128"
  shows "utf8_valid s"
  using utf8_valid_before [of s "[c]" "[]"] utf8_valid_ascii [of "[c]"] assms by simp

lemma utf8_valid_lines_from:
  assumes "utf8_valid (cur @ s)"
  shows "list_all utf8_valid (lines_from cur s)"
  using assms
proof (induction cur s rule: lines_from.induct)
  case (2 cur c s)
  show ?case
  proof (cases "c = CHR 0x0A")
    case True
    have nl: "utf8_valid [c]" by (rule utf8_valid_ascii) (simp add: True byte_of_def)
    have cur: "utf8_valid cur" using utf8_valid_before [of cur "[c]" s] nl 2(3) by simp
    then have "utf8_valid (strip_cr cur)"
      by (cases cur rule: rev_cases) (auto simp: strip_cr_def byte_of_def dest: utf8_valid_snoc_ascii)
    moreover have "utf8_valid s" using 2(3) utf8_valid_append [OF cur] utf8_valid_append [OF nl, of s] by simp
    ultimately show ?thesis using 2(1) True by simp
  next
    case False
    with 2(2,3) show ?thesis by simp
  qed
qed simp

lemma utf8_valid_lines: "utf8_valid s \<Longrightarrow> list_all utf8_valid (str_lines s)"
  using utf8_valid_lines_from [of "[]" s] by (simp add: str_lines_def)

lemma length_lines_le: "line \<in> set (lines_from cur s) \<Longrightarrow> length line \<le> length cur + length s"
proof (induction cur s rule: lines_from.induct)
  case (2 cur c s)
  have "length (strip_cr cur) \<le> length cur" by (simp add: strip_cr_def)
  with 2 show ?case by (cases "c = CHR 0x0A") fastforce+
qed (simp split: if_splits)

definition numbered_row :: "nat \<Rightarrow> nat \<Rightarrow> string \<Rightarrow> string" where
  "numbered_row start_line index line =
     number_prefix (sat_add (sat_add start_line index) 1) @ line @ [CHR 0x0A]"

lemma numbered_Cons:
  "numbered start_line index (line # lines) =
     numbered_row start_line index line @ numbered start_line (Suc index) lines"
  by (simp add: numbered_row_def)

lemma render_lines_Cons:
  assumes "length line \<le> isize_max" "line_count < usize_max" "utf8_valid line"
  obtains p where "prefix p (numbered_row start_line index line)" "length p \<le> budget - length body"
    "utf8_valid p"
    "render_lines max_bytes budget start_line index (line # lines) body line_count =
      (if budget - length body < length (numbered_row start_line index line)
       then (body @ p @ take (min (max_bytes - length (body @ p)) (length rendered_truncation_marker))
                          rendered_truncation_marker,
             if 0 < budget - length body then Suc line_count else line_count, True)
       else render_lines max_bytes budget start_line (Suc index) lines
              (body @ numbered_row start_line index line) (Suc line_count))"
proof
  let ?pre = "number_prefix (sat_add (sat_add start_line index) 1)"
  let ?room = "budget - length body"
  define frags where "frags = [?pre, line, [CHR 0x0A]]"
  let ?p = "push_fragments ?room frags"
  have row: "numbered_row start_line index line = concat frags" by (simp add: numbered_row_def frags_def)
  show "prefix ?p (numbered_row start_line index line)" unfolding row by (rule push_fragments_prefix)
  show "length ?p \<le> ?room" by (rule length_push_fragments)
  have "utf8_valid [CHR 0x0A]" by (rule utf8_valid_ascii) (simp add: byte_of_def)
  then show "utf8_valid ?p"
    by (intro utf8_valid_push_fragments) (simp add: frags_def utf8_valid_number_prefix assms(3))
  have "length ?pre \<le> 21" by (rule length_number_prefix) (simp add: sat_add_def)
  with assms(1) have len: "sat_add (sat_add (length ?pre) (length line)) 1 = length (concat frags)"
    by (simp add: sat_add_def isize_max_def usize_max_def frags_def)
  have count: "sat_add line_count 1 = Suc line_count" using assms(2) by (simp add: sat_add_def)
  have "?p = concat frags" if "\<not> ?room < length (concat frags)"
    using that by (intro push_fragments_all) simp
  moreover have "0 < length (concat frags)" by (simp add: frags_def)
  ultimately show "render_lines max_bytes budget start_line index (line # lines) body line_count =
      (if ?room < length (numbered_row start_line index line)
       then (body @ ?p @ take (min (max_bytes - length (body @ ?p)) (length rendered_truncation_marker))
                          rendered_truncation_marker,
             if 0 < ?room then Suc line_count else line_count, True)
       else render_lines max_bytes budget start_line (Suc index) lines
              (body @ numbered_row start_line index line) (Suc line_count))"
    unfolding row by (simp only: render_lines.simps Let_def len count frags_def [symmetric]) auto
qed

lemma render_lines_bounded:
  assumes "length body \<le> budget" "budget \<le> max_bytes" "\<forall>line \<in> set lines. length line \<le> isize_max"
    and "utf8_valid body" "list_all utf8_valid lines" "line_count + length lines \<le> usize_max"
    and "render_lines max_bytes budget start_line index lines body line_count = (out, n, tr)"
  shows "length out \<le> max_bytes \<and> utf8_valid out \<and>
    (tr \<longleftrightarrow> budget < length (body @ numbered start_line index lines)) \<and>
    (\<not> tr \<longrightarrow> out = body @ numbered start_line index lines \<and> n = line_count + length lines) \<and>
    (tr \<longrightarrow> (\<exists>k m. out = body @ take k (numbered start_line index lines) @ take m rendered_truncation_marker))"
  using assms
proof (induction lines arbitrary: index body line_count)
  case (Cons line lines)
  define row rest where "row = numbered_row start_line index line"
    and "rest = numbered start_line (Suc index) lines"
  have all: "numbered start_line index (line # lines) = row @ rest"
    by (simp add: row_def rest_def numbered_Cons del: numbered.simps)
  obtain p where p: "prefix p row" "length p \<le> budget - length body" "utf8_valid p"
    and step: "render_lines max_bytes budget start_line index (line # lines) body line_count =
      (if budget - length body < length row
       then (body @ p @ take (min (max_bytes - length (body @ p)) (length rendered_truncation_marker))
                          rendered_truncation_marker,
             if 0 < budget - length body then Suc line_count else line_count, True)
       else render_lines max_bytes budget start_line (Suc index) lines (body @ row) (Suc line_count))"
    unfolding row_def
    by (rule render_lines_Cons [of line line_count start_line index budget body max_bytes lines])
      (use Cons.prems in auto)
  show ?case
  proof (cases "budget - length body < length row")
    case True
    obtain k where "p = take k row" using p(1) by (metis prefix_def append_eq_conv_conj)
    then have k: "p = take (min k (length row)) (row @ rest)" by (simp add: min_def)
    have out: "out = body @ p @ take (min (max_bytes - length (body @ p)) (length rendered_truncation_marker))
        rendered_truncation_marker" "tr" using Cons.prems(7) unfolding step by (simp_all add: True)
    moreover have "utf8_valid out" unfolding out
      using Cons.prems(4) p(3) utf8_valid_marker_take by (intro utf8_valid_appendI)
    moreover have "length out \<le> max_bytes" using out(1) p(2) Cons.prems(1,2) by simp
    moreover have "\<exists>k m. out = body @ take k (row @ rest) @ take m rendered_truncation_marker"
      using out(1) unfolding k by blast
    ultimately show ?thesis unfolding all using True Cons.prems(1) by simp
  next
    case False
    have nl: "utf8_valid [CHR 0x0A]" by (rule utf8_valid_ascii) (simp add: byte_of_def)
    have "utf8_valid row" using Cons.prems(5) nl utf8_valid_number_prefix
      by (auto simp: row_def numbered_row_def intro!: utf8_valid_appendI)
    then have "utf8_valid (body @ row)" by (rule utf8_valid_appendI [OF Cons.prems(4)])
    moreover have "render_lines max_bytes budget start_line (Suc index) lines (body @ row) (Suc line_count) = (out, n, tr)"
      using Cons.prems(7) unfolding step by (simp add: False)
    ultimately have IH: "length out \<le> max_bytes \<and> utf8_valid out \<and>
      (tr \<longleftrightarrow> budget < length ((body @ row) @ rest)) \<and>
      (\<not> tr \<longrightarrow> out = (body @ row) @ rest \<and> n = Suc line_count + length lines) \<and>
      (tr \<longrightarrow> (\<exists>k m. out = (body @ row) @ take k rest @ take m rendered_truncation_marker))"
      unfolding rest_def using Cons.prems(1-6) False by (intro Cons.IH) simp_all
    have "\<exists>k' m. out = body @ take k' (row @ rest) @ take m rendered_truncation_marker"
      if "out = (body @ row) @ take k rest @ take m rendered_truncation_marker" for k m
      using that by (intro exI [of _ "length row + k"] exI [of _ m]) simp
    then have "tr \<Longrightarrow> \<exists>k m. out = body @ take k (row @ rest) @ take m rendered_truncation_marker"
      using IH by blast
    with IH show ?thesis unfolding all by simp
  qed
qed auto

text \<open>
  Numbered rendering keeps within the byte bound and valid UTF-8.  When the numbered text fits
  into the bound without the room of the marker it is returned whole; otherwise the result is a
  prefix of it with as much of the truncation marker as fits, and is reported as truncated.
\<close>

theorem render_numbered_bounded:
  assumes "utf8_valid body" "length body \<le> isize_max"
    and "r = render_numbered body start_line total_lines truncated max_bytes"
    and "full = numbered start_line 0 (str_lines body)"
  shows "length (re_body r) \<le> max_bytes \<and> utf8_valid (re_body r) \<and>
    (if length full \<le> max_bytes - length rendered_truncation_marker
     then re_body r = full \<and> re_line_count r = length (str_lines body) \<and>
       (re_truncated r \<longleftrightarrow> 0 < start_line \<or> truncated)
     else re_truncated r \<and>
       (\<exists>k m. re_body r = take k full @ take m rendered_truncation_marker))"
proof -
  let ?budget = "max_bytes - length rendered_truncation_marker"
  obtain out n tr where run: "render_lines max_bytes ?budget start_line 0 (str_lines body) [] 0 = (out, n, tr)"
    by (cases "render_lines max_bytes ?budget start_line 0 (str_lines body) [] 0")
  have lines: "\<forall>line \<in> set (str_lines body). length line \<le> isize_max"
    using length_lines_le [of _ "[]" body] assms(2) by (fastforce simp: str_lines_def)
  have "length (str_lines body) \<le> Suc (length body)"
    using count_le_length [of body "CHR 0x0A"] by (simp add: length_str_lines)
  then have "0 + length (str_lines body) \<le> usize_max"
    using assms(2) by (simp add: isize_max_def usize_max_def)
  from render_lines_bounded [OF _ _ lines _ utf8_valid_lines [OF assms(1)] this run]
  have "length out \<le> max_bytes \<and> utf8_valid out \<and> (tr \<longleftrightarrow> ?budget < length full) \<and>
      (\<not> tr \<longrightarrow> out = full \<and> n = length (str_lines body)) \<and>
      (tr \<longrightarrow> (\<exists>k m. out = take k full @ take m rendered_truncation_marker))"
    by (simp add: assms(4))
  moreover have "re_body r = out" "re_line_count r = n" "re_truncated r \<longleftrightarrow> 0 < start_line \<or> truncated \<or> tr"
    by (simp_all add: assms(3) render_numbered_def run)
  ultimately show ?thesis by auto
qed

theorem render_numbered_bounded_witness:
  "length (re_body (render_numbered ''ab'' 0 1 False 30)) \<le> 30 \<and>
   utf8_valid (re_body (render_numbered ''ab'' 0 1 False 30)) \<and>
   re_truncated (render_numbered ''ab'' 0 1 False 30)"
proof -
  have valid: "utf8_valid ''ab''" by code_simp
  have len: "length ''ab'' \<le> isize_max" by (simp add: isize_max_def)
  have full: "length (numbered 0 0 (str_lines ''ab'')) = 10" "length rendered_truncation_marker = 43"
    by (simp_all add: str_lines_def number_prefix_def sat_add_def usize_max_def dec.simps
      rendered_truncation_marker_def)
  from render_numbered_bounded [OF valid len refl refl, of 0 1 False 30] show ?thesis
    by (simp add: full)
qed

section \<open>Byte bounds\<close>

lemma from_utf8_ok_iff: "from_utf8 s = Utf8Ok \<longleftrightarrow> utf8_valid s"
  by (induction s rule: from_utf8.induct) (simp_all add: utf8_valid_def)

lemma from_utf8_append:
  assumes "utf8_valid s"
  shows "from_utf8 (s @ t) = from_utf8 t"
  using assms
proof (induction s rule: from_utf8.induct)
  case (2 b bs)
  have g: "utf8_seq (b # take (char_len b - 1) bs)" and r: "utf8_valid (drop (char_len b - 1) bs)"
    using 2(2) by (simp_all add: utf8_valid_def)
  from utf8_seq_shape [OF g] have "char_len b - 1 \<le> length bs" by auto
  with 2(1) [OF g r] g show ?case by simp
qed simp

lemma utf8_partial_length: "utf8_partial p \<Longrightarrow> p \<noteq> [] \<and> length p \<le> 3"
  by (auto simp: utf8_partial_def split: list.splits)

lemma utf8_partial_take:
  assumes "utf8_partial p" "0 < k" "k \<le> length p"
  shows "utf8_partial (take k p)"
proof -
  obtain a bs where p: "p = a # bs" "length bs \<le> 2" using utf8_partial_length [OF assms(1)] by (cases p) auto
  show ?thesis
  proof (cases bs)
    case Nil
    with assms p show ?thesis by simp
  next
    case (Cons b cs)
    with p consider "p = [a, b]" | c where "p = [a, b, c]" by (cases cs) auto
    then show ?thesis
    proof cases
      case 1
      with assms have "k = 1 \<or> k = 2" by auto
      with 1 assms show ?thesis by (auto simp: utf8_partial_def)
    next
      case 2
      with assms have "k = 1 \<or> k = 2 \<or> k = 3" by auto
      with 2 assms show ?thesis by (auto simp: utf8_partial_def)
    qed
  qed
qed

lemma from_utf8_partial:
  assumes "utf8_partial p"
  shows "from_utf8 p = Utf8Incomplete"
proof -
  obtain b bs where p: "p = b # bs" using utf8_partial_length [OF assms] by (cases p) auto
  have "length p < char_len b"
    using assms by (auto simp: utf8_partial_def p char_len_def split: list.splits)
  then have "\<not> utf8_seq (b # take (char_len b - 1) bs)"
    using utf8_seq_shape [of "b # take (char_len b - 1) bs"] by (auto simp: p min_def split: if_splits)
  with assms show ?thesis by (simp add: p)
qed

lemma from_utf8_incomplete:
  "from_utf8 s = Utf8Incomplete \<Longrightarrow> \<exists>pre p. s = pre @ p \<and> utf8_valid pre \<and> utf8_partial p"
proof (induction s rule: from_utf8.induct)
  case (2 b bs)
  let ?g = "b # take (char_len b - 1) bs" and ?r = "drop (char_len b - 1) bs"
  show ?case
  proof (cases "utf8_seq ?g")
    case True
    with 2 obtain pre p where "?r = pre @ p" "utf8_valid pre" "utf8_partial p" by auto
    moreover have "utf8_valid ?g" using True utf8_seq_shape [OF True] by (simp add: utf8_valid_def)
    moreover have "b # bs = ?g @ ?r" by simp
    ultimately show ?thesis using utf8_valid_appendI [of ?g pre] by (metis append.assoc)
  next
    case False
    with 2(2) have "utf8_partial (b # bs)" by (auto split: if_splits)
    then show ?thesis by (intro exI [of _ "[]"] exI [of _ "b # bs"]) simp
  qed
qed simp

lemma shrink_utf8_partial:
  assumes "utf8_valid pre" "utf8_partial p" "k \<le> length p"
  shows "shrink_utf8 (pre @ p @ rest) (length pre + k) = length pre"
  using assms(3)
proof (induction k)
  case 0
  have "from_utf8 (take (length pre) (pre @ p @ rest)) = Utf8Ok" using assms(1) by (simp add: from_utf8_ok_iff)
  then show ?case by (cases "length pre") simp_all
next
  case (Suc k)
  have "from_utf8 (take (length pre + Suc k) (pre @ p @ rest)) = Utf8Incomplete"
    using utf8_partial_take [OF assms(2), of "Suc k"] Suc.prems
    by (simp add: from_utf8_append [OF assms(1)] from_utf8_partial)
  with Suc show ?case by simp
qed

text \<open>The bound cuts at most three bytes, those of an incomplete last character; bytes that are no
  UTF-8 for another reason are left at the bound.\<close>

lemma bounded_utf8_len_exact:
  assumes "m = min max_bytes (length bytes)" "n = bounded_utf8_len bytes max_bytes"
  shows "n \<le> m \<and>
    (if from_utf8 (take m bytes) = Utf8Invalid then n = m
     else utf8_valid (take n bytes) \<and> m \<le> n + 3 \<and> (\<forall>k. n < k \<and> k \<le> m \<longrightarrow> \<not> utf8_valid (take k bytes)))"
proof -
  have n_eq: "n = shrink_utf8 bytes m" by (simp add: assms bounded_utf8_len_def)
  show ?thesis
  proof (cases "from_utf8 (take m bytes)")
  case Utf8Incomplete
  then obtain pre p where p: "take m bytes = pre @ p" "utf8_valid pre" "utf8_partial p"
    using from_utf8_incomplete by blast
  then have bytes: "bytes = pre @ p @ drop m bytes" by (metis append.assoc append_take_drop_id)
  have m: "m = length pre + length p" using arg_cong [OF p(1), of length] assms(1) by simp
  have n: "n = length pre"
    using shrink_utf8_partial [OF p(2,3) order_refl, of "drop m bytes"]
    by (simp only: n_eq m [symmetric] bytes [symmetric])
  have "\<not> utf8_valid (take k bytes)" if "n < k" "k \<le> m" for k
  proof -
    have "take k bytes = pre @ take (k - length pre) p" using that by (subst bytes) (simp add: n m)
    moreover have "utf8_partial (take (k - length pre) p)"
      using that utf8_partial_take [OF p(3)] by (simp add: n m)
    ultimately show ?thesis
      using from_utf8_append [OF p(2)] from_utf8_partial by (simp flip: from_utf8_ok_iff)
  qed
  moreover have "take n bytes = pre" by (subst bytes) (simp add: n)
  ultimately show ?thesis using p(2) utf8_partial_length [OF p(3)] Utf8Incomplete by (simp add: n m)
next
  case Utf8Ok
  then have "n = m" unfolding n_eq by (cases m) simp_all
  with Utf8Ok show ?thesis by (auto simp: from_utf8_ok_iff)
next
  case Utf8Invalid
  then have "n = m" unfolding n_eq by (cases m) simp_all
  with Utf8Invalid show ?thesis by simp
  qed
qed

end
