(* ===== verification/Fs_Read_Properties.thy ===== *)
theory Fs_Read_Properties
  imports Fs_Read Fs_Text_Properties
begin

text \<open>
  Correctness of the streaming reads: however the operating system cuts the source into reads, a
  line read returns the bytes of the requested window of lines under its byte bound, and a byte
  read the requested range, both with the hash and the size of the whole source.
\<close>

section \<open>The source of an open file\<close>

lemma source_read_limit_pos: "0 < source_read_limit limits n"
  by (auto simp: source_read_limit_def READ_BUFFER_BYTES_def sat_add_def usize_max_def split: option.split)

lemma read_some_to_end:
  assumes "0 < n"
  shows "read_to_end rs =
    (case read_some n rs of
       Inl e \<Rightarrow> Inl e
     | Inr (chunk, rs') \<Rightarrow> if chunk = [] then Inr [] else map_sum id ((@) chunk) (read_to_end rs'))"
proof (cases "(n, rs)" rule: read_some.cases)
  case (3 n bytes rs')
  show ?thesis
  proof (cases "n < length bytes")
    case True
    then have "drop n bytes \<noteq> []" "bytes \<noteq> []" by auto
    with True 3 assms show ?thesis
      by (cases "read_to_end rs'") (auto simp: take_eq_Nil)
  next
    case False
    with 3 assms show ?thesis by auto
  qed
qed (use assms in auto)

section \<open>Lines\<close>

text \<open>The lines of a source with their line feeds.\<close>

fun split_inclusive :: "string \<Rightarrow> string list" where
  "split_inclusive [] = []"
| "split_inclusive (b # bs) =
     (if b = CHR 0x0A then [b] # split_inclusive bs
      else case split_inclusive bs of [] \<Rightarrow> [[b]] | s # ss \<Rightarrow> (b # s) # ss)"

text \<open>The bytes of the lines from \<open>o\<close> to \<open>e\<close> when the start line has number \<open>l\<close>.\<close>

fun window_from :: "nat \<Rightarrow> nat \<Rightarrow> nat \<Rightarrow> string \<Rightarrow> string" where
  "window_from l start stop [] = []"
| "window_from l start stop (b # bs) =
     (if start \<le> l \<and> l < stop then [b] else []) @
     window_from (if b = CHR 0x0A then Suc l else l) start stop bs"

lemma concat_split_inclusive [simp]: "concat (split_inclusive c) = c"
  by (induction c) (auto split: list.splits)

lemma split_inclusive_eq_Nil [simp]: "split_inclusive c = [] \<longleftrightarrow> c = []"
  by (cases c) (auto split: list.splits)

lemma length_split_inclusive:
  "length (split_inclusive c) =
     count_list c (CHR 0x0A) + (if c \<noteq> [] \<and> last c \<noteq> CHR 0x0A then 1 else 0)"
proof (induction c)
  case (Cons b bs)
  then show ?case by (cases "split_inclusive bs") (auto split: if_splits)
qed simp

lemma window_from_eq:
  "window_from l start stop c = concat (drop (start - l) (take (stop - l) (split_inclusive c)))"
proof (induction c arbitrary: l)
  case (Cons b bs)
  show ?case
  proof (cases "b = CHR 0x0A")
    case True
    have "start - l = (if start \<le> l then 0 else Suc (start - Suc l))"
      "stop - l = (if stop \<le> l then 0 else Suc (stop - Suc l))" by auto
    with True Cons.IH [of "Suc l"] show ?thesis by auto
  next
    case nl: False
    show ?thesis
    proof (cases "split_inclusive bs")
      case Nil
      then show ?thesis using nl by (cases "stop - l"; cases "start - l") auto
    next
      case (Cons s ss)
      with nl Cons.IH [of l] show ?thesis by (cases "stop - l"; cases "start - l") auto
    qed
  qed
qed simp

text \<open>What the loop has computed once it has seen the bytes \<open>c\<close>.\<close>

definition scanned :: "nat \<Rightarrow> nat \<Rightarrow> nat \<Rightarrow> string \<Rightarrow> read_scan \<Rightarrow> bool" where
  "scanned offset selected_end retained c st \<longleftrightarrow>
     sc_selected st = take retained (window_from 0 offset selected_end c) \<and>
     sc_selected_seen st = length (window_from 0 offset selected_end c) \<and>
     sc_current_line st = count_list c (CHR 0x0A) \<and>
     sc_last_byte st = (if c = [] then None else Some (last c))"

lemma window_from_append:
  "window_from l start stop (a @ b) =
     window_from l start stop a @ window_from (l + count_list a (CHR 0x0A)) start stop b"
  by (induction a arbitrary: l) auto

lemma length_window_from: "length (window_from l start stop c) \<le> length c"
  by (induction c arbitrary: l) (auto simp: le_SucI)

lemma scan_byte_scanned:
  assumes "scanned offset selected_end retained c st" "length c < usize_max"
  shows "scanned offset selected_end retained (c @ [b]) (scan_byte offset selected_end retained b st)"
proof -
  have "length (window_from 0 offset selected_end c) < usize_max" "count_list c (CHR 0x0A) < usize_max"
    using assms(2) length_window_from [of 0 offset selected_end c] count_le_length [of c "CHR 0x0A"]
    by linarith+
  with assms(1) show ?thesis
    by (auto simp: scanned_def scan_byte_def Let_def window_from_append sat_add_def min_def not_less)
qed

lemma scan_byte_other [simp]:
  "sc_source_seen (scan_byte offset selected_end retained b st) = sc_source_seen st"
  "sc_hashed (scan_byte offset selected_end retained b st) = sc_hashed st"
  by (simp_all add: scan_byte_def Let_def)

lemma fold_scan_byte_other [simp]:
  "sc_source_seen (fold (scan_byte offset selected_end retained) chunk st) = sc_source_seen st"
  "sc_hashed (fold (scan_byte offset selected_end retained) chunk st) = sc_hashed st"
  by (induction chunk arbitrary: st) simp_all

lemma scanned_cong:
  "scanned offset selected_end retained c st \<Longrightarrow>
   scanned offset selected_end retained c (st\<lparr>sc_source_seen := n, sc_hashed := h\<rparr>)"
  "scanned offset selected_end retained c st \<Longrightarrow>
   scanned offset selected_end retained c (st\<lparr>sc_hashed := h\<rparr>)"
  "scanned offset selected_end retained c st \<Longrightarrow>
   scanned offset selected_end retained c (st\<lparr>sc_source_seen := n\<rparr>)"
  by (simp_all add: scanned_def)

lemma fold_scan_byte_scanned:
  assumes "scanned offset selected_end retained c st" "length (c @ chunk) < usize_max"
  shows "scanned offset selected_end retained (c @ chunk)
    (fold (scan_byte offset selected_end retained) chunk st)"
  using assms
proof (induction chunk arbitrary: c st)
  case (Cons b bs)
  have "scanned offset selected_end retained (c @ [b]) (scan_byte offset selected_end retained b st)"
    using Cons.prems by (intro scan_byte_scanned) simp_all
  from Cons.IH [OF this] Cons.prems(2) show ?case by simp
qed simp

lemma scan_chunk_scanned:
  assumes "scanned offset selected_end retained c st" "length (c @ chunk) < usize_max" "sc_hashed st = c"
  shows "scanned offset selected_end retained (c @ chunk) (scan_chunk offset selected_end retained chunk st) \<and>
    sc_hashed (scan_chunk offset selected_end retained chunk st) = c @ chunk"
  using fold_scan_byte_scanned [OF scanned_cong(2) [OF assms(1)] assms(2)] assms(3)
  by (simp add: scan_chunk_def)

text \<open>One pass of the loop that does not fail.\<close>

lemma read_loop_step:
  assumes "read_loop access logical limits offset selected_end retained rs st w = (Inr st', w')"
  obtains w1 chunk rs' where "fa_check_cancelled access w = (Inr (), w1)"
    "read_some (source_read_limit limits (sc_source_seen st)) rs = Inr (chunk, rs')"
    "chunk = [] \<Longrightarrow> st' = st \<and> w' = w1"
    "chunk \<noteq> [] \<Longrightarrow> \<not> over_source_limit limits (sat_add (sc_source_seen st) (length chunk)) \<and>
       read_loop access logical limits offset selected_end retained rs'
         (scan_chunk offset selected_end retained chunk
            (st\<lparr>sc_source_seen := sat_add (sc_source_seen st) (length chunk)\<rparr>)) w1 = (Inr st', w')"
proof -
  note run = assms [unfolded read_loop.simps [of access logical limits offset selected_end retained rs st w]]
  obtain w1 where cancel: "fa_check_cancelled access w = (Inr (), w1)"
    using run by (auto split: prod.splits sum.splits)
  obtain chunk rs' where read: "read_some (source_read_limit limits (sc_source_seen st)) rs = Inr (chunk, rs')"
    using run cancel by (auto split: sum.splits)
  from run cancel read show thesis by (intro that [OF cancel read]) (auto simp: Let_def split: if_splits)
qed

lemma read_loop_source:
  "read_loop access logical limits offset selected_end retained rs st w = (Inr st', w') \<Longrightarrow>
   \<exists>c. read_to_end rs = Inr c"
proof (induction "reads_size rs" arbitrary: rs st w rule: less_induct)
  case less
  from less.prems obtain w1 chunk rs' where
    read: "read_some (source_read_limit limits (sc_source_seen st)) rs = Inr (chunk, rs')"
    and rest: "chunk \<noteq> [] \<Longrightarrow> \<not> over_source_limit limits (sat_add (sc_source_seen st) (length chunk)) \<and>
       read_loop access logical limits offset selected_end retained rs'
         (scan_chunk offset selected_end retained chunk
            (st\<lparr>sc_source_seen := sat_add (sc_source_seen st) (length chunk)\<rparr>)) w1 = (Inr st', w')"
    by (rule read_loop_step) blast
  note to_end = read_some_to_end [OF source_read_limit_pos, of rs limits "sc_source_seen st", unfolded read]
  show ?case
  proof (cases "chunk = []")
    case False
    with less.hyps [OF read_some_size [OF read False]] rest obtain c where "read_to_end rs' = Inr c" by blast
    with False show ?thesis by (simp add: to_end)
  qed (simp add: to_end)
qed

lemma read_loop_scanned:
  assumes "read_loop access logical limits offset selected_end retained rs st w = (Inr st', w')"
    and "scanned offset selected_end retained c st" "sc_hashed st = c"
    and "read_to_end rs = Inr d" "length (c @ d) < usize_max"
  shows "scanned offset selected_end retained (c @ d) st' \<and> sc_hashed st' = c @ d"
  using assms
proof (induction "reads_size rs" arbitrary: rs st w c d rule: less_induct)
  case less
  from less.prems(1) obtain w1 chunk rs' where
    read: "read_some (source_read_limit limits (sc_source_seen st)) rs = Inr (chunk, rs')"
    and stop: "chunk = [] \<Longrightarrow> st' = st \<and> w' = w1"
    and rest: "chunk \<noteq> [] \<Longrightarrow> \<not> over_source_limit limits (sat_add (sc_source_seen st) (length chunk)) \<and>
       read_loop access logical limits offset selected_end retained rs'
         (scan_chunk offset selected_end retained chunk
            (st\<lparr>sc_source_seen := sat_add (sc_source_seen st) (length chunk)\<rparr>)) w1 = (Inr st', w')"
    by (rule read_loop_step) blast
  note to_end = read_some_to_end [OF source_read_limit_pos, of rs limits "sc_source_seen st", unfolded read]
  show ?case
  proof (cases "chunk = []")
    case True
    with to_end less.prems stop show ?thesis by simp
  next
    case False
    let ?st = "st\<lparr>sc_source_seen := sat_add (sc_source_seen st) (length chunk)\<rparr>"
    let ?st1 = "scan_chunk offset selected_end retained chunk ?st"
    from rest [OF False] have run: "read_loop access logical limits offset selected_end retained rs' ?st1 w1 = (Inr st', w')"
      by blast
    obtain d' where d': "read_to_end rs' = Inr d'" "d = chunk @ d'"
      using less.prems(4) False read_loop_source [OF run] by (auto simp: to_end)
    have "scanned offset selected_end retained (c @ chunk) ?st1 \<and> sc_hashed ?st1 = c @ chunk"
      using less.prems(2,3,5) d'(2) by (intro scan_chunk_scanned scanned_cong) simp_all
    with less.hyps [OF read_some_size [OF read False] run _ _ d'(1), of "c @ chunk"] less.prems(5) d'(2)
    show ?thesis by simp
  qed
qed

lemma bounded_utf8_len_le: "bounded_utf8_len bytes m \<le> m"
  using bounded_utf8_len_exact [of "min m (length bytes)" m bytes] by simp

lemma bounded_utf8_len_take:
  assumes "m \<le> r" "m < length bytes"
  shows "bounded_utf8_len (take r bytes) m = bounded_utf8_len bytes m"
proof -
  have "shrink_utf8 (take r bytes) e = shrink_utf8 bytes e" if "e \<le> m" for e
    using that assms(1) by (induction e) (auto simp: min_def split: utf8_check.split)
  from this [OF order_refl] show ?thesis using assms by (simp add: bounded_utf8_len_def)
qed

text \<open>The response a line read owes for the source \<open>c\<close>.\<close>

definition lines_response ::
  "(string \<Rightarrow> content_hash) \<Rightarrow> read_request \<Rightarrow> nat \<Rightarrow> string \<Rightarrow> read_result" where
  "lines_response sha256 request response_limit c =
     (let lines = split_inclusive c; window = concat (take (rr_limit request) (drop (rr_offset request) lines));
          byte_cut = response_limit < length window
      in \<lparr>rd_path = rr_path request,
          rd_bytes = (if byte_cut then take (bounded_utf8_len window response_limit) window else window),
          rd_start_line = rr_offset request, rd_total_lines = length lines, rd_content_hash = sha256 c,
          rd_truncated = (rr_offset request + rr_limit request < length lines \<or> byte_cut),
          rd_byte_truncated = byte_cut\<rparr>)"

lemma read_finish_scanned:
  assumes "scanned (rr_offset request) (sat_add (rr_offset request) (rr_limit request)) (sat_add response_limit 4) c st"
    and "sc_hashed st = c" "length c < usize_max"
  shows "read_finish sha256 request response_limit st =
    (if length (split_inclusive c) < rr_offset request
     then Inl (FsInvalidArgument (''offset '' @ dec (rr_offset request) @ '' exceeds file length '' @
                 dec (length (split_inclusive c))))
     else Inr (lines_response sha256 request response_limit c))"
proof -
  let ?stop = "sat_add (rr_offset request) (rr_limit request)"
  let ?window = "window_from 0 (rr_offset request) ?stop c"
  have "length (split_inclusive c) \<le> length c"
  proof (induction c)
    case (Cons b bs)
    then show ?case by (cases "split_inclusive bs") (auto simp: le_SucI)
  qed simp
  then have n: "length (split_inclusive c) < usize_max" using assms(3) by simp
  have window: "?window = concat (take (rr_limit request) (drop (rr_offset request) (split_inclusive c)))"
    using n by (auto simp: window_from_eq sat_add_def min_def drop_take)
  have total: "sat_add (sc_current_line st)
      (case sc_last_byte st of None \<Rightarrow> 0 | Some b \<Rightarrow> if b \<noteq> CHR 0x0A then 1 else 0) = length (split_inclusive c)"
    using assms(1) n by (auto simp: scanned_def length_split_inclusive sat_add_def)
  have "length ?window < usize_max" using length_window_from [of 0 "rr_offset request" ?stop c] assms(3) by simp
  then have sel: "sc_selected_seen st = length ?window"
    "sc_selected st = ?window \<or> response_limit < length ?window \<and> sc_selected st = take (response_limit + 4) ?window"
    using assms(1) by (auto simp: scanned_def sat_add_def min_def)
  have cut: "take (bounded_utf8_len (sc_selected st) response_limit) (sc_selected st) =
      take (bounded_utf8_len ?window response_limit) ?window" if "response_limit < length ?window"
    using sel(2) bounded_utf8_len_take [of response_limit "response_limit + 4" ?window] that
      bounded_utf8_len_le [of ?window response_limit] by (auto simp: min_def)
  have "min ?stop (length (split_inclusive c)) < length (split_inclusive c) \<longleftrightarrow>
      rr_offset request + rr_limit request < length (split_inclusive c)"
    using n by (auto simp: sat_add_def min_def)
  then show ?thesis
    using sel cut unfolding read_finish_def Let_def total assms(2) lines_response_def window [symmetric]
    by (auto simp: not_less)
qed

text \<open>The open file a successful read has looked at.\<close>

definition opened_for_read :: "'w fs_access \<Rightarrow> path \<Rightarrow> fs_path \<Rightarrow> 'w \<Rightarrow> string \<Rightarrow> bool" where
  "opened_for_read access root logical w c \<longleftrightarrow>
     (\<exists>p target file w0 w1 w2. resolve_under root logical = Inr p \<and>
        fa_check_cancelled access w = (Inr (), w0) \<and>
        require_access p logical access False False w0 = (Inr target, w1) \<and>
        fa_is_readable_paths access p target \<and>
        fa_open_read_file access p target w1 = (Inr file, w2) \<and> read_to_end (of_reads file) = Inr c)"

text \<open>Files of less than \<open>2 ^ 64\<close> bytes.\<close>

definition small_files :: "'w fs_access \<Rightarrow> bool" where
  "small_files access \<longleftrightarrow>
     (\<forall>p target w file w' c. fa_open_read_file access p target w = (Inr file, w') \<longrightarrow>
        read_to_end (of_reads file) = Inr c \<longrightarrow> length c < usize_max)"

text \<open>
  C39. A line read that succeeds answers for the whole content of a file it was allowed to read:
  the bytes are the requested lines with their line feeds, whole when they fit into the response
  bound and otherwise cut at the bound or at the last character before it; the line count and the
  hash are those of the whole content, whatever chunks the source came in; and the truncation flags
  say exactly whether lines or bytes are left out.
\<close>

theorem read_lines_exact:
  assumes "run_read_with_limits sha256 root request access limits w = (Inr res, w')" "small_files access"
  shows "\<exists>c. opened_for_read access root (rr_path request) w c \<and>
    rr_offset request \<le> length (split_inclusive c) \<and>
    res = lines_response sha256 request
      (case limits of None \<Rightarrow> rr_max_bytes request | Some l \<Rightarrow> min (rr_max_bytes request) (bl_max_response_bytes l)) c"
proof -
  let ?limit = "case limits of None \<Rightarrow> rr_max_bytes request | Some l \<Rightarrow> min (rr_max_bytes request) (bl_max_response_bytes l)"
  let ?o = "rr_offset request" and ?logical = "rr_path request"
  obtain p target fl w0 w1 w2 st w3 where
    p: "resolve_under root ?logical = Inr p" "require_access p ?logical access False False w0 = (Inr target, w1)"
    "fa_open_read_file access p target w1 = (Inr fl, w2)" "fa_check_cancelled access w = (Inr (), w0)"
    and loop: "read_loop access ?logical limits ?o (sat_add ?o (rr_limit request)) (sat_add ?limit 4)
      (of_reads fl) read_scan_new w2 = (Inr st, w3)"
    and fin: "read_finish sha256 request ?limit st = Inr res"
    using assms(1)
    by (auto simp: run_read_with_limits_def io_bind_Inr_iff Let_def split: if_splits)
  obtain c where c: "read_to_end (of_reads fl) = Inr c" using read_loop_source [OF loop] by blast
  then have small: "length c < usize_max" using assms(2) p(3) unfolding small_files_def by blast
  have "scanned ?o (sat_add ?o (rr_limit request)) (sat_add ?limit 4) [] read_scan_new"
    by (simp add: scanned_def read_scan_new_def)
  from read_loop_scanned [OF loop this _ c] small
  have "scanned ?o (sat_add ?o (rr_limit request)) (sat_add ?limit 4) c st" "sc_hashed st = c"
    by (simp_all add: read_scan_new_def)
  from read_finish_scanned [OF this small, of sha256] fin
  have "?o \<le> length (split_inclusive c)" "res = lines_response sha256 request ?limit c"
    by (auto split: if_splits)
  moreover have "opened_for_read access root ?logical w c"
    unfolding opened_for_read_def using p c require_access_allowed [OF p(2)] by fastforce
  ultimately show ?thesis by blast
qed

text \<open>A policy that grants everything and serves one file in the given chunks.\<close>

definition chunked_access :: "string list \<Rightarrow> unit fs_access" where
  "chunked_access chunks =
     (let md = \<lparr>md_kind = KFile, md_len = length (concat chunks), md_validator = Inr []\<rparr>
      in \<lparr>fa_check_cancelled = io_return (),
          fa_view = (\<lambda>_. \<lparr>fv_canonicalize = Inr, fv_symlink_kind = (\<lambda>_. Inr KFile),
            fv_read_link = (\<lambda>_. Inl (IoError InvalidInput [])), fv_exists = (\<lambda>_. True), fv_is_dir = (\<lambda>_. False)\<rparr>),
          fa_resolve_access_path = io_return, fa_is_readable_paths = (\<lambda>_ _. True),
          fa_is_writable_paths = (\<lambda>_ _. False), fa_can_enumerate_directory = (\<lambda>_ _. False),
          fa_open_read_file = (\<lambda>_ _. io_return \<lparr>of_metadata = Inr md, of_reads = map Inr chunks, of_metadata_after = Inr md\<rparr>),
          fa_read_metadata = (\<lambda>_ _. io_return md), fa_open_read_dir = (\<lambda>_ _. io_return []),
          fa_atomic_write_file = (\<lambda>_ _ _ _. io_lift (Inl (IoError PermissionDenied []))),
          fa_max_write_bytes = None, fa_max_edit_replacements = None\<rparr>)"

theorem read_lines_exact_witness:
  "\<exists>res. run_read_with_limits (\<lambda>c. [of_nat (length c)]) [RootDir]
       \<lparr>rr_path = ''f'', rr_offset = 1, rr_limit = 1, rr_max_bytes = 8\<rparr>
       (chunked_access [''on'', ''e'' @ [CHR 0x0A] @ ''tw'', ''o'', ''x'']) None () = (Inr res, ()) \<and>
     rd_bytes res = ''twox'' \<and> rd_total_lines res = 2 \<and> \<not> rd_truncated res"
proof -
  let ?access = "chunked_access [''on'', ''e'' @ [CHR 0x0A] @ ''tw'', ''o'', ''x'']"
  let ?rq = "\<lparr>rr_path = ''f'', rr_offset = 1, rr_limit = 1, rr_max_bytes = 8\<rparr>"
  have small: "small_files ?access"
    by (auto simp: small_files_def chunked_access_def usize_max_def Let_def)
  obtain res where run: "run_read_with_limits (\<lambda>c. [of_nat (length c)]) [RootDir] ?rq ?access None () = (Inr res, ())"
    by (simp add: run_read_with_limits_def chunked_access_def io_bind_def resolve_under_def require_access_def
      read_loop.simps read_scan_new_def scan_chunk_def scan_byte_def source_read_limit_def READ_BUFFER_BYTES_def
      over_source_limit_def sat_add_def usize_max_def same_identity_def read_finish_def is_absolute_def
      path_push_def components_of_def part_component_def map_filter_simps Let_def)
  from read_lines_exact [OF run small] obtain c where "opened_for_read ?access [RootDir] ''f'' () c"
    "res = lines_response (\<lambda>c. [of_nat (length c)]) ?rq 8 c" by auto
  then have "res = lines_response (\<lambda>c. [of_nat (length c)]) ?rq 8 (''one'' @ [CHR 0x0A] @ ''twox'')"
    by (auto simp: opened_for_read_def chunked_access_def Let_def)
  then show ?thesis using run by (simp add: lines_response_def Let_def)
qed

section \<open>Bytes\<close>

definition bytes_scanned :: "nat \<Rightarrow> nat \<Rightarrow> string \<Rightarrow> byte_scan \<Rightarrow> bool" where
  "bytes_scanned offset max_bytes c st \<longleftrightarrow>
     bs_bytes st = take max_bytes (drop offset c) \<and> bs_source_bytes st = length c \<and> bs_hashed st = c"

lemma scan_bytes_scanned:
  assumes "bytes_scanned offset max_bytes c st" "length (c @ chunk) \<le> usize_max"
  shows "bytes_scanned offset max_bytes (c @ chunk) (scan_bytes offset max_bytes chunk st)"
proof -
  have "take max_bytes (drop offset (c @ chunk)) =
      take max_bytes (drop offset c) @ take (max_bytes - (length c - offset)) (drop (offset - length c) chunk)"
    by simp
  with assms show ?thesis
    by (auto simp: bytes_scanned_def scan_bytes_def Let_def sat_add_def min_def not_less)
qed

lemma read_bytes_loop_scanned:
  assumes "read_bytes_loop access logical limits offset max_bytes rs st w = (Inr st', w')"
  shows "\<exists>d. read_to_end rs = Inr d \<and>
    (\<forall>c. bytes_scanned offset max_bytes c st \<longrightarrow> length (c @ d) \<le> usize_max \<longrightarrow>
         bytes_scanned offset max_bytes (c @ d) st')"
  using assms
proof (induction "reads_size rs" arbitrary: rs st w rule: less_induct)
  case less
  note run = less.prems [unfolded read_bytes_loop.simps [of access logical limits offset max_bytes rs st w]]
  obtain w1 where cancel: "fa_check_cancelled access w = (Inr (), w1)"
    using run by (auto split: prod.splits sum.splits)
  obtain chunk rs' where read: "read_some (source_read_limit limits (bs_source_bytes st)) rs = Inr (chunk, rs')"
    using run cancel by (auto split: sum.splits)
  note to_end = read_some_to_end [OF source_read_limit_pos, of rs limits "bs_source_bytes st", unfolded read]
  show ?case
  proof (cases "chunk = []")
    case True
    with run cancel read have "st' = st" by simp
    with True show ?thesis by (simp add: to_end)
  next
    case False
    with run cancel read have "read_bytes_loop access logical limits offset max_bytes rs'
        (scan_bytes offset max_bytes chunk st) w1 = (Inr st', w')" by (simp split: if_splits)
    from less.hyps [OF read_some_size [OF read False] this] obtain d where
      d: "read_to_end rs' = Inr d" "\<And>c. bytes_scanned offset max_bytes c (scan_bytes offset max_bytes chunk st) \<Longrightarrow>
        length (c @ d) \<le> usize_max \<Longrightarrow> bytes_scanned offset max_bytes (c @ d) st'" by blast
    have "bytes_scanned offset max_bytes (c @ chunk @ d) st'"
      if "bytes_scanned offset max_bytes c st" "length (c @ chunk @ d) \<le> usize_max" for c
      using d(2) [of "c @ chunk"] scan_bytes_scanned [OF that(1), of chunk] that(2) by simp
    with d(1) False show ?thesis by (simp add: to_end)
  qed
qed

text \<open>
  A byte read that succeeds returns exactly the requested range of the content of a file it was
  allowed to read, at most \<open>max_bytes\<close> of it, with the size and the hash of the whole content and
  an end mark exactly when the range reaches the end; with an expected hash it succeeds only on
  that content.  Reading on at the end of each range therefore reassembles the content.
\<close>

theorem read_bytes_exact:
  assumes "run_read_bytes_with_limits sha256 root request access limits w = (Inr res, w')" "small_files access"
  shows "\<exists>c. opened_for_read access root (rb_path request) w c \<and> rb_offset request \<le> length c \<and>
    bb_bytes res = take (rb_max_bytes request) (drop (rb_offset request) c) \<and>
    bb_total_bytes res = length c \<and> bb_content_hash res = sha256 c \<and>
    (bb_eof res \<longleftrightarrow> length c \<le> rb_offset request + rb_max_bytes request) \<and>
    (bb_eof res \<or> length (bb_bytes res) = rb_max_bytes request \<and> bb_bytes res \<noteq> []) \<and>
    (case rb_expected_hash request of None \<Rightarrow> True | Some h \<Rightarrow> h = sha256 c)"
proof -
  let ?o = "rb_offset request" and ?max = "rb_max_bytes request" and ?logical = "rb_path request"
  obtain p target fl w0 w1 w2 st w3 where
    p: "resolve_under root ?logical = Inr p" "require_access p ?logical access False False w0 = (Inr target, w1)"
    "fa_open_read_file access p target w1 = (Inr fl, w2)" "0 < ?max" "fa_check_cancelled access w = (Inr (), w0)"
    and loop: "read_bytes_loop access ?logical limits ?o ?max (of_reads fl)
      \<lparr>bs_bytes = [], bs_source_bytes = 0, bs_hashed = []\<rparr> w2 = (Inr st, w3)"
    and fin: "read_bytes_finish sha256 request st = Inr res"
    using assms(1) by (auto simp: run_read_bytes_with_limits_def io_bind_Inr_iff Let_def split: if_splits)
  obtain c where c: "read_to_end (of_reads fl) = Inr c"
    and st: "length c \<le> usize_max \<Longrightarrow> bytes_scanned ?o ?max c st"
    using read_bytes_loop_scanned [OF loop] by (auto simp: bytes_scanned_def dest: spec [of _ "[]"])
  then have small: "length c < usize_max" using assms(2) p(3) unfolding small_files_def by blast
  with st have "bs_bytes st = take ?max (drop ?o c)" "bs_source_bytes st = length c" "bs_hashed st = c"
    by (simp_all add: bytes_scanned_def)
  with fin small p(4) have "?o \<le> length c \<and> bb_bytes res = take ?max (drop ?o c) \<and>
      bb_total_bytes res = length c \<and> bb_content_hash res = sha256 c \<and>
      (bb_eof res \<longleftrightarrow> length c \<le> ?o + ?max) \<and>
      (bb_eof res \<or> length (bb_bytes res) = ?max \<and> bb_bytes res \<noteq> []) \<and>
      (case rb_expected_hash request of None \<Rightarrow> True | Some h \<Rightarrow> h = sha256 c)"
    by (auto simp: read_bytes_finish_def Let_def sat_add_def min_def split: if_splits option.splits)
  moreover have "opened_for_read access root ?logical w c"
    unfolding opened_for_read_def using p c require_access_allowed [OF p(2)] by fastforce
  ultimately show ?thesis by blast
qed

theorem read_bytes_exact_witness:
  "\<exists>res. run_read_bytes_with_limits (\<lambda>c. [of_nat (length c)]) [RootDir]
       \<lparr>rb_path = ''f'', rb_offset = 1, rb_max_bytes = 3, rb_expected_hash = Some [7]\<rparr>
       (chunked_access [''ab'', ''cde'', ''fg'']) None () = (Inr res, ()) \<and>
     bb_bytes res = ''bcd'' \<and> \<not> bb_eof res"
proof -
  let ?access = "chunked_access [''ab'', ''cde'', ''fg'']"
  let ?rq = "\<lparr>rb_path = ''f'', rb_offset = 1, rb_max_bytes = 3, rb_expected_hash = Some [7 :: u8]\<rparr>"
  have small: "small_files ?access"
    by (auto simp: small_files_def chunked_access_def usize_max_def Let_def)
  obtain res where run: "run_read_bytes_with_limits (\<lambda>c. [of_nat (length c)]) [RootDir] ?rq ?access None () = (Inr res, ())"
    by (simp add: run_read_bytes_with_limits_def chunked_access_def io_bind_def resolve_under_def require_access_def
      read_bytes_loop.simps scan_bytes_def source_read_limit_def READ_BUFFER_BYTES_def
      over_source_limit_def sat_add_def usize_max_def read_bytes_finish_def is_absolute_def
      path_push_def components_of_def part_component_def map_filter_simps Let_def)
  from read_bytes_exact [OF run small] obtain c where "opened_for_read ?access [RootDir] ''f'' () c"
    "bb_bytes res = take 3 (drop 1 c)" "bb_eof res \<longleftrightarrow> length c \<le> 4" by auto
  moreover from this(1) have "c = ''abcdefg''" by (auto simp: opened_for_read_def chunked_access_def Let_def)
  ultimately show ?thesis using run by simp
qed

end
