(* ===== verification/Workdir_Properties.thy ===== *)
theory Workdir_Properties
  imports Workdir_Session Fs_Text_Properties Fs_Read_Properties "HOL-Library.Code_Target_Nat"
begin

text \<open>
  What a caller of a local session can rely on: the bits of the capability sets, errors that name no
  host path, and writes and edits that change one file the scope lets them change, and only when it
  still has the content the caller saw.
\<close>

text \<open>The bounds of \<open>usize\<close> as numerals, for evaluation.\<close>

lemma usize_max_code [code]: "usize_max = 18446744073709551615" "isize_max = 9223372036854775807"
  by (simp_all add: usize_max_def isize_max_def)

section \<open>Capabilities\<close>

lemma capability_bit_nth: "bit (capability_bit c) n \<longleftrightarrow>
  n = (case c of CapRead \<Rightarrow> 0 | CapWrite \<Rightarrow> 1 | CapEdit \<Rightarrow> 2 | CapGlob \<Rightarrow> 3 | CapGrep \<Rightarrow> 4 | CapCommand \<Rightarrow> 5)"
proof -
  have "bit (push_bit k (1 :: u8)) n \<longleftrightarrow> n = k \<and> k < 8" for k
    by (auto simp: push_bit_of_1 bit_exp_iff)
  then show ?thesis by (cases c) (simp_all only: capability_bit.simps session_capability.case, simp_all)
qed

lemma supports_bit: "supports bits c \<longleftrightarrow>
  bit bits (case c of CapRead \<Rightarrow> 0 | CapWrite \<Rightarrow> 1 | CapEdit \<Rightarrow> 2 | CapGlob \<Rightarrow> 3 | CapGrep \<Rightarrow> 4 | CapCommand \<Rightarrow> 5)"
proof -
  have "bits AND capability_bit c \<noteq> 0 \<longleftrightarrow> (\<exists>n. bit bits n \<and> bit (capability_bit c) n)"
    using bit_imp_le_length [of bits] by (auto simp: bit_eq_iff bit_simps)
  then show ?thesis by (simp add: supports_def capability_bit_nth)
qed

lemma supports_with: "supports (capabilities_with bits c) d \<longleftrightarrow> supports bits d \<or> c = d"
  by (cases c; cases d) (simp_all add: supports_bit capabilities_with_def bit_simps capability_bit_nth)

lemma supports_foldl: "supports (foldl capabilities_with bits cs) d \<longleftrightarrow> supports bits d \<or> d \<in> set cs"
  by (induction cs arbitrary: bits) (auto simp: supports_with)

lemma supports_all: "supports capabilities_all c"
  by (cases c; simp add: supports_bit bit_simps capability_bit_nth capabilities_all_def del: capability_bit.simps)

text \<open>
  The six capability bits behave as sets: a set built from a list supports exactly the listed
  capabilities, union and intersection are those of sets, and the named sets support what their
  names say, so that neither the write nor the read-write set grants commands.
\<close>

theorem capabilities_exact:
  "(supports (from_capabilities cs) c \<longleftrightarrow> c \<in> set cs) \<and>
   (supports (capabilities_union a b) c \<longleftrightarrow> supports a c \<or> supports b c) \<and>
   (supports (capabilities_intersection a b) c \<longleftrightarrow> supports a c \<and> supports b c) \<and>
   supports capabilities_all c \<and>
   (supports capabilities_read_only c \<longleftrightarrow> c \<in> {CapRead, CapGlob, CapGrep}) \<and>
   (supports capabilities_write_only c \<longleftrightarrow> c \<in> {CapWrite, CapEdit}) \<and>
   (supports capabilities_read_write c \<longleftrightarrow> c \<noteq> CapCommand) \<and>
   (supports capabilities_command_only c \<longleftrightarrow> c = CapCommand)"
proof -
  have "supports (from_capabilities cs) c \<longleftrightarrow> c \<in> set cs"
    unfolding from_capabilities_def supports_foldl by (simp add: supports_bit)
  moreover have "supports (capabilities_union a b) c \<longleftrightarrow> supports a c \<or> supports b c"
    by (simp add: supports_bit capabilities_union_def bit_simps)
  moreover have "supports (capabilities_intersection a b) c \<longleftrightarrow> supports a c \<and> supports b c"
    by (simp add: supports_bit capabilities_intersection_def bit_simps)
  moreover have "supports capabilities_read_only c \<longleftrightarrow> c \<in> {CapRead, CapGlob, CapGrep}"
    "supports capabilities_write_only c \<longleftrightarrow> c \<in> {CapWrite, CapEdit}"
    "supports capabilities_read_write c \<longleftrightarrow> c \<noteq> CapCommand"
    "supports capabilities_command_only c \<longleftrightarrow> c = CapCommand"
    by (cases c; simp add: supports_bit bit_simps capability_bit_nth capabilities_read_only_def
        capabilities_write_only_def capabilities_read_write_def capabilities_command_only_def
        del: capability_bit.simps)+
  ultimately show ?thesis using supports_all by blast
qed

section \<open>Session calls\<close>

lemma session_callE:
  assumes "session_call kind_text se c logical call w = (r, w')"
  obtains (refused) e where "r = Inl e" "w' = w"
    | (called) r0 where "supports (se_capabilities se) c" "\<not> se_closed se w"
        "call (session_access se w) w = (r0, w')"
        "r = map_err (\<lambda>e. sanitize_error kind_text logical (workdir_error_of e)) r0"
proof (cases "and_then (ensure_capability se w c) (\<lambda>_. validate_operation_path se logical)")
  case (Inl e)
  then show ?thesis using assms by (auto simp: session_call_def intro: that(1))
next
  case (Inr u)
  obtain r0 w1 where run: "call (session_access se w) w = (r0, w1)" by (cases "call (session_access se w) w")
  from Inr have "supports (se_capabilities se) c" "\<not> se_closed se w"
    by (auto simp: ensure_capability_def ensure_open_def and_then_Inr_iff split: if_splits)
  then show ?thesis using assms that(2) Inr run by (simp add: session_call_def)
qed

lemma locked_callE:
  assumes "io_bind (\<lambda>w. (try_lock se w, w)) (\<lambda>_. session_call kind_text se c logical call) w = (r, w')"
  obtains (refused) e where "r = Inl e" "w' = w"
    | (called) r0 where "supports (se_capabilities se) c" "\<not> se_closed se w"
        "call (session_access se w) w = (r0, w')"
        "r = map_err (\<lambda>e. sanitize_error kind_text logical (workdir_error_of e)) r0"
proof (cases "se_busy se w")
  case True
  then show ?thesis using assms by (auto simp: io_bind_def try_lock_def intro: that(1))
next
  case False
  with assms have "session_call kind_text se c logical call w = (r, w')" by (simp add: io_bind_def try_lock_def)
  then show ?thesis by (rule session_callE) (use that in blast)+
qed

text \<open>The paths an error carries.\<close>

fun error_paths :: "workdir_error \<Rightarrow> path set" where
  "error_paths (WFailureContext e) = error_paths e"
| "error_paths (WDenialContext e) = error_paths e"
| "error_paths (WRelativePath p) = {p}"
| "error_paths (WOutOfScope p) = {p}"
| "error_paths (WSymlinkOutOfScope p target _) = {p, target}"
| "error_paths (WBrokenSymlink p link target) = {p, link, target}"
| "error_paths (WSymlinkTargetIsDirectory p target) = {p, target}"
| "error_paths (WReadOnly p) = {p}"
| "error_paths (WIsDirectory p) = {p}"
| "error_paths (WNotFound p) = {p}"
| "error_paths (WSymlinkDirectoryNotTraversed _ p target) = {p, target}"
| "error_paths (WIo p _) = {p}"
| "error_paths _ = {}"

lemma sanitized_paths:
  "error_paths (sanitize_error kind_text logical (workdir_error_of e)) \<subseteq> {components_of logical, internal_target}"
  by (cases e) auto

lemma refusal_paths:
  "and_then (ensure_capability se w c) (\<lambda>_. validate_operation_path se logical) = Inl e \<Longrightarrow> error_paths e = {}"
  unfolding ensure_capability_def ensure_open_def validate_operation_path_def
  by (cases "se_closed se w"; cases "supports (se_capabilities se) c") (auto split: if_split_asm)

text \<open>
  Whatever a provider call reports, and whatever host paths its error carries, the error the
  caller of a session sees names only the path of the request or the fixed placeholder for a
  provider-internal target.
\<close>

theorem session_errors_logical:
  assumes "session_call kind_text se c logical call w = (Inl e, w')"
  shows "error_paths e \<subseteq> {components_of logical, internal_target}"
proof (cases "and_then (ensure_capability se w c) (\<lambda>_. validate_operation_path se logical)")
  case (Inl e')
  with assms have "e' = e" by (simp add: session_call_def)
  with refusal_paths [OF Inl] show ?thesis by simp
next
  case (Inr u)
  obtain r0 w1 where run: "call (session_access se w) w = (r0, w1)" by (cases "call (session_access se w) w")
  from assms Inr run obtain e0 where "e = sanitize_error kind_text logical (workdir_error_of e0)"
    by (cases r0) (auto simp: session_call_def)
  then show ?thesis using sanitized_paths by simp
qed

definition memory_session :: "memory session" where
  "memory_session = \<lparr>se_id = ''w'', se_root = [RootDir, Normal ''w''], se_pinned_root = None,
     se_reject_symlinks = False, se_read_limits = None, se_capabilities = capabilities_all, se_deadline = None,
     se_scope = (\<lambda>_. sa_scope memory_access), se_closed = (\<lambda>_. False), se_busy = (\<lambda>_. False)\<rparr>"

definition memory_with :: "(path \<times> string) list \<Rightarrow> memory" where
  "memory_with files = \<lparr>me_files = files, me_temps = [], me_next = 0, me_clock = 0, me_cancelled = False, me_faults = []\<rparr>"

theorem session_errors_logical_witness:
  "\<exists>e. error_paths e \<subseteq> {[Normal ''b''], internal_target} \<and>
     session_call (\<lambda>_. []) memory_session CapRead ''b''
       (\<lambda>sa w. (Inl (FsOutOfScope [RootDir, Normal ''etc'']) :: fs_error + unit, w))
       (memory_with []) = (Inl e, memory_with [])"
proof -
  let ?call = "\<lambda>(sa :: scope_access) (w :: memory). (Inl (FsOutOfScope [RootDir, Normal ''etc'']) :: fs_error + unit, w)"
  have b: "components_of ''b'' = [Normal ''b'']" by code_simp
  have run: "session_call (\<lambda>_. []) memory_session CapRead ''b'' ?call (memory_with [])
      = (Inl (WOutOfScope [Normal ''b'']), memory_with [])"
    by (simp add: session_call_def ensure_capability_def ensure_open_def validate_operation_path_def memory_session_def
        supports_all b)
  show ?thesis
    by (rule exI [of _ "WOutOfScope [Normal ''b'']"]) (use session_errors_logical [OF run] run in \<open>simp add: b\<close>)
qed

section \<open>Mutations through a session\<close>

text \<open>
  A write through a session either fails and leaves every file as it was, or it succeeded on one
  file: the session was open and may write, the scope in force grants write to that file, the file
  had exactly the content whose hash the caller gave (or did not exist, when the caller gave none),
  and now has the new content, while every other file is unchanged.
\<close>

lemma session_write_decided:
  assumes run: "session_write kind_text sha256 host se request w = (r, w')"
    and host: "local_policy host disk (session_access se w)"
    and named: "plainly_named (se_root se) (wr_path request)"
  shows "case r of
      Inl _ \<Rightarrow> dk_files (disk w') = dk_files (disk w)
    | Inr res \<Rightarrow> (\<exists>p t. supports (se_capabilities se) CapWrite \<and> \<not> se_closed se w \<and>
        resolve_under (se_root se) (wr_path request) = Inr p \<and>
        permission_at_paths (se_scope se w) p t = Some Write \<and>
        map_option sha256 (dk_files (disk w) t) = wr_expected_hash request \<and>
        dk_files (disk w') = (dk_files (disk w))(t \<mapsto> wr_content request) \<and>
        res = \<lparr>ws_bytes_written = length (wr_content request), ws_created = (dk_files (disk w) t = None)\<rparr>)"
  using run [unfolded session_write_def]
proof (cases rule: locked_callE)
  case (called r0)
  have scope: "sa_scope (session_access se w) = se_scope se w" by (simp add: session_access_def)
  note effect = local_policy.session_write_effect [OF host called(3) named]
  show ?thesis
  proof (cases r0)
    case (Inr res)
    with effect obtain p t where "resolve_under (se_root se) (wr_path request) = Inr p"
      "fa_is_writable_paths (scope_policy host (session_access se w)) p t"
      "map_option sha256 (dk_files (disk w) t) = wr_expected_hash request"
      "dk_files (disk w') = (dk_files (disk w))(t \<mapsto> wr_content request)"
      "res = \<lparr>ws_bytes_written = length (wr_content request), ws_created = (dk_files (disk w) t = None)\<rparr>"
      by auto
    with local_policy.writable_grants [OF host this(2)] called(1,2,4) Inr scope show ?thesis by auto
  qed (use effect called(4) in simp)
qed simp

lemma memory_session_access: "session_access memory_session w = memory_access"
  by (simp add: session_access_def memory_session_def memory_access_def)

text \<open>
  An edit through a session never panics on valid text.  It either fails and leaves every file as
  it was, or it succeeded on one file: the session was open and may edit, the scope in force grants
  write to that file, the file had the content whose hash the caller gave, and now has that content
  with the leftmost occurrences of the old string replaced; the hash and the count it returns are
  those of the new content, and every other file is unchanged.
\<close>

lemma session_edit_decided:
  assumes run: "session_edit kind_text sha256 host se request w = (r, w')"
    and host: "local_policy host disk (session_access se w)"
    and named: "plainly_named (se_root se) (er_path request)"
    and utf8: "utf8_valid (er_old_string request)" "utf8_valid (er_new_string request)"
    and small: "\<forall>p c. dk_files (disk w) p = Some c \<longrightarrow> length c \<le> isize_max"
  shows "case r of
      Inl _ \<Rightarrow> dk_files (disk w') = dk_files (disk w)
    | Inr None \<Rightarrow> False
    | Inr (Some res) \<Rightarrow> (\<exists>p t original ps. supports (se_capabilities se) CapEdit \<and> \<not> se_closed se w \<and>
        resolve_under (se_root se) (er_path request) = Inr p \<and>
        permission_at_paths (se_scope se w) p t = Some Write \<and>
        dk_files (disk w) t = Some original \<and> sha256 original = er_expected_hash request \<and>
        leftmost_split (er_old_string request) original ps \<and>
        (er_replace_all request \<or> length ps = 2) \<and> 2 \<le> length ps \<and>
        dk_files (disk w') = (dk_files (disk w))(t \<mapsto> joined (er_new_string request) ps) \<and>
        es_replacements res = length ps - 1 \<and>
        es_content_hash res = sha256 (joined (er_new_string request) ps))"
  using run [unfolded session_edit_def]
proof (cases rule: locked_callE)
  case (called r0)
  let ?policy = "scope_policy host (session_access se w)" and ?args = "edit_args_of request"
  have sizes: "dk_files (disk w) p = Some c \<Longrightarrow> length c \<le> isize_max" for p c using small by blast
  have scope: "sa_scope (session_access se w) = se_scope se w" by (simp add: session_access_def)
  have args: "ea_old_string ?args = er_old_string request" "ea_new_string ?args = er_new_string request"
    "ea_replace_all ?args = er_replace_all request" by (simp_all add: edit_args_of_def)
  note effect = local_policy.session_edit_effect [OF host called(3) named]
  have valid: "utf8_valid (ea_old_string ?args)" "utf8_valid (ea_new_string ?args)" using utf8 args by simp_all
  show ?thesis
  proof (cases r0)
    case (Inl e)
    with effect called(4) show ?thesis by simp
  next
    case (Inr o1)
    show ?thesis
    proof (cases o1)
      case None
      with effect Inr obtain t original where o: "dk_files (disk w) t = Some original" "from_utf8 original = Utf8Ok"
        "edit original ?args (edit_limits ?policy) = None" by auto
      from o(2) have "utf8_valid original" by (simp add: from_utf8_ok_iff)
      from edit_total [OF this valid sizes [OF o(1)]] o(3) show ?thesis by blast
    next
      case (Some res)
      with effect Inr obtain p t original out where e: "resolve_under (se_root se) (er_path request) = Inr p"
        "fa_is_writable_paths ?policy p t" "dk_files (disk w) t = Some original"
        "sha256 original = er_expected_hash request" "from_utf8 original = Utf8Ok"
        "edit original ?args (edit_limits ?policy) = Some (Inr out)"
        "dk_files (disk w') = (dk_files (disk w))(t \<mapsto> eo_content out)"
        "res = \<lparr>es_replacements = eo_replacements out, es_bytes_written = eo_bytes_written out,
               es_content_hash = sha256 (eo_content out)\<rparr>"
        by auto
      obtain ps where ps: "edit_accepts original ?args (edit_limits ?policy) ps"
        "out = \<lparr>eo_content = joined (ea_new_string ?args) ps, eo_replacements = length ps - 1,
               eo_bytes_written = length (joined (ea_new_string ?args) ps)\<rparr>"
        by (rule edit_success [OF e(6) _ valid sizes [OF e(3)]]) (use e(5) in \<open>simp add: from_utf8_ok_iff\<close>)
      then have "leftmost_split (er_old_string request) original ps" "er_replace_all request \<or> length ps = 2"
        "2 \<le> length ps" by (auto simp: edit_accepts_def args Let_def)
      with e ps(2) called(1,2,4) Inr Some scope args local_policy.writable_grants [OF host e(2)]
      show ?thesis by auto
    qed
  qed
qed simp

end
