(* ===== verification/Router_Properties.thy ===== *)
theory Router_Properties
  imports Session_Router Step_System
begin

text \<open>
  What the router guarantees over every sequence of its operations: states keep the generation they
  were given, generations count attachments, and a detached state stays fenced for ever.
\<close>

section \<open>Effects on one state\<close>

definition same_route :: "'s routed_state \<Rightarrow> 's routed_state \<Rightarrow> bool" where
  "same_route st st' \<longleftrightarrow> rs_session st' = rs_session st \<and> rs_generation st' = rs_generation st \<and>
     rs_detached st' = rs_detached st \<and> rs_active_operations st' = rs_active_operations st"

lemma same_route_refl [simp]: "same_route st st"
  by (simp add: same_route_def)

lemma same_route_trans: "same_route a b \<Longrightarrow> same_route b c \<Longrightarrow> same_route a c"
  by (simp add: same_route_def)

lemma same_route_commands [simp]: "same_route st (st\<lparr>rs_active_commands := c\<rparr>)"
  by (simp add: same_route_def)

lemma same_route_mark [simp]: "same_route st (mark_terminal h status st)"
  by (simp add: mark_terminal_def)

lemma same_route_reconcile [simp]: "same_route st (reconcile_terminal_commands snapshots st)"
  by (simp add: reconcile_terminal_commands_def Let_def)

lemma is_busy_same: "same_route st (snd (is_busy ms st w))"
  by (simp add: is_busy_def Let_def)

lemma poll_commands_same: "same_route st (fst (poll_commands ms handles st w))"
proof (induction handles arbitrary: st w)
  case (Cons h hs)
  show ?case
    by (cases "sm_command_status ms (rs_session st) h w" rule: prod.exhaust)
      (auto split: sum.splits workdir_error.splits
        intro: same_route_trans [OF same_route_mark Cons.IH] same_route_trans [OF same_route_commands Cons.IH] Cons.IH)
qed simp

lemma is_busy_for_detach_same: "is_busy_for_detach ms st w = (busy, st', w') \<Longrightarrow> same_route st st'"
  by (auto simp: is_busy_for_detach_def Let_def split: if_splits prod.splits
      dest!: arg_cong [where f = fst] intro: same_route_trans [OF same_route_reconcile poll_commands_same])

lemma is_busy_for_detach_idle:
  "is_busy_for_detach ms st w = (False, st', w') \<Longrightarrow> rs_active_operations st' = 0 \<and> rs_active_commands st' = {}"
  by (auto simp: is_busy_for_detach_def Let_def split: if_splits prod.splits)

text \<open>A call leaves the accounting of operations as it found it, and never reaches the session of a
  detached state.\<close>

lemma routed_call_same:
  assumes "\<And>a st. same_route st (keep a st)"
  shows "same_route st (fst (snd (routed_call call keep st w)))"
  using assms by (auto simp: routed_call_def routed_enter_def drop_active_def same_route_def split: sum.splits prod.splits)

lemma routed_call_fenced:
  "rs_detached st \<Longrightarrow>
   routed_call call keep st w = (Inl (WUnavailable ''Workdir attachment is detached''), st, w)"
  by (simp add: routed_call_def routed_enter_def)

lemma routed_close_same: "same_route st (fst (snd (routed_close ms view st w)))"
  using is_busy_same [of st ms w] by (auto simp: routed_close_def split: prod.splits bool.splits)

section \<open>Operations of the router\<close>

text \<open>A handle is the address and the view of a routed session.\<close>

datatype ('w, 's, 'q, 'r) router_op =
    OpAttach string 's "fs_path option"
  | OpAttachAt string 's fs_path
  | OpBeginDetach string
  | OpCanDetach string
  | OpCancelDetach string
  | OpFinishDetach string
  | OpCloseAll
  | OpOperation "nat \<times> 's option" "'s \<Rightarrow> ('w, workdir_error, unit) io"
  | OpStartCommand "nat \<times> 's option" 'q
  | OpCommandStatus "nat \<times> 's option" string
  | OpCommandOutput "nat \<times> 's option" 'r
  | OpCancelCommand "nat \<times> 's option" string
  | OpCommandSnapshot "nat \<times> 's option"
  | OpClose "nat \<times> 's option"

record ('w, 's, 'q, 'r, 'o, 'b) router_world =
  rw_methods :: "('w, 's, 'q, 'r, 'o) methods"
  rw_at_cwd :: "nat \<Rightarrow> fs_path \<Rightarrow> workdir_error + 'b"
  rw_tool_session :: "'b \<Rightarrow> 's"
  rw_handle_of :: "'r \<Rightarrow> string"
  rw_terminal_of :: "'o \<Rightarrow> command_status option"

definition through ::
  "nat \<Rightarrow> ('s routed_state \<Rightarrow> 'w \<Rightarrow> 'a \<times> 's routed_state \<times> 'w) \<Rightarrow> ('s, 'b) router \<Rightarrow> 'w \<Rightarrow> ('s, 'b) router \<times> 'w" where
  "through a call r w = (case call (arc r a) w of (_, st, w) \<Rightarrow> (set_arc a st r, w))"

fun router_step ::
  "('w, 's, 'q, 'r, 'o, 'b) router_world \<Rightarrow> ('s, 'b) router \<times> 'w \<Rightarrow> ('w, 's, 'q, 'r) router_op
    \<Rightarrow> ('s, 'b) router \<times> 'w" where
  "router_step rw (r, w) (OpAttach alias session cwd) =
     (snd (attach_with_cwd (rw_at_cwd rw) (rw_tool_session rw) alias session cwd r), w)"
| "router_step rw (r, w) (OpAttachAt alias session cwd) =
     (snd (attach_at_cwd (rw_at_cwd rw) (rw_tool_session rw) alias session cwd r), w)"
| "router_step rw (r, w) (OpBeginDetach alias) = snd (begin_detach (rw_methods rw) alias r w)"
| "router_step rw (r, w) (OpCanDetach alias) = (snd (can_detach (rw_methods rw) alias r w), w)"
| "router_step rw (r, w) (OpCancelDetach alias) = (cancel_detach alias r, w)"
| "router_step rw (r, w) (OpFinishDetach alias) = snd (finish_detach (rw_methods rw) alias r w)"
| "router_step rw (r, w) OpCloseAll = snd (close_all (rw_methods rw) r w)"
| "router_step rw (r, w) (OpOperation (a, view) call) = through a (routed_operation call view) r w"
| "router_step rw (r, w) (OpStartCommand (a, view) request) =
     through a (routed_start_command (rw_methods rw) request view) r w"
| "router_step rw (r, w) (OpCommandStatus (a, view) handle) =
     through a (routed_command_status (rw_methods rw) handle view) r w"
| "router_step rw (r, w) (OpCommandOutput (a, view) request) =
     through a (routed_command_output (rw_methods rw) (rw_handle_of rw) (rw_terminal_of rw) request view) r w"
| "router_step rw (r, w) (OpCancelCommand (a, view) handle) =
     through a (routed_cancel_command (rw_methods rw) handle view) r w"
| "router_step rw (r, w) (OpCommandSnapshot (a, view)) =
     (set_arc a (snd (routed_command_snapshot (rw_methods rw) view (arc r a) w)) r, w)"
| "router_step rw (r, w) (OpClose (a, view)) = through a (routed_close (rw_methods rw) view) r w"

section \<open>The invariant\<close>

definition router_wf :: "('s, 'b) router \<Rightarrow> bool" where
  "router_wf r \<longleftrightarrow> bt_wf (ro_sessions r) \<and> (\<forall>a \<in> snd ` set (ro_sessions r). a < length (ro_heap r)) \<and>
     distinct (map snd (ro_sessions r)) \<and>
     (\<forall>a < length (ro_heap r). rs_generation (arc r a) = of_nat a) \<and>
     ro_next_generation r = of_nat (length (ro_heap r))"

definition fenced_route :: "('s, 'b) router \<Rightarrow> nat \<Rightarrow> bool" where
  "fenced_route r a \<longleftrightarrow> a < length (ro_heap r) \<and> a \<notin> snd ` set (ro_sessions r) \<and> rs_detached (arc r a)"

definition router_grows :: "('s, 'b) router \<Rightarrow> ('s, 'b) router \<Rightarrow> bool" where
  "router_grows r r' \<longleftrightarrow> length (ro_heap r) \<le> length (ro_heap r') \<and>
     (\<forall>a < length (ro_heap r). rs_session (arc r' a) = rs_session (arc r a) \<and>
        rs_generation (arc r' a) = rs_generation (arc r a) \<and> (fenced_route r a \<longrightarrow> fenced_route r' a))"

lemma router_grows_refl [simp]: "router_grows r r"
  by (simp add: router_grows_def)

lemma router_grows_trans: "router_grows r s \<Longrightarrow> router_grows s t \<Longrightarrow> router_grows r t"
  by (auto simp: router_grows_def)

text \<open>One step of an operation either leaves the routes alone and changes one state, or removes a
  route, or attaches.\<close>

lemma arc_set_arc: "arc (set_arc a st r) b = (if a = b \<and> a < length (ro_heap r) then st else arc r b)"
  by (cases "a < length (ro_heap r)") (auto simp: arc_def set_arc_def not_less list_update_beyond)

lemma set_arc_fields [simp]:
  "length (ro_heap (set_arc a st r)) = length (ro_heap r)" "ro_sessions (set_arc a st r) = ro_sessions r"
  "ro_next_generation (set_arc a st r) = ro_next_generation r" "ro_brokers (set_arc a st r) = ro_brokers r"
  by (simp_all add: set_arc_def)

lemma set_arc_same:
  assumes "same_route (arc r a) st" "router_wf r"
  shows "router_wf (set_arc a st r) \<and> router_grows r (set_arc a st r)"
  using assms by (auto simp: router_wf_def router_grows_def fenced_route_def arc_set_arc same_route_def)

lemma set_arc_mapped:
  assumes "rs_session st = rs_session (arc r a)" "rs_generation st = rs_generation (arc r a)" "router_wf r"
    "a \<in> snd ` set (ro_sessions r)"
  shows "router_wf (set_arc a st r) \<and> router_grows r (set_arc a st r)"
  using assms by (auto simp: router_wf_def router_grows_def fenced_route_def arc_set_arc)

lemma bt_remove_keys: "bt_wf m \<Longrightarrow> bt_wf (bt_remove k m)"
  unfolding bt_wf_def bt_remove_def sorted_wrt_map by (rule sorted_wrt_filter)

lemma remove_route_wf:
  assumes "router_wf r"
  shows "router_wf (remove_route alias a r) \<and> router_grows r (remove_route alias a r)"
proof (cases "bt_get (ro_sessions r) alias = Some a")
  case True
  let ?m = "bt_remove alias (ro_sessions r)"
  have "bt_wf ?m" using assms by (simp add: router_wf_def bt_remove_keys)
  moreover have "distinct (map snd ?m)"
    using assms unfolding bt_remove_def router_wf_def by (blast intro: distinct_map_filter)
  moreover have "set ?m \<subseteq> set (ro_sessions r)" by (auto simp: bt_remove_def)
  ultimately show ?thesis using True assms
    unfolding router_wf_def router_grows_def fenced_route_def arc_def remove_route_def
    by auto
qed (use assms in \<open>simp add: remove_route_def\<close>)

lemma bt_get_mapped: "bt_get m alias = Some a \<Longrightarrow> a \<in> snd ` set m"
  by (force simp: bt_get_def dest: map_of_SomeD)

text \<open>The attach and detach operations keep the invariant and only let the router grow.\<close>

lemma set_bt_insert_fresh: "bt_get m k = None \<Longrightarrow> set (bt_insert k v m) = insert (k, v) (set m)"
  by (induction k v m rule: bt_insert.induct) (auto simp: bt_get_def split: if_splits)

lemma distinct_bt_insert_fresh:
  "bt_get m k = None \<Longrightarrow> distinct (map snd m) \<Longrightarrow> v \<notin> snd ` set m \<Longrightarrow> distinct (map snd (bt_insert k v m))"
  by (induction k v m rule: bt_insert.induct)
    (auto simp: bt_get_def set_bt_insert_fresh [unfolded bt_get_def] split: if_splits)

lemma publish_grows:
  assumes wf: "router_wf r" and fresh: "bt_get (ro_sessions r) alias = None"
    and st: "rs_generation st = ro_next_generation r" and r': "length (ro_heap r') = Suc (length (ro_heap r))"
    "ro_heap r' = ro_heap r @ [st]" "ro_next_generation r' = ro_next_generation r + 1"
    "ro_sessions r' = ro_sessions r \<or> ro_sessions r' = bt_insert alias (length (ro_heap r)) (ro_sessions r)"
  shows "router_wf r' \<and> router_grows r r'"
proof -
  let ?n = "length (ro_heap r)"
  have bound: "\<forall>a \<in> snd ` set (ro_sessions r). a < ?n" using wf by (simp add: router_wf_def)
  then have "?n \<notin> snd ` set (ro_sessions r)" by blast
  then have "distinct (map snd (bt_insert alias ?n (ro_sessions r)))" "bt_wf (bt_insert alias ?n (ro_sessions r))"
    using wf fresh by (auto simp: router_wf_def intro: distinct_bt_insert_fresh bt_wf_insert)
  then have keys: "distinct (map snd (ro_sessions r'))" "bt_wf (ro_sessions r')"
    using r'(4) wf by (auto simp: router_wf_def)
  have mapped: "snd ` set (ro_sessions r') \<subseteq> insert ?n (snd ` set (ro_sessions r))"
    using r'(4) fresh by (auto simp: set_bt_insert_fresh)
  have old: "a < ?n \<Longrightarrow> arc r' a = arc r a" for a by (simp add: arc_def r'(2) nth_append)
  have new: "arc r' ?n = st" by (simp add: arc_def r'(2))
  have "\<forall>a \<in> snd ` set (ro_sessions r'). a < Suc ?n" using mapped bound by force
  moreover have "\<forall>a < Suc ?n. rs_generation (arc r' a) = of_nat a"
    using wf st old new by (auto simp: router_wf_def less_Suc_eq)
  ultimately have "router_wf r'" using wf r'(1,3) keys by (simp add: router_wf_def)
  moreover have "fenced_route r a \<longrightarrow> fenced_route r' a" if "a < ?n" for a
    using that mapped old [OF that] r'(1) unfolding fenced_route_def by fastforce
  ultimately show ?thesis using old r'(1) by (simp add: router_grows_def)
qed

lemma attach_grows:
  assumes "router_wf r"
  shows "router_wf (snd (attach_with_cwd at_cwd tool_session alias session cwd r)) \<and>
         router_grows r (snd (attach_with_cwd at_cwd tool_session alias session cwd r))"
proof (cases "bt_get (ro_sessions r) alias")
  case None
  show ?thesis
    by (rule publish_grows [OF assms None, where st = "\<lparr>rs_session = session, rs_generation = ro_next_generation r,
          rs_detached = False, rs_active_operations = 0, rs_active_commands = {}\<rparr>"])
      (auto simp: attach_with_cwd_def None Let_def split: option.splits sum.splits)
qed (use assms in \<open>simp add: attach_with_cwd_def\<close>)

lemma set_arc_busy:
  assumes "is_busy_for_detach ms st w = (busy, st', w')" "router_wf r" "a \<in> snd ` set (ro_sessions r)"
    "rs_session st = rs_session (arc r a)" "rs_generation st = rs_generation (arc r a)"
  shows "router_wf (set_arc a (st'\<lparr>rs_detached := d\<rparr>) r) \<and> router_grows r (set_arc a (st'\<lparr>rs_detached := d\<rparr>) r)"
    "router_wf (set_arc a st' r) \<and> router_grows r (set_arc a st' r)"
  by (rule set_arc_mapped; use is_busy_for_detach_same [OF assms(1)] assms(2-) in \<open>simp add: same_route_def\<close>)+

lemma begin_detach_grows:
  assumes "router_wf r" "begin_detach ms alias r w = (res, r', w')"
  shows "router_wf r' \<and> router_grows r r'"
proof (cases "bt_get (ro_sessions r) alias")
  case (Some a)
  show ?thesis
  proof (cases "rs_detached (arc r a)")
    case False
    obtain busy st w1 where busy: "is_busy_for_detach ms ((arc r a)\<lparr>rs_detached := True\<rparr>) w = (busy, st, w1)"
      by (rule prod_cases3)
    note kept = set_arc_busy [OF busy assms(1) bt_get_mapped [OF Some], simplified]
    from assms(2) Some False busy kept(1) [where d = False] kept(2) show ?thesis
      by (cases busy) (auto simp: begin_detach_def)
  qed (use assms Some in \<open>simp add: begin_detach_def\<close>)
qed (use assms in \<open>simp add: begin_detach_def\<close>)

lemma close_route_grows:
  assumes "router_wf r" "bt_get (ro_sessions r) alias = Some a" "close_route ms alias a r w = (res, r', w')"
  shows "router_wf r' \<and> router_grows r r'"
  using assms(3) remove_route_wf [OF assms(1), of "alias" a]
    set_arc_mapped [OF _ _ assms(1) bt_get_mapped [OF assms(2)], of "(arc r a)\<lparr>rs_detached := False\<rparr>"]
  by (auto simp: close_route_def split: prod.splits sum.splits)

lemma finish_detach_grows:
  assumes wf: "router_wf r" and fin: "finish_detach ms alias r w = (res, r', w')"
  shows "router_wf r' \<and> router_grows r r'"
proof (cases "bt_get (ro_sessions r) alias")
  case (Some a)
  show ?thesis
  proof (cases "rs_detached (arc r a)")
    case True
    obtain busy st w1 where busy: "is_busy_for_detach ms (arc r a) w = (busy, st, w1)" by (rule prod_cases3)
    note kept = set_arc_busy [OF busy wf bt_get_mapped [OF Some], simplified]
    obtain res1 r1 w2 where close: "close_route ms alias a (set_arc a st r) w1 = (res1, r1, w2)" by (rule prod_cases3)
    have "router_wf r1 \<and> router_grows r r1"
      using close_route_grows [OF _ _ close] kept(2) Some router_grows_trans by auto
    with fin Some True busy close kept(1) [where d = False] show ?thesis
      by (auto simp: finish_detach_def split: bool.splits sum.splits)
  qed (use wf fin Some in \<open>simp add: finish_detach_def\<close>)
qed (use wf fin in \<open>simp add: finish_detach_def\<close>)

lemma close_aliases_grows:
  "router_wf r \<Longrightarrow> close_aliases ms aliases r w = (res, r', w') \<Longrightarrow> router_wf r' \<and> router_grows r r'"
proof (induction aliases arbitrary: r w)
  case (Cons x xs)
  show ?case
  proof (cases "bt_get (ro_sessions r) x")
    case (Some a)
    let ?r = "set_arc a ((arc r a)\<lparr>rs_detached := True\<rparr>) r"
    have kept: "router_wf ?r \<and> router_grows r ?r"
      by (rule set_arc_mapped) (use Cons.prems bt_get_mapped [OF Some] in auto)
    obtain res1 r1 w1 where close: "close_route ms x a ?r w = (res1, r1, w1)" by (rule prod_cases3)
    have "router_wf r1 \<and> router_grows r r1"
      using close_route_grows [OF _ _ close] kept Some router_grows_trans by auto
    with Cons.prems Some close Cons.IH [of r1 w1] show ?thesis
      by (auto split: sum.splits intro: router_grows_trans)
  qed (use Cons in auto)
qed simp

lemma through_grows:
  assumes "router_wf r" "\<And>st w. same_route st (fst (snd (call st w)))" "through a call r w = (r', w')"
  shows "router_wf r' \<and> router_grows r r'"
  using assms(3) set_arc_same [OF assms(2) [of "arc r a" w] assms(1)] by (auto simp: through_def split: prod.splits)

lemma cancel_detach_grows: "router_wf r \<Longrightarrow> router_wf (cancel_detach alias r) \<and> router_grows r (cancel_detach alias r)"
  using set_arc_mapped [of _ r] by (simp add: cancel_detach_def bt_get_mapped split: option.splits)

lemma can_detach_grows:
  "router_wf r \<Longrightarrow> router_wf (snd (can_detach ms alias r w)) \<and> router_grows r (snd (can_detach ms alias r w))"
  using is_busy_same [of _ ms w]
  by (auto simp: can_detach_def split: option.splits prod.splits) (metis snd_conv set_arc_same)+

lemma router_step_grows:
  assumes wf: "router_wf r" and step: "router_step rw (r, w) op = (r', w')"
  shows "router_wf r' \<and> router_grows r r'"
proof (cases op)
  case (OpAttachAt n session cwd)
  with step wf attach_grows [OF wf] show ?thesis by (auto simp: attach_at_cwd_def split: sum.splits)
next
  case (OpOperation h call)
  from step wf show ?thesis unfolding OpOperation
    by (cases h) (auto elim!: through_grows [rotated 2] simp: routed_operation_def intro!: routed_call_same)
next
  case (OpStartCommand h request)
  from step wf show ?thesis unfolding OpStartCommand
    by (cases h) (auto elim!: through_grows [rotated 2] simp: routed_start_command_def intro!: routed_call_same)
next
  case (OpCommandStatus h c)
  from step wf show ?thesis unfolding OpCommandStatus
    by (cases h) (auto elim!: through_grows [rotated 2] simp: routed_command_status_def intro!: routed_call_same)
next
  case (OpCommandOutput h request)
  from step wf show ?thesis unfolding OpCommandOutput
    by (cases h) (auto elim!: through_grows [rotated 2] simp: routed_command_output_def intro!: routed_call_same
        split: option.splits)
next
  case (OpCancelCommand h c)
  from step wf show ?thesis unfolding OpCancelCommand
    by (cases h) (auto elim!: through_grows [rotated 2] simp: routed_cancel_command_def intro!: routed_call_same)
next
  case (OpCommandSnapshot h)
  with step wf show ?thesis
    by (cases h) (auto simp: routed_command_snapshot_def Let_def intro!: set_arc_same [rotated])
next
  case (OpClose h)
  from step wf show ?thesis unfolding OpClose
    by (cases h) (auto elim!: through_grows [rotated 2] intro!: routed_close_same)
next
  case (OpBeginDetach n)
  with step show ?thesis
    by (cases "begin_detach (rw_methods rw) n r w") (auto dest: begin_detach_grows [OF wf])
next
  case (OpFinishDetach n)
  with step show ?thesis
    by (cases "finish_detach (rw_methods rw) n r w") (auto dest: finish_detach_grows [OF wf])
next
  case OpCloseAll
  with step show ?thesis
    by (cases "close_all (rw_methods rw) r w") (auto simp: close_all_def dest: close_aliases_grows [OF wf])
next
  case (OpCanDetach n)
  with step can_detach_grows [OF wf, of "rw_methods rw" n w] show ?thesis by auto
qed (use step wf attach_grows [OF wf] cancel_detach_grows [OF wf] in auto)

interpretation routes: growing_system "router_step rw" "\<lambda>s. router_wf (fst s)" "\<lambda>s t. router_grows (fst s) (fst t)"
  for rw
proof (unfold_locales, goal_cases)
  case (1 s x)
  with router_step_grows [of "fst s" rw "snd s" x "fst (router_step rw s x)" "snd (router_step rw s x)"] show ?case by simp
next
  case (3 s t u)
  then show ?case by (rule router_grows_trans)
next
  case (4 s x)
  with router_step_grows [of "fst s" rw "snd s" x "fst (router_step rw s x)" "snd (router_step rw s x)"] show ?case by simp
qed simp

section \<open>Detached and pinned routes\<close>

lemma router_new_wf: "router_wf router_new"
  by (simp add: router_wf_def router_new_def bt_wf_def)

lemma run_from_new:
  assumes "run_ops (router_step rw) (router_new, w0) ops = (r, w)"
  shows "router_wf r"
  using routes.run_inv [of "(router_new, w0)" rw ops] assms by (simp add: router_new_wf)

lemma run_grows_from:
  assumes "router_wf r" "run_ops (router_step rw) (r, w) ops = (r', w')"
  shows "router_wf r' \<and> router_grows r r'"
  using routes.run_inv [of "(r, w)" rw ops] routes.run_grows [of "(r, w)" rw ops] assms by simp

lemma remove_route_unmapped:
  assumes "router_wf r" "bt_get (ro_sessions r) alias = Some a"
  shows "a \<notin> snd ` set (ro_sessions (remove_route alias a r))"
proof
  assume "a \<in> snd ` set (ro_sessions (remove_route alias a r))"
  then obtain k where k: "(k, a) \<in> set (ro_sessions r)" "k \<noteq> alias"
    using assms(2) by (auto simp: remove_route_def bt_remove_def)
  moreover have "(alias, a) \<in> set (ro_sessions r)" using assms(2) by (auto simp: bt_get_def dest: map_of_SomeD)
  moreover have "inj_on snd (set (ro_sessions r))" using assms(1) by (simp add: router_wf_def distinct_map)
  ultimately show False using inj_onD [of snd "set (ro_sessions r)" "(k, a)" "(alias, a)"] by simp
qed

lemma finish_detach_fences:
  assumes wf: "router_wf r" and a: "bt_get (ro_sessions r) alias = Some a"
    and fin: "finish_detach ms alias r w = (Inr session, r1, w1)"
  shows "fenced_route r1 a"
proof -
  obtain b st w2 where b: "is_busy_for_detach ms (arc r a) w = (b, st, w2)" by (rule prod_cases3)
  have det: "rs_detached (arc r a)" using a fin by (auto simp: finish_detach_def split: if_splits)
  with a fin b have "\<not> b" by (auto simp: finish_detach_def)
  with b have busy: "is_busy_for_detach ms (arc r a) w = (False, st, w2)" by simp
  obtain c w3 where c: "sm_close ms (rs_session (arc (set_arc a st r) a)) w2 = (c, w3)" by fastforce
  from fin a det busy c have r1: "r1 = remove_route alias a (set_arc a st r)"
    by (cases c) (simp_all add: finish_detach_def close_route_def)
  have mapped: "a < length (ro_heap r)" using wf bt_get_mapped [OF a] by (auto simp: router_wf_def)
  have "router_wf (set_arc a st r)" using set_arc_same [OF is_busy_for_detach_same [OF busy] wf] by simp
  with a have "a \<notin> snd ` set (ro_sessions r1)" unfolding r1 by (intro remove_route_unmapped) simp_all
  moreover have "rs_detached st" using is_busy_for_detach_same [OF busy] det by (simp add: same_route_def)
  moreover have "arc r1 a = st" "length (ro_heap r1) = length (ro_heap r)"
    using mapped by (simp_all add: r1 remove_route_def arc_def set_arc_def)
  ultimately show ?thesis using mapped by (simp add: fenced_route_def)
qed


text \<open>Sessions named by numbers, with no commands; the world counts the sessions closed.\<close>

definition numbered_sessions :: "(nat, nat, unit, unit, unit, unit) router_world" where
  "numbered_sessions = \<lparr>rw_methods = \<lparr>sm_capabilities = (\<lambda>_. capabilities_all),
     sm_start_command = (\<lambda>_ _ w. (Inr ''c'', w)), sm_command_status = (\<lambda>_ _ w. (Inr CmdRunning, w)),
     sm_command_output = (\<lambda>_ _ w. (Inr (), w)), sm_cancel_command = (\<lambda>_ _ w. (Inr (), w)),
     sm_command_snapshot = (\<lambda>_ _. []), sm_close = (\<lambda>_ w. (Inr (), w + 1)), iter_order = sorted_list_of_set\<rparr>,
     rw_at_cwd = (\<lambda>_ _. Inr ()), rw_tool_session = (\<lambda>_. 0), rw_handle_of = (\<lambda>_. []), rw_terminal_of = (\<lambda>_. None)\<rparr>"


end
