(* ===== verification/File_Tools_Properties.thy ===== *)
theory File_Tools_Properties
  imports File_Tools Workdir_Properties Router_Properties
begin

text \<open>
  What the file tools promise: an edit or an overwrite happens only on content observed through the
  same attachment and leaves the tracker in step with the file, observations of one attachment never
  count for another, and the list of recent files is the list of the most recently touched ones.
\<close>

section \<open>Routed calls\<close>

definition selected_session :: "('s, 'b) router \<Rightarrow> 's resolved_session \<Rightarrow> 's" where
  "selected_session r v = routed_inner (snd (rv_session v)) (arc r (fst (rv_session v)))"

lemma routed_io_cases:
  assumes "routed_io (a, view) call (r, w) = (res, (r', w'))"
  obtains (refused) e where "res = Inl e" "w' = w" "r' = set_arc a (arc r a) r"
    | (called) st where "\<not> rs_detached (arc r a)" "call (routed_inner view (arc r a)) w = (res, w')"
        "r' = set_arc a st r" "same_route (arc r a) st"
proof (cases "rs_detached (arc r a)")
  case True
  then show ?thesis using assms that(1) by (auto simp: routed_io_def routed_operation_def routed_call_fenced)
next
  case False
  obtain res0 st w0 where run: "routed_operation call view (arc r a) w = (res0, st, w0)" by (rule prod_cases3)
  then have "same_route (arc r a) st"
    using routed_call_same [of "\<lambda>_ st. st" "arc r a" "call (routed_inner view (arc r a))" w]
    by (simp add: routed_operation_def)
  moreover have "call (routed_inner view (arc r a)) w = (res0, w0)"
    using run False by (auto simp: routed_operation_def routed_call_def routed_enter_def split: prod.splits sum.splits)
  ultimately show ?thesis using assms that(2) False run by (auto simp: routed_io_def)
qed

lemma set_arc_inner:
  "same_route (arc r a) st \<Longrightarrow> routed_inner view (arc (set_arc a st r) a) = routed_inner view (arc r a)"
  by (simp add: routed_inner_def arc_set_arc same_route_def split: option.splits)

lemma regularE:
  assumes "io_bind (regular m) (\<lambda>x w. (Inr (f x), w)) s = (res, s')"
  obtains (failed) e where "res = Inl (tool_error_of (WorkdirSession e))" "m s = (Inl e, s')"
    | (succeeded) x where "res = Inr (f x)" "m s = (Inr x, s')"
  using assms by (cases "m s"; cases "fst (m s)") (auto simp: io_bind_def regular_def)

lemma new_plainly_named:
  assumes "fs_path_new s = Inr p" "normal_path root"
  shows "plainly_named root p"
proof -
  obtain ns where ns: "list_all component_name ns" "p = join_components (map Normal ns)"
    using fs_path_new_names [OF assms(1)] by blast
  then have "components_of p = map Normal ns" using components_of_join by simp
  then show ?thesis using assms(2)
    by (cases ns) (auto simp: plainly_named_def resolve_under_def path_push_def is_absolute_def
        dest: normal_path_append [of _ ns])
qed

lemma run_toolE:
  assumes "run_tool tc required parse target_workdir file_path execute tr (r, w) = (res, tr', s')"
  obtains (refused) e where "res = Some (Inl e)" "tr' = tr" "s' = (r, w)"
    | (run) v p where "router_resolve (tc_tool_session tc) target_workdir r = Inr v" "parse file_path = Inr p"
        "supports (tc_capabilities tc (selected_session r v)) required"
        "execute \<lparr>ft_session = routed_provider (tc_providers tc) (rv_session v), ft_path = p, ft_validator = None\<rparr>
           (Some (attachment_namespace v)) tr (r, w) = (res, tr', s')"
proof (cases "resolve_session tc target_workdir required r")
  case (Inl e)
  then show ?thesis using assms that(1) by (auto simp: run_tool_def)
next
  case (Inr v)
  then obtain u where u: "router_resolve (tc_tool_session tc) target_workdir r = Inr u"
    by (cases "router_resolve (tc_tool_session tc) target_workdir r") (simp_all add: resolve_session_def)
  obtain a view where "rv_session u = (a, view)" by (rule prod.exhaust)
  with Inr u have v: "router_resolve (tc_tool_session tc) target_workdir r = Inr v"
    "supports (tc_capabilities tc (selected_session r v)) required"
    by (simp_all add: resolve_session_def selected_session_def split: if_splits)
  show ?thesis
  proof (cases "parse file_path")
    case (Inl e)
    with assms Inr have "res = Some (Inl (tool_error_of (FileSystem e)))" "tr' = tr" "s' = (r, w)"
      by (simp_all add: run_tool_def)
    then show ?thesis by (rule that(1))
  next
    case p: (Inr p)
    with assms Inr have "execute \<lparr>ft_session = routed_provider (tc_providers tc) (rv_session v), ft_path = p,
      ft_validator = None\<rparr> (Some (attachment_namespace v)) tr (r, w) = (res, tr', s')" by (simp add: run_tool_def)
    then show ?thesis by (rule that(2) [OF v(1) p v(2)])
  qed
qed

section \<open>Editing\<close>

lemma execute_editE:
  assumes "execute_edit target ns args tr s = (res, tr', s')" "ft_validator target = None"
  obtains (refused) e where "res = Some (Inl e)" "tr' = tr" "s' = s"
    | (called) hash r0 where "tk_hashes tr (tracker_key ns (components_of (ft_path target))) = Some hash"
        "fp_edit (ft_session target) \<lparr>er_path = ft_path target, er_old_string = ea_old_string args,
           er_new_string = ea_new_string args, er_replace_all = ea_replace_all args, er_expected_hash = hash\<rparr> s = (r0, s')"
        "case r0 of Inl e \<Rightarrow> res = Some (Inl (tool_error_of (WorkdirSession e))) \<and> tr' = tr
         | Inr None \<Rightarrow> res = None
         | Inr (Some result) \<Rightarrow> (\<exists>out. res = Some (Inr out)) \<and>
             tk_hashes tr' = (tk_hashes tr)(tracker_key ns (components_of (ft_path target)) \<mapsto> es_content_hash result)"
proof (cases "edit_args_validate args text_limits_default")
  case (Inl e)
  with assms(1) show ?thesis by (intro that(1) [of "tool_text_error e"]) (simp_all add: execute_edit_def Let_def)
next
  case valid: (Inr u)
  show ?thesis
  proof (cases "tk_hashes tr (tracker_key ns (components_of (ft_path target)))")
    case None
    with assms(1) valid show ?thesis
      by (intro that(1) [of "tool_error_of (NotRead (components_of (ft_path target)))"])
        (simp_all add: execute_edit_def expected_workdir_hash_def Let_def)
  next
    case (Some hash)
    let ?rq = "\<lparr>er_path = ft_path target, er_old_string = ea_old_string args,
      er_new_string = ea_new_string args, er_replace_all = ea_replace_all args, er_expected_hash = hash\<rparr>"
    obtain r0 s0 where run: "fp_edit (ft_session target) ?rq s = (r0, s0)" by (rule prod.exhaust)
    have "target_edit target (ea_old_string args) (ea_new_string args) (ea_replace_all args) hash s =
      (map_err (\<lambda>e. tool_error_of (WorkdirSession e)) (and_then r0 (\<lambda>x. Inr (map_option (\<lambda>x. (x, None)) x))), s0)"
      using run assms(2) by (cases r0) (simp_all add: target_edit_def io_bind_def regular_def)
    with assms(1) valid Some have "s0 = s'" "case r0 of Inl e \<Rightarrow> res = Some (Inl (tool_error_of (WorkdirSession e))) \<and> tr' = tr
         | Inr None \<Rightarrow> res = None
         | Inr (Some result) \<Rightarrow> (\<exists>out. res = Some (Inr out)) \<and>
             tk_hashes tr' = (tk_hashes tr)(tracker_key ns (components_of (ft_path target)) \<mapsto> es_content_hash result)"
      by (cases r0; cases "projr r0"; auto simp: execute_edit_def expected_workdir_hash_def record_workdir_edit_def Let_def
            simp del: tool_error_of.simps)+
    with run Some show ?thesis by (intro that(2)) simp_all
  qed
qed

abbreviation edit_request_of :: "fs_path \<Rightarrow> edit_args \<Rightarrow> content_hash \<Rightarrow> edit_request" where
  "edit_request_of p args hash \<equiv> \<lparr>er_path = p, er_old_string = ea_old_string args, er_new_string = ea_new_string args,
     er_replace_all = ea_replace_all args, er_expected_hash = hash\<rparr>"

lemma edit_tool_calls:
  assumes "edit_tool tc target_workdir file_path args tr (r, w) = (res, tr', (r', w'))"
    and local: "tc_providers tc = local_provider kind_text sha256 host checkout"
  obtains (refused) e where "res = Some (Inl e)" "tr' = tr" "w' = w"
    | (called) v p hash r0 where "router_resolve (tc_tool_session tc) target_workdir r = Inr v"
        "fs_path_new file_path = Inr p" "\<not> rs_detached (arc r (fst (rv_session v)))"
        "tk_hashes tr (tracker_key (Some (attachment_namespace v)) (components_of p)) = Some hash"
        "session_edit kind_text sha256 host (selected_session r v) (edit_request_of p args hash) w = (r0, w')"
        "case r0 of Inl e \<Rightarrow> res = Some (Inl (tool_error_of (WorkdirSession e))) \<and> tr' = tr
         | Inr None \<Rightarrow> res = None
         | Inr (Some result) \<Rightarrow> (\<exists>out. res = Some (Inr out)) \<and> tk_hashes tr' = (tk_hashes tr)
             (tracker_key (Some (attachment_namespace v)) (components_of p) \<mapsto> es_content_hash result)"
  using assms(1) [unfolded edit_tool_def]
proof (cases rule: run_toolE)
  case (refused e)
  then show ?thesis by (intro that(1) [of e]) simp_all
next
  case (run v p)
  let ?target = "\<lparr>ft_session = routed_provider (tc_providers tc) (rv_session v), ft_path = p, ft_validator = None\<rparr>"
  have "ft_validator ?target = None" by simp
  with run(4) show ?thesis
  proof (cases rule: execute_editE)
    case (refused e)
    then show ?thesis by (intro that(1) [of e]) simp_all
  next
    case (called hash r0)
    note outcome = called [unfolded file_target.select_convs]
    from called(2) have "routed_io (fst (rv_session v), snd (rv_session v))
      (\<lambda>se. session_edit kind_text sha256 host se (edit_request_of p args hash)) (r, w) = (r0, (r', w'))"
      by (simp add: routed_provider_def local local_provider_def)
    then show ?thesis
    proof (cases rule: routed_io_cases)
      case (refused e)
      with outcome(3) show ?thesis by (intro that(1) [of "tool_error_of (WorkdirSession e)"]) simp_all
    next
      case (called st)
      then show ?thesis
        by (intro that(2) [OF run(1,2) _ outcome(1) _ outcome(3)]) (simp_all add: selected_session_def)
    qed
  qed
qed

text \<open>
  C4. The edit tool never panics on valid text.  It either fails and leaves the tracker and every
  file as they were, or it edited one file: the attachment was not detached, its scope grants write
  to the file, the file had the content last observed at that path through that attachment, and now
  has that content with the leftmost occurrences replaced; the tracker holds the hash of the new
  content there and every other file and hash is unchanged.
\<close>

theorem edit_tool_exact:
  assumes run: "edit_tool tc target_workdir file_path args tr (r, w) = (res, tr', (r', w'))"
    and local: "tc_providers tc = local_provider kind_text sha256 host checkout"
    and host: "\<forall>v. router_resolve (tc_tool_session tc) target_workdir r = Inr v \<longrightarrow>
      local_policy host disk (session_access (selected_session r v) w) \<and> normal_path (se_root (selected_session r v))"
    and utf8: "utf8_valid (ea_old_string args)" "utf8_valid (ea_new_string args)"
    and small: "\<forall>p c. dk_files (disk w) p = Some c \<longrightarrow> length c \<le> isize_max"
  shows "case res of
      None \<Rightarrow> False
    | Some (Inl _) \<Rightarrow> tr' = tr \<and> dk_files (disk w') = dk_files (disk w)
    | Some (Inr _) \<Rightarrow> (\<exists>v p q t original ps key.
        router_resolve (tc_tool_session tc) target_workdir r = Inr v \<and> fs_path_new file_path = Inr p \<and>
        \<not> rs_detached (arc r (fst (rv_session v))) \<and>
        resolve_under (se_root (selected_session r v)) p = Inr q \<and>
        permission_at_paths (se_scope (selected_session r v) w) q t = Some Write \<and>
        key = tracker_key (Some (attachment_namespace v)) (components_of p) \<and>
        dk_files (disk w) t = Some original \<and> tk_hashes tr key = Some (sha256 original) \<and>
        leftmost_split (ea_old_string args) original ps \<and> (ea_replace_all args \<or> length ps = 2) \<and> 2 \<le> length ps \<and>
        dk_files (disk w') = (dk_files (disk w))(t \<mapsto> joined (ea_new_string args) ps) \<and>
        tk_hashes tr' = (tk_hashes tr)(key \<mapsto> sha256 (joined (ea_new_string args) ps)))"
  using run local
proof (cases rule: edit_tool_calls)
  case (called v p hash r0)
  let ?se = "selected_session r v" and ?key = "tracker_key (Some (attachment_namespace v)) (components_of p)"
  let ?rq = "edit_request_of p args hash"
  have policy: "local_policy host disk (session_access ?se w)" and root: "normal_path (se_root ?se)"
    using host called(1) by blast+
  have "plainly_named (se_root ?se) (er_path ?rq)" "utf8_valid (er_old_string ?rq)" "utf8_valid (er_new_string ?rq)"
    using utf8 new_plainly_named [OF called(2) root] by simp_all
  note exact = session_edit_decided [where disk = disk and w = w and request = ?rq, OF called(5) policy this small]
  show ?thesis
  proof (cases r0)
    case (Inl e)
    with exact called(6) show ?thesis by simp
  next
    case (Inr o1)
    with exact obtain result where o1: "o1 = Some result" by (cases o1) simp_all
    from exact [unfolded Inr o1 sum.case option.case] obtain q t original ps where e:
      "resolve_under (se_root ?se) (er_path ?rq) = Inr q" "permission_at_paths (se_scope ?se w) q t = Some Write"
      "dk_files (disk w) t = Some original" "sha256 original = er_expected_hash ?rq"
      "leftmost_split (er_old_string ?rq) original ps" "er_replace_all ?rq \<or> length ps = 2" "2 \<le> length ps"
      "dk_files (disk w') = (dk_files (disk w))(t \<mapsto> joined (er_new_string ?rq) ps)"
      "es_content_hash result = sha256 (joined (er_new_string ?rq) ps)"
      by (elim exE conjE) (rule that)
    from called(6) [unfolded Inr o1 sum.case option.case] obtain out where out: "res = Some (Inr out)"
      "tk_hashes tr' = (tk_hashes tr)(?key \<mapsto> es_content_hash result)" by blast
    show ?thesis unfolding out(1) option.case sum.case
      by (intro exI [of _ v] exI [of _ p] exI [of _ q] exI [of _ t] exI [of _ original] exI [of _ ps] exI [of _ ?key])
        (use e out(2) called(1-4) in simp)
  qed
qed simp_all

text \<open>A worker with one attachment, the in-memory session, and a tracker that has seen one file.\<close>

definition length_hash :: "string \<Rightarrow> content_hash" where
  "length_hash c = [of_nat (length c)]"

definition memory_tools :: "(memory, memory session, unit) tool_context" where
  "memory_tools = \<lparr>tc_providers = local_provider (\<lambda>_. []) length_hash memory_host (\<lambda>_ _ w. (Inl WOperationFailed, w)),
     tc_capabilities = se_capabilities, tc_tool_session = (\<lambda>_. memory_session), tc_sha256 = length_hash\<rparr>"

definition memory_router :: "(memory session, unit) router" where
  "memory_router = snd (router_attach (\<lambda>_ _. Inl WOperationFailed) (\<lambda>_. memory_session) ''m'' memory_session router_new)"

definition seen_tracker :: tracker where
  "seen_tracker = record_workdir_content length_hash (Some ''m#0'') ''a'' ''XaX'' tracker_new"

lemma memory_resolved:
  "router_resolve (tc_tool_session memory_tools) None memory_router = Inr v \<Longrightarrow>
     selected_session memory_router v = memory_session \<and> rv_alias v = ''m'' \<and> rv_generation v = 0"
  by (auto simp: memory_router_def router_attach_def attach_with_cwd_def router_new_def router_resolve_def bt_get_def
      arc_def routed_handle_def coordinate_broker_def selected_session_def routed_inner_def Let_def)

lemma memory_host_policy: "local_policy memory_host memory_disk (session_access memory_session w)"
  unfolding memory_session_access by (rule memory_session.local_policy_axioms)

lemma memory_root: "normal_path (se_root memory_session)"
  by (simp add: memory_session_def normal_path_def) (rule exI [of _ "[''w'']"], simp)

lemma memory_sessions:
  "\<forall>v. router_resolve (tc_tool_session memory_tools) None memory_router = Inr v \<longrightarrow>
    local_policy memory_host memory_disk (session_access (selected_session memory_router v) w) \<and>
    normal_path (se_root (selected_session memory_router v))"
  using memory_resolved memory_host_policy memory_root by metis

lemma memory_local:
  "tc_providers memory_tools = local_provider (\<lambda>_. []) length_hash memory_host (\<lambda>_ _ w. (Inl WOperationFailed, w))"
  "tc_sha256 memory_tools = length_hash"
  by (simp_all add: memory_tools_def)

lemma memory_key:
  assumes "router_resolve (tc_tool_session memory_tools) None memory_router = Inr v" "fs_path_new ''a'' = Inr p"
  shows "tracker_key (Some (attachment_namespace v)) (components_of p) = tracker_key (Some ''m#0'') [Normal ''a'']"
proof -
  have "fs_path_new ''a'' = Inr ''a''" "components_of ''a'' = [Normal ''a'']" "dec 0 = ''0''" by code_simp+
  with assms(2) memory_resolved [OF assms(1)] show ?thesis
    by (simp add: attachment_namespace_def scoped_attachment_def)
qed

theorem edit_tool_exact_witness:
  "\<exists>out tr' r' w' c. edit_tool memory_tools None ''a'' \<lparr>ea_old_string = ''X'', ea_new_string = ''--'', ea_replace_all = True\<rparr>
       seen_tracker (memory_router, memory_with [([RootDir, Normal ''w'', Normal ''a''], ''XaX'')])
       = (Some (Inr out), tr', (r', w')) \<and>
     dk_files (memory_disk w') [RootDir, Normal ''w'', Normal ''a''] = Some c \<and>
     tk_hashes tr' (tracker_key (Some ''m#0'') [Normal ''a'']) = Some (length_hash c)"
proof -
  let ?args = "\<lparr>ea_old_string = ''X'', ea_new_string = ''--'', ea_replace_all = True\<rparr>"
  let ?w = "memory_with [([RootDir, Normal ''w'', Normal ''a''], ''XaX'')]"
  let ?run = "edit_tool memory_tools None ''a'' ?args seen_tracker (memory_router, ?w)"
  have "(case ?run of (Some (Inr _), _) \<Rightarrow> True | _ \<Rightarrow> False)" by code_simp
  then obtain out tr' r' w' where run: "?run = (Some (Inr out), tr', (r', w'))"
    by (auto split: prod.splits option.splits sum.splits)
  have files: "dk_files (memory_disk ?w) = [[RootDir, Normal ''w'', Normal ''a''] \<mapsto> ''XaX'']"
    by (simp add: memory_disk_def memory_with_def)
  have "length ''XaX'' \<le> isize_max" by (simp add: isize_max_def)
  then have sizes: "\<forall>p c. dk_files (memory_disk ?w) p = Some c \<longrightarrow> length c \<le> isize_max"
    unfolding files by (metis fun_upd_apply option.distinct(1) option.inject)
  have utf8: "utf8_valid (ea_old_string ?args)" "utf8_valid (ea_new_string ?args)" by code_simp+
  note exact = edit_tool_exact [where disk = memory_disk and w = ?w and args = ?args, OF run memory_local(1) memory_sessions utf8 sizes,
      unfolded sum.case option.case]
  from exact obtain v p t original ps where t: "router_resolve (tc_tool_session memory_tools) None memory_router = Inr v"
    "fs_path_new ''a'' = Inr p" "dk_files (memory_disk ?w) t = Some original"
    "dk_files (memory_disk w') = (dk_files (memory_disk ?w))(t \<mapsto> joined (ea_new_string ?args) ps)"
    "tk_hashes tr' = (tk_hashes seen_tracker)(tracker_key (Some (attachment_namespace v)) (components_of p) \<mapsto>
       length_hash (joined (ea_new_string ?args) ps))"
    by (elim exE conjE) (rule that, (simp; fail)+)
  have "t = [RootDir, Normal ''w'', Normal ''a'']" using t(3) unfolding files by (simp split: if_splits)
  with run t(4) t(5) [unfolded memory_key [OF t(1,2)]] show ?thesis by auto
qed

section \<open>Writing\<close>

lemma session_stat_keeps:
  assumes "local_policy host disk (session_access se w)" "session_stat kind_text host se logical w = (res, w')"
  shows "dk_files (disk w') = dk_files (disk w)"
  using assms(2) [unfolded session_stat_def]
proof (cases rule: session_callE)
  case (called r0)
  let ?policy = "scope_policy host (session_access se w)" and ?obs = "\<lambda>w. dk_files (disk w)"
  note keeps = local_policy.policy_stat_keeps [OF assms(1)]
  have "io_keeps ?obs (run_stat (se_root se) logical ?policy)"
    unfolding run_stat_def by (intro io_keeps_bind) (auto intro!: io_keeps_bind simp: keeps)
  from io_keepsD [OF this called(3)] show ?thesis .
qed simp

lemma write_expectation_regular:
  assumes "write_expectation target ns None tr s = (res, s')" "ft_validator target = None"
  shows "\<exists>x. fp_stat (ft_session target) (ft_path target) s = (x, s') \<and>
    (case res of Inl _ \<Rightarrow> True
     | Inr hash \<Rightarrow> hash = None \<or> hash = tk_hashes tr (tracker_key ns (components_of (ft_path target))))"
proof -
  obtain x s0 where "fp_stat (ft_session target) (ft_path target) s = (x, s0)" by (rule prod.exhaust)
  with assms show ?thesis
    by (cases x; cases "classification_source (projl x)"; cases "tk_hashes tr (tracker_key ns (components_of (ft_path target)))")
      (auto simp: write_expectation_def expected_workdir_hash_def Let_def simp del: tool_error_of.simps)
qed

lemma text_write_default [simp]: "text_write content text_limits_default = Inr \<lparr>to_content = content, to_bytes = length content\<rparr>"
  by (simp add: text_write_def text_outcome_of_def check_input_bytes_def check_output_bytes_def text_limits_default_def)

abbreviation write_request_of :: "fs_path \<Rightarrow> string \<Rightarrow> content_hash option \<Rightarrow> write_request" where
  "write_request_of p content hash \<equiv> \<lparr>wr_path = p, wr_content = content, wr_expected_hash = hash\<rparr>"

lemma execute_writeE:
  assumes "execute_write sha256 target ns content None tr s = (res, tr', s')" "ft_validator target = None"
  obtains (refused) e x where "res = Some (Inl e)" "tr' = tr" "fp_stat (ft_session target) (ft_path target) s = (x, s')"
    | (called) hash x s1 r0 where "fp_stat (ft_session target) (ft_path target) s = (x, s1)"
        "hash = None \<or> hash = tk_hashes tr (tracker_key ns (components_of (ft_path target)))"
        "fp_write (ft_session target) (write_request_of (ft_path target) content hash) s1 = (r0, s')"
        "case r0 of Inl e \<Rightarrow> res = Some (Inl (tool_error_of (WorkdirSession e))) \<and> tr' = tr
         | Inr result \<Rightarrow> (\<exists>out. res = Some (Inr out)) \<and>
             tk_hashes tr' = (tk_hashes tr)(tracker_key ns (components_of (ft_path target)) \<mapsto> sha256 content)"
proof -
  obtain h s1 where h: "write_expectation target ns None tr s = (h, s1)" by (rule prod.exhaust)
  from write_expectation_regular [OF this assms(2)] obtain x where
    x: "fp_stat (ft_session target) (ft_path target) s = (x, s1)"
      "case h of Inl _ \<Rightarrow> True | Inr hash \<Rightarrow> hash = None \<or> hash = tk_hashes tr (tracker_key ns (components_of (ft_path target)))"
    by blast
  show ?thesis
  proof (cases h)
    case (Inl e)
    with assms(1) h x(1) show ?thesis by (intro that(1) [of e x]) (simp_all add: execute_write_def Let_def)
  next
    case (Inr hash)
    obtain r0 s0 where run: "fp_write (ft_session target) (write_request_of (ft_path target) content hash) s1 = (r0, s0)"
      by (rule prod.exhaust)
    have "target_write target content hash None s1 =
      (map_err (\<lambda>e. tool_error_of (WorkdirSession e)) (and_then r0 (\<lambda>x. Inr (Some (x, None)))), s0)"
      using run assms(2) by (cases r0) (simp_all add: target_write_def io_bind_def regular_def)
    with assms(1) h Inr have "s0 = s'" "case r0 of Inl e \<Rightarrow> res = Some (Inl (tool_error_of (WorkdirSession e))) \<and> tr' = tr
         | Inr result \<Rightarrow> (\<exists>out. res = Some (Inr out)) \<and>
             tk_hashes tr' = (tk_hashes tr)(tracker_key ns (components_of (ft_path target)) \<mapsto> sha256 content)"
      by (cases r0; auto simp: execute_write_def record_workdir_content_def record_change_def Let_def
            simp del: tool_error_of.simps)+
    with run x Inr show ?thesis by (intro that(2) [OF x(1)]) simp_all
  qed
qed

text \<open>A routed stat changes no file and leaves the route where it was.\<close>

lemma routed_stat_keeps:
  assumes "routed_io (a, view) (\<lambda>se. session_stat kind_text host se p) (r, w) = (x, (r1, w1))"
    and "local_policy host disk (session_access (routed_inner view (arc r a)) w)"
  shows "dk_files (disk w1) = dk_files (disk w) \<and> routed_inner view (arc r1 a) = routed_inner view (arc r a) \<and>
    rs_detached (arc r1 a) = rs_detached (arc r a)"
  using assms(1)
proof (cases rule: routed_io_cases)
  case (called st)
  with session_stat_keeps [OF assms(2) called(2)] set_arc_inner [OF called(4)] show ?thesis
    by (simp add: arc_set_arc same_route_def)
qed (simp add: arc_set_arc)

lemma local_routed:
  "fp_stat (routed_provider (local_provider kind_text sha256 host checkout) h) q =
     routed_io h (\<lambda>se. session_stat kind_text host se q)"
  "fp_write (routed_provider (local_provider kind_text sha256 host checkout) h) rq =
     routed_io h (\<lambda>se. session_write kind_text sha256 host se rq)"
  by (simp_all add: routed_provider_def local_provider_def)

lemma write_tool_calls:
  assumes "write_tool tc target_workdir file_path content tr (r, w) = (res, tr', (r', w'))"
    and local: "tc_providers tc = local_provider kind_text sha256 host checkout" "tc_sha256 tc = sha256"
    and host: "\<forall>v u. router_resolve (tc_tool_session tc) target_workdir r = Inr v \<longrightarrow>
      local_policy host disk (session_access (selected_session r v) u)"
  obtains (refused) e where "res = Some (Inl e)" "tr' = tr" "dk_files (disk w') = dk_files (disk w)"
    | (called) v p hash u r0 where "router_resolve (tc_tool_session tc) target_workdir r = Inr v"
        "fs_path_new file_path = Inr p" "\<not> rs_detached (arc r (fst (rv_session v)))" "dk_files (disk u) = dk_files (disk w)"
        "hash = None \<or> hash = tk_hashes tr (tracker_key (Some (attachment_namespace v)) (components_of p))"
        "session_write kind_text sha256 host (selected_session r v) (write_request_of p content hash) u = (r0, w')"
        "case r0 of Inl e \<Rightarrow> res = Some (Inl (tool_error_of (WorkdirSession e))) \<and> tr' = tr
         | Inr result \<Rightarrow> (\<exists>out. res = Some (Inr out)) \<and> tk_hashes tr' = (tk_hashes tr)
             (tracker_key (Some (attachment_namespace v)) (components_of p) \<mapsto> sha256 content)"
  using assms(1) [unfolded write_tool_def]
proof (cases rule: run_toolE)
  case (refused e)
  then show ?thesis by (intro that(1) [of e]) simp_all
next
  case (run v p)
  let ?target = "\<lparr>ft_session = routed_provider (tc_providers tc) (rv_session v), ft_path = p, ft_validator = None\<rparr>"
  obtain a view where rv: "rv_session v = (a, view)" by (rule prod.exhaust)
  let ?se = "routed_inner view (arc r a)"
  have se: "selected_session r v = ?se" by (simp add: selected_session_def rv)
  have policy: "local_policy host disk (session_access ?se w)" using host run(1) unfolding se [symmetric] by blast
  have "ft_validator ?target = None" by simp
  with run(4) show ?thesis
  proof (cases rule: execute_writeE)
    case (refused e x)
    note stat = refused(3) [unfolded file_target.select_convs local(1) local_routed rv]
    show ?thesis by (rule that(1) [OF refused(1,2)]) (use routed_stat_keeps [OF stat policy] in blast)
  next
    case (called hash x s1 r0)
    note calls = called [unfolded file_target.select_convs local(1) local_routed rv]
    obtain r1 w1 where s1: "s1 = (r1, w1)" by (rule prod.exhaust)
    have kept: "dk_files (disk w1) = dk_files (disk w)" "routed_inner view (arc r1 a) = ?se"
      "rs_detached (arc r1 a) = rs_detached (arc r a)"
      using routed_stat_keeps [OF calls(1) [unfolded s1] policy] by simp_all
    from calls(3) [unfolded s1] show ?thesis
    proof (cases rule: routed_io_cases)
      case (refused e)
      with calls(4) kept(1) show ?thesis by (intro that(1) [of "tool_error_of (WorkdirSession e)"]) simp_all
    next
      case (called st)
      with kept have "\<not> rs_detached (arc r a)"
        "session_write kind_text sha256 host ?se (write_request_of p content hash) w1 = (r0, w')" by simp_all
      then show ?thesis by (intro that(2) [OF run(1,2) _ kept(1) calls(2) _ calls(4) [unfolded local(2)]]) (simp_all add: se rv)
    qed
  qed
qed

text \<open>
  C5. The write tool never panics.  It either fails and leaves the tracker and every file as they
  were, or it wrote one file whose scope grants write, through an attachment that was not detached:
  the file did not exist, or it had the content last observed at that path through that attachment;
  now it has the new content, whose hash the tracker holds there, and every other file and hash is
  unchanged.
\<close>

theorem write_tool_exact:
  assumes run: "write_tool tc target_workdir file_path content tr (r, w) = (res, tr', (r', w'))"
    and local: "tc_providers tc = local_provider kind_text sha256 host checkout" "tc_sha256 tc = sha256"
    and host: "\<forall>v u. router_resolve (tc_tool_session tc) target_workdir r = Inr v \<longrightarrow>
      local_policy host disk (session_access (selected_session r v) u) \<and> normal_path (se_root (selected_session r v))"
  shows "case res of
      None \<Rightarrow> False
    | Some (Inl _) \<Rightarrow> tr' = tr \<and> dk_files (disk w') = dk_files (disk w)
    | Some (Inr _) \<Rightarrow> (\<exists>v p q t key u.
        router_resolve (tc_tool_session tc) target_workdir r = Inr v \<and> fs_path_new file_path = Inr p \<and>
        \<not> rs_detached (arc r (fst (rv_session v))) \<and>
        resolve_under (se_root (selected_session r v)) p = Inr q \<and>
        permission_at_paths (se_scope (selected_session r v) u) q t = Some Write \<and>
        key = tracker_key (Some (attachment_namespace v)) (components_of p) \<and>
        (\<forall>original. dk_files (disk w) t = Some original \<longrightarrow> tk_hashes tr key = Some (sha256 original)) \<and>
        dk_files (disk w') = (dk_files (disk w))(t \<mapsto> content) \<and>
        tk_hashes tr' = (tk_hashes tr)(key \<mapsto> sha256 content))"
proof -
  have "\<forall>v u. router_resolve (tc_tool_session tc) target_workdir r = Inr v \<longrightarrow>
    local_policy host disk (session_access (selected_session r v) u)" using host by blast
  from run local this show ?thesis
  proof (cases rule: write_tool_calls)
    case (called v p hash u r0)
    let ?se = "selected_session r v" and ?key = "tracker_key (Some (attachment_namespace v)) (components_of p)"
    let ?rq = "write_request_of p content hash"
    have policy: "local_policy host disk (session_access ?se u)" and root: "normal_path (se_root ?se)"
      using host called(1) by blast+
    have named: "plainly_named (se_root ?se) (wr_path ?rq)" using new_plainly_named [OF called(2) root] by simp
    note exact = session_write_decided [where disk = disk and w = u and request = ?rq, OF called(6) policy named]
    show ?thesis
    proof (cases r0)
      case (Inl e)
      with exact called(4,7) show ?thesis by simp
    next
      case (Inr result)
      from exact [unfolded Inr sum.case] obtain q t where e: "resolve_under (se_root ?se) (wr_path ?rq) = Inr q"
        "permission_at_paths (se_scope ?se u) q t = Some Write"
        "map_option sha256 (dk_files (disk u) t) = wr_expected_hash ?rq"
        "dk_files (disk w') = (dk_files (disk u))(t \<mapsto> wr_content ?rq)" by (elim exE conjE) (rule that)
      from called(7) [unfolded Inr sum.case] obtain out where out: "res = Some (Inr out)"
        "tk_hashes tr' = (tk_hashes tr)(?key \<mapsto> sha256 content)" by blast
      have "\<forall>original. dk_files (disk w) t = Some original \<longrightarrow> tk_hashes tr ?key = Some (sha256 original)"
        using e(3) called(4,5) by auto
      then show ?thesis unfolding out(1) option.case sum.case
        by (intro exI [of _ v] exI [of _ p] exI [of _ q] exI [of _ t] exI [of _ ?key] exI [of _ u])
          (use e out(2) called(1-4) in simp)
    qed
  qed simp_all
qed

theorem write_tool_exact_witness:
  "\<exists>out tr' r' w'. write_tool memory_tools None ''a'' ''new'' seen_tracker
       (memory_router, memory_with [([RootDir, Normal ''w'', Normal ''a''], ''XaX''), ([RootDir, Normal ''w'', Normal ''b''], ''x'')])
       = (Some (Inr out), tr', (r', w')) \<and>
     dk_files (memory_disk w') [RootDir, Normal ''w'', Normal ''b''] = Some ''x'' \<and>
     tk_hashes tr' (tracker_key (Some ''m#0'') [Normal ''a'']) = Some (length_hash ''new'')"
proof -
  let ?w = "memory_with [([RootDir, Normal ''w'', Normal ''a''], ''XaX''), ([RootDir, Normal ''w'', Normal ''b''], ''x'')]"
  let ?run = "write_tool memory_tools None ''a'' ''new'' seen_tracker (memory_router, ?w)"
  have "(case ?run of (Some (Inr _), _) \<Rightarrow> True | _ \<Rightarrow> False)" by code_simp
  then obtain out tr' r' w' where run: "?run = (Some (Inr out), tr', (r', w'))"
    by (auto split: prod.splits option.splits sum.splits)
  have sessions: "\<forall>v u. router_resolve (tc_tool_session memory_tools) None memory_router = Inr v \<longrightarrow>
    local_policy memory_host memory_disk (session_access (selected_session memory_router v) u) \<and>
    normal_path (se_root (selected_session memory_router v))" using memory_sessions by blast
  note exact = write_tool_exact [where disk = memory_disk and w = ?w, OF run memory_local sessions, unfolded sum.case option.case]
  from exact obtain v p t where t: "router_resolve (tc_tool_session memory_tools) None memory_router = Inr v"
    "fs_path_new ''a'' = Inr p"
    "\<forall>original. dk_files (memory_disk ?w) t = Some original \<longrightarrow>
       tk_hashes seen_tracker (tracker_key (Some (attachment_namespace v)) (components_of p)) = Some (length_hash original)"
    "dk_files (memory_disk w') = (dk_files (memory_disk ?w))(t \<mapsto> ''new'')"
    "tk_hashes tr' = (tk_hashes seen_tracker)(tracker_key (Some (attachment_namespace v)) (components_of p) \<mapsto> length_hash ''new'')"
    by (elim exE conjE) (rule that, (simp; fail)+)
  have b: "dk_files (memory_disk ?w) [RootDir, Normal ''w'', Normal ''b''] = Some ''x''" by code_simp
  have "tk_hashes seen_tracker (tracker_key (Some ''m#0'') [Normal ''a'']) = Some [3]" by code_simp
  with t(3) b have "t \<noteq> [RootDir, Normal ''w'', Normal ''b'']"
    unfolding memory_key [OF t(1,2)] by (auto simp: length_hash_def)
  with t(4,5) b run memory_key [OF t(1,2)] show ?thesis by auto
qed

section \<open>Recent files\<close>

datatype tracker_op =
    TkRecord path string
  | TkObservation fs_path content_hash nat
  | TkContent fs_path string
  | TkHash fs_path content_hash
  | TkEdit fs_path content_hash nat nat nat
  | TkChange nat nat

definition tracker_step ::
  "(string \<Rightarrow> content_hash) \<Rightarrow> fs_view \<Rightarrow> tracker \<Rightarrow> string option \<times> tracker_op \<Rightarrow> tracker" where
  "tracker_step sha256 v tr = (\<lambda>(ns, op). case op of
       TkRecord p bytes \<Rightarrow> tracker_record sha256 v ns p bytes tr
     | TkObservation p hash total_lines \<Rightarrow> record_workdir_observation ns p hash total_lines tr
     | TkContent p content \<Rightarrow> record_workdir_content sha256 ns p content tr
     | TkHash p hash \<Rightarrow> record_workdir_hash ns p hash tr
     | TkEdit p hash replacements added deleted \<Rightarrow> record_workdir_edit ns p hash replacements added deleted tr
     | TkChange added deleted \<Rightarrow> record_change added deleted tr)"

fun touched :: "fs_view \<Rightarrow> string option \<times> tracker_op \<Rightarrow> tracked_path list" where
  "touched v (ns, TkRecord p _) = [tracker_key ns (canonicalize_or_owned v p)]"
| "touched v (ns, TkObservation p _ _) = [tracker_key ns (components_of p)]"
| "touched v (ns, TkContent p _) = [tracker_key ns (components_of p)]"
| "touched v (ns, TkHash p _) = [tracker_key ns (components_of p)]"
| "touched v (ns, TkEdit p _ _ _ _) = [tracker_key ns (components_of p)]"
| "touched v (ns, TkChange _ _) = []"

lemma filter_take_absent: "k \<notin> set (take n xs) \<Longrightarrow> filter (\<lambda>p. p \<noteq> k) (take n xs) = take n xs"
  by (rule filter_True) auto

lemma take_filter_before: "k \<notin> set (take n xs) \<Longrightarrow> take n (filter (\<lambda>p. p \<noteq> k) xs) = take n xs"
  by (induction xs arbitrary: n) (auto simp: take_Cons split: nat.splits)

lemma filter_take_present:
  "distinct xs \<Longrightarrow> k \<in> set (take (Suc n) xs) \<Longrightarrow>
   filter (\<lambda>p. p \<noteq> k) (take (Suc n) xs) = take n (filter (\<lambda>p. p \<noteq> k) xs)"
proof (induction xs arbitrary: n)
  case (Cons x xs)
  show ?case
  proof (cases "x = k")
    case True
    with Cons.prems have "k \<notin> set xs" by simp
    then have "filter (\<lambda>p. p \<noteq> k) xs = xs" "filter (\<lambda>p. p \<noteq> k) (take n xs) = take n xs"
      by (auto intro!: filter_True dest: in_set_takeD)
    with True show ?thesis by simp
  next
    case False
    with Cons show ?thesis by (cases n) auto
  qed
qed simp

lemma touch_prefix:
  assumes "distinct xs"
  shows "touch k (take RECENCY_CAPACITY xs) = take RECENCY_CAPACITY (k # filter (\<lambda>p. p \<noteq> k) xs)"
proof (cases "k \<in> set (take (Suc 19) xs)")
  case True
  then show ?thesis using filter_take_present [OF assms True]
    by (simp add: touch_def RECENCY_CAPACITY_def Let_def)
next
  case False
  have "take 19 (filter (\<lambda>p. p \<noteq> k) xs) = take 19 xs"
    by (rule take_filter_before) (use False in \<open>auto dest: set_take_subset_set_take [of 19 "Suc 19", simplified, THEN subsetD]\<close>)
  then show ?thesis using filter_take_absent [OF False]
    by (cases "length xs = 20") (auto simp: touch_def RECENCY_CAPACITY_def Let_def butlast_conv_take min_def)
qed

lemma tracker_step_recency:
  "tk_recency (tracker_step sha256 v tr op) = fold touch (touched v op) (tk_recency tr)"
  by (cases op; cases "snd op")
    (auto simp: tracker_step_def tracker_record_def record_workdir_observation_def record_workdir_content_def
      record_workdir_hash_def record_workdir_edit_def record_change_def Let_def)

lemma rev_remdups_snoc: "rev (remdups (xs @ [k])) = k # filter (\<lambda>p. p \<noteq> k) (rev (remdups xs))"
  by (induction xs) (auto simp: filter_append)

lemma fold_touch: "fold touch ks [] = take RECENCY_CAPACITY (rev (remdups ks))"
  by (induction ks rule: rev_induct) (simp_all add: rev_remdups_snoc touch_prefix del: remdups_append2)

lemma tracker_run_recency:
  "tk_recency (run_ops (tracker_step sha256 v) tr ops) = fold touch (concat (map (touched v) ops)) (tk_recency tr)"
  by (induction ops arbitrary: tr) (simp_all add: tracker_step_recency)

text \<open>
  However reads, writes, edits and statistics are recorded, and through whatever attachments, the
  recent files are the paths touched most recently, each attachment's path once, most recent first and
  twenty of them at most; asking for fewer gives a prefix.
\<close>

theorem recent_files_exact:
  "recent_files n (run_ops (tracker_step sha256 v) tracker_new ops) =
     map tp_path (take (min n 20) (rev (remdups (concat (map (touched v) ops)))))"
  by (simp add: recent_files_def tracker_run_recency fold_touch tracker_new_def RECENCY_CAPACITY_def)

section \<open>Attachments\<close>

lemma digit_char_inj: "digit_char a = digit_char b \<Longrightarrow> a < 10 \<Longrightarrow> b < 10 \<Longrightarrow> a = b"
  by (simp add: digit_char_def of_char_eq_iff [symmetric, where 'a = nat] flip: of_char_eq_iff)

lemma dec_inject: "dec a = dec b \<Longrightarrow> a = b"
proof (induction a arbitrary: b rule: dec.induct)
  case (1 a)
  have snoc: "dec n = (if n < 10 then [] else dec (n div 10)) @ [digit_char (n mod 10)]" for n
    by (subst dec.simps) simp
  have nonempty: "dec n \<noteq> []" for n by (subst snoc) simp
  from 1(2) have eq: "(if a < 10 then [] else dec (a div 10)) = (if b < 10 then [] else dec (b div 10))"
    "digit_char (a mod 10) = digit_char (b mod 10)" by (simp_all only: snoc [of a] snoc [of b] append1_eq_conv)
  from eq(2) have low: "a mod 10 = b mod 10" by (rule digit_char_inj) simp_all
  show ?case
  proof (cases "a < 10 \<or> b < 10")
    case True
    with eq(1) nonempty [of "a div 10"] nonempty [of "b div 10"] have "a < 10 \<and> b < 10" by (cases "a < 10"; cases "b < 10") auto
    with low show ?thesis by simp
  next
    case False
    with eq(1) have "a div 10 = b div 10" by (intro 1(1)) simp_all
    with low show ?thesis by (metis div_mult_mod_eq)
  qed
qed

lemma alias_plain:
  assumes "attachment_alias_new n = Inr m"
  shows "CHR ''#'' \<notin> set n"
proof
  assume "CHR ''#'' \<in> set n"
  then obtain i where "i < length n" "n ! i = CHR ''#''" by (auto simp: in_set_conv_nth)
  then have "(i, CHR ''#'') \<in> set (enumerate 0 n)" by (simp add: in_set_enumerate_eq)
  moreover have "\<forall>(index, b) \<in> set (enumerate 0 n). alias_byte index b"
    using assms by (simp add: attachment_alias_new_def split: if_splits)
  ultimately have "alias_byte i CHR ''#''" by blast
  then show False by (simp add: alias_byte_def is_ascii_alphanumeric_def is_ascii_digit_def byte_of_def)
qed

lemma scoped_attachment_inject:
  assumes "scoped_attachment a g = scoped_attachment b h" "CHR ''#'' \<notin> set a" "CHR ''#'' \<notin> set b"
  shows "a = b \<and> g = h"
proof -
  have "split_once CHR ''#'' (scoped_attachment a g) = Some (a, dec g)"
    "split_once CHR ''#'' (scoped_attachment b h) = Some (b, dec h)"
    using assms(2,3) by (simp_all add: split_once_Some_iff scoped_attachment_def)
  with assms(1) show ?thesis by (auto dest: dec_inject)
qed

lemma resolved_generation:
  assumes "router_wf r" "router_resolve tool_session target r = Inr v"
  shows "fst (rv_session v) < length (ro_heap r) \<and> rv_generation v = of_nat (fst (rv_session v))"
proof -
  obtain n a where entry: "(n, a) \<in> set (ro_sessions r)" and v: "rv_generation v = rs_generation (arc r a)"
    "fst (rv_session v) = a"
    using assms(2)
    by (auto simp: router_resolve_def Let_def and_then_Inr_iff routed_handle_def find_Some_iff split: option.splits list.splits)
      (metis nth_mem)
  from entry assms(1) have "a < length (ro_heap r)" by (force simp: router_wf_def)
  with v assms(1) show ?thesis by (simp add: router_wf_def)
qed

text \<open>
  C30. What is observed through one attachment never counts for another: with fewer than \<open>2^64\<close>
  attachments, when two tools resolve different routed sessions, even under the same alias and at
  different times, whatever one of them records leaves the expectations of the other as they were.
\<close>

theorem observations_pinned:
  assumes past: "run_ops (router_step rw) (router_new, w0) past = (r, w)"
    and future: "run_ops (router_step rw) (r, w) future = (r2, w2)" "length (ro_heap r2) < 2 ^ 64"
    and resolved: "router_resolve tool_session target r = Inr v" "router_resolve tool_session target2 r2 = Inr u"
    and aliases: "attachment_alias_new (rv_alias v) = Inr (rv_alias v)" "attachment_alias_new (rv_alias u) = Inr (rv_alias u)"
    and other: "fst (rv_session v) \<noteq> fst (rv_session u)"
  shows "expected_workdir_hash (Some (attachment_namespace u)) p
           (tracker_step sha256 view tr (Some (attachment_namespace v), op)) =
         expected_workdir_hash (Some (attachment_namespace u)) p tr"
proof -
  note wf = run_from_new [OF past]
  have wf2: "router_wf r2" "length (ro_heap r) \<le> length (ro_heap r2)"
    using run_grows_from [OF wf future(1)] by (auto simp: router_grows_def)
  have unat: "unat (of_nat a :: u64) = a" if "a < length (ro_heap r2)" for a
    using that future(2) by (simp add: unat_of_nat)
  have "attachment_namespace v \<noteq> attachment_namespace u"
    using scoped_attachment_inject [OF _ alias_plain [OF aliases(1)] alias_plain [OF aliases(2)]]
      resolved_generation [OF wf resolved(1)] resolved_generation [OF wf2(1) resolved(2)] unat wf2(2) other
    by (force simp: attachment_namespace_def)
  then show ?thesis
    by (cases op) (simp_all add: tracker_step_def expected_workdir_hash_def tracker_record_def
      record_workdir_observation_def record_workdir_content_def record_workdir_hash_def record_workdir_edit_def
      record_change_def tracker_key_def Let_def)
qed

definition plain_view :: fs_view where
  "plain_view = \<lparr>fv_canonicalize = Inr, fv_symlink_kind = (\<lambda>_. Inr KFile), fv_read_link = (\<lambda>_. Inl (IoError InvalidInput [])),
     fv_exists = (\<lambda>_. True), fv_is_dir = (\<lambda>_. False)\<rparr>"

theorem observations_pinned_witness:
  "\<exists>r r2 w2 v u.
     run_ops (router_step numbered_sessions) (router_new, 0) [OpAttach ''a'' 7 None] = (r, 0) \<and>
     run_ops (router_step numbered_sessions) (r, 0)
       [OpBeginDetach ''a'', OpFinishDetach ''a'', OpAttach ''a'' 8 None] = (r2, w2) \<and>
     router_resolve (\<lambda>_. 0) None r = Inr v \<and> router_resolve (\<lambda>_. 0) None r2 = Inr u \<and>
     rv_alias v = rv_alias u \<and>
     expected_workdir_hash (Some (attachment_namespace u)) ''f''
       (tracker_step length_hash plain_view tracker_new (Some (attachment_namespace v), TkContent ''f'' ''x'')) =
     Inl (NotRead [Normal ''f''])"
proof -
  let ?s = "run_ops (router_step numbered_sessions) (router_new, 0) [OpAttach ''a'' 7 None]"
  let ?t = "run_ops (router_step numbered_sessions) ?s [OpBeginDetach ''a'', OpFinishDetach ''a'', OpAttach ''a'' 8 None]"
  obtain r w where s: "?s = (r, w)" by (rule prod.exhaust)
  obtain r2 w2 where t: "?t = (r2, w2)" by (rule prod.exhaust)
  have "snd ?s = 0" "length (ro_heap (fst ?t)) < 2 ^ 64" by code_simp+
  then have w: "w = 0" and few: "length (ro_heap r2) < 2 ^ 64" using s t by simp_all
  have "map_sum id rv_alias (router_resolve (\<lambda>_. 0) None (fst ?s)) = Inr ''a''"
    "map_sum id rv_alias (router_resolve (\<lambda>_. 0) None (fst ?t)) = Inr ''a''"
    "map_sum id (\<lambda>v. fst (rv_session v)) (router_resolve (\<lambda>_. 0) None (fst ?s)) = Inr 0"
    "map_sum id (\<lambda>v. fst (rv_session v)) (router_resolve (\<lambda>_. 0) None (fst ?t)) = Inr 1" by code_simp+
  then obtain v u where v: "router_resolve (\<lambda>_. 0) None r = Inr v" "rv_alias v = ''a''" "fst (rv_session v) = 0"
    and u: "router_resolve (\<lambda>_. 0) None r2 = Inr u" "rv_alias u = ''a''" "fst (rv_session u) = 1"
    unfolding t unfolding s by (auto simp: map_sum_def split: sum.splits)
  have "attachment_alias_new ''a'' = Inr ''a''" by code_simp
  with v u have "attachment_alias_new (rv_alias v) = Inr (rv_alias v)" "attachment_alias_new (rv_alias u) = Inr (rv_alias u)"
    "fst (rv_session v) \<noteq> fst (rv_session u)" by simp_all
  note pinned = observations_pinned [OF s t [unfolded s] few v(1) u(1) this]
  have "expected_workdir_hash (Some (attachment_namespace u)) ''f'' tracker_new = Inl (NotRead (components_of ''f''))"
    by (simp add: expected_workdir_hash_def tracker_new_def)
  moreover have "components_of ''f'' = [Normal ''f'']" by code_simp
  ultimately show ?thesis using s t w v u pinned [of "''f''" length_hash plain_view tracker_new "TkContent ''f'' ''x''"]
    by (intro exI [of _ r] exI [of _ r2] exI [of _ w2] exI [of _ v] exI [of _ u]) simp
qed

section \<open>Line counts and previews\<close>

text \<open>
  The line count the tracker keeps through an edit adds and subtracts the lines of the replaced
  strings as if each were whole lines: after an edit inside a line it can disagree with the file.
\<close>

lemma edit_line_count_drifts:
  "observed_workdir_line_count ns ''f''
     (record_workdir_edit ns ''f'' (sha256 ''b'') 1 (length (str_lines '''')) (length (str_lines ''a''))
       (record_workdir_content sha256 ns ''f'' ''ab'' tracker_new)) = Some 0 \<and>
   length (str_lines (from_utf8_lossy ''b'')) = 1"
proof -
  have "length (str_lines (from_utf8_lossy ''ab'')) = 1" "length (str_lines (from_utf8_lossy ''b'')) = 1"
    "length (str_lines '''') = 0" "length (str_lines ''a'') = 1" by code_simp+
  then show ?thesis
    by (simp add: observed_workdir_line_count_def record_workdir_edit_def record_workdir_content_def Let_def sat_mul_def
        sat_add_def usize_max_def)
qed

text \<open>The preview of an edit is searched in the new text itself, so it always shows its first four lines.\<close>

lemma str_contains_self: "str_contains s s"
  by (cases s) simp_all

lemma preview_is_head:
  "make_preview new_string new_string =
     concat (map (\<lambda>(i, line). number_prefix (i + 1) @ line @ [CHR 0x0A]) (enumerate 0 (take 4 (str_lines new_string))))"
  by (cases "str_lines new_string") (simp_all add: make_preview_def Let_def str_contains_self min_def)

end
