(* ===== verification/Router_Fence.thy ===== *)
theory Router_Fence
  imports Router_Properties
begin

text \<open>
  The fence between the operations of an attachment and its detach (\<open>enter\<close>, the drop of
  \<open>ActiveOperation\<close>, \<open>begin_detach\<close>, \<open>cancel_detach\<close> and \<open>finish_detach\<close> of
  \<open>workdir/src/router.rs\<close>), with every access to a shared flag, counter or set a step of its own,
  so that operations and detaches interleave.  Accesses are sequentially consistent.  A detach is
  cancelled or finished by the caller that began it.
\<close>

section \<open>Steps\<close>

text \<open>Where a caller of \<open>enter\<close> stands: before it, after the first load of the flag, after the
  increment, inside its operation, or backing out.\<close>

datatype client = CIdle | CLoaded | CCounted | CInside | CRejecting

text \<open>Where a detach stands: after the swap of the flag (of \<open>begin_detach\<close>, or of
  \<open>finish_detach\<close> when the argument is set), after the first load of the counter, after the
  second, busy, begun, closing the session, or finished.\<close>

datatype detacher = DIdle | DFenced bool | DPolling bool | DCounted bool | DBusy | DReady | DClosing | DClosed

record fence =
  fe_detached :: bool
  fe_active :: nat
  fe_commands :: "string set"
  fe_clients :: "client list"
  fe_detachers :: "detacher list"

definition move_client :: "nat \<Rightarrow> client \<Rightarrow> fence \<Rightarrow> fence" where
  "move_client i c s = s\<lparr>fe_clients := (fe_clients s)[i := c]\<rparr>"

definition move_detacher :: "nat \<Rightarrow> detacher \<Rightarrow> fence \<Rightarrow> fence" where
  "move_detacher j d s = s\<lparr>fe_detachers := (fe_detachers s)[j := d]\<rparr>"

definition client_at :: "fence \<Rightarrow> nat \<Rightarrow> client \<Rightarrow> bool" where
  "client_at s i c \<longleftrightarrow> i < length (fe_clients s) \<and> fe_clients s ! i = c"

definition detacher_at :: "fence \<Rightarrow> nat \<Rightarrow> detacher \<Rightarrow> bool" where
  "detacher_at s j d \<longleftrightarrow> j < length (fe_detachers s) \<and> fe_detachers s ! j = d"

inductive fence_step :: "fence \<Rightarrow> fence \<Rightarrow> bool" where
  enter_load: "client_at s i CIdle \<Longrightarrow> \<not> fe_detached s \<Longrightarrow> fence_step s (move_client i CLoaded s)"
| enter_add: "client_at s i CLoaded \<Longrightarrow>
    fence_step s (move_client i CCounted (s\<lparr>fe_active := fe_active s + 1\<rparr>))"
| enter_inside: "client_at s i CCounted \<Longrightarrow> \<not> fe_detached s \<Longrightarrow> fence_step s (move_client i CInside s)"
| enter_reject: "client_at s i CCounted \<Longrightarrow> fe_detached s \<Longrightarrow> fence_step s (move_client i CRejecting s)"
| enter_undo: "client_at s i CRejecting \<Longrightarrow>
    fence_step s (move_client i CIdle (s\<lparr>fe_active := fe_active s - 1\<rparr>))"
| leave: "client_at s i CInside \<Longrightarrow>
    fence_step s (move_client i CIdle (s\<lparr>fe_active := fe_active s - 1\<rparr>))"
| start_command: "client_at s i CInside \<Longrightarrow>
    fence_step s (s\<lparr>fe_commands := insert handle (fe_commands s)\<rparr>)"
| drop_commands: "fence_step s (s\<lparr>fe_commands := fe_commands s - handles\<rparr>)"
| begin_swap: "detacher_at s j DIdle \<Longrightarrow> \<not> fe_detached s \<Longrightarrow>
    fence_step s (move_detacher j (DFenced False) (s\<lparr>fe_detached := True\<rparr>))"
| count_busy: "detacher_at s j (DFenced f) \<Longrightarrow> fe_active s \<noteq> 0 \<Longrightarrow> fence_step s (move_detacher j DBusy s)"
| count_idle: "detacher_at s j (DFenced f) \<Longrightarrow> fe_active s = 0 \<Longrightarrow> fence_step s (move_detacher j (DPolling f) s)"
| recount_busy: "detacher_at s j (DPolling f) \<Longrightarrow> fe_active s \<noteq> 0 \<Longrightarrow> fence_step s (move_detacher j DBusy s)"
| recount_idle: "detacher_at s j (DPolling f) \<Longrightarrow> fe_active s = 0 \<Longrightarrow> fence_step s (move_detacher j (DCounted f) s)"
| commands_busy: "detacher_at s j (DCounted f) \<Longrightarrow> fe_commands s \<noteq> {} \<Longrightarrow> fence_step s (move_detacher j DBusy s)"
| commands_idle: "detacher_at s j (DCounted f) \<Longrightarrow> fe_commands s = {} \<Longrightarrow>
    fence_step s (move_detacher j (if f then DClosing else DReady) s)"
| release: "detacher_at s j DBusy \<Longrightarrow> fence_step s (move_detacher j DIdle (s\<lparr>fe_detached := False\<rparr>))"
| cancel: "detacher_at s j DReady \<Longrightarrow> fence_step s (move_detacher j DIdle (s\<lparr>fe_detached := False\<rparr>))"
| finish: "detacher_at s j DReady \<Longrightarrow> fe_detached s \<Longrightarrow> fence_step s (move_detacher j (DFenced True) s)"
| close_failed: "detacher_at s j DClosing \<Longrightarrow> fence_step s (move_detacher j DIdle (s\<lparr>fe_detached := False\<rparr>))"
| closed: "detacher_at s j DClosing \<Longrightarrow> fence_step s (move_detacher j DClosed s)"

definition fence_start :: "nat \<Rightarrow> nat \<Rightarrow> fence" where
  "fence_start clients detachers =
     \<lparr>fe_detached = False, fe_active = 0, fe_commands = {}, fe_clients = replicate clients CIdle,
      fe_detachers = replicate detachers DIdle\<rparr>"

section \<open>The invariant\<close>

fun counted :: "client \<Rightarrow> bool" where
  "counted CCounted = True"
| "counted CInside = True"
| "counted CRejecting = True"
| "counted _ = False"

text \<open>Phases in which no operation can be inside, and phases in which no command is left.\<close>

fun exclusive :: "detacher \<Rightarrow> bool" where
  "exclusive (DFenced f) = f"
| "exclusive (DPolling f) = f"
| "exclusive (DCounted _) = True"
| "exclusive DReady = True"
| "exclusive DClosing = True"
| "exclusive DClosed = True"
| "exclusive _ = False"

fun settled_commands :: "detacher \<Rightarrow> bool" where
  "settled_commands (DCounted f) = f"
| "settled_commands d = exclusive d"

definition fence_inv :: "fence \<Rightarrow> bool" where
  "fence_inv s \<longleftrightarrow>
     fe_active s = length (filter counted (fe_clients s)) \<and>
     length (filter (\<lambda>d. d \<noteq> DIdle) (fe_detachers s)) = (if fe_detached s then 1 else 0) \<and>
     ((\<exists>d \<in> set (fe_detachers s). exclusive d) \<longrightarrow> CInside \<notin> set (fe_clients s)) \<and>
     ((\<exists>d \<in> set (fe_detachers s). settled_commands d) \<longrightarrow> fe_commands s = {})"

lemma settled_exclusive: "settled_commands d \<Longrightarrow> exclusive d"
  by (cases d) auto

lemma filter_update_length:
  "i < length xs \<Longrightarrow> length (filter P (xs[i := x])) + (if P (xs ! i) then 1 else 0) =
     length (filter P xs) + (if P x then 1 else 0)"
proof (induction xs arbitrary: i)
  case (Cons y ys)
  show ?case
  proof (cases i)
    case (Suc k)
    with Cons.prems Cons.IH [of k] show ?thesis by auto
  qed simp
qed simp

text \<open>At most one detach is under way, so moving it leaves the others idle.\<close>

lemma others_idle:
  assumes "length (filter (\<lambda>d. d \<noteq> DIdle) ds) = (if b then 1 else 0)" "j < length ds" "ds ! j \<noteq> DIdle \<or> \<not> b"
    "x \<in> set (ds[j := d])"
  shows "x = d \<or> x = DIdle"
proof -
  have "length (filter (\<lambda>d. d \<noteq> DIdle) (ds[j := DIdle])) = 0"
    using filter_update_length [OF assms(2), of "\<lambda>d. d \<noteq> DIdle" DIdle] assms(1,3) by (auto split: if_splits)
  then have idle: "\<forall>x \<in> set (ds[j := DIdle]). x = DIdle" by (auto simp: filter_empty_conv)
  have "x \<in> set ((ds[j := DIdle])[j := d])" using assms(4) by simp
  then have "x \<in> insert d (set (ds[j := DIdle]))" by (rule subsetD [OF set_update_subset_insert])
  with idle show ?thesis by auto
qed

lemma move_detacher_inv:
  assumes inv: "fence_inv s" and at: "j < length (fe_detachers s)" "fe_detachers s ! j \<noteq> DIdle \<or> \<not> fe_detached s"
    and d: "d \<noteq> DIdle \<longleftrightarrow> b" "exclusive d \<longrightarrow> CInside \<notin> set (fe_clients s)" "settled_commands d \<longrightarrow> fe_commands s = {}"
  shows "fence_inv (move_detacher j d (s\<lparr>fe_detached := b\<rparr>))"
proof -
  let ?ds = "fe_detachers s"
  have one: "length (filter (\<lambda>d. d \<noteq> DIdle) ?ds) = (if fe_detached s then 1 else 0)" using inv by (simp add: fence_inv_def)
  note only = others_idle [OF one at]
  have idle: "\<not> fe_detached s \<Longrightarrow> ?ds ! j = DIdle" using one at(1) by (auto simp: filter_empty_conv)
  have "length (filter (\<lambda>d. d \<noteq> DIdle) (?ds[j := d])) = (if b then 1 else 0)"
    using filter_update_length [OF at(1), of "\<lambda>d. d \<noteq> DIdle" d] one at(2) d(1) idle by (auto split: if_splits)
  moreover have "\<exists>x \<in> set (?ds[j := d]). exclusive x \<Longrightarrow> exclusive d"
    "\<exists>x \<in> set (?ds[j := d]). settled_commands x \<Longrightarrow> settled_commands d" using only by fastforce+
  ultimately show ?thesis using inv d(2,3) by (auto simp: fence_inv_def move_detacher_def)
qed

lemma move_client_inv:
  assumes inv: "fence_inv s" and at: "i < length (fe_clients s)"
    and n: "n + (if counted (fe_clients s ! i) then 1 else 0) = fe_active s + (if counted c then 1 else 0)"
    and c: "c = CInside \<Longrightarrow> \<not> fe_detached s"
  shows "fence_inv (move_client i c (s\<lparr>fe_active := n\<rparr>))"
proof -
  let ?cs = "fe_clients s"
  have "n = length (filter counted (?cs[i := c]))"
    using filter_update_length [OF at, of counted c] n inv by (auto simp: fence_inv_def split: if_splits)
  moreover have "CInside \<notin> set (?cs[i := c])" if "d \<in> set (fe_detachers s)" "exclusive d" for d
  proof -
    from that have "fe_detached s" using inv by (auto simp: fence_inv_def filter_empty_conv split: if_splits)
    then have "c \<noteq> CInside" using c by blast
    moreover have "CInside \<notin> set ?cs" using inv that by (auto simp: fence_inv_def)
    ultimately show ?thesis using set_update_subset_insert [of ?cs i c] by auto
  qed
  ultimately show ?thesis using inv by (auto simp: fence_inv_def move_client_def)
qed

lemma detacher_marks:
  assumes "fence_inv s" "detacher_at s j d"
  shows "exclusive d \<longrightarrow> CInside \<notin> set (fe_clients s)" "settled_commands d \<longrightarrow> fe_commands s = {}"
    "d \<noteq> DIdle \<Longrightarrow> fe_detached s"
proof -
  have mem: "d \<in> set (fe_detachers s)" using assms(2) by (auto simp: detacher_at_def)
  then show "exclusive d \<longrightarrow> CInside \<notin> set (fe_clients s)" "settled_commands d \<longrightarrow> fe_commands s = {}"
    using assms(1) by (auto simp: fence_inv_def)
  show "fe_detached s" if "d \<noteq> DIdle"
    using assms(1) mem that by (auto simp: fence_inv_def filter_empty_conv split: if_splits)
qed

lemma idle_excludes: "fence_inv s \<Longrightarrow> fe_active s = 0 \<Longrightarrow> CInside \<notin> set (fe_clients s)"
  by (auto simp: fence_inv_def filter_empty_conv)

lemma detacher_step:
  assumes "fence_inv s" "detacher_at s j d0" "d0 \<noteq> DIdle" "exclusive d \<longrightarrow> exclusive d0 \<or> fe_active s = 0"
    "settled_commands d \<longrightarrow> settled_commands d0 \<or> fe_commands s = {}"
  shows "d = DIdle \<Longrightarrow> fence_inv (move_detacher j d (s\<lparr>fe_detached := False\<rparr>))"
    "d \<noteq> DIdle \<Longrightarrow> fence_inv (move_detacher j d s)"
proof -
  have at: "j < length (fe_detachers s)" "fe_detachers s ! j \<noteq> DIdle \<or> \<not> fe_detached s"
    using assms(2,3) by (auto simp: detacher_at_def)
  have "exclusive d \<longrightarrow> CInside \<notin> set (fe_clients s)" "settled_commands d \<longrightarrow> fe_commands s = {}"
    using assms(4,5) detacher_marks [OF assms(1,2)] idle_excludes [OF assms(1)] by auto
  note moved = move_detacher_inv [OF assms(1) at _ this]
  from moved [of False] show "d = DIdle \<Longrightarrow> fence_inv (move_detacher j d (s\<lparr>fe_detached := False\<rparr>))" by simp
  have "s\<lparr>fe_detached := True\<rparr> = s" using detacher_marks(3) [OF assms(1,2,3)] by simp
  with moved [of True] show "d \<noteq> DIdle \<Longrightarrow> fence_inv (move_detacher j d s)" by simp
qed

lemma fence_step_inv: "fence_step s s' \<Longrightarrow> fence_inv s \<Longrightarrow> fence_inv s'"
proof (induction rule: fence_step.induct)
  case (enter_load s i)
  then show ?case using move_client_inv [of s i "fe_active s" CLoaded] by (auto simp: client_at_def)
next
  case (enter_add s i)
  then show ?case using move_client_inv [of s i "fe_active s + 1" CCounted] by (auto simp: client_at_def)
next
  case (enter_inside s i)
  then show ?case using move_client_inv [of s i "fe_active s" CInside] by (auto simp: client_at_def)
next
  case (enter_reject s i)
  then show ?case using move_client_inv [of s i "fe_active s" CRejecting] by (auto simp: client_at_def)
next
  case (enter_undo s i)
  then have "0 < length (filter counted (fe_clients s))"
    by (auto simp: client_at_def filter_empty_conv) (metis counted.simps(3) nth_mem)
  then have "0 < fe_active s" using enter_undo by (simp add: fence_inv_def)
  then show ?case using enter_undo move_client_inv [of s i "fe_active s - 1" CIdle] by (auto simp: client_at_def)
next
  case (leave s i)
  then have "0 < length (filter counted (fe_clients s))"
    by (auto simp: client_at_def filter_empty_conv) (metis counted.simps(2) nth_mem)
  then have "0 < fe_active s" using leave by (simp add: fence_inv_def)
  then show ?case using leave move_client_inv [of s i "fe_active s - 1" CIdle] by (auto simp: client_at_def)
next
  case (start_command s i handle)
  then have "CInside \<in> set (fe_clients s)" by (auto simp: client_at_def) (metis nth_mem)
  with start_command show ?case using settled_exclusive by (auto simp: fence_inv_def)
next
  case (drop_commands s handles)
  then show ?case by (auto simp: fence_inv_def)
next
  case (begin_swap s j)
  then show ?case using move_detacher_inv [of s j "DFenced False" True] by (simp add: detacher_at_def)
next
  case (release s j)
  then show ?case by (intro detacher_step(1) [of s j DBusy]) simp_all
next
  case (cancel s j)
  then show ?case by (intro detacher_step(1) [of s j DReady]) simp_all
next
  case (close_failed s j)
  then show ?case by (intro detacher_step(1) [of s j DClosing]) simp_all
qed (auto intro!: detacher_step(2))



section \<open>The operations of the router as runs of the fence\<close>

definition fence_of :: "'s routed_state \<Rightarrow> client list \<Rightarrow> detacher list \<Rightarrow> fence" where
  "fence_of st cs ds = \<lparr>fe_detached = rs_detached st, fe_active = rs_active_operations st,
     fe_commands = rs_active_commands st, fe_clients = cs, fe_detachers = ds\<rparr>"

lemma poll_commands_shrinks: "rs_active_commands (fst (poll_commands ms handles st w)) \<subseteq> rs_active_commands st"
proof (induction handles arbitrary: st w)
  case (Cons h hs)
  obtain x w1 where x: "sm_command_status ms (rs_session st) h w = (x, w1)" by (rule prod.exhaust)
  have mark: "rs_active_commands (mark_terminal h status st) \<subseteq> rs_active_commands st" for status
    by (auto simp: mark_terminal_def)
  show ?case
  proof (cases x)
    case (Inl e)
    with x Cons.IH [of st w1] Cons.IH [of "st\<lparr>rs_active_commands := rs_active_commands st - {h}\<rparr>" w1]
    show ?thesis by (cases "classification_source e") auto
  next
    case (Inr status)
    with x Cons.IH [of "mark_terminal h status st" w1] mark show ?thesis by auto
  qed
qed simp

lemma is_busy_for_detach_shrinks:
  assumes "is_busy_for_detach ms st w = (busy, st', w')" "rs_active_operations st = 0"
  shows "rs_active_commands st' \<subseteq> rs_active_commands st \<and> (busy \<longleftrightarrow> rs_active_commands st' \<noteq> {})"
proof -
  let ?st = "reconcile_terminal_commands (sm_command_snapshot ms (rs_session st) w) st"
  obtain st1 w1 where p: "poll_commands ms (iter_order ms (rs_active_commands ?st)) ?st w = (st1, w1)" by (rule prod.exhaust)
  have st: "rs_active_commands st1 \<subseteq> rs_active_commands ?st" using poll_commands_shrinks [of ms _ ?st w] p by (metis fst_conv)
  have "rs_active_commands ?st \<subseteq> rs_active_commands st" by (auto simp: reconcile_terminal_commands_def Let_def)
  moreover have "rs_active_operations st1 = 0"
    using poll_commands_same [of ?st ms "iter_order ms (rs_active_commands ?st)" w] p same_route_reconcile [of st] assms(2)
    by (simp add: same_route_def)
  ultimately show ?thesis using assms p st by (auto simp: is_busy_for_detach_def Let_def)
qed

lemma begin_run:
  fixes n cs ds j
  defines "S \<equiv> \<lambda>b c d. \<lparr>fe_detached = b, fe_active = n, fe_commands = c, fe_clients = cs, fe_detachers = ds[j := d]\<rparr>"
  assumes j: "j < length ds" and c: "c' \<subseteq> c"
  shows "n = 0 \<Longrightarrow> c' = {} \<Longrightarrow> fence_step\<^sup>*\<^sup>* (S False c DIdle) (S True c' DReady)"
    "n = 0 \<Longrightarrow> c' \<noteq> {} \<Longrightarrow> fence_step\<^sup>*\<^sup>* (S False c DIdle) (S False c' DIdle)"
proof -
  have swap: "fence_step (S False c DIdle) (S True c (DFenced False))"
    using begin_swap [of "S False c DIdle" j] j by (simp add: S_def detacher_at_def move_detacher_def)
  have count: "n = 0 \<Longrightarrow> fence_step (S True c (DFenced False)) (S True c (DPolling False))"
    using count_idle [of "S True c (DFenced False)" j False] j by (simp add: S_def detacher_at_def move_detacher_def)
  have poll: "fence_step (S True c (DPolling False)) (S True c' (DPolling False))"
    using drop_commands [of "S True c (DPolling False)" "c - c'"] c by (simp add: S_def double_diff)
  have recount: "n = 0 \<Longrightarrow> fence_step (S True c' (DPolling False)) (S True c' (DCounted False))"
    using recount_idle [of "S True c' (DPolling False)" j False] j by (simp add: S_def detacher_at_def move_detacher_def)
  have idle: "c' = {} \<Longrightarrow> fence_step (S True c' (DCounted False)) (S True c' DReady)"
    using commands_idle [of "S True c' (DCounted False)" j False] j by (simp add: S_def detacher_at_def move_detacher_def)
  have busy: "c' \<noteq> {} \<Longrightarrow> fence_step (S True c' (DCounted False)) (S True c' DBusy)"
    using commands_busy [of "S True c' (DCounted False)" j False] j by (simp add: S_def detacher_at_def move_detacher_def)
  have release: "fence_step (S True c' DBusy) (S False c' DIdle)"
    using release [of "S True c' DBusy" j] j by (simp add: S_def detacher_at_def move_detacher_def)
  have up: "n = 0 \<Longrightarrow> fence_step\<^sup>*\<^sup>* (S False c DIdle) (S True c' (DCounted False))"
    using swap count poll recount by (meson rtranclp.rtrancl_into_rtrancl rtranclp.rtrancl_refl)
  show "n = 0 \<Longrightarrow> c' = {} \<Longrightarrow> fence_step\<^sup>*\<^sup>* (S False c DIdle) (S True c' DReady)"
    using up idle by (meson rtranclp.rtrancl_into_rtrancl)
  show "n = 0 \<Longrightarrow> c' \<noteq> {} \<Longrightarrow> fence_step\<^sup>*\<^sup>* (S False c DIdle) (S False c' DIdle)"
    using up busy release by (meson rtranclp.rtrancl_into_rtrancl)
qed



end
