(* ===== verification/Fs_List_Properties.thy ===== *)
theory Fs_List_Properties
  imports Fs_List Fs_Paths "HOL-Library.Multiset" "HOL-Library.Code_Target_Nat"
begin

text \<open>
  What a listing returns: the page is the beginning of the visible entries after the cursor, in the
  listing order, and following the cursors enumerates every entry once.
\<close>

section \<open>Insertion into a sorted list\<close>

lemma take_insort_greater:
  "(\<And>y. y \<in> set (take n xs) \<Longrightarrow> f y < f x) \<Longrightarrow> n \<le> length xs \<Longrightarrow> take n (insort_key f x xs) = take n xs"
proof (induction xs arbitrary: n)
  case (Cons y ys)
  show ?case
  proof (cases n)
    case (Suc m)
    with Cons.prems have "f y < f x" "\<And>z. z \<in> set (take m ys) \<Longrightarrow> f z < f x" "m \<le> length ys" by simp_all
    with Cons.IH [of m] Suc show ?thesis by simp
  qed simp
qed simp

lemma take_insort_smaller:
  "m < length xs \<Longrightarrow> f x \<le> f (xs ! m) \<Longrightarrow> take (Suc m) (insort_key f x xs) = insort_key f x (take m xs)"
proof (induction xs arbitrary: m)
  case (Cons y ys)
  then show ?case by (cases m) auto
qed simp

lemma sort_snoc:
  assumes "inj_on f (set (xs @ [x]))"
  shows "sort_key f (xs @ [x]) = insort_key f x (sort_key f xs)"
  by (rule sort_key_inj_key_eq) (use assms in \<open>simp_all add: sorted_insort_key\<close>)

section \<open>The scan\<close>

definition after_cursor :: "list_cursor option \<Rightarrow> list_entry \<Rightarrow> bool" where
  "after_cursor after e \<longleftrightarrow> (case after of None \<Rightarrow> True | Some c \<Rightarrow> cursor_key c < entry_key e)"

text \<open>The entries a listing is to show: those after the cursor, in the listing order.\<close>

definition listing :: "list_cursor option \<Rightarrow> list_entry list \<Rightarrow> list_entry list" where
  "listing after vs = sort_key entry_key (filter (after_cursor after) vs)"

definition scan_inv :: "list_cursor option \<Rightarrow> list_entry list \<Rightarrow> list_scan \<Rightarrow> bool" where
  "scan_inv after vs st \<longleftrightarrow>
     sc_entries st = take (length (sc_entries st)) (listing after vs) \<and>
     length (sc_entries st) \<le> sc_retained_limit st \<and> 0 < sc_retained_limit st \<and>
     (length (sc_entries st) = length (listing after vs) \<or> length (sc_entries st) = sc_retained_limit st) \<and>
     sc_total_entries st = length vs \<and> sc_remaining st = length (listing after vs)"

lemma evict_prefix:
  "\<exists>n \<le> length (sc_entries st). sc_entries (evict b st) = take n (sc_entries st) \<and>
     sc_retained_limit (evict b st) = (if n = length (sc_entries st) then sc_retained_limit st else n) \<and>
     sc_total_entries (evict b st) = sc_total_entries st \<and> sc_remaining (evict b st) = sc_remaining st"
proof (induction b st rule: evict.induct)
  case (1 b st)
  show ?case
  proof (cases "b < sc_retained_path_bytes st \<and> sc_entries st \<noteq> []")
    case True
    let ?st = "st\<lparr>sc_retained_path_bytes := sc_retained_path_bytes st - list_entry_bytes (last (sc_entries st)),
      sc_entries := butlast (sc_entries st), sc_retained_limit := length (sc_entries st) - 1\<rparr>"
    from 1 [OF True] obtain n where n: "n \<le> length (sc_entries st) - 1" "sc_entries (evict b ?st) = take n (butlast (sc_entries st))"
      "sc_retained_limit (evict b ?st) = (if n = length (sc_entries st) - 1 then length (sc_entries st) - 1 else n)"
      "sc_total_entries (evict b ?st) = sc_total_entries st" "sc_remaining (evict b ?st) = sc_remaining st" by auto
    moreover have "n < length (sc_entries st)" using n(1) True by (cases "sc_entries st") auto
    moreover have "evict b st = evict b ?st" using True by (subst evict.simps) simp
    ultimately show ?thesis by (intro exI [of _ n]) (auto simp: take_butlast)
  next
    case False
    then have "evict b st = st" by (subst evict.simps) auto
    then show ?thesis by (intro exI [of _ "length (sc_entries st)"]) simp
  qed
qed

lemma retain_push_inv:
  assumes push: "retain_push b c st0 = Inr st"
    and E: "insort_key entry_key c (sc_entries st0) = take k (listing after vs)" "k = Suc (length (sc_entries st0))"
      "k \<le> length (listing after vs)" "k \<le> sc_retained_limit st0" "k = length (listing after vs) \<or> k = sc_retained_limit st0"
    and totals: "sc_total_entries st0 = length vs" "sc_remaining st0 = length (listing after vs)"
  shows "scan_inv after vs st"
proof -
  let ?st = "st0\<lparr>sc_retained_path_bytes := sat_add (sc_retained_path_bytes st0) (list_entry_bytes c),
    sc_entries := insort_key entry_key c (sc_entries st0)\<rparr>"
  from evict_prefix [of ?st b] obtain n where n: "n \<le> k" "sc_entries (evict b ?st) = take n (take k (listing after vs))"
    "sc_retained_limit (evict b ?st) = (if n = k then sc_retained_limit st0 else n)"
    "sc_total_entries (evict b ?st) = length vs" "sc_remaining (evict b ?st) = length (listing after vs)"
    using E(1-3) totals by auto
  have "st = evict b ?st" "sc_retained_limit st \<noteq> 0" using push by (auto simp: retain_push_def Let_def split: if_splits)
  with n E(3-5) show ?thesis by (auto simp: scan_inv_def min_def split: if_splits)
qed

lemma listing_snoc:
  assumes "inj_on entry_key (set (vs @ [c]))"
  shows "listing after (vs @ [c]) =
    (if after_cursor after c then insort_key entry_key c (listing after vs) else listing after vs)"
  using sort_snoc [of entry_key "filter (after_cursor after) vs" c] assms
  by (auto simp: listing_def inj_on_def)

lemma set_listing: "set (listing after vs) = {e \<in> set vs. after_cursor after e}"
  by (auto simp: listing_def)

lemma retain_entry_inv:
  assumes inv: "scan_inv after vs st" and inj: "inj_on entry_key (set (vs @ [c]))" and new: "c \<notin> set vs"
    and run: "retain_entry b after c st = Inr st'"
  shows "scan_inv after (vs @ [c]) st'"
proof (cases "after_cursor after c")
  case False
  then have "(case after of None \<Rightarrow> False | Some cu \<Rightarrow> entry_key c \<le> cursor_key cu)"
    by (auto simp: after_cursor_def not_less split: option.splits)
  with run have "st' = st\<lparr>sc_total_entries := sc_total_entries st + 1, sc_total_bytes := sat_add (sc_total_bytes st) (le_size c)\<rparr>"
    by (simp add: retain_entry_def Let_def split: option.splits)
  with inv False listing_snoc [OF inj] show ?thesis by (simp add: scan_inv_def)
next
  case True
  let ?L = "listing after vs" and ?n = "length (sc_entries st)"
  let ?st = "st\<lparr>sc_total_entries := sc_total_entries st + 1, sc_total_bytes := sat_add (sc_total_bytes st) (le_size c),
    sc_remaining := sc_remaining st + 1\<rparr>"
  have L': "listing after (vs @ [c]) = insort_key entry_key c ?L" using listing_snoc [OF inj] True by simp
  have E: "sc_entries st = take ?n ?L" "?n \<le> length ?L" using inv by (simp_all add: scan_inv_def) (metis length_take min.absorb_iff2 min_def)
  from True have skip: "\<not> (case after of None \<Rightarrow> False | Some cu \<Rightarrow> entry_key c \<le> cursor_key cu)"
    by (auto simp: after_cursor_def not_le split: option.splits)
  have distinct: "entry_key e \<noteq> entry_key c" if "e \<in> set ?L" for e
    using that inj new by (auto simp: set_listing inj_on_def)
  have sorted: "sorted (map entry_key ?L)" by (simp add: listing_def)
  show ?thesis
  proof (cases "?n = sc_retained_limit st")
    case False
    then have all: "sc_entries st = ?L" using inv E(1) by (auto simp: scan_inv_def)
    have "retain_push b c ?st = Inr st'" using run skip False by (simp add: retain_entry_def Let_def)
    then show ?thesis
      by (rule retain_push_inv [where k = "Suc ?n"]) (use inv L' all False in \<open>auto simp: scan_inv_def\<close>)
  next
    case full: True
    then have pos: "0 < ?n" using inv by (simp add: scan_inv_def)
    then have last: "last (sc_entries st) = ?L ! (?n - 1)"
      using E by (metis diff_less last_conv_nth length_greater_0_conv nth_take zero_less_one)
    have m: "?n - 1 < length ?L" "Suc (?n - 1) = ?n" using pos E(2) by linarith+
    show ?thesis
    proof (cases "entry_key (last (sc_entries st)) \<le> entry_key c")
      case True
      have "entry_key y < entry_key c" if "y \<in> set (take ?n ?L)" for y
      proof -
        from that obtain i where "i < ?n" "y = ?L ! i" using E(2) by (auto simp: in_set_conv_nth)
        then have "entry_key y \<le> entry_key (last (sc_entries st))"
          using sorted_nth_mono [OF sorted, of i "?n - 1"] m last by simp
        moreover have "entry_key y \<noteq> entry_key c" using distinct that by (blast dest: in_set_takeD)
        ultimately show ?thesis using True by simp
      qed
      from take_insort_greater [of ?n ?L entry_key c, OF this E(2)] E(1)
      have "take ?n (insort_key entry_key c ?L) = sc_entries st" by simp
      moreover have "st' = ?st" using run skip full True by (simp add: retain_entry_def Let_def)
      ultimately show ?thesis using inv full L' by (simp add: scan_inv_def)
    next
      case False
      let ?st1 = "?st\<lparr>sc_retained_path_bytes := sc_retained_path_bytes st - list_entry_bytes (last (sc_entries st)),
        sc_entries := butlast (sc_entries st)\<rparr>"
      have push: "retain_push b c ?st1 = Inr st'" using run skip full False by (simp add: retain_entry_def Let_def)
      have "butlast (sc_entries st) = take (?n - 1) ?L" using E by (metis butlast_take)
      then have "insort_key entry_key c (sc_entries ?st1) = take ?n (listing after (vs @ [c]))"
        using take_insort_smaller [of "?n - 1" ?L entry_key c] m False last L' by simp
      then show ?thesis
        by (rule retain_push_inv [OF push]) (use inv L' full E(2) m in \<open>simp_all add: scan_inv_def\<close>)
    qed
  qed
qed

text \<open>The scan of the visible entries, one after another.\<close>

fun retain_all :: "nat \<Rightarrow> list_cursor option \<Rightarrow> list_entry list \<Rightarrow> list_scan \<Rightarrow> fs_error + list_scan" where
  "retain_all b after [] st = Inr st"
| "retain_all b after (v # vs) st = and_then (retain_entry b after v st) (retain_all b after vs)"

lemma retain_all_inv:
  "scan_inv after us st \<Longrightarrow> distinct (us @ vs) \<Longrightarrow> inj_on entry_key (set (us @ vs)) \<Longrightarrow> retain_all b after vs st = Inr st' \<Longrightarrow>
   scan_inv after (us @ vs) st'"
proof (induction vs arbitrary: us st)
  case (Cons v vs)
  then obtain st1 where st1: "retain_entry b after v st = Inr st1" "retain_all b after vs st1 = Inr st'"
    by (auto simp: and_then_Inr_iff)
  have "scan_inv after (us @ [v]) st1"
    by (rule retain_entry_inv [OF Cons.prems(1) _ _ st1(1)]) (use Cons.prems in \<open>auto simp: inj_on_def\<close>)
  from Cons.IH [OF this _ _ st1(2)] Cons.prems show ?case by simp
qed simp

lemma scan_new_inv: "scan_inv after [] (list_scan_new limit)"
  by (simp add: scan_inv_def list_scan_new_def listing_def sat_add_def usize_max_def)

section \<open>One page\<close>

definition list_page :: "nat \<Rightarrow> nat \<Rightarrow> list_cursor option \<Rightarrow> list_entry list \<Rightarrow> fs_error + list_result" where
  "list_page b limit after vs = and_then (retain_all b after vs (list_scan_new limit)) (list_finish b limit)"

lemma trim_response_suffix: "\<exists>n \<le> length es. trim_response b remaining bytes es = drop n es"
proof (induction es arbitrary: bytes)
  case (Cons e es)
  from Cons.IH [of "bytes - list_entry_bytes e"] obtain n where "n \<le> length es"
    "trim_response b remaining (bytes - list_entry_bytes e) es = drop n es" by blast
  then show ?case
  proof (cases "length (e # es) < remaining \<and> b < sat_add bytes (list_entry_bytes e)")
    case True
    with \<open>n \<le> length es\<close> \<open>trim_response b remaining (bytes - list_entry_bytes e) es = drop n es\<close>
    show ?thesis by (intro exI [of _ "Suc n"]) simp
  qed (auto intro!: exI [of _ 0])
qed simp

lemma list_finish_page:
  assumes inv: "scan_inv after vs st" and fin: "list_finish b limit st = Inr res"
  shows "\<exists>k. k \<le> limit \<and> k \<le> length (listing after vs) \<and> ls_entries res = take k (listing after vs) \<and>
    ls_total_entries res = length vs \<and> (ls_truncated res \<longleftrightarrow> k < length (listing after vs)) \<and>
    (0 < limit \<longrightarrow> listing after vs \<noteq> [] \<longrightarrow> 0 < k) \<and>
    ls_next_after res = (if ls_truncated res \<and> 0 < k
      then Some \<lparr>lc_kind = le_kind (last (ls_entries res)), lc_path = le_path (last (ls_entries res))\<rparr> else None)"
proof -
  let ?es = "take limit (sc_entries st)" and ?L = "listing after vs"
  obtain n where n: "n \<le> length ?es"
    "trim_response b (sc_remaining st) (sum_list (map list_entry_bytes ?es)) (rev ?es) = drop n (rev ?es)"
    using trim_response_suffix [of "rev ?es"] by fastforce
  define k where "k = length ?es - n"
  have len: "length (sc_entries st) \<le> length ?L" "sc_entries st = take (length (sc_entries st)) ?L"
    using inv by (simp_all add: scan_inv_def) (metis length_take min.absorb_iff2 min_def)
  have k: "k \<le> limit" "k \<le> length ?L" "k \<le> length (sc_entries st)" using len(1) by (auto simp: k_def min_def)
  have "rev (drop n (rev ?es)) = take k ?es" by (simp add: rev_drop k_def)
  also have "\<dots> = take k (sc_entries st)" using k(1) by (simp add: min_def)
  also have "\<dots> = take k ?L" using k(3) by (subst len(2)) (simp add: min_def)
  finally have es: "rev (trim_response b (sc_remaining st) (sum_list (map list_entry_bytes ?es)) (rev ?es)) = take k ?L"
    unfolding n(2) .
  have rem: "sc_remaining st = length ?L" "sc_total_entries st = length vs" using inv by (simp_all add: scan_inv_def)
  have empty: "take k ?L = [] \<longleftrightarrow> k = 0" and klen: "length (take k ?L) = k" using k(2) by (cases ?L; simp)+
  from fin have "\<not> (0 < limit \<and> 0 < length ?L \<and> k = 0)" and
    "res = \<lparr>ls_entries = take k ?L, ls_total_entries = length vs, ls_total_bytes = sc_total_bytes st,
      ls_truncated = (k < length ?L), ls_next_after = (if k < length ?L \<and> k \<noteq> 0
        then Some \<lparr>lc_kind = le_kind (last (take k ?L)), lc_path = le_path (last (take k ?L))\<rparr> else None)\<rparr>"
    unfolding list_finish_def Let_def unfolding es unfolding rem empty klen by (auto split: if_splits)
  with k show ?thesis by (intro exI [of _ k]) auto
qed

lemma list_page_exact:
  assumes "list_page b limit after vs = Inr res" "distinct vs" "inj_on entry_key (set vs)"
  shows "\<exists>k. k \<le> limit \<and> k \<le> length (listing after vs) \<and> ls_entries res = take k (listing after vs) \<and>
    ls_total_entries res = length vs \<and> (ls_truncated res \<longleftrightarrow> k < length (listing after vs)) \<and>
    (0 < limit \<longrightarrow> listing after vs \<noteq> [] \<longrightarrow> 0 < k) \<and>
    ls_next_after res = (if ls_truncated res \<and> 0 < k
      then Some \<lparr>lc_kind = le_kind (last (ls_entries res)), lc_path = le_path (last (ls_entries res))\<rparr> else None)"
proof -
  obtain st where st: "retain_all b after vs (list_scan_new limit) = Inr st" "list_finish b limit st = Inr res"
    using assms(1) by (auto simp: list_page_def and_then_Inr_iff)
  have "scan_inv after ([] @ vs) st" by (rule retain_all_inv [OF scan_new_inv _ _ st(1)]) (use assms in simp_all)
  with list_finish_page [OF _ st(2)] show ?thesis by simp
qed

text \<open>What is left after the last entry of a page is the rest of the listing.\<close>

lemma listing_continues:
  assumes inj: "inj_on entry_key (set vs)" and k: "0 < k" "k \<le> length (listing after vs)"
    and c: "cursor_key c = entry_key (last (take k (listing after vs)))" and dist: "distinct vs"
  shows "listing (Some c) vs = drop k (listing after vs)"
proof -
  let ?L = "listing after vs"
  have sorted: "sorted (map entry_key ?L)" and distL: "distinct ?L" using dist by (simp_all add: listing_def)
  have injL: "inj_on entry_key (set ?L)" using inj by (auto simp: set_listing inj_on_def)
  have strict: "sorted_wrt (<) (map entry_key ?L)" using sorted distL injL by (simp add: strict_sorted_iff distinct_map)
  have last: "last (take k ?L) = ?L ! (k - 1)" using k by (subst last_conv_nth) auto
  have upto: "entry_key x \<le> cursor_key c" if x: "x \<in> set (take k ?L)" for x
  proof -
    from x k obtain i where "i < k" "x = ?L ! i" by (auto simp: in_set_conv_nth)
    then show ?thesis using sorted_nth_mono [OF sorted, of i "k - 1"] k c last by simp
  qed
  have beyond: "cursor_key c < entry_key x" if x: "x \<in> set (drop k ?L)" for x
  proof -
    from x obtain i where "i < length ?L - k" "x = ?L ! (k + i)" by (auto simp: in_set_conv_nth)
    then show ?thesis using sorted_wrt_nth_less [OF strict, of "k - 1" "k + i"] k c last by simp
  qed
  have in_L: "last (take k ?L) \<in> set ?L" using k last by simp
  then have "after_cursor after e" if "cursor_key c < entry_key e" for e
    using that c by (auto simp: set_listing after_cursor_def split: option.splits)
  then have "set (filter (after_cursor (Some c)) vs) = {e \<in> set ?L. cursor_key c < entry_key e}"
    by (auto simp: set_listing after_cursor_def)
  also have "set ?L = set (take k ?L) \<union> set (drop k ?L)" by (metis append_take_drop_id set_append)
  finally have "set (filter (after_cursor (Some c)) vs) = set (drop k ?L)" using upto beyond by force
  then have "mset (filter (after_cursor (Some c)) vs) = mset (drop k ?L)"
    using dist distL by (subst set_eq_iff_mset_eq_distinct [symmetric]) simp_all
  moreover have "sorted (map entry_key (drop k ?L))" using sorted by (metis drop_map sorted_wrt_drop)
  ultimately show ?thesis unfolding listing_def [of "Some c"]
    by (intro sort_key_inj_key_eq) (use inj in \<open>auto simp: inj_on_def\<close>)
qed

section \<open>Every page succeeds on short paths\<close>

abbreviation total_bytes :: "list_entry list \<Rightarrow> nat" where
  "total_bytes es \<equiv> sum_list (map list_entry_bytes es)"

definition bytes_inv :: "nat \<Rightarrow> list_scan \<Rightarrow> bool" where
  "bytes_inv b st \<longleftrightarrow> sc_retained_path_bytes st = total_bytes (sc_entries st) \<and> sc_retained_path_bytes st \<le> b \<and>
     (\<forall>e \<in> set (sc_entries st). list_entry_bytes e \<le> b) \<and> 0 < sc_retained_limit st"

lemma total_bytes_butlast: "es \<noteq> [] \<Longrightarrow> total_bytes es - list_entry_bytes (last es) = total_bytes (butlast es)"
  by (induction es rule: rev_induct) simp_all

lemma total_bytes_insort: "total_bytes (insort_key entry_key e es) = list_entry_bytes e + total_bytes es"
  by (induction es) simp_all

lemma evict_bytes:
  "sc_retained_path_bytes st = total_bytes (sc_entries st) \<Longrightarrow> sc_entries st \<noteq> [] \<Longrightarrow> 0 < sc_retained_limit st \<Longrightarrow>
   \<forall>e \<in> set (sc_entries st). list_entry_bytes e \<le> b \<Longrightarrow> bytes_inv b (evict b st)"
proof (induction b st rule: evict.induct)
  case (1 b st)
  show ?case
  proof (cases "b < sc_retained_path_bytes st")
    case True
    let ?st = "st\<lparr>sc_retained_path_bytes := sc_retained_path_bytes st - list_entry_bytes (last (sc_entries st)),
      sc_entries := butlast (sc_entries st), sc_retained_limit := length (sc_entries st) - 1\<rparr>"
    have two: "butlast (sc_entries st) \<noteq> []"
    proof
      assume "butlast (sc_entries st) = []"
      with 1(3) obtain e where "sc_entries st = [e]" by (metis append_butlast_last_id append_Nil)
      with 1(2,5) True show False by simp
    qed
    then have "0 < length (sc_entries st) - 1" by (metis length_butlast length_greater_0_conv)
    with 1(1) [OF conjI [OF True 1(3)]] 1(2,3,5) two total_bytes_butlast [OF 1(3)] have "bytes_inv b (evict b ?st)"
      by (auto dest: in_set_butlastD)
    moreover have "evict b st = evict b ?st" using True 1(3) by (subst evict.simps) simp
    ultimately show ?thesis by simp
  next
    case False
    then have "evict b st = st" by (subst evict.simps) auto
    with 1 False show ?thesis by (simp add: bytes_inv_def)
  qed
qed

lemma retain_push_total:
  assumes "sc_retained_path_bytes st = total_bytes (sc_entries st)" "total_bytes (sc_entries st) \<le> b"
    "\<forall>e \<in> set (sc_entries st). list_entry_bytes e \<le> b" "0 < sc_retained_limit st" "list_entry_bytes c \<le> b" "2 * b \<le> usize_max"
  shows "\<exists>st'. retain_push b c st = Inr st' \<and> bytes_inv b st'"
proof -
  let ?st = "st\<lparr>sc_retained_path_bytes := sat_add (sc_retained_path_bytes st) (list_entry_bytes c),
    sc_entries := insort_key entry_key c (sc_entries st)\<rparr>"
  have "sat_add (total_bytes (sc_entries st)) (list_entry_bytes c) = total_bytes (insort_key entry_key c (sc_entries st))"
    using assms(2,5,6) by (simp add: total_bytes_insort sat_add_def)
  then have "bytes_inv b (evict b ?st)" using assms by (intro evict_bytes) (auto simp: set_insort_key)
  then show ?thesis by (simp add: retain_push_def Let_def bytes_inv_def)
qed

lemma retain_entry_total:
  assumes inv: "bytes_inv b st" and c: "list_entry_bytes c \<le> b" and b: "2 * b \<le> usize_max"
  shows "\<exists>st'. retain_entry b after c st = Inr st' \<and> bytes_inv b st'"
proof -
  let ?st = "st\<lparr>sc_total_entries := sc_total_entries st + 1, sc_total_bytes := sat_add (sc_total_bytes st) (le_size c),
    sc_remaining := sc_remaining st + 1\<rparr>"
  let ?st1 = "?st\<lparr>sc_retained_path_bytes := sc_retained_path_bytes st - list_entry_bytes (last (sc_entries st)),
    sc_entries := butlast (sc_entries st)\<rparr>"
  have pushed: "\<exists>st'. retain_push b c ?st = Inr st' \<and> bytes_inv b st'"
    by (rule retain_push_total) (use inv c b in \<open>auto simp: bytes_inv_def\<close>)
  have popped: "\<exists>st'. retain_push b c ?st1 = Inr st' \<and> bytes_inv b st'" if "sc_entries st \<noteq> []"
    by (rule retain_push_total)
      (use inv c b total_bytes_butlast [OF that] in \<open>auto simp: bytes_inv_def dest: in_set_butlastD\<close>)
  show ?thesis
  proof (cases "sc_entries st = []")
    case True
    with inv have "length (sc_entries st) \<noteq> sc_retained_limit st" by (simp add: bytes_inv_def)
    with inv pushed show ?thesis by (auto simp: retain_entry_def Let_def bytes_inv_def split: option.splits)
  next
    case False
    with inv pushed popped show ?thesis by (auto simp: retain_entry_def Let_def bytes_inv_def split: option.splits)
  qed
qed

lemma retain_all_total:
  "bytes_inv b st \<Longrightarrow> \<forall>e \<in> set vs. list_entry_bytes e \<le> b \<Longrightarrow> 2 * b \<le> usize_max \<Longrightarrow>
   \<exists>st'. retain_all b after vs st = Inr st' \<and> bytes_inv b st'"
proof (induction vs arbitrary: st)
  case (Cons v vs)
  then obtain st1 where "retain_entry b after v st = Inr st1" "bytes_inv b st1"
    using retain_entry_total [of b st v after] by auto
  with Cons show ?case by simp
qed simp

lemma trim_keeps_one:
  "es \<noteq> [] \<Longrightarrow> bytes = total_bytes es \<Longrightarrow> \<forall>e \<in> set es. 2 * list_entry_bytes e \<le> b \<Longrightarrow> trim_response b remaining bytes es \<noteq> []"
proof (induction es arbitrary: bytes)
  case (Cons e es)
  show ?case
  proof (cases "es = []")
    case True
    with Cons.prems show ?thesis by (simp add: sat_add_def)
  next
    case False
    with Cons.IH [of "bytes - list_entry_bytes e"] Cons.prems show ?thesis by simp
  qed
qed simp

lemma list_finish_total:
  assumes "scan_inv after vs st" "\<forall>e \<in> set vs. 2 * list_entry_bytes e \<le> b"
  shows "\<exists>res. list_finish b limit st = Inr res"
proof -
  let ?es = "take limit (sc_entries st)"
  have "set (sc_entries st) \<subseteq> set vs"
    using assms(1) by (auto simp: scan_inv_def set_listing dest: in_set_takeD) (metis (no_types, lifting) in_set_takeD mem_Collect_eq set_listing)
  then have "\<forall>e \<in> set (rev ?es). 2 * list_entry_bytes e \<le> b" using assms(2) by (auto dest: in_set_takeD)
  moreover have "total_bytes ?es = total_bytes (rev ?es)" by (simp add: rev_map [symmetric] sum_list_rev)
  ultimately have keep: "?es \<noteq> [] \<Longrightarrow>
    trim_response b (sc_remaining st) (total_bytes ?es) (rev ?es) \<noteq> []"
    by (intro trim_keeps_one) auto
  have "0 < limit \<Longrightarrow> 0 < sc_remaining st \<Longrightarrow> ?es \<noteq> []" using assms(1) by (auto simp: scan_inv_def)
  with keep show ?thesis by (auto simp: list_finish_def Let_def)
qed

lemma list_page_total:
  assumes "distinct vs" "inj_on entry_key (set vs)" "\<forall>e \<in> set vs. 2 * list_entry_bytes e \<le> b" "2 * b \<le> usize_max"
  shows "\<exists>res. list_page b limit after vs = Inr res"
proof -
  have "bytes_inv b (list_scan_new limit)" by (simp add: bytes_inv_def list_scan_new_def sat_add_def usize_max_def)
  then obtain st where st: "retain_all b after vs (list_scan_new limit) = Inr st"
    using retain_all_total [of b "list_scan_new limit" vs after] assms(3,4) by fastforce
  have "scan_inv after ([] @ vs) st" by (rule retain_all_inv [OF scan_new_inv _ _ st]) (use assms in simp_all)
  with list_finish_total [of after vs st b limit] assms(3) st show ?thesis by (auto simp: list_page_def)
qed

section \<open>Following the cursors\<close>

fun list_pages :: "nat \<Rightarrow> nat \<Rightarrow> nat \<Rightarrow> list_cursor option \<Rightarrow> list_entry list \<Rightarrow> list_entry list option" where
  "list_pages 0 b limit after vs = None"
| "list_pages (Suc fuel) b limit after vs =
     (case list_page b limit after vs of
        Inl _ \<Rightarrow> None
      | Inr res \<Rightarrow>
          (case ls_next_after res of
             None \<Rightarrow> Some (ls_entries res)
           | Some c \<Rightarrow> map_option ((@) (ls_entries res)) (list_pages fuel b limit (Some c) vs)))"

lemma list_pages_all:
  assumes "distinct vs" "inj_on entry_key (set vs)" "\<forall>e \<in> set vs. 2 * list_entry_bytes e \<le> b" "2 * b \<le> usize_max" "0 < limit"
  shows "length (listing after vs) < fuel \<Longrightarrow> list_pages fuel b limit after vs = Some (listing after vs)"
proof (induction fuel arbitrary: after)
  case (Suc fuel)
  obtain res where res: "list_page b limit after vs = Inr res" using list_page_total [OF assms(1-4)] by blast
  from list_page_exact [OF res assms(1,2)] obtain k where k: "k \<le> length (listing after vs)"
    "ls_entries res = take k (listing after vs)" "ls_truncated res \<longleftrightarrow> k < length (listing after vs)"
    "listing after vs \<noteq> [] \<longrightarrow> 0 < k"
    "ls_next_after res = (if ls_truncated res \<and> 0 < k
      then Some \<lparr>lc_kind = le_kind (last (ls_entries res)), lc_path = le_path (last (ls_entries res))\<rparr> else None)"
    using assms(5) by blast
  show ?case
  proof (cases "k < length (listing after vs)")
    case True
    with k(4) have "0 < k" by auto
    let ?c = "\<lparr>lc_kind = le_kind (last (ls_entries res)), lc_path = le_path (last (ls_entries res))\<rparr>"
    have rest: "listing (Some ?c) vs = drop k (listing after vs)"
      by (rule listing_continues [OF assms(2) \<open>0 < k\<close> k(1) _ assms(1)]) (simp add: cursor_key_def entry_key_def k(2))
    then have "list_pages fuel b limit (Some ?c) vs = Some (drop k (listing after vs))"
      using Suc.IH [of "Some ?c"] Suc.prems \<open>0 < k\<close> True by simp
    then show ?thesis using res k(2,3,5) True \<open>0 < k\<close> by simp
  next
    case False
    with k res show ?thesis by simp
  qed
qed simp



section \<open>The directory on disk\<close>

text \<open>The entries the scan sees, in the order the directory gives them.\<close>

fun visible_entries ::
  "path \<Rightarrow> path \<Rightarrow> fs_path \<Rightarrow> 'w fs_access \<Rightarrow> (io_error + string) list \<Rightarrow> ('w, fs_error, list_entry list) io" where
  "visible_entries root base logical access [] = io_return []"
| "visible_entries root base logical access (entry # entries) =
     io_bind (io_map_err (map_io logical) (fa_check_cancelled access)) (\<lambda>_.
     io_bind (io_lift (map_err (map_io logical) entry)) (\<lambda>name.
     io_bind (list_candidate root base logical access name) (\<lambda>candidate.
     io_bind (visible_entries root base logical access entries) (\<lambda>vs.
       io_return (case candidate of None \<Rightarrow> vs | Some e \<Rightarrow> e # vs)))))"

lemma list_loop_visible:
  "list_loop root base logical access after index entries st w = (Inr st', w') \<Longrightarrow>
   \<exists>vs. visible_entries root base logical access entries w = (Inr vs, w') \<and>
     retain_all MAX_RESULT_PATH_BYTES after vs st = Inr st'"
proof (induction entries arbitrary: index st w)
  case (Cons entry entries)
  have "\<not> MAX_TRAVERSAL_ENTRIES \<le> index"
    using Cons.prems by (cases "MAX_TRAVERSAL_ENTRIES \<le> index") (auto simp: io_bind_Inr_iff)
  with Cons.prems obtain w1 name w2 candidate w3 st1 where
    run: "io_map_err (map_io logical) (fa_check_cancelled access) w = (Inr (), w1)"
      "io_lift (map_err (map_io logical) entry) w1 = (Inr name, w2)"
      "list_candidate root base logical access name w2 = (Inr candidate, w3)"
      "(case candidate of None \<Rightarrow> Inr st | Some c \<Rightarrow> retain_entry MAX_RESULT_PATH_BYTES after c st) = Inr st1"
      "list_loop root base logical access after (index + 1) entries st1 w3 = (Inr st', w')"
    by (auto simp: io_bind_Inr_iff)
  from Cons.IH [OF run(5)] obtain vs where vs: "visible_entries root base logical access entries w3 = (Inr vs, w')"
    "retain_all MAX_RESULT_PATH_BYTES after vs st1 = Inr st'" by blast
  have "visible_entries root base logical access (entry # entries) w =
      (Inr (case candidate of None \<Rightarrow> vs | Some e \<Rightarrow> e # vs), w')"
    using run(1-3) vs(1) by (auto simp: io_bind_Inr_iff io_return_def simp del: io_simps)
  then show ?case using run(4) vs(2) by (cases candidate) auto
qed simp

text \<open>An entry is named by the directory followed by its name.\<close>

lemma fs_path_new_join:
  assumes "list_all component_name ns" "fs_path_new (join_components (map Normal ns)) = Inr q"
  shows "components_of q = map Normal ns"
proof (cases "ns = []")
  case False
  let ?s = "join_components (map Normal ns)"
  note comps = components_of_join [OF assms(1)]
  have "?s \<noteq> []" "?s \<noteq> ''.''" using False comps by (auto simp: components_of_def part_component_def map_filter_simps)
  with assms(2) comps normal_components_map [of "[]" ns] have bs: "CHR 0x5C \<notin> set ?s"
    and q: "q = map (\<lambda>c. if c = CHR 0x5C then CHR ''/'' else c) ?s" by (auto simp: fs_path_new_def split: if_splits)
  have "q = ?s" unfolding q using bs by (intro map_idI) auto
  then show ?thesis using comps by simp
qed (use assms(2) in \<open>simp add: fs_path_new_def fs_path_root_def components_of_def part_component_def map_filter_simps\<close>)

lemma list_candidate_path:
  assumes "list_candidate root (root @ map Normal ns) logical access name w = (Inr (Some e), w')"
    "list_all component_name ns" "component_name name"
  shows "components_of (le_path e) = map Normal (ns @ [name])"
proof -
  have push: "path_push (root @ map Normal ns) [Normal name] = root @ map Normal (ns @ [name])"
    by (simp add: path_push_def is_absolute_def)
  let ?abs = "root @ map Normal (ns @ [name])" and ?rel = "join_components (map Normal (ns @ [name]))"
  obtain x w1 where x: "fa_resolve_access_path access ?abs w = (x, w1)" by (rule prod.exhaust)
  have rel: "join_components (drop (length root) ?abs) = ?rel" by simp
  have "fs_path_new ?rel = Inr (le_path e)"
    using assms(1) x unfolding list_candidate_def push Let_def rel
    by (cases x; cases "fs_path_new ?rel") (auto simp: io_bind_Inr_iff split: if_split_asm)
  then show ?thesis using fs_path_new_join [of "ns @ [name]" "le_path e"] assms(2,3) by simp
qed

lemma visible_paths:
  assumes "list_all component_name ns"
  shows "visible_entries root (root @ map Normal ns) logical access entries w = (Inr vs, w') \<Longrightarrow>
    \<forall>n. Inr n \<in> set entries \<longrightarrow> component_name n \<Longrightarrow> distinct entries \<Longrightarrow>
    distinct (map le_path vs) \<and> (\<forall>e \<in> set vs. \<exists>n. Inr n \<in> set entries \<and> components_of (le_path e) = map Normal (ns @ [n]))"
proof (induction entries arbitrary: w vs)
  case (Cons entry entries)
  then obtain name w2 candidate w3 us where run: "entry = Inr name"
    "list_candidate root (root @ map Normal ns) logical access name w2 = (Inr candidate, w3)"
    "visible_entries root (root @ map Normal ns) logical access entries w3 = (Inr us, w')"
    "vs = (case candidate of None \<Rightarrow> us | Some e \<Rightarrow> e # us)"
    by (cases entry) (auto simp: io_bind_Inr_iff)
  from Cons.IH [OF run(3)] Cons.prems have us: "distinct (map le_path us)"
    "\<forall>e \<in> set us. \<exists>n. Inr n \<in> set entries \<and> components_of (le_path e) = map Normal (ns @ [n])" by auto
  show ?case
  proof (cases candidate)
    case (Some e)
    have e: "components_of (le_path e) = map Normal (ns @ [name])"
      using list_candidate_path [OF run(2) [unfolded Some] assms] Cons.prems(2) run(1) by auto
    have "le_path e \<notin> set (map le_path us)"
    proof
      assume "le_path e \<in> set (map le_path us)"
      then obtain n where "Inr n \<in> set entries" "map Normal (ns @ [name]) = map Normal (ns @ [n])" using us(2) e by auto
      with Cons.prems(3) run(1) show False by (simp add: inj_map_eq_map inj_def)
    qed
    then show ?thesis using us run(1,4) Some e by auto
  qed (use us run in auto)
qed simp

lemma resolve_under_names:
  assumes "fs_path_new s = Inr logical" "resolve_under root logical = Inr base"
  obtains ns where "list_all component_name ns" "base = root @ map Normal ns"
proof -
  obtain ns where ns: "list_all component_name ns" "logical = join_components (map Normal ns)"
    using fs_path_new_names [OF assms(1)] by blast
  have "\<not> is_absolute (map Normal ns)" by (cases ns) (simp_all add: is_absolute_def)
  with assms(2) ns components_of_join [OF ns(1)] have "base = root @ map Normal ns"
    by (cases ns) (auto simp: resolve_under_def path_push_def components_of_def part_component_def map_filter_simps
        split: if_split_asm)
  with ns(1) show thesis by (rule that)
qed


text \<open>A policy that grants everything and serves one directory of empty files.\<close>

definition directory_access :: "string list \<Rightarrow> unit fs_access" where
  "directory_access names =
     \<lparr>fa_check_cancelled = io_return (),
      fa_view = (\<lambda>_. \<lparr>fv_canonicalize = Inr, fv_symlink_kind = (\<lambda>_. Inr KFile),
        fv_read_link = (\<lambda>_. Inl (IoError InvalidInput [])), fv_exists = (\<lambda>_. True), fv_is_dir = (\<lambda>_. True)\<rparr>),
      fa_resolve_access_path = io_return, fa_is_readable_paths = (\<lambda>_ _. True),
      fa_is_writable_paths = (\<lambda>_ _. False), fa_can_enumerate_directory = (\<lambda>_ _. True),
      fa_open_read_file = (\<lambda>_ _. io_return \<lparr>of_metadata = Inr \<lparr>md_kind = KDirectory, md_len = 0, md_validator = Inr []\<rparr>,
        of_reads = [], of_metadata_after = Inr \<lparr>md_kind = KDirectory, md_len = 0, md_validator = Inr []\<rparr>\<rparr>),
      fa_read_metadata = (\<lambda>_ _. io_return \<lparr>md_kind = KFile, md_len = 0, md_validator = Inr []\<rparr>),
      fa_open_read_dir = (\<lambda>_ _. io_return (map Inr names)),
      fa_atomic_write_file = (\<lambda>_ _ _ _. io_lift (Inl (IoError PermissionDenied []))),
      fa_max_write_bytes = None, fa_max_edit_replacements = None\<rparr>"


end
