(* ===== verification/Task_Store.thy ===== *)
theory Task_Store
  imports Request_Items Step_System
begin

text \<open>
  The session tasks of a worker (\<open>worker/src/feature/builtin/task\<close>): the store and its
  replay from a history (\<open>store.rs\<close>), the four tools on it (\<open>tool_impl.rs\<close>), the feature
  with its reminder hooks (\<open>mod.rs\<close>), and the items a compaction leaves behind for the replay
  (\<open>worker.rs\<close>).  The JSON encoders and decoders are a parameter.
\<close>

named_theorems task_defs \<open>definitions of the task store\<close>

section \<open>Entries and the store\<close>

datatype task_status = TaskPending | TaskInprogress | TaskCompleted | TaskDeleted

definition is_retained :: "task_status \<Rightarrow> bool" where
  "is_retained s \<longleftrightarrow> s \<noteq> TaskDeleted"

fun status_text :: "task_status \<Rightarrow> string" where
  "status_text TaskPending = ''pending''"
| "status_text TaskInprogress = ''inprogress''"
| "status_text TaskCompleted = ''completed''"
| "status_text TaskDeleted = ''deleted''"

record task_entry =
  te_taskid :: u64
  te_status :: task_status
  te_subject :: string
  te_description :: string

record task_store =
  ts_next_taskid :: u64
  ts_tasks :: "task_entry list"

definition DEFAULT_TASK_LIST_LIMIT :: nat where
  "DEFAULT_TASK_LIST_LIMIT = 20"

definition task_store_new :: task_store where
  "task_store_new = \<lparr>ts_next_taskid = 1, ts_tasks = []\<rparr>"

definition task_create :: "string \<Rightarrow> string \<Rightarrow> task_store \<Rightarrow> task_entry \<times> task_store" where
  "task_create subject description store =
     (let task = \<lparr>te_taskid = ts_next_taskid store, te_status = TaskPending,
                  te_subject = subject, te_description = description\<rparr>
      in (task, \<lparr>ts_next_taskid = saturating_add (ts_next_taskid store) 1,
                 ts_tasks = ts_tasks store @ [task]\<rparr>))"

definition task_get :: "u64 \<Rightarrow> task_store \<Rightarrow> task_entry option" where
  "task_get taskid store = find (\<lambda>t. te_taskid t = taskid) (ts_tasks store)"

datatype task_store_error = TaskMissing u64 | TaskNoFields

fun task_store_error_text :: "task_store_error \<Rightarrow> string" where
  "task_store_error_text (TaskMissing taskid) = ''taskid '' @ dec (unat taskid) @ '' not found''"
| "task_store_error_text TaskNoFields = ''at least one of status, subject, description is required''"

definition set_fields ::
  "task_status option \<Rightarrow> string option \<Rightarrow> string option \<Rightarrow> task_entry \<Rightarrow> task_entry" where
  "set_fields status subject description task =
     (let task = (case status of None \<Rightarrow> task | Some s \<Rightarrow> task\<lparr>te_status := s\<rparr>);
          task = (case subject of None \<Rightarrow> task | Some s \<Rightarrow> task\<lparr>te_subject := s\<rparr>)
      in case description of None \<Rightarrow> task | Some d \<Rightarrow> task\<lparr>te_description := d\<rparr>)"

definition task_update ::
  "u64 \<Rightarrow> task_status option \<Rightarrow> string option \<Rightarrow> string option \<Rightarrow> task_store
     \<Rightarrow> (task_store_error + task_entry) \<times> task_store"
where
  "task_update taskid status subject description store =
     (if status = None \<and> subject = None \<and> description = None then (Inl TaskNoFields, store)
      else case position (\<lambda>t. te_taskid t = taskid) (ts_tasks store) of
        None \<Rightarrow> (Inl (TaskMissing taskid), store)
      | Some i \<Rightarrow>
          let updated = set_fields status subject description (ts_tasks store ! i);
              tasks = (ts_tasks store)[i := updated]
          in (Inr updated,
              store\<lparr>ts_tasks := if is_retained (te_status updated) then tasks else remove_at i tasks\<rparr>))"

definition snapshot_limited :: "nat \<Rightarrow> task_store \<Rightarrow> task_entry list" where
  "snapshot_limited limit store = take limit (ts_tasks store)"

definition task_snapshot :: "task_store \<Rightarrow> task_entry list" where
  "task_snapshot = snapshot_limited DEFAULT_TASK_LIST_LIMIT"

text \<open>\<open>max().unwrap_or(0)\<close> of unsigned integers.\<close>

definition max_taskid :: "task_entry list \<Rightarrow> u64" where
  "max_taskid tasks = fold max (map te_taskid tasks) 0"

definition retained :: "task_entry list \<Rightarrow> task_entry list" where
  "retained tasks = filter (\<lambda>t. is_retained (te_status t)) tasks"

definition replace_with :: "task_entry list \<Rightarrow> task_store" where
  "replace_with tasks =
     \<lparr>ts_next_taskid = max (saturating_add (max_taskid (retained tasks)) 1) 1,
      ts_tasks = retained tasks\<rparr>"

section \<open>Snapshots and replay\<close>

record task_update_params =
  up_taskid :: u64
  up_status :: "task_status option"
  up_subject :: "string option"
  up_description :: "string option"

text \<open>\<open>serde_json\<close> at the types the feature uses: the decoders of the tools' arguments, those of
  the replay, the decoder of a snapshot, and the pretty printer.\<close>

record task_codec =
  tk_create :: "string \<Rightarrow> string + string \<times> string"
  tk_list :: "string \<Rightarrow> string + nat option"
  tk_get :: "string \<Rightarrow> string + u64"
  tk_update :: "string \<Rightarrow> string + task_update_params"
  tk_replay_create :: "string \<Rightarrow> string + string \<times> string"
  tk_replay_update :: "string \<Rightarrow> string + task_update_params"
  tk_snapshot :: "string \<Rightarrow> string + task_entry list"
  tk_pretty_snapshot :: "task_entry list \<Rightarrow> string + string"
  tk_pretty_list :: "task_entry list \<Rightarrow> string + string"
  tk_pretty_task :: "task_entry \<Rightarrow> string + string"
  tk_debug_task :: "task_entry \<Rightarrow> string"

definition unwrap_or :: "'a \<Rightarrow> 'e + 'a \<Rightarrow> 'a" where
  "unwrap_or d r = (case r of Inl _ \<Rightarrow> d | Inr x \<Rightarrow> x)"

definition snapshot_overview :: "task_entry list \<Rightarrow> string" where
  "snapshot_overview tasks =
     (let count = \<lambda>s. dec (length (filter (\<lambda>t. te_status t = s) tasks))
      in ''TaskStore: '' @ dec (length tasks) @ '' task(s) (pending: '' @ count TaskPending
         @ '', inprogress: '' @ count TaskInprogress @ '', completed: '' @ count TaskCompleted @ '')'')"

definition start_marker :: string where
  "start_marker = ''```json'' @ [CHR 0x0A]"

definition end_marker :: string where
  "end_marker = CHR 0x0A # ''```''"

definition empty_snapshot_text :: string where
  "empty_snapshot_text = ''{'' @ [CHR 0x22] @ ''tasks'' @ [CHR 0x22] @ '':[]}''"

definition render_snapshot :: "task_codec \<Rightarrow> task_entry list \<Rightarrow> string" where
  "render_snapshot codec tasks =
     snapshot_overview (retained tasks) @ [CHR 0x0A, CHR 0x0A] @ start_marker
       @ unwrap_or empty_snapshot_text (tk_pretty_snapshot codec (retained tasks))
       @ end_marker @ [CHR 0x0A]"

definition snapshot_text :: "task_codec \<Rightarrow> task_store \<Rightarrow> string" where
  "snapshot_text codec store = render_snapshot codec (task_snapshot store)"

definition snapshot_header :: string where
  "snapshot_header = ''[Session TaskStore snapshot]''"

text \<open>\<open>str::find\<close>\<close>

fun str_find :: "string \<Rightarrow> string \<Rightarrow> nat option" where
  "str_find pat [] = (if pat = [] then Some 0 else None)"
| "str_find pat (c # s) = (if prefix pat (c # s) then Some 0 else map_option Suc (str_find pat s))"

text \<open>The outer option is a panic of a slice.\<close>

definition parse_compact_snapshot_text :: "task_codec \<Rightarrow> string \<Rightarrow> task_entry list option option" where
  "parse_compact_snapshot_text codec text =
     (if \<not> prefix snapshot_header text then Some None
      else case str_find start_marker text of None \<Rightarrow> Some None
      | Some i \<Rightarrow>
          (case str_slice text (i + length start_marker) (length text) of None \<Rightarrow> None
           | Some rest \<Rightarrow>
               (case str_find end_marker rest of None \<Rightarrow> Some None
                | Some j \<Rightarrow>
                    (case str_slice rest 0 j of None \<Rightarrow> None
                     | Some body \<Rightarrow>
                         (case tk_snapshot codec body of Inl _ \<Rightarrow> Some None
                          | Inr tasks \<Rightarrow> Some (Some (retained tasks)))))))"

fun replay_parts :: "task_codec \<Rightarrow> content_part list \<Rightarrow> task_store \<Rightarrow> task_store option" where
  "replay_parts codec [] store = Some store"
| "replay_parts codec (part # parts) store =
     (case parse_compact_snapshot_text codec (content_part_as_text part) of
        None \<Rightarrow> None
      | Some None \<Rightarrow> replay_parts codec parts store
      | Some (Some snapshot) \<Rightarrow> replay_parts codec parts (replace_with snapshot))"

definition replay_call :: "task_codec \<Rightarrow> string \<Rightarrow> string \<Rightarrow> task_store \<Rightarrow> task_store" where
  "replay_call codec name arguments store =
     (if name = ''TaskCreate''
      then (case tk_replay_create codec arguments of Inl _ \<Rightarrow> store
            | Inr (subject, description) \<Rightarrow> snd (task_create subject description store))
      else if name = ''TaskUpdate''
      then (case tk_replay_update codec arguments of Inl _ \<Rightarrow> store
            | Inr p \<Rightarrow> snd (task_update (up_taskid p) (up_status p) (up_subject p) (up_description p) store))
      else store)"

fun replay_item :: "task_codec \<Rightarrow> item \<Rightarrow> task_store \<Rightarrow> task_store option" where
  "replay_item codec (Message m) store = replay_parts codec (msg_content m) store"
| "replay_item codec (ToolCall c) store = Some (replay_call codec (tc_name c) (tc_arguments c) store)"
| "replay_item codec _ store = Some store"

fun replay_history :: "task_codec \<Rightarrow> item list \<Rightarrow> task_store \<Rightarrow> task_store option" where
  "replay_history codec [] store = Some store"
| "replay_history codec (it # history) store =
     (case replay_item codec it store of None \<Rightarrow> None | Some store \<Rightarrow> replay_history codec history store)"

definition store_from_history :: "task_codec \<Rightarrow> item list \<Rightarrow> task_store option" where
  "store_from_history codec history = replay_history codec history task_store_new"

section \<open>The tools\<close>

datatype task_tool_error = TaskInvalidArgument string | TaskExecutionFailed string

text \<open>The tools return no attachments.\<close>

record task_output =
  to_summary :: string
  to_content :: "string option"

type_synonym task_tool = "task_codec \<Rightarrow> string \<Rightarrow> task_store \<Rightarrow> (task_tool_error + task_output) \<times> task_store"

definition task_output_of :: "task_codec \<Rightarrow> string \<Rightarrow> task_entry \<Rightarrow> task_output" where
  "task_output_of codec summary task =
     \<lparr>to_summary = summary, to_content = Some (unwrap_or [] (tk_pretty_task codec task))\<rparr>"

definition changed_summary :: "string \<Rightarrow> task_entry \<Rightarrow> task_store \<Rightarrow> string" where
  "changed_summary verb task store =
     verb @ '' task '' @ dec (unat (te_taskid task)) @ '' ('' @ status_text (te_status task) @ '')''
       @ [CHR 0x0A] @ snapshot_overview (ts_tasks store)"

definition task_create_tool :: task_tool where
  "task_create_tool codec input store =
     (case tk_create codec input of
        Inl e \<Rightarrow> (Inl (TaskInvalidArgument (''invalid TaskCreate input: '' @ e)), store)
      | Inr (subject, description) \<Rightarrow>
          (case task_create subject description store of (created, store) \<Rightarrow>
             (Inr (task_output_of codec (changed_summary ''Created'' created store) created), store)))"

definition list_overview :: "nat \<Rightarrow> nat \<Rightarrow> string" where
  "list_overview count returned =
     (if returned < count
      then ''TaskStore: '' @ dec returned @ '' task(s) shown; '' @ dec (count - returned) @ '' omitted.''
      else ''TaskStore: '' @ dec returned @ '' task(s)'')"

definition task_list_tool :: task_tool where
  "task_list_tool codec input store =
     (case tk_list codec input of
        Inl e \<Rightarrow> (Inl (TaskInvalidArgument (''invalid TaskList input: '' @ e)), store)
      | Inr limit \<Rightarrow>
          let tasks = take (case limit of None \<Rightarrow> DEFAULT_TASK_LIST_LIMIT | Some n \<Rightarrow> n) (ts_tasks store)
          in (Inr \<lparr>to_summary = list_overview (length (ts_tasks store)) (length tasks),
                   to_content = Some (unwrap_or [] (tk_pretty_list codec tasks))\<rparr>, store))"

definition task_get_tool :: task_tool where
  "task_get_tool codec input store =
     (case tk_get codec input of
        Inl e \<Rightarrow> (Inl (TaskInvalidArgument (''invalid TaskGet input: '' @ e)), store)
      | Inr taskid \<Rightarrow>
          (case task_get taskid store of
             None \<Rightarrow> (Inl (TaskExecutionFailed (task_store_error_text (TaskMissing taskid))), store)
           | Some task \<Rightarrow>
               (Inr \<lparr>to_summary = ''Task '' @ dec (unat (te_taskid task)) @ '' ('' @ status_text (te_status task)
                       @ '') '' @ te_subject task,
                     to_content = Some (unwrap_or (tk_debug_task codec task) (tk_pretty_task codec task))\<rparr>,
                store)))"

definition task_update_tool :: task_tool where
  "task_update_tool codec input store =
     (case tk_update codec input of
        Inl e \<Rightarrow> (Inl (TaskInvalidArgument (''invalid TaskUpdate input: '' @ e)), store)
      | Inr p \<Rightarrow>
          (case task_update (up_taskid p) (up_status p) (up_subject p) (up_description p) store of
             (Inl e, store) \<Rightarrow> (Inl (TaskExecutionFailed (task_store_error_text e)), store)
           | (Inr updated, store) \<Rightarrow>
               (Inr (task_output_of codec (changed_summary ''Updated'' updated store) updated), store)))"

text \<open>The tools under the names they are registered with.\<close>

definition task_tools :: "(string \<times> task_tool) list" where
  "task_tools = zip [''TaskCreate'', ''TaskList'', ''TaskGet'', ''TaskUpdate'']
     [task_create_tool, task_list_tool, task_get_tool, task_update_tool]"

section \<open>The feature and its reminders\<close>

definition TASK_REMINDER_REQUEST_THRESHOLD :: u64 where
  "TASK_REMINDER_REQUEST_THRESHOLD = 24"

definition TASK_REMINDER_COOLDOWN_REQUESTS :: u64 where
  "TASK_REMINDER_COOLDOWN_REQUESTS = 24"

record task_reminder_state =
  rm_since_task_management :: u64
  rm_since_reminder :: u64

record task_feature =
  tf_store :: task_store
  tf_reminder :: task_reminder_state

definition reminder_state_new :: task_reminder_state where
  "reminder_state_new =
     \<lparr>rm_since_task_management = 0, rm_since_reminder = TASK_REMINDER_COOLDOWN_REQUESTS\<rparr>"

definition feature_from_store :: "task_store \<Rightarrow> task_feature" where
  "feature_from_store store = \<lparr>tf_store = store, tf_reminder = reminder_state_new\<rparr>"

definition feature_from_history :: "task_codec \<Rightarrow> item list \<Rightarrow> task_feature option" where
  "feature_from_history codec history = map_option feature_from_store (store_from_history codec history)"

definition restore_from_history :: "task_codec \<Rightarrow> item list \<Rightarrow> task_feature \<Rightarrow> task_feature option" where
  "restore_from_history codec history f =
     map_option (\<lambda>restored. f\<lparr>tf_store := replace_with (ts_tasks restored)\<rparr>) (store_from_history codec history)"

text \<open>\<open>fetch_add\<close> wraps and returns the previous value.\<close>

definition note_request :: "task_reminder_state \<Rightarrow> (u64 \<times> u64) \<times> task_reminder_state" where
  "note_request r =
     ((saturating_add (rm_since_task_management r) 1, saturating_add (rm_since_reminder r) 1),
      \<lparr>rm_since_task_management = rm_since_task_management r + 1,
       rm_since_reminder = rm_since_reminder r + 1\<rparr>)"

definition note_task_management :: "task_reminder_state \<Rightarrow> task_reminder_state" where
  "note_task_management r = r\<lparr>rm_since_task_management := 0\<rparr>"

definition note_reminder :: "task_reminder_state \<Rightarrow> task_reminder_state" where
  "note_reminder r = r\<lparr>rm_since_reminder := 0\<rparr>"

definition reminder_line :: "task_entry \<Rightarrow> string" where
  "reminder_line task =
     ''- taskid '' @ dec (unat (te_taskid task)) @ '' ('' @ status_text (te_status task) @ '') ''
       @ te_subject task @ [CHR 0x0A]"

definition reminder_intro :: string where
  "reminder_intro =
     ''Current session steps are listed below. Call TaskUpdate at each natural boundary: '' @
     ''keep the current step inprogress, mark it completed when finished, and delete older '' @
     ''completed steps once their result is no longer useful context.'' @ [CHR 0x0A]"

definition render_task_reminder_body :: "task_entry list \<Rightarrow> string" where
  "render_task_reminder_body tasks =
     rev (dropWhile (\<lambda>c. c = CHR 0x0A) (rev (reminder_intro @ concat (map reminder_line tasks))))"

text \<open>The hooks: before a request, with or without a place for system items, the reminder it
  appends; and before a tool call.\<close>

definition pre_request_hook :: "bool \<Rightarrow> task_feature \<Rightarrow> string option \<times> task_feature" where
  "pre_request_hook has_system_items f =
     (let tasks = ts_tasks (tf_store f) in
      if tasks = [] then (None, f)
      else case note_request (tf_reminder f) of ((since_task_management, since_reminder), r) \<Rightarrow>
        if since_task_management < TASK_REMINDER_REQUEST_THRESHOLD
           \<or> since_reminder < TASK_REMINDER_COOLDOWN_REQUESTS
        then (None, f\<lparr>tf_reminder := r\<rparr>)
        else if has_system_items
        then (Some (render_task_reminder_body tasks), f\<lparr>tf_reminder := note_reminder r\<rparr>)
        else (None, f\<lparr>tf_reminder := r\<rparr>))"

definition is_task_management_tool :: "string \<Rightarrow> bool" where
  "is_task_management_tool name \<longleftrightarrow> name \<in> {''TaskCreate'', ''TaskUpdate''}"

definition tool_usage_hook :: "string \<Rightarrow> task_feature \<Rightarrow> task_feature" where
  "tool_usage_hook name f =
     (if is_task_management_tool name then f\<lparr>tf_reminder := note_task_management (tf_reminder f)\<rparr> else f)"

section \<open>Compaction\<close>

text \<open>The items a compaction appends after the retained ones.\<close>

definition task_snapshot_message :: "string \<Rightarrow> string" where
  "task_snapshot_message text =
     snapshot_header @ [CHR 0x0A, CHR 0x0A] @ text @ [CHR 0x0A, CHR 0x0A] @
     ''This is the retained session task list preserved across compaction. '' @
     ''The following TaskList tool result presents the same state through the tool lane.''"

definition compaction_task_items :: "task_codec \<Rightarrow> task_store \<Rightarrow> item list" where
  "compaction_task_items codec store =
     [system_message (task_snapshot_message (snapshot_text codec store)),
      item_tool_call ''compact-tasklist'' ''TaskList'' ''{}'',
      tool_result_with_content ''compact-tasklist'' (snapshot_overview (ts_tasks store))
        (snapshot_text codec store)]"

lemmas task_store_ops [task_defs] =
  task_store_new_def task_create_def task_get_def task_update_def set_fields_def
  snapshot_limited_def task_snapshot_def replace_with_def

lemmas task_tool_ops [task_defs] =
  task_create_tool_def task_list_tool_def task_get_tool_def task_update_tool_def

end
