(* ===== verification/Task_Properties.thy ===== *)
theory Task_Properties
  imports Task_Store Fs_Text_Properties
begin

text \<open>
  What the session tasks promise: identifiers are never reused, a history replays to the store its
  calls produced, what survives a compaction, and how often reminders appear.
\<close>

section \<open>Finding a pattern\<close>

lemma prefix_cut: "prefix pat (xs @ ys) \<Longrightarrow> length pat \<le> length xs \<Longrightarrow> prefix pat xs"
  by (metis prefixI prefix_length_prefix)

lemma str_find_leftmost:
  "pat \<noteq> [] \<Longrightarrow> leftmost pat p \<Longrightarrow> str_find pat (p @ pat @ rest) = Some (length p)"
proof (induction p)
  case Nil
  then show ?case by (cases pat) auto
next
  case (Cons c p)
  then have "\<not> prefix pat (c # p @ pat @ rest)"
    using prefix_cut [of pat "c # p @ pat" rest] by (auto simp: leftmost_Cons)
  with Cons show ?case by (simp add: leftmost_Cons)
qed

lemma str_find_split: "str_find pat s = Some i \<Longrightarrow> \<exists>pre post. s = pre @ pat @ post \<and> i = length pre"
proof (induction s arbitrary: i)
  case (Cons c s)
  show ?case
  proof (cases "prefix pat (c # s)")
    case True
    with Cons.prems show ?thesis by (auto simp: prefix_def)
  next
    case False
    with Cons.prems obtain j where "str_find pat s = Some j" "i = Suc j" by auto
    with Cons.IH [of j] show ?thesis by (metis append_Cons length_Cons)
  qed
qed (auto split: if_splits)

lemma leftmost_fresh_hd: "c \<notin> set p \<Longrightarrow> leftmost (c # pat) p"
  by (induction p) (auto simp: leftmost_Cons)

lemma leftmost_no_border:
  assumes "c \<notin> set pat"
  shows "\<not> str_contains (c # pat) p \<Longrightarrow> leftmost (c # pat) p"
proof (induction p)
  case (Cons d p)
  have "\<not> prefix (c # pat) ((d # p) @ c # pat)"
  proof
    assume "prefix (c # pat) ((d # p) @ c # pat)"
    then have "prefix (c # pat) (d # p) \<or> (\<exists>us. c # pat = (d # p) @ us \<and> prefix us (c # pat))"
      by (simp only: prefix_append)
    moreover have "\<not> prefix (c # pat) (d # p)" using Cons.prems by simp
    ultimately obtain us where us: "c # pat = (d # p) @ us" "prefix us (c # pat)" "us \<noteq> []" by fastforce
    then have "hd us = c" "hd us \<in> set pat" by (cases us; auto)+
    with assms show False by simp
  qed
  with Cons show ?case by (simp add: leftmost_Cons)
qed simp

section \<open>Parsing a snapshot\<close>

lemma markers_valid: "utf8_valid start_marker" "utf8_valid end_marker"
  by (rule utf8_valid_ascii, simp add: start_marker_def end_marker_def byte_of_def)+

lemma markers_nonempty [simp]: "start_marker \<noteq> []" "end_marker \<noteq> []"
  by (simp_all add: start_marker_def end_marker_def)

lemma slice_from: "utf8_valid b \<Longrightarrow> str_slice (a @ b) (length a) (length (a @ b)) = Some b"
  using boundary_append [of b a] by (simp add: str_slice_def) (simp add: is_char_boundary_def)

lemma slice_to: "utf8_valid b \<Longrightarrow> str_slice (a @ b) 0 (length a) = Some a"
  using boundary_append [of b a] by (simp add: str_slice_def) (simp add: is_char_boundary_def)

lemma utf8_valid_after:
  assumes "utf8_valid (pre @ pat @ rest)" "utf8_valid pat" "pat \<noteq> []"
  shows "utf8_valid rest"
  using assms utf8_valid_before [OF assms] by (simp add: utf8_valid_append)

text \<open>The slices of the parser never panic on valid text.\<close>

lemma parse_total:
  assumes "utf8_valid text"
  shows "parse_compact_snapshot_text codec text \<noteq> None"
proof (cases "str_find start_marker text")
  case (Some i)
  then obtain pre rest where shape: "text = pre @ start_marker @ rest" "i = length pre"
    using str_find_split by blast
  with assms have rest: "utf8_valid rest" using utf8_valid_after markers_valid markers_nonempty by blast
  with slice_from [of rest "pre @ start_marker"]
  have slice: "str_slice text (i + length start_marker) (length text) = Some rest" by (simp add: shape)
  show ?thesis
  proof (cases "str_find end_marker rest")
    case Some': (Some j)
    then obtain body post where split: "rest = body @ end_marker @ post" "j = length body"
      using str_find_split by blast
    with rest have "utf8_valid (end_marker @ post)"
      using utf8_valid_before [of body end_marker post] markers_valid by (simp add: utf8_valid_append)
    from slice_to [OF this, of body] have "str_slice rest 0 j = Some body" by (simp add: split)
    with Some Some' slice show ?thesis
      by (simp add: parse_compact_snapshot_text_def split: sum.splits)
  qed (simp add: parse_compact_snapshot_text_def Some slice)
qed (simp add: parse_compact_snapshot_text_def)

lemma parse_snapshot:
  assumes "utf8_valid json" "\<not> str_contains end_marker json" "CHR ''`'' \<notin> set intro" "utf8_valid post"
    and "tk_snapshot codec json = Inr tasks"
  shows "parse_compact_snapshot_text codec
      ((snapshot_header @ intro) @ start_marker @ json @ end_marker @ post) = Some (Some (retained tasks))"
proof -
  let ?pre = "snapshot_header @ intro" and ?rest = "json @ end_marker @ post"
  have "CHR ''`'' \<notin> set ?pre" using assms(3) by (simp add: snapshot_header_def)
  then have start: "str_find start_marker (?pre @ start_marker @ ?rest) = Some (length ?pre)"
    using leftmost_fresh_hd [of "CHR ''`''" ?pre "tl start_marker"]
    by (intro str_find_leftmost) (simp_all add: start_marker_def)
  have stop: "str_find end_marker ?rest = Some (length json)"
    using leftmost_no_border [of "CHR 0x0A" "''```''" json] assms(2)
    by (intro str_find_leftmost) (simp_all add: end_marker_def)
  have tail: "utf8_valid (end_marker @ post)" and rest: "utf8_valid ?rest"
    using assms(1,4) markers_valid by (simp_all add: utf8_valid_append)
  from slice_from [OF rest, of "?pre @ start_marker"] slice_to [OF tail, of json] start stop assms(5)
  show ?thesis by (simp add: parse_compact_snapshot_text_def add.assoc)
qed

section \<open>Replay\<close>

fun item_texts :: "item \<Rightarrow> string list" where
  "item_texts (Message m) = map content_part_as_text (msg_content m)"
| "item_texts _ = []"

definition valid_item :: "item \<Rightarrow> bool" where
  "valid_item it \<longleftrightarrow> list_all utf8_valid (item_texts it)"

definition plain_item :: "item \<Rightarrow> bool" where
  "plain_item it \<longleftrightarrow> list_all (\<lambda>s. \<not> prefix snapshot_header s) (item_texts it)"

fun task_calls :: "item list \<Rightarrow> (string \<times> string) list" where
  "task_calls [] = []"
| "task_calls (ToolCall c # history) = (tc_name c, tc_arguments c) # task_calls history"
| "task_calls (_ # history) = task_calls history"

text \<open>The effect of executing a call: only the task tools reach the store.\<close>

definition task_step :: "task_codec \<Rightarrow> task_store \<Rightarrow> string \<times> string \<Rightarrow> task_store" where
  "task_step codec store call =
     (case map_of task_tools (fst call) of None \<Rightarrow> store
      | Some tool \<Rightarrow> snd (tool codec (snd call) store))"

text \<open>The structures the tools decode have the fields of the structures the replay decodes.\<close>

definition codec_agrees :: "task_codec \<Rightarrow> bool" where
  "codec_agrees codec \<longleftrightarrow>
     tk_replay_create codec = tk_create codec \<and> tk_replay_update codec = tk_update codec"

lemma task_step_simps [simp]:
  "task_step codec store (''TaskCreate'', a) = snd (task_create_tool codec a store)"
  "task_step codec store (''TaskList'', a) = store"
  "task_step codec store (''TaskGet'', a) = store"
  "task_step codec store (''TaskUpdate'', a) = snd (task_update_tool codec a store)"
  "n \<notin> {''TaskCreate'', ''TaskList'', ''TaskGet'', ''TaskUpdate''} \<Longrightarrow> task_step codec store (n, a) = store"
  by (auto simp: task_step_def task_tools_def task_list_tool_def task_get_tool_def Let_def
      split: sum.splits option.splits)

lemma create_tool_store:
  "snd (task_create_tool codec a store) =
     (case tk_create codec a of Inl _ \<Rightarrow> store | Inr (s, d) \<Rightarrow> snd (task_create s d store))"
  by (auto simp: task_create_tool_def split: sum.splits prod.splits)

lemma update_tool_store:
  "snd (task_update_tool codec a store) =
     (case tk_update codec a of Inl _ \<Rightarrow> store
      | Inr p \<Rightarrow> snd (task_update (up_taskid p) (up_status p) (up_subject p) (up_description p) store))"
  by (auto simp: task_update_tool_def split: sum.splits prod.splits)

lemma replay_call_step:
  assumes "codec_agrees codec"
  shows "replay_call codec name arguments store = task_step codec store (name, arguments)"
  using assms
  by (cases "name \<in> {''TaskCreate'', ''TaskList'', ''TaskGet'', ''TaskUpdate''}")
    (auto simp: replay_call_def codec_agrees_def create_tool_store update_tool_store)

lemma replay_append:
  "replay_history codec (xs @ ys) store =
     (case replay_history codec xs store of None \<Rightarrow> None | Some s \<Rightarrow> replay_history codec ys s)"
  by (induction xs arbitrary: store) (auto split: option.splits)

lemma replay_parts_total:
  "list_all utf8_valid (map content_part_as_text parts) \<Longrightarrow> \<exists>s. replay_parts codec parts store = Some s"
proof (induction parts arbitrary: store)
  case (Cons part parts)
  then have "parse_compact_snapshot_text codec (content_part_as_text part) \<noteq> None" by (simp add: parse_total)
  with Cons show ?case by (auto split: option.splits)
qed simp

lemma replay_item_total: "valid_item it \<Longrightarrow> \<exists>s. replay_item codec it store = Some s"
  using replay_parts_total by (cases it) (auto simp: valid_item_def)

lemma replay_total: "list_all valid_item history \<Longrightarrow> \<exists>s. replay_history codec history store = Some s"
proof (induction history arbitrary: store)
  case (Cons it history)
  then obtain s where "replay_item codec it store = Some s" using replay_item_total [of it codec store] by auto
  with Cons show ?case by simp
qed simp

lemma replay_parts_plain:
  "list_all (\<lambda>s. \<not> prefix snapshot_header s) (map content_part_as_text parts) \<Longrightarrow>
     replay_parts codec parts store = Some store"
  by (induction parts) (auto simp: parse_compact_snapshot_text_def)

lemma replay_plain:
  assumes "codec_agrees codec" "list_all plain_item history"
  shows "replay_history codec history store = Some (run_ops (task_step codec) store (task_calls history))"
  using assms(2)
proof (induction history arbitrary: store rule: task_calls.induct)
  case (2 c history)
  then show ?case by (simp add: replay_call_step [OF assms(1)])
qed (simp_all add: plain_item_def replay_parts_plain)

section \<open>Identifiers\<close>

abbreviation task_ids :: "task_store \<Rightarrow> u64 list" where
  "task_ids store \<equiv> map te_taskid (ts_tasks store)"

text \<open>Identifiers ascend below the next one until that saturates.\<close>

definition task_inv :: "task_store \<Rightarrow> bool" where
  "task_inv store \<longleftrightarrow>
     (\<forall>t \<in> set (ts_tasks store). is_retained (te_status t)) \<and>
     (ts_next_taskid store \<noteq> - 1 \<longrightarrow>
        0 < ts_next_taskid store \<and> sorted_wrt (<) (task_ids store) \<and>
        (\<forall>i \<in> set (task_ids store). i < ts_next_taskid store))"

definition task_grows :: "task_store \<Rightarrow> task_store \<Rightarrow> bool" where
  "task_grows s t \<longleftrightarrow> ts_next_taskid s \<le> ts_next_taskid t \<and>
     (\<forall>i \<in> set (task_ids t). i \<in> set (task_ids s) \<or> ts_next_taskid s \<le> i)"

lemma saturating_succ:
  fixes x :: u64
  assumes "x \<noteq> - 1"
  shows "saturating_add x 1 = x + 1" "x < x + 1"
proof -
  have "unat x \<noteq> unat (- 1 :: u64)" using assms by (simp add: word_unat_eq_iff)
  then have "unat x < 2 ^ 64 - 1"
    using unsigned_less [of x, where ?'a = nat] by (simp add: unsigned_minus_1_eq_mask mask_eq_exp_minus_1)
  then show "saturating_add x 1 = x + 1" "x < x + 1"
    by (simp_all add: saturating_add_def word_less_nat_alt unat_word_ariths)
qed

lemma sorted_wrt_remove_at: "sorted_wrt P xs \<Longrightarrow> sorted_wrt P (remove_at i xs)"
proof (cases "i < length xs")
  case True
  moreover assume "sorted_wrt P xs"
  ultimately have "sorted_wrt P (take i xs @ xs ! i # drop (Suc i) xs)" by (simp add: id_take_nth_drop [symmetric])
  then show ?thesis by (simp add: remove_at_def sorted_wrt_append)
qed (simp add: remove_at_def)

lemma set_remove_at: "set (remove_at i xs) \<subseteq> set xs"
  by (auto simp: remove_at_def dest: in_set_takeD in_set_dropD)

lemma map_remove_at: "map f (remove_at i xs) = remove_at i (map f xs)"
  by (simp add: remove_at_def take_map drop_map)

lemma set_fields_id [simp]: "te_taskid (set_fields status subject description t) = te_taskid t"
  by (simp add: set_fields_def Let_def split: option.splits)

lemma update_shape:
  "\<exists>i. snd (task_update taskid status subject description store) = store \<or>
     (i < length (ts_tasks store) \<and>
      (let new = (ts_tasks store)[i := set_fields status subject description (ts_tasks store ! i)] in
       snd (task_update taskid status subject description store) =
         store\<lparr>ts_tasks := if is_retained (te_status (new ! i)) then new else remove_at i new\<rparr>))"
  by (auto simp: task_update_def Let_def position_Some_iff split: option.splits)

lemma update_ids:
  assumes "st' = snd (task_update taskid status subject description store)"
  shows "ts_next_taskid st' = ts_next_taskid store \<and> (\<exists>i. task_ids st' \<in> {task_ids store, remove_at i (task_ids store)})"
proof -
  have same: "(task_ids store)[i := te_taskid (ts_tasks store ! i)] = task_ids store" for i
    by (metis list_update_beyond list_update_id map_update not_le)
  show ?thesis
    using update_shape [of taskid status subject description store] assms
    by (fastforce simp: Let_def map_update map_remove_at same)
qed

lemma create_inv:
  assumes "task_inv store"
  shows "task_inv (snd (task_create subject description store))"
    and "task_grows store (snd (task_create subject description store))"
proof -
  have next_ne: "ts_next_taskid store \<noteq> - 1" if "saturating_add (ts_next_taskid store) 1 \<noteq> - 1"
    using that by (auto simp: saturating_add_def unsigned_minus_1_eq_mask mask_eq_exp_minus_1)
  show "task_inv (snd (task_create subject description store))"
    using assms next_ne saturating_succ [of "ts_next_taskid store"]
    by (auto simp: task_inv_def task_create_def Let_def is_retained_def sorted_wrt_append intro: less_trans)
  show "task_grows store (snd (task_create subject description store))"
    using saturating_add_ge [of "ts_next_taskid store" 1] by (auto simp: task_grows_def task_create_def Let_def)
qed

lemma update_retained:
  assumes "\<forall>t \<in> set (ts_tasks store). is_retained (te_status t)"
    and "t \<in> set (ts_tasks (snd (task_update taskid status subject description store)))"
  shows "is_retained (te_status t)"
proof -
  obtain i where cases: "snd (task_update taskid status subject description store) = store \<or>
     (i < length (ts_tasks store) \<and>
      (let new = (ts_tasks store)[i := set_fields status subject description (ts_tasks store ! i)] in
       snd (task_update taskid status subject description store) =
         store\<lparr>ts_tasks := if is_retained (te_status (new ! i)) then new else remove_at i new\<rparr>))"
    using update_shape by blast
  let ?u = "set_fields status subject description (ts_tasks store ! i)"
  have sub: "set (remove_at i ((ts_tasks store)[i := ?u])) \<subseteq> set (ts_tasks store)"
    using set_take_subset [of i "ts_tasks store"] set_drop_subset [of "Suc i" "ts_tasks store"]
    by (simp add: remove_at_def)
  have upd: "set ((ts_tasks store)[i := ?u]) \<subseteq> insert ?u (set (ts_tasks store))" by (rule set_update_subset_insert)
  show ?thesis using cases assms sub upd by (auto simp: Let_def split: if_splits)
qed

lemma update_inv:
  assumes "task_inv store"
  shows "task_inv (snd (task_update taskid status subject description store))"
    and "task_grows store (snd (task_update taskid status subject description store))"
proof -
  define st' where "st' = snd (task_update taskid status subject description store)"
  from update_ids [OF this] obtain i where ids: "ts_next_taskid st' = ts_next_taskid store"
    "task_ids st' = task_ids store \<or> task_ids st' = remove_at i (task_ids store)" by auto
  have sub: "set (task_ids st') \<subseteq> set (task_ids store)"
    using ids(2) by (rule disjE) (simp_all only: set_remove_at subset_refl)
  have "sorted_wrt (<) (task_ids store) \<longrightarrow> sorted_wrt (<) (task_ids st')"
    using ids(2) sorted_wrt_remove_at by metis
  moreover have "\<forall>t \<in> set (ts_tasks st'). is_retained (te_status t)"
    using assms update_retained unfolding task_inv_def st'_def by blast
  ultimately have "task_inv st'" using assms sub unfolding task_inv_def ids(1) by blast
  then show "task_inv (snd (task_update taskid status subject description store))" by (simp add: st'_def)
  from ids(1) sub show "task_grows store (snd (task_update taskid status subject description store))"
    unfolding task_grows_def st'_def [symmetric] by auto
qed

lemma step_keeps:
  assumes "task_inv store"
  shows "task_inv (task_step codec store call) \<and> task_grows store (task_step codec store call)"
proof -
  obtain name a where call: "call = (name, a)" by (cases call)
  have same: "task_grows store store" by (simp add: task_grows_def)
  show ?thesis
    using create_inv [OF assms] update_inv [OF assms] assms same
    by (cases "name \<in> {''TaskCreate'', ''TaskList'', ''TaskGet'', ''TaskUpdate''}")
      (auto simp: call create_tool_store update_tool_store split: sum.splits)
qed

interpretation tasks: growing_system "task_step codec" task_inv task_grows for codec
proof (unfold_locales, goal_cases)
  case (3 s t u)
  then show ?case unfolding task_grows_def by (meson order_trans)
qed (use step_keeps in \<open>auto simp: task_grows_def\<close>)

lemma new_inv: "task_inv task_store_new"
  by (simp add: task_inv_def task_store_new_def)

lemma step_next: "unat (ts_next_taskid (task_step codec store call)) \<le> Suc (unat (ts_next_taskid store))"
proof -
  obtain name a where call: "call = (name, a)" by (cases call)
  have create: "unat (ts_next_taskid (snd (task_create s d store))) \<le> Suc (unat (ts_next_taskid store))" for s d
    by (simp add: task_create_def Let_def unat_saturating_add)
  show ?thesis using create update_ids [OF refl]
    by (cases "name \<in> {''TaskCreate'', ''TaskList'', ''TaskGet'', ''TaskUpdate''}")
      (auto simp: call create_tool_store update_tool_store split: sum.splits)
qed

lemma run_next:
  "unat (ts_next_taskid (run_ops (task_step codec) store calls)) \<le> unat (ts_next_taskid store) + length calls"
proof (induction calls arbitrary: store)
  case (Cons c calls)
  from Cons.IH [of "task_step codec store c"] step_next [of codec store c] show ?case by simp
qed simp

lemma run_unsaturated:
  assumes "length calls < 2 ^ 64 - 2"
  shows "ts_next_taskid (run_ops (task_step codec) task_store_new calls) \<noteq> - 1"
proof
  assume "ts_next_taskid (run_ops (task_step codec) task_store_new calls) = - 1"
  with run_next [of codec task_store_new calls] assms show False
    by (simp add: task_store_new_def unsigned_minus_1_eq_mask mask_eq_exp_minus_1)
qed

lemma get_None_iff: "task_get i store = None \<longleftrightarrow> i \<notin> set (task_ids store)"
  by (auto simp: task_get_def find_None_iff)

section \<open>What the tools and the replay promise\<close>

text \<open>
  C27. Task identifiers are never reused. After any calls of the tools, fewer than \<open>2 ^ 64 - 2\<close>, the
  tasks are retained ones with ascending identifiers below the next one, and an identifier that was
  given out and whose task is gone stays without a task, whatever calls follow.
\<close>

theorem task_ids_never_reused:
  assumes "length past + length future < 2 ^ 64 - 2"
    and "s = run_ops (task_step codec) task_store_new past" "t = run_ops (task_step codec) s future"
  shows "sorted_wrt (<) (map te_taskid (ts_tasks t)) \<and>
    (\<forall>x \<in> set (ts_tasks t). is_retained (te_status x) \<and> te_taskid x < ts_next_taskid t) \<and>
    (\<forall>i < ts_next_taskid s. task_get i s = None \<longrightarrow> task_get i t = None)"
proof -
  have t: "t = run_ops (task_step codec) task_store_new (past @ future)" by (simp add: assms)
  have "task_inv s" "task_inv t" using tasks.run_inv [OF new_inv] by (simp_all add: assms(2) t del: run_ops_append)
  moreover have "ts_next_taskid t \<noteq> - 1" using run_unsaturated [of "past @ future" codec] assms(1) t by simp
  moreover have "task_grows s t" using tasks.run_grows [OF \<open>task_inv s\<close>] by (simp add: assms(3))
  ultimately show ?thesis unfolding get_None_iff task_inv_def task_grows_def by (auto simp: not_le [symmetric])
qed

definition sample_codec :: task_codec where
  "sample_codec =
     (let update = (\<lambda>a. if a = ''forget 2'' then Inr \<lparr>up_taskid = 2, up_status = Some TaskDeleted,
                          up_subject = None, up_description = None\<rparr>
                        else if a = ''finish 3'' then Inr \<lparr>up_taskid = 3, up_status = Some TaskCompleted,
                          up_subject = None, up_description = None\<rparr>
                        else Inl ''expected value'');
          one = \<lparr>te_taskid = 1, te_status = TaskPending, te_subject = ''plan'', te_description = []\<rparr>
      in \<lparr>tk_create = (\<lambda>a. Inr (a, [])), tk_list = (\<lambda>_. Inr None), tk_get = (\<lambda>_. Inr 1), tk_update = update,
          tk_replay_create = (\<lambda>a. Inr (a, [])), tk_replay_update = update,
          tk_snapshot = (\<lambda>s. if s = ''plan'' then Inr [one] else Inl ''expected value''),
          tk_pretty_snapshot = (\<lambda>ts. Inr (concat (map te_subject ts))),
          tk_pretty_list = (\<lambda>ts. Inr (concat (map te_subject ts))),
          tk_pretty_task = (\<lambda>t. Inr (te_subject t)), tk_debug_task = te_subject\<rparr>)"

abbreviation two_tasks :: "(string \<times> string) list" where
  "two_tasks \<equiv> [(''TaskCreate'', ''plan''), (''TaskCreate'', ''draft'')]"

lemmas sample_run = sample_codec_def task_create_tool_def task_update_tool_def task_create_def task_update_def
  task_store_new_def set_fields_def is_retained_def remove_at_def saturating_add_def Let_def

theorem task_ids_never_reused_witness:
  "task_get 2 (run_ops (task_step sample_codec) task_store_new
     (two_tasks @ [(''TaskUpdate'', ''forget 2''), (''TaskCreate'', ''review'')])) = None"
proof -
  let ?s = "run_ops (task_step sample_codec) task_store_new (two_tasks @ [(''TaskUpdate'', ''forget 2'')])"
  have "2 < ts_next_taskid ?s" "task_get 2 ?s = None" by (simp_all add: sample_run task_get_def)
  with task_ids_never_reused [of "two_tasks @ [(''TaskUpdate'', ''forget 2'')]"
      "[(''TaskCreate'', ''review'')]" ?s sample_codec, OF _ refl refl]
  show ?thesis by simp
qed



section \<open>Compaction\<close>

text \<open>The encoder and the decoder of snapshots on one list of tasks: the decoder inverts the pretty
  printer, whose output has no line that starts with a fence.\<close>

definition snapshot_codec :: "task_codec \<Rightarrow> task_entry list \<Rightarrow> bool" where
  "snapshot_codec codec tasks \<longleftrightarrow>
     (case tk_pretty_snapshot codec tasks of Inl _ \<Rightarrow> False
      | Inr json \<Rightarrow> utf8_valid json \<and> \<not> str_contains end_marker json \<and> tk_snapshot codec json = Inr tasks)"

lemma dec_no_fence: "CHR ''`'' \<notin> set (dec n)"
proof (induction n rule: dec.induct)
  case (1 n)
  have digit: "CHR ''`'' \<noteq> digit_char d" if "d < 10" for d
  proof
    assume "CHR ''`'' = digit_char d"
    then have "of_char (digit_char d) = (of_char (CHR ''`'') :: nat)" by (rule arg_cong [OF sym])
    with that show False by (simp add: digit_char_def)
  qed
  with 1 digit [of n] digit [of "n mod 10"] show ?case by (subst dec.simps) (simp split: if_splits)
qed

lemma retained_id: "\<forall>t \<in> set ts. is_retained (te_status t) \<Longrightarrow> retained ts = ts"
  by (simp add: retained_def)

lemma fold_max_ascending:
  "sorted_wrt (<) xs \<Longrightarrow> fold max xs (0 :: u64) = (if xs = [] then 0 else last xs)"
proof (induction xs rule: rev_induct)
  case (snoc x xs)
  then have "fold max xs 0 \<le> x" by (auto simp: sorted_wrt_append dest: last_in_set less_imp_le)
  then show ?case by (simp add: max.absorb1)
qed simp

lemma snapshot_message_parses:
  assumes "snapshot_codec codec (task_snapshot st)" "\<forall>t \<in> set (ts_tasks st). is_retained (te_status t)"
  shows "parse_compact_snapshot_text codec (task_snapshot_message (snapshot_text codec st)) =
    Some (Some (task_snapshot st))"
proof -
  have kept: "retained (task_snapshot st) = task_snapshot st"
    using assms(2) set_take_subset by (intro retained_id) (force simp: task_snapshot_def snapshot_limited_def)
  obtain json where json: "tk_pretty_snapshot codec (task_snapshot st) = Inr json" "utf8_valid json"
    "\<not> str_contains end_marker json" "tk_snapshot codec json = Inr (task_snapshot st)"
    using assms(1) by (auto simp: snapshot_codec_def split: sum.splits)
  let ?intro = "[CHR 0x0A, CHR 0x0A] @ snapshot_overview (task_snapshot st) @ [CHR 0x0A, CHR 0x0A]"
  let ?post = "[CHR 0x0A] @ [CHR 0x0A, CHR 0x0A] @
     ''This is the retained session task list preserved across compaction. '' @
     ''The following TaskList tool result presents the same state through the tool lane.''"
  have "CHR ''`'' \<notin> set ?intro" using dec_no_fence by (simp add: snapshot_overview_def Let_def)
  moreover have "utf8_valid ?post" by (rule utf8_valid_ascii) (simp add: byte_of_def)
  ultimately have "parse_compact_snapshot_text codec
      ((snapshot_header @ ?intro) @ start_marker @ json @ end_marker @ ?post) = Some (Some (retained (task_snapshot st)))"
    by (intro parse_snapshot json)
  then show ?thesis
    by (simp add: task_snapshot_message_def snapshot_text_def render_snapshot_def kept json(1) unwrap_or_def)
qed

lemma replay_compaction:
  assumes "snapshot_codec codec (task_snapshot st)" "\<forall>t \<in> set (ts_tasks st). is_retained (te_status t)"
  shows "replay_history codec (compaction_task_items codec st) store = Some (replace_with (task_snapshot st))"
  using snapshot_message_parses [OF assms]
  by (simp add: compaction_task_items_def system_message_def message_parts_def item_tool_call_def
      replay_call_def tool_result_with_content_def item_tool_result_def
      tool_result_item_with_disposition_and_attachments_def)

lemma replaced_same_iff:
  assumes "task_inv st" "ts_next_taskid st \<noteq> - 1"
  shows "replace_with (task_snapshot st) = st \<longleftrightarrow> length (ts_tasks st) \<le> 20 \<and>
    ts_next_taskid st = (if ts_tasks st = [] then 1 else te_taskid (last (ts_tasks st)) + 1)"
proof (cases "length (ts_tasks st) \<le> 20")
  case True
  let ?m = "max_taskid (ts_tasks st)"
  have snap: "retained (task_snapshot st) = ts_tasks st"
    using assms(1) True by (simp add: task_snapshot_def snapshot_limited_def DEFAULT_TASK_LIST_LIMIT_def
      task_inv_def retained_id)
  have asc: "sorted_wrt (<) (task_ids st)" "\<forall>i \<in> set (task_ids st). i < ts_next_taskid st"
    using assms by (simp_all add: task_inv_def)
  have m: "?m = (if ts_tasks st = [] then 0 else te_taskid (last (ts_tasks st)))"
    using fold_max_ascending [OF asc(1)] by (simp add: max_taskid_def last_map)
  have "te_taskid (last (ts_tasks st)) < ts_next_taskid st" if "ts_tasks st \<noteq> []"
    using asc(2) last_in_set [OF that] by auto
  moreover have "x \<noteq> - 1" if "x < y" for x y :: u64 using that word_order.extremum [of y] by auto
  ultimately have "?m \<noteq> - 1" using m by auto
  note succ = saturating_succ [OF this]
  have "0 < ?m + 1" using succ(2) by (metis le_less_trans word_zero_le)
  then have "1 \<le> ?m + 1" using inc_le by fastforce
  then have "replace_with (task_snapshot st) = \<lparr>ts_next_taskid = ?m + 1, ts_tasks = ts_tasks st\<rparr>"
    by (simp add: replace_with_def snap succ(1) max.absorb1)
  moreover have "\<lparr>ts_next_taskid = n, ts_tasks = ts_tasks st\<rparr> = st \<longleftrightarrow> ts_next_taskid st = n" for n by (cases st) auto
  ultimately show ?thesis using True m by simp
next
  case False
  have "length (retained (task_snapshot st)) \<le> 20"
    by (simp add: retained_def task_snapshot_def snapshot_limited_def DEFAULT_TASK_LIST_LIMIT_def
      le_trans [OF length_filter_le])
  with False have "ts_tasks (replace_with (task_snapshot st)) \<noteq> ts_tasks st" by (auto simp: replace_with_def)
  with False show ?thesis by metis
qed



text \<open>The next identifier is not part of a snapshot. When the last task is deleted before a compaction,
  later calls name other tasks in the replay than they did live: the task that was completed is pending
  again and the one after it is completed.\<close>

lemma replay_after_forgetting_misdirects:
  assumes "calls = [(''TaskCreate'', ''review''), (''TaskCreate'', ''merge''), (''TaskUpdate'', ''finish 3'')]"
    and "live = run_ops (task_step sample_codec) task_store_new (two_tasks @ [(''TaskUpdate'', ''forget 2'')])"
    and "later = map (\<lambda>(name, arguments). item_tool_call ''c'' name arguments) calls"
  shows "map (\<lambda>t. (te_subject t, te_status t)) (ts_tasks (run_ops (task_step sample_codec) live calls)) =
      [(''plan'', TaskPending), (''review'', TaskCompleted), (''merge'', TaskPending)]"
    and "map_option (\<lambda>s. map (\<lambda>t. (te_subject t, te_status t)) (ts_tasks s))
        (store_from_history sample_codec (compaction_task_items sample_codec live @ later)) =
      Some [(''plan'', TaskPending), (''review'', TaskPending), (''merge'', TaskCompleted)]"
proof -
  have live: "live = \<lparr>ts_next_taskid = 3, ts_tasks = [\<lparr>te_taskid = 1, te_status = TaskPending,
      te_subject = ''plan'', te_description = []\<rparr>]\<rparr>"
    by (simp add: assms(2) sample_run)
  then show "map (\<lambda>t. (te_subject t, te_status t)) (ts_tasks (run_ops (task_step sample_codec) live calls)) =
      [(''plan'', TaskPending), (''review'', TaskCompleted), (''merge'', TaskPending)]"
    by (simp add: assms(1) sample_run)
  have "snapshot_codec sample_codec (task_snapshot live)"
    by (simp add: live sample_codec_def Let_def snapshot_codec_def task_snapshot_def snapshot_limited_def
      DEFAULT_TASK_LIST_LIMIT_def end_marker_def utf8_valid_ascii byte_of_def)
  then show "map_option (\<lambda>s. map (\<lambda>t. (te_subject t, te_status t)) (ts_tasks s))
        (store_from_history sample_codec (compaction_task_items sample_codec live @ later)) =
      Some [(''plan'', TaskPending), (''review'', TaskPending), (''merge'', TaskCompleted)]"
    using replay_compaction [of sample_codec live task_store_new]
    by (simp add: store_from_history_def replay_append live is_retained_def assms(1,3) item_tool_call_def
      replay_call_def replace_with_def retained_def task_snapshot_def snapshot_limited_def max_taskid_def
      DEFAULT_TASK_LIST_LIMIT_def sample_codec_def task_create_def task_update_def set_fields_def
      saturating_add_def Let_def)
qed

section \<open>Reminders\<close>

text \<open>What a worker does with the feature: a model request, with or without a place for system items,
  and a tool call, whose hook runs before the tool.\<close>

datatype task_event = TaskRequest bool | TaskCall string string

fun feature_step :: "task_codec \<Rightarrow> task_feature \<Rightarrow> task_event \<Rightarrow> task_feature" where
  "feature_step codec f (TaskRequest has_system_items) = snd (pre_request_hook has_system_items f)"
| "feature_step codec f (TaskCall name arguments) =
     (let f = tool_usage_hook name f in f\<lparr>tf_store := task_step codec (tf_store f) (name, arguments)\<rparr>)"

fun request_count :: "task_event list \<Rightarrow> nat" where
  "request_count [] = 0"
| "request_count (TaskRequest _ # es) = Suc (request_count es)"
| "request_count (TaskCall _ _ # es) = request_count es"

abbreviation since_management :: "task_feature \<Rightarrow> nat" where
  "since_management f \<equiv> unat (rm_since_task_management (tf_reminder f))"

abbreviation since_reminder :: "task_feature \<Rightarrow> nat" where
  "since_reminder f \<equiv> unat (rm_since_reminder (tf_reminder f))"

text \<open>The counters never run ahead of the requests; a wrap only sets them back.\<close>

lemma unat_succ_le: "unat (x + 1) \<le> Suc (unat x)" for x :: u64
  by (simp add: unat_word_ariths)

lemma step_counters:
  "since_management (feature_step codec f e) \<le> since_management f + request_count [e]"
  "since_reminder (feature_step codec f e) \<le> since_reminder f + request_count [e]"
  using unat_succ_le [of "rm_since_task_management (tf_reminder f)"] unat_succ_le [of "rm_since_reminder (tf_reminder f)"]
  by (cases e; simp add: pre_request_hook_def note_request_def note_reminder_def tool_usage_hook_def
      note_task_management_def Let_def)+

lemma request_count_Cons: "request_count (e # es) = request_count [e] + request_count es"
  by (cases e) auto

lemma run_counters:
  "since_management (run_ops (feature_step codec) f es) \<le> since_management f + request_count es"
  "since_reminder (run_ops (feature_step codec) f es) \<le> since_reminder f + request_count es"
proof (induction es arbitrary: f)
  case (Cons e es)
  {
    case 1
    from Cons(1) [of "feature_step codec f e"] step_counters(1) [of codec f e]
    show ?case by (simp add: request_count_Cons [of e es])
  next
    case 2
    from Cons(2) [of "feature_step codec f e"] step_counters(2) [of codec f e]
    show ?case by (simp add: request_count_Cons [of e es])
  }
qed simp_all

lemma reminder_due:
  assumes "fst (pre_request_hook b f) = Some body"
  shows "23 \<le> since_management f \<and> 23 \<le> since_reminder f \<and> ts_tasks (tf_store f) \<noteq> [] \<and>
    body = render_task_reminder_body (ts_tasks (tf_store f)) \<and>
    rm_since_reminder (tf_reminder (snd (pre_request_hook b f))) = 0"
proof -
  have "23 \<le> unat x" if "\<not> saturating_add x 1 < (24 :: u64)" for x
    using that unat_saturating_add [of x 1] by (simp add: word_less_nat_alt)
  with assms show ?thesis
    by (auto simp: pre_request_hook_def note_request_def note_reminder_def Let_def
      TASK_REMINDER_REQUEST_THRESHOLD_def TASK_REMINDER_COOLDOWN_REQUESTS_def split: if_splits)
qed

text \<open>The counters after a number of requests without task management.\<close>

lemma counters_without_management:
  assumes "ts_tasks store \<noteq> []" "n < 2 ^ 64 - 1"
  shows "tf_store (run_ops (feature_step codec) (feature_from_store store) (replicate n (TaskRequest True))) = store \<and>
    since_management (run_ops (feature_step codec) (feature_from_store store) (replicate n (TaskRequest True))) = n \<and>
    since_reminder (run_ops (feature_step codec) (feature_from_store store) (replicate n (TaskRequest True))) =
      (if n < 24 then n + 24 else n mod 24)"
  using assms(2)
proof (induction n)
  case 0
  then show ?case
    by (simp add: feature_from_store_def reminder_state_new_def TASK_REMINDER_COOLDOWN_REQUESTS_def)
next
  case (Suc n)
  let ?f = "run_ops (feature_step codec) (feature_from_store store) (replicate n (TaskRequest True))"
  obtain m r where f: "?f = \<lparr>tf_store = store, tf_reminder = \<lparr>rm_since_task_management = m, rm_since_reminder = r\<rparr>\<rparr>"
    using Suc by (metis Suc_lessD task_feature.surjective task_reminder_state.surjective old.unit.exhaust)
  with Suc have m: "unat m = n" "unat r = (if n < 24 then n + 24 else n mod 24)" by auto
  have r: "unat r + 1 < 2 ^ 64" using m(2) by (simp split: if_splits)
  have mod: "Suc n mod 24 = (if n mod 24 = 23 then 0 else Suc (n mod 24))" by (simp add: mod_Suc)
  have "saturating_add m 1 < 24 \<longleftrightarrow> n < 23" "saturating_add r 1 < 24 \<longleftrightarrow> unat r < 23"
    using Suc.prems m(1) r by (auto simp: word_less_nat_alt unat_saturating_add)
  moreover have "unat (m + 1) = Suc n" "unat (r + 1) = Suc (unat r)"
    using Suc.prems m(1) r by (simp_all add: unat_word_ariths)
  moreover have "replicate (Suc n) (TaskRequest True) = replicate n (TaskRequest True) @ [TaskRequest True]"
    by (simp add: replicate_append_same)
  ultimately show ?case
    using assms(1) m(2) mod
    by (simp add: f pre_request_hook_def note_request_def note_reminder_def Let_def
      TASK_REMINDER_REQUEST_THRESHOLD_def TASK_REMINDER_COOLDOWN_REQUESTS_def split: if_splits del: replicate_Suc)
qed


text \<open>Without task management a worker with tasks is reminded with every twenty-fourth request.\<close>

theorem reminders_periodic:
  assumes "ts_tasks store \<noteq> []" "n < 2 ^ 64 - 1"
  shows "fst (pre_request_hook True (run_ops (feature_step codec) (feature_from_store store)
      (replicate n (TaskRequest True)))) \<noteq> None \<longleftrightarrow> 24 dvd Suc n"
proof -
  let ?f = "run_ops (feature_step codec) (feature_from_store store) (replicate n (TaskRequest True))"
  note counters = counters_without_management [OF assms, of codec]
  have "saturating_add (rm_since_task_management (tf_reminder ?f)) 1 < 24 \<longleftrightarrow> n < 23"
    "saturating_add (rm_since_reminder (tf_reminder ?f)) 1 < 24 \<longleftrightarrow> \<not> (n < 24 \<or> n mod 24 = 23)"
    using counters assms(2) mod_less_divisor [of 24 n] by (auto simp: word_less_nat_alt unat_saturating_add)
  moreover have "24 dvd Suc n \<longleftrightarrow> n mod 24 = 23" by (simp add: dvd_eq_mod_eq_0 mod_Suc)
  moreover have "n < 24 \<Longrightarrow> n mod 24 = n" by simp
  ultimately show ?thesis
    using counters assms(1)
    by (auto simp: pre_request_hook_def note_request_def Let_def TASK_REMINDER_REQUEST_THRESHOLD_def
      TASK_REMINDER_COOLDOWN_REQUESTS_def)
qed

text \<open>
  C28. Reminders are spaced. A reminder lists the current tasks, of which there is at least one. It comes
  no earlier than with the twenty-fourth request of the feature, after the last call of TaskCreate or
  TaskUpdate, and after the last reminder; the counters may wrap.
\<close>

theorem reminders_spaced:
  assumes "fst (pre_request_hook b (run_ops (feature_step codec) (feature_from_store store) es)) = Some body"
  shows "body = render_task_reminder_body (ts_tasks (tf_store (run_ops (feature_step codec) (feature_from_store store) es))) \<and>
    ts_tasks (tf_store (run_ops (feature_step codec) (feature_from_store store) es)) \<noteq> [] \<and>
    23 \<le> request_count es \<and>
    (\<forall>before name arguments after. es = before @ TaskCall name arguments # after \<longrightarrow>
       is_task_management_tool name \<longrightarrow> 23 \<le> request_count after) \<and>
    (\<forall>before b' after body'. es = before @ TaskRequest b' # after \<longrightarrow>
       fst (pre_request_hook b' (run_ops (feature_step codec) (feature_from_store store) before)) = Some body' \<longrightarrow>
       23 \<le> request_count after)"
proof -
  let ?run = "run_ops (feature_step codec) (feature_from_store store)"
  note due = reminder_due [OF assms]
  have "23 \<le> request_count es"
    using due run_counters(1) [of codec "feature_from_store store" es]
    by (simp add: feature_from_store_def reminder_state_new_def)
  moreover have "23 \<le> request_count after"
    if "es = before @ TaskCall name arguments # after" "is_task_management_tool name" for before name arguments after
    using due that(2) run_counters(1) [of codec "feature_step codec (?run before) (TaskCall name arguments)" after]
    by (simp add: that(1) tool_usage_hook_def note_task_management_def Let_def)
  moreover have "23 \<le> request_count after"
    if "es = before @ TaskRequest b' # after" "fst (pre_request_hook b' (?run before)) = Some body'"
    for before b' after body'
    using due reminder_due [OF that(2)]
      run_counters(2) [of codec "feature_step codec (?run before) (TaskRequest b')" after]
    by (simp add: that(1))
  ultimately show ?thesis using due by blast
qed

theorem reminders_spaced_witness:
  "\<exists>body. fst (pre_request_hook True (run_ops (feature_step sample_codec)
       (feature_from_store (snd (task_create ''plan'' [] task_store_new))) (replicate 23 (TaskRequest True)))) = Some body \<and>
     23 \<le> request_count (replicate 23 (TaskRequest True))"
proof -
  let ?store = "snd (task_create ''plan'' [] task_store_new)"
  have "ts_tasks ?store \<noteq> []" by (simp add: task_create_def Let_def)
  from reminders_periodic [OF this, of 23 sample_codec] obtain body where
    "fst (pre_request_hook True (run_ops (feature_step sample_codec) (feature_from_store ?store)
      (replicate 23 (TaskRequest True)))) = Some body" by auto
  with reminders_spaced [OF this] show ?thesis by blast
qed

end
